(* ===== verification/Prelude.thy ===== *)
theory Prelude
  imports Main "HOL-Library.Word" "HOL-Library.List_Lexorder" "HOL-Library.AList"
    "HOL-Library.Code_Target_Nat" "HOL-Library.Multiset"
begin

text \<open>
  Shared vocabulary of the development: Python text, bytes and dictionaries, the exceptions
  the modelled code raises, and the generic list and string lemmas the components share.

  A Python \<open>str\<close> is a list of Unicode code points (\<open>pystr\<close>), compared lexicographically by
  code point as Python does (the order of \<open>HOL-Library.List_Lexorder\<close>).  A \<open>bytes\<close> value is a
  list of octets.  A dictionary is an association list in insertion order; assignment to a key
  is \<^const>\<open>AList.update\<close>, which keeps the position of a key already present, as Python does.
  A raised exception is the left side of a sum.
\<close>

section \<open>Collections and hints\<close>

named_theorems str_simps \<open>evaluation of the string operations on literals\<close>
named_theorems result_simps \<open>inversion of results of fallible operations\<close>

section \<open>Text, bytes and literals\<close>

type_synonym pystr = "nat list"
type_synonym bytes = "8 word list"

definition lit :: "string \<Rightarrow> pystr" where
  "lit s = map of_char s"

lemma lit_Nil [simp]: "lit [] = []"
  by (simp add: lit_def)

lemma lit_Cons [str_simps]: "lit (c # s) = of_char c # lit s"
  by (simp add: lit_def)

lemma lit_append: "lit (s @ t) = lit s @ lit t"
  by (simp add: lit_def)

lemma length_lit [simp]: "length (lit s) = length s"
  by (simp add: lit_def)

lemma inj_lit: "lit s = lit t \<Longrightarrow> s = t"
  by (simp add: lit_def inj_map_eq_map inj_def)

text \<open>The code points the path policy names.\<close>

abbreviation slash :: nat where "slash \<equiv> 47"
abbreviation dot :: nat where "dot \<equiv> 46"
abbreviation colon :: nat where "colon \<equiv> 58"
abbreviation backslash :: nat where "backslash \<equiv> 92"

section \<open>Exceptions\<close>

text \<open>
  One constructor per exception class the modelled code raises or lets through.  A code is kept
  wherever the source branches on it; message texts are not modelled, they are display strings.
\<close>

datatype reason =
    Reason string
  | ReasonText string pystr
  | ReasonIndex string nat
  | ReasonMissing string nat "string list"
  | ReasonUnexpected string nat "pystr list"
  | ReasonId string int

datatype py_error =
    UnsafePath pystr string
  | LimitExceeded pystr string
  | RevisionCorrupt "reason list"
  | StorageError
  | StorageConfigurationError
  | ActivationError
  | ProjectVanished
  | RevisionVanished
  | ImproperlyConfigured
  | ValidationStateError
  | ScriptMetadataError string
  | DiscoveryError string
  | ScriptResolutionError string
  | LocalCacheCorrupt "reason list"
  | LocalCacheError
  | ValidationError "string list"
  | PermissionsViolation
  | AbortRequest
  | UnicodeEncodeError
  | FileNotFound
  | BackendOther
  | NotSupported
  | OSErrorOther
  | ValueError
  | TypeError
  | IntegrityError
  | DatabaseError
  | DoesNotExist
  | AttributeError
  | RuntimeError
  | ScriptFileImportError
  | ControlException pystr

text \<open>The classes rooted at \<open>StorageError\<close> in storage/exceptions.py and runtime/exceptions.py.\<close>

fun is_storage_error :: "py_error \<Rightarrow> bool" where
  "is_storage_error (UnsafePath _ _) = True"
| "is_storage_error (LimitExceeded _ _) = True"
| "is_storage_error (RevisionCorrupt _) = True"
| "is_storage_error StorageError = True"
| "is_storage_error StorageConfigurationError = True"
| "is_storage_error ActivationError = True"
| "is_storage_error ProjectVanished = True"
| "is_storage_error RevisionVanished = True"
| "is_storage_error (LocalCacheCorrupt _) = True"
| "is_storage_error LocalCacheError = True"
| "is_storage_error _ = False"

text \<open>Python's \<open>OSError\<close> family as far as the backends raise it.\<close>

fun is_os_error :: "py_error \<Rightarrow> bool" where
  "is_os_error FileNotFound = True"
| "is_os_error OSErrorOther = True"
| "is_os_error _ = False"

type_synonym 'a result = "py_error + 'a"

fun rbind :: "'a result \<Rightarrow> ('a \<Rightarrow> 'b result) \<Rightarrow> 'b result" where
  "rbind (Inl e) f = Inl e"
| "rbind (Inr x) f = f x"

lemma rbind_Inr_iff [result_simps]: "rbind r f = Inr y \<longleftrightarrow> (\<exists>x. r = Inr x \<and> f x = Inr y)"
  by (cases r) auto

lemma rbind_Inl_iff [result_simps]:
  "rbind r f = Inl e \<longleftrightarrow> r = Inl e \<or> (\<exists>x. r = Inr x \<and> f x = Inl e)"
  by (cases r) auto

fun is_ok :: "'a result \<Rightarrow> bool" where
  "is_ok (Inr _) = True"
| "is_ok (Inl _) = False"

lemma is_ok_iff: "is_ok r \<longleftrightarrow> (\<exists>x. r = Inr x)"
  by (cases r) auto

lemma find_SomeD: "List.find P xs = Some x \<Longrightarrow> x \<in> set xs \<and> P x"
  by (auto simp: find_Some_iff)

lemma sort_key_map: "sort_key f (map g xs) = map g (sort_key (\<lambda>x. f (g x)) xs)"
proof -
  have ins: "insort_key f (g x) (map g ys) = map g (insort_key (\<lambda>x. f (g x)) x ys)" for x ys
    by (induction ys) auto
  show ?thesis by (induction xs) (simp_all add: ins)
qed

lemma sort_key_unique:
  assumes "mset ys = mset xs" "distinct (map f xs)" "sorted (map f xs)"
  shows "sort_key f ys = xs"
proof (rule properties_for_sort_key)
  show "mset xs = mset ys" using assms(1) by simp
  show "sorted (map f xs)" by (rule assms(3))
next
  fix k assume k: "k \<in> set xs"
  have one: "filter (\<lambda>x. f k = f x) zs = [k]" if "distinct (map f zs)" "k \<in> set zs" for zs
    using that by (induction zs) (auto simp: filter_empty_conv image_iff)
  have "distinct (map f ys)"
    using assms(1,2) mset_eq_imp_distinct_iff [of "map f ys" "map f xs"] by simp
  moreover have "k \<in> set ys" using k assms(1) mset_eq_setD by blast
  ultimately show "filter (\<lambda>x. f k = f x) xs = filter (\<lambda>x. f k = f x) ys"
    using one k assms(2) by simp
qed

lemma sort_key_eq_Nil [simp]: "sort_key f xs = [] \<longleftrightarrow> xs = []"
  by (metis length_0_conv length_sort)

section \<open>Python string operations\<close>

fun split_on :: "'a \<Rightarrow> 'a list \<Rightarrow> 'a list list" where
  "split_on c [] = [[]]"
| "split_on c (x # xs) =
     (if x = c then [] # split_on c xs
      else (case split_on c xs of [] \<Rightarrow> [[x]] | s # ss \<Rightarrow> (x # s) # ss))"

fun join_on :: "'a \<Rightarrow> 'a list list \<Rightarrow> 'a list" where
  "join_on c [] = []"
| "join_on c [s] = s"
| "join_on c (s # t # ss) = s @ c # join_on c (t # ss)"

definition startswith :: "'a list \<Rightarrow> 'a list \<Rightarrow> bool" where
  "startswith s p \<longleftrightarrow> take (length p) s = p"

definition endswith :: "'a list \<Rightarrow> 'a list \<Rightarrow> bool" where
  "endswith s p \<longleftrightarrow> length p \<le> length s \<and> drop (length s - length p) s = p"

lemma split_on_not_Nil [simp]: "split_on c s \<noteq> []"
  by (cases s) (auto split: list.splits)

lemma split_on_free: "seg \<in> set (split_on c s) \<Longrightarrow> c \<notin> set seg"
  by (induction s arbitrary: seg) (auto split: if_splits list.splits)

lemma join_on_Cons: "ss \<noteq> [] \<Longrightarrow> join_on c (s # ss) = s @ c # join_on c ss"
  by (cases ss) auto

lemma join_split [simp]: "join_on c (split_on c s) = s"
proof (induction s)
  case Nil
  then show ?case by simp
next
  case (Cons x xs)
  then show ?case
    by (cases "split_on c xs"; cases "tl (split_on c xs)") (auto simp: join_on_Cons)
qed

lemma split_on_no_sep: "c \<notin> set s \<Longrightarrow> split_on c s = [s]"
  by (induction s) auto

lemma split_on_append_sep:
  "c \<notin> set s \<Longrightarrow> split_on c (s @ c # t) = s # split_on c t"
  by (induction s) auto

lemma split_on_append: "split_on c (s @ c # t) = split_on c s @ split_on c t"
proof (induction s)
  case (Cons x s)
  then show ?case by (cases "split_on c s") auto
qed simp

lemma split_join: "ss \<noteq> [] \<Longrightarrow> \<forall>s \<in> set ss. c \<notin> set s \<Longrightarrow> split_on c (join_on c ss) = ss"
proof (induction c ss rule: join_on.induct)
  case (3 c s t ss)
  then show ?case by (simp add: split_on_append_sep)
qed (simp_all add: split_on_no_sep)

lemma join_on_inject:
  assumes "join_on c ss = join_on c ts" and "ss \<noteq> []" and "ts \<noteq> []"
    and "\<forall>s \<in> set ss. c \<notin> set s" and "\<forall>s \<in> set ts. c \<notin> set s"
  shows "ss = ts"
  using assms by (metis split_join)

lemma set_join_on: "set (join_on c ss) \<subseteq> insert c (\<Union> (set ` set ss))"
  by (induction c ss rule: join_on.induct) auto

lemma segment_subset: "seg \<in> set (split_on c s) \<Longrightarrow> set seg \<subseteq> set s"
proof (induction s arbitrary: seg)
  case (Cons x xs)
  then show ?case by (cases "split_on c xs") (auto split: if_splits, blast+)
qed simp

lemma join_on_append:
  "ss \<noteq> [] \<Longrightarrow> ts \<noteq> [] \<Longrightarrow> join_on c (ss @ ts) = join_on c ss @ c # join_on c ts"
proof (induction ss)
  case (Cons s ss)
  then show ?case by (cases ss) (simp_all add: join_on_Cons)
qed simp

lemma join_on_eq_Nil: "join_on c ss = [] \<longleftrightarrow> ss = [] \<or> ss = [[]]"
  by (induction c ss rule: join_on.induct) auto

lemma startswith_append [simp]: "startswith (p @ s) p"
  by (simp add: startswith_def)

lemma startswith_iff: "startswith s p \<longleftrightarrow> (\<exists>t. s = p @ t)"
  unfolding startswith_def by (metis append_eq_conv_conj append_take_drop_id)

lemma endswith_iff: "endswith s p \<longleftrightarrow> (\<exists>t. s = t @ p)"
proof
  assume "endswith s p"
  then have "s = take (length s - length p) s @ p"
    unfolding endswith_def by (metis append_take_drop_id)
  then show "\<exists>t. s = t @ p" ..
qed (auto simp: endswith_def)

section \<open>Whitespace\<close>

text \<open>
  The code points for which \<open>str.isspace\<close> holds, which are the ones \<open>str.strip\<close> removes.
\<close>

definition py_isspace :: "nat \<Rightarrow> bool" where
  "py_isspace c \<longleftrightarrow>
     (9 \<le> c \<and> c \<le> 13) \<or> (28 \<le> c \<and> c \<le> 32) \<or> c = 133 \<or> c = 160 \<or> c = 5760 \<or>
     (8192 \<le> c \<and> c \<le> 8202) \<or> c = 8232 \<or> c = 8233 \<or> c = 8239 \<or> c = 8287 \<or> c = 12288"

definition strip :: "pystr \<Rightarrow> pystr" where
  "strip s = rev (dropWhile py_isspace (rev (dropWhile py_isspace s)))"

lemma dropWhile_id_iff: "dropWhile P s = s \<longleftrightarrow> s = [] \<or> \<not> P (hd s)"
proof (cases s)
  case (Cons x xs)
  have "length (dropWhile P xs) \<le> length xs" by (rule length_dropWhile_le)
  then have "dropWhile P xs \<noteq> x # xs" by auto
  with Cons show ?thesis by simp
qed simp

lemma strip_id_iff: "strip s = s \<longleftrightarrow> s = [] \<or> (\<not> py_isspace (hd s) \<and> \<not> py_isspace (last s))"
proof -
  have len: "length (strip s) \<le> length (dropWhile py_isspace s)"
    using length_dropWhile_le [of py_isspace "rev (dropWhile py_isspace s)"]
    by (simp add: strip_def)
  show ?thesis
  proof (cases "dropWhile py_isspace s = s")
    case True
    then have "strip s = s \<longleftrightarrow> dropWhile py_isspace (rev s) = rev s"
      by (simp add: strip_def rev_swap)
    with True show ?thesis by (auto simp: dropWhile_id_iff hd_rev)
  next
    case False
    then have "takeWhile py_isspace s \<noteq> []"
      by (metis append_Nil takeWhile_dropWhile_id)
    moreover have "length s = length (takeWhile py_isspace s) + length (dropWhile py_isspace s)"
      by (metis length_append takeWhile_dropWhile_id)
    ultimately have "strip s \<noteq> s" using len by (cases "takeWhile py_isspace s") auto
    with False show ?thesis by (auto simp: dropWhile_id_iff)
  qed
qed

section \<open>UTF-8\<close>

definition is_surrogate :: "nat \<Rightarrow> bool" where
  "is_surrogate c \<longleftrightarrow> 55296 \<le> c \<and> c \<le> 57343"

definition utf8_char :: "nat \<Rightarrow> bytes" where
  "utf8_char c =
     (if c < 128 then [of_nat c]
      else if c < 2048 then [of_nat (192 + c div 64), of_nat (128 + c mod 64)]
      else if c < 65536 then
        [of_nat (224 + c div 4096), of_nat (128 + c div 64 mod 64), of_nat (128 + c mod 64)]
      else
        [of_nat (240 + c div 262144), of_nat (128 + c div 4096 mod 64),
         of_nat (128 + c div 64 mod 64), of_nat (128 + c mod 64)])"

text \<open>\<open>str.encode('utf-8')\<close> raises UnicodeEncodeError on a lone surrogate.\<close>

definition utf8_encode :: "pystr \<Rightarrow> bytes result" where
  "utf8_encode s = (if \<exists>c \<in> set s. is_surrogate c then Inl UnicodeEncodeError
                    else Inr (concat (map utf8_char s)))"

lemma utf8_encode_Inr [result_simps]:
  "utf8_encode s = Inr b \<longleftrightarrow> (\<forall>c \<in> set s. \<not> is_surrogate c) \<and> b = concat (map utf8_char s)"
  by (auto simp: utf8_encode_def)

lemma utf8_encode_Inl [result_simps]:
  "utf8_encode s = Inl e \<longleftrightarrow> (\<exists>c \<in> set s. is_surrogate c) \<and> e = UnicodeEncodeError"
  by (auto simp: utf8_encode_def)

lemma utf8_char_length: "1 \<le> length (utf8_char c)"
  by (simp add: utf8_char_def)

lemma length_utf8: "length s \<le> length (concat (map utf8_char s))"
proof (induction s)
  case (Cons c s)
  then show ?case using utf8_char_length [of c] by simp
qed simp

lemma utf8_ascii: "\<forall>c \<in> set s. c < 128 \<Longrightarrow> concat (map utf8_char s) = map of_nat s"
  by (induction s) (auto simp: utf8_char_def)

section \<open>The parts of Python's library that are data tables\<close>

text \<open>
  Unicode normalization, case mapping and identifier classes are tables of the Unicode Character
  Database, SHA-256 is C code of hashlib, and \<open>uuid.UUID\<close> parses more spellings than the
  canonical one.  They are the fields of one record the definitions take as an argument.
\<close>

record python =
  nfc :: "pystr \<Rightarrow> pystr"
  lower :: "pystr \<Rightarrow> pystr"
  isidentifier :: "pystr \<Rightarrow> bool"
  sha256 :: "bytes \<Rightarrow> pystr"
  uuid_parse :: "pystr \<Rightarrow> 128 word option"

text \<open>
  What the Unicode Standard says of the path separator U+002F: it is inert under normalization
  (it neither composes nor reorders with a neighbour) and a word boundary for case mapping, so
  both work piecewise around it, and no other character maps to it.  Normalizing is idempotent
  (Unicode Standard Annex 15).
\<close>

definition slashwise :: "(pystr \<Rightarrow> pystr) \<Rightarrow> bool" where
  "slashwise f \<longleftrightarrow> (\<forall>s t. f (s @ slash # t) = f s @ slash # f t) \<and>
     (\<forall>s. slash \<notin> set s \<longrightarrow> slash \<notin> set (f s))"

definition nfc_laws :: "python \<Rightarrow> bool" where
  "nfc_laws E \<longleftrightarrow> (\<forall>s. nfc E (nfc E s) = nfc E s) \<and> slashwise (nfc E)"

definition lower_laws :: "python \<Rightarrow> bool" where
  "lower_laws E \<longleftrightarrow> slashwise (lower E)"

lemma slashwise_join:
  assumes "slashwise f" and "ss \<noteq> []"
  shows "f (join_on slash ss) = join_on slash (map f ss)"
  using assms(2)
proof (induction ss)
  case (Cons s ss)
  then show ?case using assms(1) by (cases ss) (simp_all add: slashwise_def)
qed simp

lemma slashwise_split:
  assumes "slashwise f"
  shows "split_on slash (f s) = map f (split_on slash s)"
proof -
  have "f s = join_on slash (map f (split_on slash s))"
    using slashwise_join [OF assms, of "split_on slash s"] by simp
  moreover have "\<forall>t \<in> set (map f (split_on slash s)). slash \<notin> set t"
    using assms split_on_free by (fastforce simp: slashwise_def)
  ultimately show ?thesis by (simp add: split_join)
qed

lemma map_fixes_elem: "map f xs = xs \<Longrightarrow> x \<in> set xs \<Longrightarrow> f x = x"
  by (induction xs) auto

lemma nfc_segment:
  assumes "nfc_laws E" and "nfc E n = n" and "seg \<in> set (split_on slash n)"
  shows "nfc E seg = seg"
proof -
  have "map (nfc E) (split_on slash n) = split_on slash n"
    using slashwise_split [of "nfc E" n] assms(1,2) by (simp add: nfc_laws_def)
  then show ?thesis using assms(3) by (rule map_fixes_elem)
qed

text \<open>An instance on which every field computes: the tables restricted to ASCII.\<close>

definition ascii_lower :: "pystr \<Rightarrow> pystr" where
  "ascii_lower s = map (\<lambda>c. if 65 \<le> c \<and> c \<le> 90 then c + 32 else c) s"

definition ascii_identifier :: "pystr \<Rightarrow> bool" where
  "ascii_identifier s \<longleftrightarrow> s \<noteq> [] \<and>
     list_all (\<lambda>c. (65 \<le> c \<and> c \<le> 90) \<or> (97 \<le> c \<and> c \<le> 122) \<or> c = 95 \<or> (48 \<le> c \<and> c \<le> 57)) s \<and>
     \<not> (48 \<le> hd s \<and> hd s \<le> 57)"

definition ascii_python :: python where
  "ascii_python = \<lparr>nfc = (\<lambda>s. s), lower = ascii_lower, isidentifier = ascii_identifier,
     sha256 = (\<lambda>b. replicate 63 48 @ [if length b mod 2 = 0 then 48 else 49]),
     uuid_parse = (\<lambda>s. if s = [] then None else Some (of_nat (length s)))\<rparr>"

lemma ascii_python_simps [simp]:
  "nfc ascii_python s = s" "lower ascii_python = ascii_lower"
  "isidentifier ascii_python = ascii_identifier"
  by (simp_all add: ascii_python_def)

lemma ascii_nfc_laws [simp]: "nfc_laws ascii_python"
  by (simp add: nfc_laws_def slashwise_def)

lemma ascii_lower_laws [simp]: "lower_laws ascii_python"
  by (auto simp: lower_laws_def slashwise_def ascii_lower_def)

section \<open>Dictionaries\<close>

text \<open>A dictionary comprehension keyed by a function of the element: the last writer wins.\<close>

definition dict_by :: "('a \<Rightarrow> 'k) \<Rightarrow> 'a list \<Rightarrow> ('k \<times> 'a) list" where
  "dict_by f xs = fold (\<lambda>x d. AList.update (f x) x d) xs []"

lemma fold_update_key_distinct:
  "distinct (map fst d) \<Longrightarrow> distinct (map fst (fold (\<lambda>x d. AList.update (f x) (g x) d) xs d))"
  by (induction xs arbitrary: d) (auto simp: distinct_update)

lemma fold_update_key_Some:
  "map_of (fold (\<lambda>x d. AList.update (f x) x d) xs d) k = Some v \<Longrightarrow>
     (v \<in> set xs \<and> f v = k) \<or> map_of d k = Some v"
  by (induction xs arbitrary: d) (fastforce simp: update_conv' split: if_splits)+

lemma fold_update_key_dom:
  "x \<in> set xs \<or> (\<exists>v. map_of d (f x) = Some v) \<Longrightarrow>
     \<exists>v. map_of (fold (\<lambda>x d. AList.update (f x) x d) xs d) (f x) = Some v"
proof (induction xs arbitrary: d)
  case (Cons y ys)
  show ?case
  proof (cases "x \<in> set ys")
    case True
    then show ?thesis using Cons.IH by simp
  next
    case False
    with Cons.prems have "\<exists>v. map_of (AList.update (f y) y d) (f x) = Some v"
      by (auto simp: update_conv')
    then show ?thesis using Cons.IH by simp
  qed
qed simp

lemma dict_by_distinct: "distinct (map fst (dict_by f xs))"
  by (simp add: dict_by_def fold_update_key_distinct)

lemma dict_by_sound: "(k, v) \<in> set (dict_by f xs) \<Longrightarrow> v \<in> set xs \<and> f v = k"
  using fold_update_key_Some [of f xs "[]" k v] fold_update_key_distinct [of "[]" f "\<lambda>x. x" xs]
  by (simp add: dict_by_def)

lemma dict_by_complete:
  assumes "x \<in> set xs" and "inj_on f (set xs)"
  shows "(f x, x) \<in> set (dict_by f xs)"
proof -
  obtain v where v: "map_of (dict_by f xs) (f x) = Some v"
    using fold_update_key_dom [of x xs "[]" f] assms(1) unfolding dict_by_def by blast
  then have "(f x, v) \<in> set (dict_by f xs)" by (rule map_of_SomeD)
  moreover from this have "v = x" using dict_by_sound assms inj_onD by fastforce
  ultimately show ?thesis by simp
qed

end
