(* ===== verification/Paths.thy ===== *)
theory Paths
  imports Prelude
begin

text \<open>
  storage/paths.py: the canonical form of a source path, letter-case collisions between the
  nodes of a source tree, and the storage keys built from a project's storage key, a revision's
  digest and a canonical path.
\<close>

section \<open>Definitions\<close>

definition MAX_PATH_COMPONENT_BYTES :: nat where "MAX_PATH_COMPONENT_BYTES = 255"
definition MAX_PATH_BYTES :: nat where "MAX_PATH_BYTES = 768"
definition MAX_PATH_DEPTH :: nat where "MAX_PATH_DEPTH = 64"

definition COMPILED_SUFFIXES :: "pystr list" where
  "COMPILED_SUFFIXES = [lit ''.pyc'', lit ''.pyo'']"

definition BYTECODE_DIRECTORY :: pystr where
  "BYTECODE_DIRECTORY = lit ''__pycache__''"

definition STORAGE_PREFIX :: pystr where
  "STORAGE_PREFIX = lit ''netbox-scripts''"

text \<open>
  \<open>PureWindowsPath(s).drive\<close>, for the texts that reach it: no backslash, no leading slash.
  What is left of ntpath's rule is a colon in second position.
\<close>

definition windows_drive :: "pystr \<Rightarrow> pystr" where
  "windows_drive s = (case s of a # b # _ \<Rightarrow> if b = colon then [a, b] else [] | _ \<Rightarrow> [])"

definition path_segments :: "pystr \<Rightarrow> pystr list" where
  "path_segments s = filter (\<lambda>seg. seg \<notin> {[], [dot]}) (split_on slash s)"

definition is_compiled :: "pystr list \<Rightarrow> bool" where
  "is_compiled folded \<longleftrightarrow>
     list_ex (\<lambda>suffix. endswith (last folded) suffix) COMPILED_SUFFIXES \<or>
     BYTECODE_DIRECTORY \<in> set folded"

fun check_components :: "pystr \<Rightarrow> pystr list \<Rightarrow> unit result" where
  "check_components path [] = Inr ()"
| "check_components path (seg # segs) =
     rbind (utf8_encode seg) (\<lambda>b.
       if length b > MAX_PATH_COMPONENT_BYTES
       then Inl (UnsafePath path ''path_component_too_long'')
       else check_components path segs)"

definition normalize_source_path :: "python \<Rightarrow> pystr \<Rightarrow> pystr result" where
  "normalize_source_path E path =
     (let normalized = nfc E path;
          segments = path_segments normalized;
          canonical = join_on slash segments
      in if normalized \<noteq> strip normalized then Inl (UnsafePath path ''path_traversal'')
         else if backslash \<in> set normalized then Inl (UnsafePath path ''path_traversal'')
         else if \<exists>c \<in> set normalized. c < 32 \<or> c = 127 then Inl (UnsafePath path ''path_traversal'')
         else if startswith normalized [slash] \<or> windows_drive normalized \<noteq> []
           then Inl (UnsafePath path ''absolute_path'')
         else if endswith normalized [slash] then Inl (UnsafePath path ''path_traversal'')
         else if [dot, dot] \<in> set segments then Inl (UnsafePath path ''path_traversal'')
         else if segments = [] then Inl (UnsafePath path ''path_traversal'')
         else if is_compiled (map (lower E) segments) then Inl (UnsafePath path ''compiled_artifact'')
         else rbind (check_components path segments) (\<lambda>_.
           rbind (utf8_encode canonical) (\<lambda>b.
             if length b > MAX_PATH_BYTES then Inl (UnsafePath path ''path_too_long'')
             else if length segments > MAX_PATH_DEPTH then Inl (UnsafePath path ''path_too_deep'')
             else Inr canonical)))"

definition path_nodes :: "pystr \<Rightarrow> pystr list" where
  "path_nodes path =
     (let segments = split_on slash path
      in map (\<lambda>index. join_on slash (take index segments)) [1..<length segments + 1])"

definition case_insensitive_nodes :: "python \<Rightarrow> pystr \<Rightarrow> (pystr \<times> pystr) list" where
  "case_insensitive_nodes E path = dict_by (lower E) (path_nodes path)"

definition add_name :: "pystr \<times> pystr \<Rightarrow> (pystr \<times> pystr list) list \<Rightarrow> (pystr \<times> pystr list) list" where
  "add_name fn d = AList.update (fst fn)
     (List.insert (snd fn) (case map_of d (fst fn) of None \<Rightarrow> [] | Some names \<Rightarrow> names)) d"

definition names_by_form :: "python \<Rightarrow> pystr list \<Rightarrow> (pystr \<times> pystr list) list" where
  "names_by_form E paths = fold add_name (concat (map (case_insensitive_nodes E) paths)) []"

definition names_of :: "(pystr \<times> pystr list) list \<Rightarrow> pystr \<Rightarrow> pystr list" where
  "names_of d form = (case map_of d form of None \<Rightarrow> [] | Some names \<Rightarrow> names)"

definition first_collision ::
    "(pystr \<times> pystr list) list \<Rightarrow> (pystr \<times> pystr) list \<Rightarrow> (pystr \<times> pystr) option" where
  "first_collision names nodes =
     (case List.find (\<lambda>fn. length (names_of names (fst fn)) > 1) nodes of
        None \<Rightarrow> None
      | Some fn \<Rightarrow> Some (snd fn, Min (set (filter (\<lambda>name. name \<noteq> snd fn) (names_of names (fst fn))))))"

definition case_insensitive_collisions ::
    "python \<Rightarrow> pystr list \<Rightarrow> (pystr \<times> (pystr \<times> pystr)) list" where
  "case_insensitive_collisions E paths0 =
     (let paths = sort paths0;
          names = names_by_form E paths
      in fold (\<lambda>path rejected.
             case first_collision names (case_insensitive_nodes E path) of
               None \<Rightarrow> rejected
             | Some pair \<Rightarrow> AList.update path pair rejected) paths [])"

definition hexdigit :: "nat \<Rightarrow> nat" where
  "hexdigit n = (if n < 10 then 48 + n else 87 + n)"

fun hex_fixed :: "nat \<Rightarrow> nat \<Rightarrow> pystr" where
  "hex_fixed 0 v = []"
| "hex_fixed (Suc k) v = hex_fixed k (v div 16) @ [hexdigit (v mod 16)]"

text \<open>\<open>str(uuid.UUID)\<close>: 32 lower-case hex digits grouped 8-4-4-4-12.\<close>

definition uuid_str :: "128 word \<Rightarrow> pystr" where
  "uuid_str w =
     (let h = hex_fixed 32 (unat w)
      in take 8 h @ 45 # take 4 (drop 8 h) @ 45 # take 4 (drop 12 h) @ 45 #
         take 4 (drop 16 h) @ 45 # drop 20 h)"

definition storage_key_component :: "python \<Rightarrow> pystr \<Rightarrow> pystr result" where
  "storage_key_component E storage_key =
     (case uuid_parse E storage_key of
        None \<Rightarrow> Inl (UnsafePath storage_key ''escapes_root'')
      | Some w \<Rightarrow> Inr (uuid_str w))"

definition is_hex_digest :: "pystr \<Rightarrow> bool" where
  "is_hex_digest s \<longleftrightarrow> length s = 64 \<and>
     list_all (\<lambda>c. (48 \<le> c \<and> c \<le> 57) \<or> (97 \<le> c \<and> c \<le> 102)) s"

text \<open>The digest argument is a string or None (a revision's nullable column).\<close>

definition digest_component :: "pystr option \<Rightarrow> pystr result" where
  "digest_component digest =
     (case digest of
        None \<Rightarrow> Inl (UnsafePath (lit ''None'') ''escapes_root'')
      | Some d \<Rightarrow> if is_hex_digest d then Inr d else Inl (UnsafePath d ''escapes_root''))"

definition project_prefix :: "python \<Rightarrow> pystr \<Rightarrow> pystr result" where
  "project_prefix E storage_key =
     rbind (storage_key_component E storage_key) (\<lambda>k. Inr (STORAGE_PREFIX @ [slash] @ k @ [slash]))"

definition revision_prefix :: "python \<Rightarrow> pystr \<Rightarrow> pystr option \<Rightarrow> pystr result" where
  "revision_prefix E storage_key digest =
     rbind (project_prefix E storage_key) (\<lambda>p.
       rbind (digest_component digest) (\<lambda>d. Inr (p @ lit ''revisions/'' @ d @ [slash])))"

definition revision_key :: "python \<Rightarrow> pystr \<Rightarrow> pystr option \<Rightarrow> pystr \<Rightarrow> pystr result" where
  "revision_key E storage_key digest path =
     rbind (revision_prefix E storage_key digest) (\<lambda>p.
       rbind (normalize_source_path E path) (\<lambda>c. Inr (p @ c)))"

section \<open>Canonical paths\<close>

text \<open>
  What a canonical path is, independently of how it was computed: the path policy as a predicate
  on the stored name.
\<close>

definition safe_path :: "python \<Rightarrow> pystr \<Rightarrow> bool" where
  "safe_path E c \<longleftrightarrow>
     list_all (\<lambda>seg. seg \<noteq> [] \<and> seg \<noteq> [dot] \<and> seg \<noteq> [dot, dot]) (split_on slash c) \<and>
     list_all (\<lambda>x. x \<noteq> backslash \<and> 32 \<le> x \<and> x \<noteq> 127 \<and> \<not> is_surrogate x) c \<and>
     \<not> is_compiled (map (lower E) (split_on slash c)) \<and>
     list_all (\<lambda>seg. length (concat (map utf8_char seg)) \<le> MAX_PATH_COMPONENT_BYTES)
       (split_on slash c) \<and>
     length (concat (map utf8_char c)) \<le> MAX_PATH_BYTES \<and>
     length (split_on slash c) \<le> MAX_PATH_DEPTH"

lemma check_components_Inr [result_simps]:
  "check_components path segs = Inr u \<longleftrightarrow>
     (\<forall>seg \<in> set segs. (\<forall>x \<in> set seg. \<not> is_surrogate x) \<and>
        length (concat (map utf8_char seg)) \<le> MAX_PATH_COMPONENT_BYTES)"
  by (induction segs) (auto simp: result_simps split: if_splits)

lemma path_segments_free: "seg \<in> set (path_segments s) \<Longrightarrow> slash \<notin> set seg"
  by (auto simp: path_segments_def dest: split_on_free)

lemma path_segments_elem: "seg \<in> set (path_segments s) \<Longrightarrow> seg \<noteq> [] \<and> seg \<noteq> [dot]"
  by (auto simp: path_segments_def)

lemma path_segments_subset: "seg \<in> set (path_segments s) \<Longrightarrow> set seg \<subseteq> set s"
  by (auto simp: path_segments_def dest: segment_subset)

lemma split_canonical:
  "path_segments s \<noteq> [] \<Longrightarrow> split_on slash (join_on slash (path_segments s)) = path_segments s"
  by (rule split_join) (auto dest: path_segments_free)

lemma path_segments_canonical:
  "path_segments s \<noteq> [] \<Longrightarrow> path_segments (join_on slash (path_segments s)) = path_segments s"
  by (simp add: path_segments_def [of "join_on slash (path_segments s)"] split_canonical)
     (auto simp: path_segments_elem filter_id_conv)

text \<open>The inversion of a successful normalization, the fact every proof about it starts from.\<close>

lemma normalize_InrD:
  assumes "normalize_source_path E p = Inr c"
  defines "n \<equiv> nfc E p"
  defines "segs \<equiv> path_segments (nfc E p)"
  shows "c = join_on slash segs" and "segs \<noteq> []" and "n = strip n" and "backslash \<notin> set n"
    and "\<forall>x \<in> set n. 32 \<le> x \<and> x \<noteq> 127" and "\<not> startswith n [slash]" and "windows_drive n = []"
    and "\<not> endswith n [slash]" and "[dot, dot] \<notin> set segs" and "\<not> is_compiled (map (lower E) segs)"
    and "\<forall>seg \<in> set segs. (\<forall>x \<in> set seg. \<not> is_surrogate x) \<and>
           length (concat (map utf8_char seg)) \<le> MAX_PATH_COMPONENT_BYTES"
    and "\<forall>x \<in> set c. \<not> is_surrogate x" and "length (concat (map utf8_char c)) \<le> MAX_PATH_BYTES"
    and "length segs \<le> MAX_PATH_DEPTH"
  using assms(1) unfolding n_def segs_def normalize_source_path_def Let_def
  by (simp_all add: result_simps not_less split: if_splits)

lemma normalize_InrI:
  assumes "path_segments (nfc E p) = segs" "segs \<noteq> []" "nfc E p = strip (nfc E p)"
    "backslash \<notin> set (nfc E p)" "\<forall>x \<in> set (nfc E p). 32 \<le> x \<and> x \<noteq> 127"
    "\<not> startswith (nfc E p) [slash]" "windows_drive (nfc E p) = []" "\<not> endswith (nfc E p) [slash]"
    "[dot, dot] \<notin> set segs" "\<not> is_compiled (map (lower E) segs)"
    "\<forall>seg \<in> set segs. (\<forall>x \<in> set seg. \<not> is_surrogate x) \<and>
       length (concat (map utf8_char seg)) \<le> MAX_PATH_COMPONENT_BYTES"
    "\<forall>x \<in> set (join_on slash segs). \<not> is_surrogate x"
    "length (concat (map utf8_char (join_on slash segs))) \<le> MAX_PATH_BYTES"
    "length segs \<le> MAX_PATH_DEPTH"
  shows "normalize_source_path E p = Inr (join_on slash segs)"
proof -
  have "check_components p segs = Inr ()"
    by (simp add: check_components_Inr assms)
  moreover have "utf8_encode (join_on slash segs) = Inr (concat (map utf8_char (join_on slash segs)))"
    by (simp add: utf8_encode_Inr assms)
  moreover have "\<not> (\<exists>x \<in> set (nfc E p). x < 32 \<or> x = 127)" using assms(5) by force
  ultimately show ?thesis
    using assms unfolding normalize_source_path_def Let_def by (simp add: not_less)
qed

lemma normalize_split:
  "normalize_source_path E p = Inr c \<Longrightarrow> split_on slash c = path_segments (nfc E p)"
  using normalize_InrD(1,2) [of E p c] split_canonical [of "nfc E p"] by simp

lemma canonical_chars:
  assumes "normalize_source_path E p = Inr c" and "x \<in> set c"
  shows "x \<in> set (nfc E p) \<or> x = slash"
proof -
  from assms have "x \<in> set (join_on slash (path_segments (nfc E p)))"
    by (simp add: normalize_InrD(1) [OF assms(1)])
  with set_join_on have "x = slash \<or> (\<exists>seg \<in> set (path_segments (nfc E p)). x \<in> set seg)" by fastforce
  then show ?thesis by (auto dest: path_segments_subset)
qed

lemma no_outer_slash:
  assumes "[] \<notin> set (split_on slash c)"
  shows "\<not> startswith c [slash]" and "\<not> endswith c [slash]"
  using assms by (auto simp: startswith_iff endswith_iff split_on_append)

lemma normalize_nfc:
  assumes "nfc_laws E" and "normalize_source_path E p = Inr c"
  shows "nfc E c = c"
proof -
  have stable: "nfc E (nfc E p) = nfc E p" using assms(1) by (simp add: nfc_laws_def)
  have "nfc E seg = seg" if "seg \<in> set (path_segments (nfc E p))" for seg
    using that nfc_segment [OF assms(1) stable] by (auto simp: path_segments_def)
  then have "map (nfc E) (path_segments (nfc E p)) = path_segments (nfc E p)"
    by (simp add: map_idI)
  then show ?thesis
    using slashwise_join [of "nfc E", OF _ normalize_InrD(2) [OF assms(2)]] assms(1)
      normalize_InrD(1) [OF assms(2)] by (simp add: nfc_laws_def)
qed

text \<open>The policy, both ways: every accepted name is safe, and every safe name that the
  preprocessing leaves alone is accepted as it stands.\<close>

lemma safe_pathI:
  assumes "\<And>seg. seg \<in> set (split_on slash c) \<Longrightarrow> seg \<noteq> [] \<and> seg \<noteq> [dot] \<and> seg \<noteq> [dot, dot]"
    and "\<And>x. x \<in> set c \<Longrightarrow> x \<noteq> backslash \<and> 32 \<le> x \<and> x \<noteq> 127 \<and> \<not> is_surrogate x"
    and "\<not> is_compiled (map (lower E) (split_on slash c))"
    and "\<And>seg. seg \<in> set (split_on slash c) \<Longrightarrow>
           length (concat (map utf8_char seg)) \<le> MAX_PATH_COMPONENT_BYTES"
    and "length (concat (map utf8_char c)) \<le> MAX_PATH_BYTES"
    and "length (split_on slash c) \<le> MAX_PATH_DEPTH"
  shows "safe_path E c"
  using assms by (simp add: safe_path_def list_all_iff)

lemma safe_pathD:
  assumes "safe_path E c"
  shows "seg \<in> set (split_on slash c) \<Longrightarrow> seg \<noteq> [] \<and> seg \<noteq> [dot] \<and> seg \<noteq> [dot, dot]"
    and "x \<in> set c \<Longrightarrow> x \<noteq> backslash \<and> 32 \<le> x \<and> x \<noteq> 127 \<and> \<not> is_surrogate x"
    and "\<not> is_compiled (map (lower E) (split_on slash c))"
    and "seg \<in> set (split_on slash c) \<Longrightarrow>
           length (concat (map utf8_char seg)) \<le> MAX_PATH_COMPONENT_BYTES"
    and "length (concat (map utf8_char c)) \<le> MAX_PATH_BYTES"
    and "length (split_on slash c) \<le> MAX_PATH_DEPTH"
  using assms by (simp_all add: safe_path_def list_all_iff)

lemma normalize_safe_aux:
  assumes "normalize_source_path E p = Inr c"
  shows "safe_path E c"
proof (rule safe_pathI)
  have segs: "split_on slash c = path_segments (nfc E p)" by (rule normalize_split [OF assms])
  note D = normalize_InrD [OF assms]
  show "seg \<noteq> [] \<and> seg \<noteq> [dot] \<and> seg \<noteq> [dot, dot]" if "seg \<in> set (split_on slash c)" for seg
    using that D(9) path_segments_elem [of seg "nfc E p"] unfolding segs by metis
  show "x \<noteq> backslash \<and> 32 \<le> x \<and> x \<noteq> 127 \<and> \<not> is_surrogate x" if x: "x \<in> set c" for x
    using canonical_chars [OF assms x]
  proof
    assume "x \<in> set (nfc E p)"
    with D(4,5,12) x show ?thesis by metis
  next
    assume "x = slash"
    then show ?thesis by (simp add: is_surrogate_def)
  qed
  show "\<not> is_compiled (map (lower E) (split_on slash c))" using D(10) unfolding segs .
  show "length (concat (map utf8_char seg)) \<le> MAX_PATH_COMPONENT_BYTES"
    if "seg \<in> set (split_on slash c)" for seg
    using that D(11) unfolding segs by blast
  show "length (concat (map utf8_char c)) \<le> MAX_PATH_BYTES" by (rule D(13))
  show "length (split_on slash c) \<le> MAX_PATH_DEPTH" using D(14) unfolding segs .
qed

lemma safe_path_accepted:
  assumes safe: "safe_path E c" and "nfc E c = c" and "strip c = c" and "windows_drive c = []"
  shows "normalize_source_path E c = Inr c"
proof -
  note S = safe_pathD [OF safe]
  have segs: "path_segments c = split_on slash c"
    unfolding path_segments_def by (rule filter_True) (use S(1) in blast)
  have "[] \<notin> set (split_on slash c)" using S(1) by blast
  note outer = no_outer_slash [OF this]
  have "normalize_source_path E c = Inr (join_on slash (split_on slash c))"
  proof (rule normalize_InrI, unfold assms(2) join_split)
    show "backslash \<notin> set c" "\<forall>x \<in> set c. 32 \<le> x \<and> x \<noteq> 127" using S(2) by blast+
    show "[dot, dot] \<notin> set (split_on slash c)" using S(1) by blast
    show "\<forall>seg \<in> set (split_on slash c). (\<forall>x \<in> set seg. \<not> is_surrogate x) \<and>
        length (concat (map utf8_char seg)) \<le> MAX_PATH_COMPONENT_BYTES"
    proof
      fix seg assume seg: "seg \<in> set (split_on slash c)"
      with S(2) segment_subset [OF seg] S(4) [OF seg]
      show "(\<forall>x \<in> set seg. \<not> is_surrogate x) \<and>
          length (concat (map utf8_char seg)) \<le> MAX_PATH_COMPONENT_BYTES" by blast
    qed
    show "\<forall>x \<in> set c. \<not> is_surrogate x" using S(2) by blast
  qed (use segs outer assms(3,4) S(3,5,6) in simp_all)
  then show ?thesis by simp
qed

section \<open>Letter-case collisions\<close>

text \<open>The collision rule, stated on the tree nodes themselves.\<close>

definition collides :: "python \<Rightarrow> pystr list \<Rightarrow> pystr \<Rightarrow> bool" where
  "collides E paths p \<longleftrightarrow>
     (\<exists>n \<in> set (path_nodes p). \<exists>q \<in> set paths. \<exists>m \<in> set (path_nodes q).
        n \<noteq> m \<and> lower E n = lower E m)"

lemma path_nodes_elem:
  assumes "n \<in> set (path_nodes p)"
  obtains i where "1 \<le> i" "i \<le> length (split_on slash p)" "n = join_on slash (take i (split_on slash p))"
    "split_on slash n = take i (split_on slash p)"
proof -
  from assms obtain i where i: "1 \<le> i" "i < length (split_on slash p) + 1"
      "n = join_on slash (take i (split_on slash p))"
    by (auto simp: path_nodes_def Let_def)
  moreover have "split_on slash n = take i (split_on slash p)"
    unfolding i(3) by (rule split_join) (use i(1) in \<open>auto dest: in_set_takeD split_on_free\<close>)
  ultimately show ?thesis using that by simp
qed

lemma path_in_nodes: "p \<in> set (path_nodes p)"
proof -
  have "length (split_on slash p) \<noteq> 0" by simp
  then have "length (split_on slash p) \<in> set [1..<length (split_on slash p) + 1]" by (simp add: Suc_le_eq)
  moreover have "join_on slash (take (length (split_on slash p)) (split_on slash p)) = p" by simp
  ultimately show ?thesis unfolding path_nodes_def Let_def set_map by (metis imageI)
qed

lemma nodes_lower_inj:
  assumes "lower_laws E"
  shows "inj_on (lower E) (set (path_nodes p))"
proof (rule inj_onI)
  fix n m assume nm: "n \<in> set (path_nodes p)" "m \<in> set (path_nodes p)" "lower E n = lower E m"
  obtain i where i: "i \<le> length (split_on slash p)" "n = join_on slash (take i (split_on slash p))"
      "split_on slash n = take i (split_on slash p)"
    using nm(1) by (rule path_nodes_elem)
  obtain j where j: "j \<le> length (split_on slash p)" "m = join_on slash (take j (split_on slash p))"
      "split_on slash m = take j (split_on slash p)"
    using nm(2) by (rule path_nodes_elem)
  have "map (lower E) (split_on slash n) = map (lower E) (split_on slash m)"
    using assms nm(3) by (metis lower_laws_def slashwise_split)
  then have "length (split_on slash n) = length (split_on slash m)" by (metis length_map)
  with i j show "n = m" by simp
qed

lemma in_nodes_iff:
  assumes "lower_laws E"
  shows "(form, n) \<in> set (case_insensitive_nodes E p) \<longleftrightarrow> n \<in> set (path_nodes p) \<and> form = lower E n"
  unfolding case_insensitive_nodes_def
  using dict_by_sound dict_by_complete [OF _ nodes_lower_inj [OF assms]] by metis

lemma names_of_add_name:
  "set (names_of (fold add_name fns d) form) = set (names_of d form) \<union> {n. (form, n) \<in> set fns}"
proof (induction fns arbitrary: d)
  case (Cons fn fns)
  have "set (names_of (add_name fn d) form) = set (names_of d form) \<union> {n. (form, n) = fn}"
    by (cases fn) (auto simp: names_of_def add_name_def update_conv' split: option.splits)
  with Cons show ?case by auto
qed simp

lemma names_of_distinct:
  "(\<And>form. distinct (names_of d form)) \<Longrightarrow> distinct (names_of (fold add_name fns d) form)"
proof (induction fns arbitrary: d)
  case (Cons fn fns)
  have "distinct (names_of (add_name fn d) form')" for form'
    using Cons.prems [of form'] Cons.prems [of "fst fn"]
    by (simp add: names_of_def add_name_def update_conv' split: option.splits)
  with Cons.IH show ?case by simp
qed simp

lemma set_names_by_form:
  assumes "lower_laws E"
  shows "set (names_of (names_by_form E paths) form) =
    {m. \<exists>q \<in> set paths. m \<in> set (path_nodes q) \<and> lower E m = form}"
proof -
  have "names_of [] form = []" by (simp add: names_of_def)
  then show ?thesis
    unfolding names_by_form_def names_of_add_name using in_nodes_iff [OF assms] by auto
qed

lemma names_by_form_distinct: "distinct (names_of (names_by_form E paths) form)"
  unfolding names_by_form_def by (rule names_of_distinct) (simp add: names_of_def)

lemma two_names:
  assumes "distinct xs" and "x \<in> set xs"
  shows "length xs > 1 \<longleftrightarrow> (\<exists>y \<in> set xs. y \<noteq> x)"
proof
  assume "length xs > 1"
  then have "card (set xs) > card {x}" using assms(1) by (simp add: distinct_card)
  then have "\<not> set xs \<subseteq> {x}" by (metis card_mono finite.emptyI finite_insert leD)
  then show "\<exists>y \<in> set xs. y \<noteq> x" by blast
next
  assume "\<exists>y \<in> set xs. y \<noteq> x"
  then obtain y where "y \<in> set xs" "y \<noteq> x" by blast
  then have "card {x, y} \<le> card (set xs)" using assms(2) by (intro card_mono) auto
  with \<open>y \<noteq> x\<close> show "length xs > 1" using assms(1) by (simp add: distinct_card)
qed

lemma collision_form_iff:
  assumes "lower_laws E" and "p \<in> set paths" and "n \<in> set (path_nodes p)"
  shows "length (names_of (names_by_form E paths) (lower E n)) > 1 \<longleftrightarrow>
    (\<exists>q \<in> set paths. \<exists>m \<in> set (path_nodes q). n \<noteq> m \<and> lower E n = lower E m)"
proof -
  have n: "n \<in> set (names_of (names_by_form E paths) (lower E n))"
    using assms(2,3) set_names_by_form [OF assms(1)] by auto
  show ?thesis
    unfolding two_names [OF names_by_form_distinct n] set_names_by_form [OF assms(1)]
    by (auto intro: sym)
qed

lemma first_collision_None_iff:
  assumes "lower_laws E" and "p \<in> set paths"
  shows "first_collision (names_by_form E paths) (case_insensitive_nodes E p) = None \<longleftrightarrow>
    \<not> collides E paths p"
proof -
  let ?long = "\<lambda>form. length (names_of (names_by_form E paths) form) > 1"
  have "first_collision (names_by_form E paths) (case_insensitive_nodes E p) = None \<longleftrightarrow>
      (\<forall>fn \<in> set (case_insensitive_nodes E p). \<not> ?long (fst fn))"
    unfolding first_collision_def
    by (metis (no_types, lifting) find_None_iff option.case_eq_if option.distinct(1))
  also have "\<dots> \<longleftrightarrow> (\<forall>n \<in> set (path_nodes p). \<not> ?long (lower E n))"
    using in_nodes_iff [OF assms(1), where p = p] by (metis fst_conv surj_pair)
  finally show ?thesis using collision_form_iff [OF assms] unfolding collides_def by blast
qed

lemma fold_reject_map_of:
  "map_of (fold (\<lambda>p d. case g p of None \<Rightarrow> d | Some x \<Rightarrow> AList.update p x d) ps d) k =
     (if k \<in> set ps \<and> g k \<noteq> None then g k else map_of d k)"
  by (induction ps arbitrary: d) (auto simp: update_conv' split: option.splits)

lemma collisions_lookup:
  "map_of (case_insensitive_collisions E paths) p =
     (if p \<in> set paths then first_collision (names_by_form E (sort paths)) (case_insensitive_nodes E p)
      else None)"
  unfolding case_insensitive_collisions_def Let_def fold_reject_map_of
  by (cases "first_collision (names_by_form E (sort paths)) (case_insensitive_nodes E p)") simp_all

lemma collides_sort: "collides E (sort paths) p \<longleftrightarrow> collides E paths p"
  by (simp add: collides_def)

lemma collisions_None_iff:
  assumes "lower_laws E"
  shows "map_of (case_insensitive_collisions E paths) p = None \<longleftrightarrow>
    p \<notin> set paths \<or> \<not> collides E paths p"
proof (cases "p \<in> set paths")
  case True
  then have "p \<in> set (sort paths)" by simp
  from first_collision_None_iff [OF assms this] True show ?thesis
    by (simp add: collisions_lookup collides_sort)
qed (simp add: collisions_lookup)

lemma first_collision_SomeD:
  assumes "lower_laws E" and "p \<in> set paths"
    and "first_collision (names_by_form E paths) (case_insensitive_nodes E p) = Some (node, other)"
  shows "node \<in> set (path_nodes p)" and "node \<noteq> other" and "lower E node = lower E other"
    and "\<exists>q \<in> set paths. other \<in> set (path_nodes q)"
proof -
  let ?names = "names_of (names_by_form E paths)"
  from assms(3) obtain form where
    fn: "List.find (\<lambda>fn. length (?names (fst fn)) > 1) (case_insensitive_nodes E p) = Some (form, node)"
    and other: "other = Min (set (filter (\<lambda>name. name \<noteq> node) (?names form)))"
    by (auto simp: first_collision_def split: option.splits)
  have node: "(form, node) \<in> set (case_insensitive_nodes E p)" and len: "length (?names form) > 1"
    using find_SomeD [OF fn] by simp_all
  then have n: "node \<in> set (path_nodes p)" "form = lower E node"
    by (auto simp: in_nodes_iff [OF assms(1)])
  then have "node \<in> set (?names form)" using assms(2) set_names_by_form [OF assms(1)] by auto
  then obtain y where "y \<in> set (?names form)" "y \<noteq> node"
    using two_names [OF names_by_form_distinct] len by blast
  then have ne: "set (filter (\<lambda>name. name \<noteq> node) (?names form)) \<noteq> {}" by auto
  have "other \<in> set (filter (\<lambda>name. name \<noteq> node) (?names form))"
    using Min_in [OF finite_set ne] unfolding other .
  then have "other \<in> set (?names form)" "node \<noteq> other" by auto
  then show "node \<in> set (path_nodes p)" and "node \<noteq> other" and "lower E node = lower E other"
    and "\<exists>q \<in> set paths. other \<in> set (path_nodes q)"
    using n set_names_by_form [OF assms(1), of paths form] by auto
qed

section \<open>Storage keys\<close>

lemma length_hex_fixed [simp]: "length (hex_fixed k v) = k"
  by (induction k arbitrary: v) auto

lemma hexdigit_inj: "m < 16 \<Longrightarrow> n < 16 \<Longrightarrow> hexdigit m = hexdigit n \<Longrightarrow> m = n"
  by (auto simp: hexdigit_def split: if_splits)

lemma hex_fixed_inj: "v < 16 ^ k \<Longrightarrow> w < 16 ^ k \<Longrightarrow> hex_fixed k v = hex_fixed k w \<Longrightarrow> v = w"
proof (induction k arbitrary: v w)
  case (Suc k)
  from Suc.prems(3) have "hex_fixed k (v div 16) = hex_fixed k (w div 16)"
      and m: "hexdigit (v mod 16) = hexdigit (w mod 16)" by auto
  moreover have "v div 16 < 16 ^ k" "w div 16 < 16 ^ k" using Suc.prems by (auto simp: div_less_iff_less_mult)
  ultimately have "v div 16 = w div 16" using Suc.IH by blast
  moreover have "v mod 16 = w mod 16" by (rule hexdigit_inj [OF _ _ m]) auto
  ultimately show ?case by (metis div_mult_mod_eq)
qed simp

lemma length_uuid_str [simp]: "length (uuid_str w) = 36"
  by (simp add: uuid_str_def Let_def)

lemma take_drop_step: "take m (drop n xs) @ drop (n + m) xs = drop n xs"
  by (metis add.commute append_take_drop_id drop_drop)

lemma regroup:
  fixes h :: "'a list"
  assumes "length h = 32"
    and "u = take 8 h @ x # take 4 (drop 8 h) @ x # take 4 (drop 12 h) @ x # take 4 (drop 16 h) @ x # drop 20 h"
  shows "h = take 8 u @ take 4 (drop 9 u) @ take 4 (drop 14 u) @ take 4 (drop 19 u) @ drop 24 u"
proof -
  have "take 4 (drop 8 h) @ take 4 (drop 12 h) @ take 4 (drop 16 h) @ drop 20 h = drop 8 h"
    using take_drop_step [of 4 8 h] take_drop_step [of 4 12 h] take_drop_step [of 4 16 h] by simp
  then have "h = take 8 h @ take 4 (drop 8 h) @ take 4 (drop 12 h) @ take 4 (drop 16 h) @ drop 20 h"
    by simp
  then show ?thesis using assms by simp
qed

lemma uuid_str_inj: "uuid_str v = uuid_str w \<Longrightarrow> v = w"
proof -
  assume eq: "uuid_str v = uuid_str w"
  have "hex_fixed 32 (unat v) = hex_fixed 32 (unat w)"
    using regroup [of "hex_fixed 32 (unat v)", OF _ uuid_str_def [unfolded Let_def]]
      regroup [of "hex_fixed 32 (unat w)", OF _ uuid_str_def [unfolded Let_def]] eq by simp
  moreover have "unat v < 16 ^ 32" "unat w < 16 ^ 32"
    using unsigned_less [of v] unsigned_less [of w] by simp_all
  ultimately have "unat v = unat w" using hex_fixed_inj by blast
  then show "v = w" by (rule unsigned_word_eqI)
qed

lemma revision_prefix_Inr:
  "revision_prefix E k d = Inr p \<longleftrightarrow>
     (\<exists>w h. uuid_parse E k = Some w \<and> d = Some h \<and> is_hex_digest h \<and>
        p = (STORAGE_PREFIX @ [slash] @ uuid_str w @ [slash]) @ lit ''revisions/'' @ h @ [slash])"
  by (auto simp: revision_prefix_def project_prefix_def storage_key_component_def digest_component_def
      result_simps split: option.splits if_splits)

lemma prefix_split:
  assumes "(STORAGE_PREFIX @ [slash] @ uuid_str v @ [slash]) @ lit ''revisions/'' @ h @ [slash] @ c =
           (STORAGE_PREFIX @ [slash] @ uuid_str w @ [slash]) @ lit ''revisions/'' @ g @ [slash] @ d"
    and "length h = length g"
  shows "v = w \<and> h = g \<and> c = d"
  using assms uuid_str_inj by auto



text \<open>
  Normalizing is idempotent exactly when the canonical name has no outer whitespace and no
  drive prefix of its own.  Both can appear once a leading "./" is dropped, so a canonical name
  is not always accepted again.
\<close>

theorem normalize_source_path_idempotent_iff:
  assumes "nfc_laws E" and "normalize_source_path E p = Inr c"
  shows "normalize_source_path E c = Inr c \<longleftrightarrow> strip c = c \<and> windows_drive c = []"
proof
  assume "normalize_source_path E c = Inr c"
  then show "strip c = c \<and> windows_drive c = []"
    using normalize_InrD(3,7) [of E c c] normalize_nfc [OF assms] by simp
next
  assume "strip c = c \<and> windows_drive c = []"
  then show "normalize_source_path E c = Inr c"
    using safe_path_accepted normalize_safe_aux [OF assms(2)] normalize_nfc [OF assms] by blast
qed

theorem normalize_source_path_idempotent_iff_witness:
  "nfc_laws ascii_python \<and>
   normalize_source_path ascii_python (lit ''./ a.py'') = Inr (lit '' a.py'') \<and>
   normalize_source_path ascii_python (lit '' a.py'') \<noteq> Inr (lit '' a.py'')"
proof -
  have acc: "normalize_source_path ascii_python (lit ''./ a.py'') = Inr (lit '' a.py'')"
    by code_simp
  have "strip (lit '' a.py'') \<noteq> lit '' a.py''" by code_simp
  with normalize_source_path_idempotent_iff [OF ascii_nfc_laws acc] acc show ?thesis by simp
qed

text \<open>
  A path is reported as a letter-case collision exactly when one of its tree nodes (itself or
  an ancestor directory) and a differently spelled node of a listed path share one lower-case
  form; the pair reported names two such nodes.
\<close>

theorem case_insensitive_collisions_iff:
  assumes "lower_laws E"
  shows "case map_of (case_insensitive_collisions E paths) p of
      None \<Rightarrow> p \<notin> set paths \<or> \<not> collides E paths p
    | Some (node, other) \<Rightarrow> p \<in> set paths \<and> collides E paths p \<and>
        node \<in> set (path_nodes p) \<and> node \<noteq> other \<and> lower E node = lower E other \<and>
        (\<exists>q \<in> set paths. other \<in> set (path_nodes q))"
proof (cases "map_of (case_insensitive_collisions E paths) p")
  case None
  then show ?thesis using collisions_None_iff [OF assms, of paths p] by simp
next
  case (Some pair)
  obtain node other where pair: "pair = (node, other)" by fastforce
  from Some have "p \<in> set (sort paths)"
      "first_collision (names_by_form E (sort paths)) (case_insensitive_nodes E p) = Some (node, other)"
    unfolding pair by (simp_all add: collisions_lookup split: if_splits)
  note S = first_collision_SomeD [OF assms this]
  have "p \<in> set paths \<and> collides E paths p"
    using collisions_None_iff [OF assms, of paths p] Some by auto
  with S show ?thesis by (simp add: Some pair)
qed

theorem case_insensitive_collisions_iff_witness:
  "lower_laws ascii_python \<and>
   map_of (case_insensitive_collisions ascii_python
     [lit ''Lib/a.py'', lit ''lib/b.py'']) (lit ''lib/b.py'') = Some (lit ''lib'', lit ''Lib'') \<and>
   collides ascii_python [lit ''Lib/a.py'', lit ''lib/b.py''] (lit ''lib/b.py'')"
proof -
  have "map_of (case_insensitive_collisions ascii_python
      [lit ''Lib/a.py'', lit ''lib/b.py'']) (lit ''lib/b.py'') = Some (lit ''lib'', lit ''Lib'')"
    by code_simp
  with case_insensitive_collisions_iff [OF ascii_lower_laws, where
      paths = "[lit ''Lib/a.py'', lit ''lib/b.py'']" and p = "lit ''lib/b.py''"]
  show ?thesis by simp
qed

lemma revision_key_inject:
  assumes "revision_key E k d p = Inr key" and "revision_key E k' d' p' = Inr key"
  shows "uuid_parse E k = uuid_parse E k' \<and> d = d' \<and>
    normalize_source_path E p = normalize_source_path E p'"
proof -
  obtain w h c where 1: "uuid_parse E k = Some w" "d = Some h" "is_hex_digest h"
      "normalize_source_path E p = Inr c"
      "key = (STORAGE_PREFIX @ [slash] @ uuid_str w @ [slash]) @ lit ''revisions/'' @ h @ [slash] @ c"
    using assms(1) by (auto simp: revision_key_def revision_prefix_Inr result_simps)
  obtain w' h' c' where 2: "uuid_parse E k' = Some w'" "d' = Some h'" "is_hex_digest h'"
      "normalize_source_path E p' = Inr c'"
      "key = (STORAGE_PREFIX @ [slash] @ uuid_str w' @ [slash]) @ lit ''revisions/'' @ h' @ [slash] @ c'"
    using assms(2) by (auto simp: revision_key_def revision_prefix_Inr result_simps)
  have "w = w' \<and> h = h' \<and> c = c'"
    by (rule prefix_split) (use 1 2 in \<open>simp_all add: is_hex_digest_def\<close>)
  with 1 2 show ?thesis by simp
qed

text \<open>
  C2. One key names one object: two revision files get the same storage key only when the project
  identity, the digest and the canonical path all agree.
\<close>

theorem revision_key_injective:
  assumes "revision_key E k d p = Inr key" and "revision_key E k' d' p' = Inr key"
  shows "uuid_parse E k = uuid_parse E k' \<and> d = d' \<and>
    normalize_source_path E p = normalize_source_path E p'"
  using assms by (rule revision_key_inject)

theorem revision_key_injective_witness:
  "normalize_source_path ascii_python (lit ''a.py'') = normalize_source_path ascii_python (lit ''./a.py'')"
proof -
  have a: "revision_key ascii_python (lit ''k'') (Some (replicate 64 48)) (lit ''a.py'') =
      revision_key ascii_python (lit ''k'') (Some (replicate 64 48)) (lit ''./a.py'')" by code_simp
  have "is_ok (revision_key ascii_python (lit ''k'') (Some (replicate 64 48)) (lit ''a.py''))" by code_simp
  then obtain key where "revision_key ascii_python (lit ''k'') (Some (replicate 64 48)) (lit ''a.py'') = Inr key"
    by (auto simp: is_ok_iff)
  with a revision_key_injective show ?thesis by metis
qed

end
