(* ===== verification/Source_Names.thy ===== *)
theory Source_Names
  imports Paths
begin

text \<open>
  utils.py and validators.py: paths relative to a Data Source directory, the dotted module name
  a source path imports as, and the canonical data path of a project with its overlap test.
\<close>

section \<open>Definitions\<close>

definition data_source_relative_path :: "pystr \<Rightarrow> pystr \<Rightarrow> pystr option" where
  "data_source_relative_path path data_path =
     (let pre = (if data_path \<noteq> [] then split_on slash data_path else []);
          segments = split_on slash path
      in if take (length pre) segments \<noteq> pre \<or> length segments = length pre then None
         else Some (join_on slash (drop (length pre) segments)))"

text \<open>\<open>keyword.iskeyword\<close>: the reserved words of Python 3.\<close>

definition PYTHON_KEYWORDS :: "pystr list" where
  "PYTHON_KEYWORDS = map lit
     [''False'', ''None'', ''True'', ''and'', ''as'', ''assert'', ''async'', ''await'', ''break'',
      ''class'', ''continue'', ''def'', ''del'', ''elif'', ''else'', ''except'', ''finally'', ''for'',
      ''from'', ''global'', ''if'', ''import'', ''in'', ''is'', ''lambda'', ''nonlocal'', ''not'',
      ''or'', ''pass'', ''raise'', ''return'', ''try'', ''while'', ''with'', ''yield'']"

definition PY_SUFFIX :: pystr where "PY_SUFFIX = lit ''.py''"
definition INIT_NAME :: pystr where "INIT_NAME = lit ''__init__''"

fun check_module_segments :: "python \<Rightarrow> pystr list \<Rightarrow> unit result" where
  "check_module_segments E [] = Inr ()"
| "check_module_segments E (segment # rest) =
     (if \<not> isidentifier E segment then Inl (ValidationError [''invalid_identifier''])
      else if segment \<in> set PYTHON_KEYWORDS then Inl (ValidationError [''reserved_keyword''])
      else check_module_segments E rest)"

definition source_path_to_dotted_name :: "python \<Rightarrow> pystr \<Rightarrow> pystr result" where
  "source_path_to_dotted_name E path =
     (if \<not> endswith path PY_SUFFIX then Inl (ValidationError [''not_a_python_file''])
      else let all_segments = split_on slash (take (length path - length PY_SUFFIX) path);
               segments = (if last all_segments = INIT_NAME then butlast all_segments else all_segments)
           in if segments = [] then Inl (ValidationError [''root_script_file''])
              else rbind (check_module_segments E segments) (\<lambda>_. Inr (join_on dot segments)))"

definition data_paths_overlap :: "pystr \<Rightarrow> pystr \<Rightarrow> bool" where
  "data_paths_overlap path_a path_b =
     (if path_a = path_b then True
      else let segments_a = (if path_a \<noteq> [] then split_on slash path_a else []);
               segments_b = (if path_b \<noteq> [] then split_on slash path_b else []);
               (shorter, longer) = (if length segments_a \<le> length segments_b
                                    then (segments_a, segments_b) else (segments_b, segments_a))
           in take (length shorter) longer = shorter)"

definition normalize_data_path :: "pystr \<Rightarrow> pystr result" where
  "normalize_data_path value0 =
     (let value = strip value0
      in if value = [] then Inr []
         else if backslash \<in> set value then Inl (ValidationError [''backslash''])
         else if \<exists>c \<in> set value. c < 32 \<or> c = 127 then Inl (ValidationError [''control_character''])
         else if startswith value [slash] then Inl (ValidationError [''absolute''])
         else let segments = path_segments value
              in if [dot, dot] \<in> set segments then Inl (ValidationError [''traversal''])
                 else Inr (join_on slash segments))"

section \<open>Directories as segment prefixes\<close>

definition dir_segments :: "pystr \<Rightarrow> pystr list" where
  "dir_segments d = (if d = [] then [] else split_on slash d)"

lemma take_prefix_iff: "take (length ps) xs = ps \<longleftrightarrow> (\<exists>ys. xs = ps @ ys)"
  by (metis append_eq_conv_conj append_take_drop_id)

lemma relative_path_Some_iff:
  "data_source_relative_path path d = Some r \<longleftrightarrow>
     (\<exists>rest. rest \<noteq> [] \<and> split_on slash path = dir_segments d @ rest \<and> r = join_on slash rest)"
proof
  assume "data_source_relative_path path d = Some r"
  then have pre: "take (length (dir_segments d)) (split_on slash path) = dir_segments d"
      and len: "length (split_on slash path) \<noteq> length (dir_segments d)"
      and r: "r = join_on slash (drop (length (dir_segments d)) (split_on slash path))"
    by (auto simp: data_source_relative_path_def dir_segments_def Let_def split: if_splits)
  from pre obtain rest where "split_on slash path = dir_segments d @ rest"
    unfolding take_prefix_iff by blast
  with len r show "\<exists>rest. rest \<noteq> [] \<and> split_on slash path = dir_segments d @ rest \<and>
      r = join_on slash rest" by auto
next
  assume "\<exists>rest. rest \<noteq> [] \<and> split_on slash path = dir_segments d @ rest \<and> r = join_on slash rest"
  then obtain rest where "rest \<noteq> []" "split_on slash path = dir_segments d @ rest"
      "r = join_on slash rest" by blast
  then show "data_source_relative_path path d = Some r"
    by (simp add: data_source_relative_path_def dir_segments_def Let_def split: if_splits)
qed

lemma relative_path_join:
  assumes "data_source_relative_path path d = Some r"
  shows "path = (if d = [] then r else d @ slash # r)"
proof -
  from assms obtain rest where rest: "rest \<noteq> []" "split_on slash path = dir_segments d @ rest"
      "r = join_on slash rest" unfolding relative_path_Some_iff by blast
  have "path = join_on slash (dir_segments d @ rest)" by (metis rest(2) join_split)
  then show ?thesis using rest by (simp add: dir_segments_def join_on_append)
qed

lemma relative_path_under:
  "data_source_relative_path (d @ slash # r) d = Some r" if "d \<noteq> []"
  unfolding relative_path_Some_iff using that
  by (intro exI [of _ "split_on slash r"]) (simp add: dir_segments_def split_on_append)

lemma overlap_iff:
  "data_paths_overlap a b \<longleftrightarrow>
     (\<exists>rest. dir_segments b = dir_segments a @ rest) \<or> (\<exists>rest. dir_segments a = dir_segments b @ rest)"
proof -
  have "data_paths_overlap a b \<longleftrightarrow> a = b \<or>
      (if length (dir_segments a) \<le> length (dir_segments b)
       then \<exists>rest. dir_segments b = dir_segments a @ rest
       else \<exists>rest. dir_segments a = dir_segments b @ rest)"
    by (simp add: data_paths_overlap_def dir_segments_def Let_def take_prefix_iff)
  then show ?thesis by auto
qed

section \<open>Dotted names\<close>

lemma check_module_segments_Inr [result_simps]:
  "check_module_segments E segs = Inr u \<longleftrightarrow>
     (\<forall>seg \<in> set segs. isidentifier E seg \<and> seg \<notin> set PYTHON_KEYWORDS)"
  by (induction segs) auto

text \<open>An identifier is a non-empty text without separators or whitespace: Python's grammar for names.\<close>

definition identifier_laws :: "python \<Rightarrow> bool" where
  "identifier_laws E \<longleftrightarrow> (\<forall>s. isidentifier E s \<longrightarrow> s \<noteq> [] \<and> dot \<notin> set s \<and> slash \<notin> set s \<and>
     colon \<notin> set s \<and> (\<forall>c \<in> set s. \<not> py_isspace c))"

lemma ascii_identifier_laws [simp]: "identifier_laws ascii_python"
  by (auto simp: identifier_laws_def ascii_identifier_def list_all_iff py_isspace_def)

lemma dotted_name_Inr:
  assumes "source_path_to_dotted_name E path = Inr name"
  obtains segs where "segs \<noteq> []" "name = join_on dot segs"
    "\<forall>seg \<in> set segs. isidentifier E seg \<and> seg \<notin> set PYTHON_KEYWORDS"
    "path = join_on slash segs @ PY_SUFFIX \<or> path = join_on slash (segs @ [INIT_NAME]) @ PY_SUFFIX"
proof -
  define stem where "stem = take (length path - length PY_SUFFIX) path"
  define segs where "segs = (if last (split_on slash stem) = INIT_NAME
    then butlast (split_on slash stem) else split_on slash stem)"
  from assms have ends: "endswith path PY_SUFFIX" and ne: "segs \<noteq> []"
      and rest: "rbind (check_module_segments E segs) (\<lambda>_. Inr (join_on dot segs)) = Inr name"
    unfolding source_path_to_dotted_name_def stem_def [symmetric] segs_def [symmetric] Let_def
    by (auto split: if_splits)
  have path: "path = stem @ PY_SUFFIX" using ends by (auto simp: endswith_iff stem_def)
  have "stem = join_on slash segs \<or> stem = join_on slash (segs @ [INIT_NAME])"
  proof (cases "last (split_on slash stem) = INIT_NAME")
    case True
    then have "segs @ [INIT_NAME] = split_on slash stem"
      using append_butlast_last_id [OF split_on_not_Nil, of slash stem] by (simp add: segs_def)
    then show ?thesis by (metis join_split)
  next
    case False
    then show ?thesis by (simp add: segs_def)
  qed
  then have "path = join_on slash segs @ PY_SUFFIX \<or> path = join_on slash (segs @ [INIT_NAME]) @ PY_SUFFIX"
    using path by metis
  moreover have "name = join_on dot segs" "\<forall>seg \<in> set segs. isidentifier E seg \<and> seg \<notin> set PYTHON_KEYWORDS"
    using rest by (simp_all add: result_simps)
  ultimately show ?thesis using that ne by blast
qed

lemma dotted_segments:
  assumes "identifier_laws E" and "\<forall>seg \<in> set segs. isidentifier E seg" and "segs \<noteq> []"
  shows "split_on dot (join_on dot segs) = segs"
  by (rule split_join) (use assms in \<open>auto simp: identifier_laws_def\<close>)

text \<open>A canonical path that imports has no outer whitespace and no drive, so it is its own canonical form.\<close>

lemma importable_outer:
  assumes "identifier_laws E" and "source_path_to_dotted_name E c = Inr name"
  shows "strip c = c" "windows_drive c = []"
proof -
  obtain segs where segs: "segs \<noteq> []" "\<forall>seg \<in> set segs. isidentifier E seg"
      "c = join_on slash segs @ PY_SUFFIX \<or> c = join_on slash (segs @ [INIT_NAME]) @ PY_SUFFIX"
    using dotted_name_Inr [OF assms(2)] by metis
  obtain s ss where ss: "segs = s # ss" using segs(1) by (cases segs) auto
  obtain a r where s: "s = a # r" "\<not> py_isspace a" "colon \<notin> set s"
    using segs(2) assms(1) unfolding ss identifier_laws_def by (cases s) auto
  have "\<exists>t. c = s @ t \<and> (t = PY_SUFFIX \<or> hd t = slash \<and> t \<noteq> [])"
    using segs(3) unfolding ss by (cases ss) (auto simp: join_on_Cons)
  then obtain t where t: "c = s @ t" "t = PY_SUFFIX \<or> hd t = slash \<and> t \<noteq> []" by blast
  have "last c = 121" using segs(3) by (auto simp: PY_SUFFIX_def str_simps)
  then show "strip c = c" using s t by (simp add: strip_id_iff py_isspace_def)
  show "windows_drive c = []"
    using s t by (cases r; cases t) (auto simp: windows_drive_def PY_SUFFIX_def str_simps)
qed

lemma importable_canonical:
  assumes "nfc_laws E" "identifier_laws E" "normalize_source_path E path = Inr c"
    and "source_path_to_dotted_name E c = Inr name"
  shows "normalize_source_path E c = Inr c"
  using safe_path_accepted [OF _ _ importable_outer [OF assms(2,4)]] normalize_safe_aux normalize_nfc assms(1,3)
  by metis

text \<open>
  The dotted name determines the module: two source paths import under one name only when they
  are the same file or the two spellings "x.py" and "x/__init__.py" of one module.
\<close>

theorem source_path_to_dotted_name_ambiguity:
  assumes "identifier_laws E" and "source_path_to_dotted_name E a = Inr name"
    and "source_path_to_dotted_name E b = Inr name"
  shows "a = b \<or> (\<exists>stem. {a, b} = {stem @ PY_SUFFIX, stem @ slash # INIT_NAME @ PY_SUFFIX})"
proof -
  from assms(2) obtain s where s: "s \<noteq> []" "name = join_on dot s" "\<forall>seg \<in> set s. isidentifier E seg"
      "a = join_on slash s @ PY_SUFFIX \<or> a = join_on slash (s @ [INIT_NAME]) @ PY_SUFFIX"
    by (metis dotted_name_Inr)
  from assms(3) obtain t where t: "t \<noteq> []" "name = join_on dot t" "\<forall>seg \<in> set t. isidentifier E seg"
      "b = join_on slash t @ PY_SUFFIX \<or> b = join_on slash (t @ [INIT_NAME]) @ PY_SUFFIX"
    by (metis dotted_name_Inr)
  have "s = t" using dotted_segments [OF assms(1)] s t by metis
  with s t show ?thesis by (auto simp: join_on_append)
qed

theorem source_path_to_dotted_name_ambiguity_witness:
  "source_path_to_dotted_name ascii_python (lit ''tools/x.py'') = Inr (lit ''tools.x'') \<and>
   source_path_to_dotted_name ascii_python (lit ''tools/x/__init__.py'') = Inr (lit ''tools.x'') \<and>
   (lit ''tools/x.py'' = lit ''tools/x/__init__.py'' \<or>
    (\<exists>stem. {lit ''tools/x.py'', lit ''tools/x/__init__.py''} =
      {stem @ PY_SUFFIX, stem @ slash # INIT_NAME @ PY_SUFFIX}))"
proof -
  have a: "source_path_to_dotted_name ascii_python (lit ''tools/x.py'') = Inr (lit ''tools.x'')" by code_simp
  have b: "source_path_to_dotted_name ascii_python (lit ''tools/x/__init__.py'') = Inr (lit ''tools.x'')"
    by code_simp
  from a b source_path_to_dotted_name_ambiguity [OF ascii_identifier_laws a b] show ?thesis by blast
qed

text \<open>
  Two Data Source directories overlap exactly when some file could belong to both projects:
  the overlap test decides whether the two sets of files the projects read are disjoint.
\<close>

theorem data_paths_overlap_shares_file:
  "data_paths_overlap a b \<longleftrightarrow>
     (\<exists>path. data_source_relative_path path a \<noteq> None \<and> data_source_relative_path path b \<noteq> None)"
proof
  assume "data_paths_overlap a b"
  then consider rest where "dir_segments b = dir_segments a @ rest"
    | rest where "dir_segments a = dir_segments b @ rest" unfolding overlap_iff by blast
  then obtain long where long: "\<exists>xs. long = dir_segments a @ xs" "\<exists>ys. long = dir_segments b @ ys"
      "\<forall>seg \<in> set long. slash \<notin> set seg"
    by cases (metis append_Nil2 dir_segments_def split_on_free list.set(1) empty_iff)+
  let ?path = "join_on slash (long @ [[]])"
  have "split_on slash ?path = long @ [[]]" by (rule split_join) (use long(3) in auto)
  then have "data_source_relative_path ?path a \<noteq> None" "data_source_relative_path ?path b \<noteq> None"
    using long(1,2) by (simp_all add: relative_path_Some_iff) (metis append.assoc snoc_eq_iff_butlast)+
  then show "\<exists>path. data_source_relative_path path a \<noteq> None \<and> data_source_relative_path path b \<noteq> None"
    by blast
next
  assume "\<exists>path. data_source_relative_path path a \<noteq> None \<and> data_source_relative_path path b \<noteq> None"
  then obtain x y where "dir_segments a @ x = dir_segments b @ y"
    by (metis not_None_eq relative_path_Some_iff)
  then show "data_paths_overlap a b" unfolding overlap_iff by (metis append_eq_append_conv2)
qed

end
