(* ===== verification/Canonical_Json.thy ===== *)
theory Canonical_Json
  imports Paths
begin

text \<open>
  The JSON values a database column holds, and the canonical serialization both digests of a
  revision are computed over: \<open>json.dumps(value, sort_keys=True, separators=(',', ':'),
  ensure_ascii=True)\<close>.  The serialization is shown unambiguous, which is what makes a digest of
  it a content address.
\<close>

section \<open>JSON values and their serialization\<close>

datatype json =
    JNull
  | JBool bool
  | JInt int
  | JFloat pystr
  | JStr pystr
  | JList "json list"
  | JObj "(pystr \<times> json) list"

definition escape_char :: "nat \<Rightarrow> pystr" where
  "escape_char c =
     (if c = 34 then [92, 34] else if c = 92 then [92, 92]
      else if c = 10 then [92, 110] else if c = 13 then [92, 114] else if c = 9 then [92, 116]
      else if c = 12 then [92, 102] else if c = 8 then [92, 98]
      else if 32 \<le> c \<and> c \<le> 126 then [c]
      else if c < 65536 then [92, 117] @ hex_fixed 4 c
      else [92, 117] @ hex_fixed 4 (55296 + (c - 65536) div 1024) @
           [92, 117] @ hex_fixed 4 (56320 + (c - 65536) mod 1024))"

definition dump_str :: "pystr \<Rightarrow> pystr" where
  "dump_str s = 34 # concat (map escape_char s) @ [34]"

fun dec :: "nat \<Rightarrow> pystr" where
  "dec n = (if n < 10 then [48 + n] else dec (n div 10) @ [48 + n mod 10])"

declare dec.simps [simp del]

definition dump_int :: "int \<Rightarrow> pystr" where
  "dump_int i = (if i < 0 then 45 # dec (nat (- i)) else dec (nat i))"

fun emit :: "json \<Rightarrow> pystr" where
  "emit JNull = lit ''null''"
| "emit (JBool b) = (if b then lit ''true'' else lit ''false'')"
| "emit (JInt i) = dump_int i"
| "emit (JFloat repr) = repr"
| "emit (JStr s) = dump_str s"
| "emit (JList xs) = 91 # join_on 44 (map emit xs) @ [93]"
| "emit (JObj kvs) = 123 # join_on 44 (map (\<lambda>kv. dump_str (fst kv) @ 58 # emit (snd kv)) kvs) @ [125]"

text \<open>\<open>sort_keys=True\<close>, applied at every level.\<close>

fun sort_keys :: "json \<Rightarrow> json" where
  "sort_keys (JList xs) = JList (map sort_keys xs)"
| "sort_keys (JObj kvs) = JObj (sort_key fst (map (\<lambda>kv. (fst kv, sort_keys (snd kv))) kvs))"
| "sort_keys v = v"

definition json_dumps :: "json \<Rightarrow> pystr" where
  "json_dumps v = emit (sort_keys v)"

definition json_sha256 :: "python \<Rightarrow> json \<Rightarrow> pystr" where
  "json_sha256 E v = sha256 E (concat (map utf8_char (json_dumps v)))"

section \<open>Reading a string back\<close>

definition unhexdigit :: "nat \<Rightarrow> nat" where
  "unhexdigit d = (if d < 58 then d - 48 else d - 87)"

definition unhex :: "pystr \<Rightarrow> nat" where
  "unhex ds = foldl (\<lambda>a d. 16 * a + unhexdigit d) 0 ds"

lemma unhexdigit_hexdigit: "n < 16 \<Longrightarrow> unhexdigit (hexdigit n) = n"
  by (auto simp: unhexdigit_def hexdigit_def)

lemma unhex_hex_fixed: "v < 16 ^ k \<Longrightarrow> unhex (hex_fixed k v) = v"
proof (induction k arbitrary: v)
  case 0
  then show ?case by (simp add: unhex_def)
next
  case (Suc k)
  have "unhex (hex_fixed (Suc k) v) = 16 * unhex (hex_fixed k (v div 16)) + v mod 16"
    by (simp add: unhex_def unhexdigit_hexdigit)
  moreover have "v div 16 < 16 ^ k" using Suc.prems by (auto simp: div_less_iff_less_mult)
  ultimately show ?case using Suc.IH by simp
qed

definition unescape_simple :: "nat \<Rightarrow> nat" where
  "unescape_simple y = (if y = 110 then 10 else if y = 114 then 13 else if y = 116 then 9
     else if y = 102 then 12 else if y = 98 then 8 else y)"

definition read_char :: "pystr \<Rightarrow> nat \<times> pystr" where
  "read_char s =
     (if hd s \<noteq> 92 then (hd s, tl s)
      else if s ! 1 \<noteq> 117 then (unescape_simple (s ! 1), drop 2 s)
      else let v = unhex (take 4 (drop 2 s))
           in if 55296 \<le> v \<and> v < 56320
              then (65536 + (v - 55296) * 1024 + (unhex (take 4 (drop 8 s)) - 56320), drop 12 s)
              else (v, drop 6 s))"

definition json_char :: "nat \<Rightarrow> bool" where
  "json_char c \<longleftrightarrow> c < 1114112 \<and> \<not> is_surrogate c"

lemma drop_hex4 [simp]: "drop 4 (hex_fixed 4 v @ r) = r" "take 4 (hex_fixed 4 v @ r) = hex_fixed 4 v"
  by simp_all

lemma read_char_escape:
  assumes "json_char c"
  shows "read_char (escape_char c @ r) = (c, r)"
proof -
  let ?short = "c = 8 \<or> c = 9 \<or> c = 10 \<or> c = 12 \<or> c = 13 \<or> (32 \<le> c \<and> c \<le> 126)"
  consider ?short | "c < 65536" "\<not> ?short" | "65536 \<le> c" by (meson not_less)
  then show ?thesis
  proof cases
    case 1
    then show ?thesis
      by (elim disjE) (simp_all add: escape_char_def read_char_def unescape_simple_def)
  next
    case 2
    then have "c \<noteq> 34" "c \<noteq> 92" by auto
    with 2 have "escape_char c = 92 # 117 # hex_fixed 4 c" by (simp add: escape_char_def)
    moreover have "unhex (hex_fixed 4 c) = c" using 2(1) by (intro unhex_hex_fixed) simp
    moreover have "\<not> (55296 \<le> c \<and> c < 56320)"
      using assms by (auto simp: json_char_def is_surrogate_def)
    ultimately show ?thesis by (simp add: read_char_def Let_def)
  next
    case 3
    let ?h = "55296 + (c - 65536) div 1024" and ?l = "56320 + (c - 65536) mod 1024"
    have bounds: "(c - 65536) div 1024 < 1024" using assms by (auto simp: json_char_def)
    have "escape_char c = 92 # 117 # hex_fixed 4 ?h @ 92 # 117 # hex_fixed 4 ?l"
      using 3 by (simp add: escape_char_def)
    moreover have "unhex (hex_fixed 4 ?h) = ?h" "unhex (hex_fixed 4 ?l) = ?l"
      using bounds mod_less_divisor [of 1024 "c - 65536"] by (intro unhex_hex_fixed; simp)+
    moreover have "drop 6 (hex_fixed 4 ?h @ 92 # 117 # hex_fixed 4 ?l @ r) = hex_fixed 4 ?l @ r"
      "drop 10 (hex_fixed 4 ?h @ 92 # 117 # hex_fixed 4 ?l @ r) = r" by simp_all
    moreover have "65536 + (c - 65536) div 1024 * 1024 + (c - 65536) mod 1024 = c" using 3 by simp
    ultimately show ?thesis using bounds by (simp add: read_char_def Let_def)
  qed
qed

lemma escape_char_unambiguous:
  assumes "json_char c" "json_char d" "escape_char c @ r = escape_char d @ s"
  shows "c = d \<and> r = s"
  using read_char_escape [OF assms(1)] read_char_escape [OF assms(2)] assms(3) by (metis prod.inject)

lemma escape_char_hd: "hd (escape_char c) \<noteq> 34" "escape_char c \<noteq> []"
  by (simp_all add: escape_char_def)

lemma escaped_unambiguous:
  assumes "\<forall>c \<in> set a. json_char c" "\<forall>c \<in> set b. json_char c"
    and "concat (map escape_char a) @ 34 # r = concat (map escape_char b) @ 34 # s"
  shows "a = b \<and> r = s"
  using assms
proof (induction a arbitrary: b)
  case Nil
  show ?case
  proof (cases b)
    case (Cons d b')
    with Nil.prems(3) have "34 # r = escape_char d @ concat (map escape_char b') @ 34 # s" by simp
    then have "hd (escape_char d @ concat (map escape_char b') @ 34 # s) = 34" by (metis list.sel(1))
    then show ?thesis using escape_char_hd [of d] by (simp add: hd_append)
  qed (use Nil in simp)
next
  case (Cons c a)
  show ?case
  proof (cases b)
    case Nil
    with Cons.prems(3) have "hd (escape_char c @ concat (map escape_char a) @ 34 # r) = 34" by simp
    then show ?thesis using escape_char_hd [of c] by (simp add: hd_append)
  next
    case b: (Cons d b')
    with Cons.prems have "c = d \<and>
        concat (map escape_char a) @ 34 # r = concat (map escape_char b') @ 34 # s"
      by (intro escape_char_unambiguous) auto
    with Cons.IH [of b'] Cons.prems b show ?thesis by simp
  qed
qed

lemma dump_str_unambiguous:
  assumes "\<forall>c \<in> set a. json_char c" "\<forall>c \<in> set b. json_char c" "dump_str a @ r = dump_str b @ s"
  shows "a = b \<and> r = s"
  using escaped_unambiguous [OF assms(1,2), of r s] assms(3) by (simp add: dump_str_def)

section \<open>Reading a number back\<close>

abbreviation is_digit :: "nat \<Rightarrow> bool" where "is_digit c \<equiv> 48 \<le> c \<and> c \<le> 57"

lemma dec_digits: "\<forall>c \<in> set (dec n). is_digit c"
proof (induction n rule: dec.induct)
  case (1 n)
  have "n mod 10 \<le> 9" by (simp add: less_Suc_eq_le [symmetric])
  with 1 show ?case by (auto simp: dec.simps [of n])
qed

lemma dec_not_Nil: "dec n \<noteq> []"
  by (simp add: dec.simps [of n])

definition undec :: "pystr \<Rightarrow> nat" where
  "undec ds = foldl (\<lambda>a d. 10 * a + (d - 48)) 0 ds"

lemma undec_dec: "undec (dec n) = n"
proof (induction n rule: dec.induct)
  case (1 n)
  then show ?case by (cases "n < 10") (auto simp: dec.simps [of n] undec_def)
qed

definition stops :: "pystr \<Rightarrow> bool" where
  "stops r \<longleftrightarrow> r = [] \<or> hd r \<in> {44, 93, 125}"

lemma takeWhile_dec: "stops r \<Longrightarrow> takeWhile is_digit (dec n @ r) = dec n"
proof -
  assume "stops r"
  then have "takeWhile is_digit r = []" by (cases r) (auto simp: stops_def)
  with dec_digits show ?thesis by (simp add: takeWhile_append2)
qed

lemma dec_unambiguous:
  assumes "stops r" "stops s" "dec m @ r = dec n @ s"
  shows "m = n \<and> r = s"
proof -
  have "dec m = dec n" using takeWhile_dec [OF assms(1), of m] takeWhile_dec [OF assms(2), of n] assms(3) by simp
  moreover from this have "m = n" by (metis undec_dec)
  ultimately show ?thesis using assms(3) by simp
qed

lemma dec_hd: "is_digit (hd (dec n))"
  using dec_digits [of n] dec_not_Nil [of n] hd_in_set by blast

lemma dump_int_unambiguous:
  assumes "stops r" "stops s" "dump_int i @ r = dump_int j @ s"
  shows "i = j \<and> r = s"
proof (cases "i < 0")
  case True
  show ?thesis
  proof (cases "j < 0")
    case True
    with \<open>i < 0\<close> assms dec_unambiguous [OF assms(1,2), of "nat (- i)" "nat (- j)"] show ?thesis
      by (auto simp: dump_int_def)
  next
    case False
    with \<open>i < 0\<close> assms(3) have "hd (dec (nat j) @ s) = 45" by (simp add: dump_int_def) (metis list.sel(1))
    with dec_hd [of "nat j"] show ?thesis by (simp add: dec_not_Nil)
  qed
next
  case False
  show ?thesis
  proof (cases "j < 0")
    case True
    with False assms(3) have "hd (dec (nat i) @ r) = 45" by (simp add: dump_int_def)
    with dec_hd [of "nat i"] show ?thesis by (simp add: dec_not_Nil)
  next
    case False
    with \<open>\<not> i < 0\<close> assms dec_unambiguous [OF assms(1,2), of "nat i" "nat j"] show ?thesis
      by (auto simp: dump_int_def)
  qed
qed

section \<open>The serialization is unambiguous\<close>

text \<open>
  The values whose serialization determines them: no float (their text is the interpreter's) and
  strings of Unicode scalar values only (a lone surrogate pair and the character it encodes share
  one escape).
\<close>

fun json_scalar :: "json \<Rightarrow> bool" where
  "json_scalar (JFloat _) = False"
| "json_scalar (JStr s) = list_all json_char s"
| "json_scalar (JList xs) = list_all json_scalar xs"
| "json_scalar (JObj kvs) = list_all (\<lambda>kv. list_all json_char (fst kv) \<and> json_scalar (snd kv)) kvs"
| "json_scalar _ = True"

definition unambiguous_at :: "('a \<Rightarrow> pystr) \<Rightarrow> ('a \<Rightarrow> bool) \<Rightarrow> 'a \<Rightarrow> bool" where
  "unambiguous_at e ok x \<longleftrightarrow>
     (\<forall>y r s. ok y \<longrightarrow> stops r \<longrightarrow> stops s \<longrightarrow> e x @ r = e y @ s \<longrightarrow> x = y \<and> r = s)"

lemma unambiguous_atD:
  "unambiguous_at e ok x \<Longrightarrow> ok y \<Longrightarrow> stops r \<Longrightarrow> stops s \<Longrightarrow> e x @ r = e y @ s \<Longrightarrow> x = y \<and> r = s"
  by (simp add: unambiguous_at_def)

lemma stops_Cons [simp]: "stops (44 # r)" "stops (93 # r)" "stops (125 # r)" "stops []"
  by (simp_all add: stops_def)

lemma not_stops_append: "\<not> stops w \<Longrightarrow> \<not> stops (w @ r)"
  by (simp add: stops_def)

text \<open>A bracketed, comma-separated list of unambiguous items is unambiguous.\<close>

lemma items_unambiguous:
  assumes "\<forall>x \<in> set xs. unambiguous_at e ok x" and "\<forall>y \<in> set ys. ok y"
    and "\<forall>x. ok x \<longrightarrow> \<not> stops (e x)" and "\<forall>x \<in> set xs. ok x" and "close = 93 \<or> close = 125"
    and "join_on 44 (map e xs) @ close # r = join_on 44 (map e ys) @ close # s"
  shows "xs = ys \<and> r = s"
  using assms
proof (induction xs arbitrary: ys)
  case Nil
  show ?case
  proof (cases ys)
    case (Cons y ys')
    then have "\<not> stops (join_on 44 (map e ys) @ close # s)"
      using Nil.prems(2,3) by (cases ys') (auto dest: not_stops_append)
    moreover have "stops (join_on 44 (map e ys) @ close # s)"
      using Nil.prems(5) Nil.prems(6) [symmetric] by auto
    ultimately show ?thesis by blast
  qed (use Nil in simp)
next
  case (Cons x xs)
  define tx where "tx = (if xs = [] then close # r else 44 # join_on 44 (map e xs) @ close # r)"
  have tx: "join_on 44 (map e (x # xs)) @ close # r = e x @ tx" "stops tx"
    using Cons.prems(5) by (auto simp: tx_def join_on_Cons)
  show ?case
  proof (cases ys)
    case Nil
    have "\<not> stops (e x @ tx)" using Cons.prems(3,4) by (auto dest: not_stops_append)
    moreover have "stops (close # s)" using Cons.prems(5) by auto
    moreover have "e x @ tx = close # s" using Cons.prems(6) tx(1) Nil by simp
    ultimately show ?thesis by metis
  next
    case ys: (Cons y ys')
    define ty where "ty = (if ys' = [] then close # s else 44 # join_on 44 (map e ys') @ close # s)"
    have ty: "join_on 44 (map e ys) @ close # s = e y @ ty" "stops ty"
      using Cons.prems(5) ys by (auto simp: ty_def join_on_Cons)
    have "x = y \<and> tx = ty"
      by (rule unambiguous_atD [of e ok]) (use Cons.prems ys tx ty in auto)
    moreover from this have "xs = [] \<longleftrightarrow> ys' = []"
      using Cons.prems(5) by (auto simp: tx_def ty_def split: if_splits)
    moreover from calculation have "xs \<noteq> [] \<Longrightarrow>
        join_on 44 (map e xs) @ close # r = join_on 44 (map e ys') @ close # s"
      by (simp add: tx_def ty_def)
    ultimately show ?thesis
      using Cons.IH [of ys'] Cons.prems ys by (cases "xs = []") (auto simp: tx_def ty_def)
  qed
qed

lemma dump_int_hd: "hd (dump_int i) = 45 \<or> is_digit (hd (dump_int i))"
  using dec_hd by (simp add: dump_int_def)

text \<open>The first character names the kind of value.\<close>

fun json_tag :: "json \<Rightarrow> nat" where
  "json_tag JNull = 0"
| "json_tag (JBool b) = (if b then 1 else 2)"
| "json_tag (JStr _) = 4"
| "json_tag (JList _) = 5"
| "json_tag (JObj _) = 6"
| "json_tag _ = 3"

definition tag_of_head :: "nat \<Rightarrow> nat" where
  "tag_of_head h = (if h = 110 then 0 else if h = 116 then 1 else if h = 102 then 2
     else if h = 34 then 4 else if h = 91 then 5 else if h = 123 then 6 else 3)"

lemma tag_of_int: "tag_of_head (hd (dump_int i)) = 3" "hd (dump_int i) \<notin> {44, 93, 125}"
  using dump_int_hd [of i] by (auto simp: tag_of_head_def)

lemma dump_int_not_Nil: "dump_int i \<noteq> []"
  by (simp add: dump_int_def dec_not_Nil)

lemma tag_of_emit: "json_scalar v \<Longrightarrow> tag_of_head (hd (emit v)) = json_tag v"
proof (cases v)
  case (JInt i)
  then show ?thesis by (simp add: tag_of_int)
qed (simp_all add: tag_of_head_def str_simps dump_str_def)

lemma emit_not_stops: "json_scalar v \<Longrightarrow> \<not> stops (emit v)"
proof (cases v)
  case (JInt i)
  then show ?thesis using tag_of_int(2) [of i] by (simp add: stops_def dump_int_not_Nil)
qed (simp_all add: stops_def str_simps dump_str_def)

lemma emit_not_Nil: "json_scalar v \<Longrightarrow> emit v \<noteq> []"
  using emit_not_stops [of v] by (auto simp: stops_def)

lemma scalar_string: "list_all json_char s \<Longrightarrow> \<forall>c \<in> set s. json_char c"
  by (simp add: list_all_iff)

lemma emit_same_constructor:
  assumes "json_scalar v" "json_scalar w" "emit v @ r = emit w @ s"
  shows "hd (emit v) = hd (emit w)"
  using assms(3) emit_not_Nil [OF assms(1)] emit_not_Nil [OF assms(2)] by (metis hd_append2)

definition emit_pair :: "pystr \<times> json \<Rightarrow> pystr" where
  "emit_pair kv = dump_str (fst kv) @ 58 # emit (snd kv)"

definition scalar_pair :: "pystr \<times> json \<Rightarrow> bool" where
  "scalar_pair kv \<longleftrightarrow> list_all json_char (fst kv) \<and> json_scalar (snd kv)"

lemma emit_pair_unambiguous:
  assumes "scalar_pair kv" and "unambiguous_at emit json_scalar (snd kv)"
  shows "unambiguous_at emit_pair scalar_pair kv"
  unfolding unambiguous_at_def
proof (intro allI impI)
  fix y r s assume y: "scalar_pair y" and rs: "stops r" "stops s" and eq: "emit_pair kv @ r = emit_pair y @ s"
  have "fst kv = fst y \<and> 58 # emit (snd kv) @ r = 58 # emit (snd y) @ s"
    by (rule dump_str_unambiguous) (use assms(1) y eq in \<open>auto simp: scalar_pair_def emit_pair_def list_all_iff\<close>)
  with unambiguous_atD [OF assms(2) _ rs, of "snd y"] y show "kv = y \<and> r = s"
    by (simp add: scalar_pair_def prod_eq_iff)
qed

lemma emit_pair_not_stops: "\<not> stops (emit_pair kv)"
  by (simp add: emit_pair_def dump_str_def stops_def)

lemma emit_JObj: "emit (JObj kvs) = 123 # join_on 44 (map emit_pair kvs) @ [125]"
  by (simp add: emit_pair_def [abs_def])

lemma json_scalar_JObj: "json_scalar (JObj kvs) \<longleftrightarrow> list_all scalar_pair kvs"
  by (simp add: scalar_pair_def [abs_def])

lemma emit_same_tag:
  assumes "json_scalar v" "json_scalar w" "emit v @ r = emit w @ s"
  shows "json_tag v = json_tag w"
  using emit_same_constructor [OF assms] tag_of_emit [OF assms(1)] tag_of_emit [OF assms(2)] by simp

lemma emit_unambiguous: "json_scalar v \<Longrightarrow> unambiguous_at emit json_scalar v"
proof (induction v)
  case (JList xs)
  have xs: "\<forall>x \<in> set xs. unambiguous_at emit json_scalar x" "\<forall>x \<in> set xs. json_scalar x"
    using JList by (auto simp: list_all_iff)
  show ?case
    unfolding unambiguous_at_def
  proof (intro allI impI)
    fix y r s assume y: "json_scalar y" and eq: "emit (JList xs) @ r = emit y @ s"
    then have "json_tag y = 5" using emit_same_tag [OF JList.prems y eq] by simp
    then obtain ys where ys: "y = JList ys" by (cases y) (auto split: if_splits)
    have "xs = ys \<and> r = s"
      by (rule items_unambiguous [OF xs(1)])
         (use xs(2) y eq emit_not_stops ys in \<open>auto simp: list_all_iff\<close>)
    with ys show "JList xs = y \<and> r = s" by simp
  qed
next
  case (JObj kvs)
  have kvs: "\<forall>kv \<in> set kvs. scalar_pair kv" using JObj.prems by (simp only: json_scalar_JObj list_all_iff)
  then have amb: "\<forall>kv \<in> set kvs. unambiguous_at emit_pair scalar_pair kv"
    using JObj.IH by (fastforce intro: emit_pair_unambiguous simp: scalar_pair_def)
  show ?case
    unfolding unambiguous_at_def
  proof (intro allI impI)
    fix y r s assume y: "json_scalar y" and eq: "emit (JObj kvs) @ r = emit y @ s"
    then have "json_tag y = 6" using emit_same_tag [OF JObj.prems y eq] by simp
    then obtain ys where ys: "y = JObj ys" by (cases y) (auto split: if_splits)
    have ok: "\<forall>kv \<in> set ys. scalar_pair kv" using y unfolding ys json_scalar_JObj list_all_iff .
    have "join_on 44 (map emit_pair kvs) @ 125 # r = join_on 44 (map emit_pair ys) @ 125 # s"
      using eq unfolding ys emit_JObj by simp
    then have "kvs = ys \<and> r = s"
      using items_unambiguous [OF amb ok, of 125 r s] kvs emit_pair_not_stops by simp
    with ys show "JObj kvs = y \<and> r = s" by simp
  qed
next
  case (JInt i)
  show ?case
    unfolding unambiguous_at_def
  proof (intro allI impI)
    fix y r s assume y: "json_scalar y" and rs: "stops r" "stops s" and eq: "emit (JInt i) @ r = emit y @ s"
    then have "json_tag y = 3" using emit_same_tag [OF JInt.prems y eq] by simp
    with y obtain j where "y = JInt j" by (cases y) (auto split: if_splits)
    with dump_int_unambiguous [OF rs, of i j] eq show "JInt i = y \<and> r = s" by simp
  qed
next
  case (JStr t)
  show ?case
    unfolding unambiguous_at_def
  proof (intro allI impI)
    fix y r s assume y: "json_scalar y" and eq: "emit (JStr t) @ r = emit y @ s"
    then have "json_tag y = 4" using emit_same_tag [OF JStr.prems y eq] by simp
    then obtain u where "y = JStr u" by (cases y) (auto split: if_splits)
    with dump_str_unambiguous [of t u r s] JStr.prems y eq show "JStr t = y \<and> r = s"
      by (simp add: list_all_iff)
  qed
next
  case (JBool b)
  show ?case
    unfolding unambiguous_at_def
  proof (intro allI impI)
    fix y r s assume y: "json_scalar y" and eq: "emit (JBool b) @ r = emit y @ s"
    have "json_tag y = (if b then 1 else 2)" using emit_same_tag [OF JBool.prems y eq] by simp
    then have "y = JBool b" by (cases y) (auto split: if_splits)
    with eq show "JBool b = y \<and> r = s" by simp
  qed
next
  case JNull
  show ?case
    unfolding unambiguous_at_def
  proof (intro allI impI)
    fix y r s assume y: "json_scalar y" and eq: "emit JNull @ r = emit y @ s"
    have "json_tag y = 0" using emit_same_tag [OF _ y eq] by simp
    then have "y = JNull" by (cases y) (auto split: if_splits)
    with eq show "JNull = y \<and> r = s" by simp
  qed
qed simp

lemma emit_inject: "json_scalar v \<Longrightarrow> json_scalar w \<Longrightarrow> emit v = emit w \<Longrightarrow> v = w"
  using unambiguous_atD [OF emit_unambiguous, of v w "[]" "[]"] by simp

section \<open>The serialization is ASCII\<close>

lemma hexdigit_ascii: "n < 16 \<Longrightarrow> hexdigit n < 128"
  by (simp add: hexdigit_def)

lemma hex_fixed_ascii: "c \<in> set (hex_fixed k v) \<Longrightarrow> c < 128"
proof (induction k arbitrary: v)
  case (Suc k)
  have "hexdigit (v mod 16) < 128" by (rule hexdigit_ascii) simp
  with Suc show ?case by auto
qed simp

lemma escape_char_ascii: "x \<in> set (escape_char c) \<Longrightarrow> x < 128"
  using hex_fixed_ascii by (fastforce simp: escape_char_def split: if_splits)

lemma dump_str_ascii: "x \<in> set (dump_str s) \<Longrightarrow> x < 128"
  using escape_char_ascii by (auto simp: dump_str_def)

lemma dump_int_ascii: "x \<in> set (dump_int i) \<Longrightarrow> x < 128"
  using dec_digits by (fastforce simp: dump_int_def split: if_splits)

lemma join_on_bound:
  assumes "x \<in> set (join_on c ss)" and "c < 128" and "\<And>s y. s \<in> set ss \<Longrightarrow> y \<in> set s \<Longrightarrow> y < 128"
  shows "x < (128 :: nat)"
  using assms set_join_on [of c ss] by blast

lemma emit_ascii: "json_scalar v \<Longrightarrow> x \<in> set (emit v) \<Longrightarrow> x < 128"
proof (induction v arbitrary: x)
  case (JList xs)
  then have "x = 91 \<or> x = 93 \<or> x \<in> set (join_on 44 (map emit xs))" by auto
  then show ?case
    by (elim disjE) (use JList in \<open>auto simp: list_all_iff elim!: join_on_bound\<close>)
next
  case (JObj kvs)
  have pair: "y < 128" if "kv \<in> set kvs" "y \<in> set (emit_pair kv)" for kv y
  proof -
    have "snd kv \<in> Basic_BNFs.snds kv" by (metis prod.collapse snds.intros)
    moreover have "json_scalar (snd kv)" using that(1) JObj.prems(1) by (simp add: list_all_iff)
    ultimately have "z < 128" if "z \<in> set (emit (snd kv))" for z
      using JObj.IH [OF \<open>kv \<in> set kvs\<close>] that by blast
    with that(2) dump_str_ascii show ?thesis by (auto simp: emit_pair_def)
  qed
  have "x = 123 \<or> x = 125 \<or> x \<in> set (join_on 44 (map emit_pair kvs))"
    using JObj.prems(2) unfolding emit_JObj by auto
  then show ?case by (elim disjE) (use pair in \<open>auto elim!: join_on_bound\<close>)
qed (auto simp: str_simps dump_int_ascii dump_str_ascii split: if_splits)

section \<open>Content addresses\<close>

lemma sort_keys_scalar: "json_scalar v \<Longrightarrow> json_scalar (sort_keys v)"
proof (induction v)
  case (JObj kvs)
  have "list_all json_char (fst kv) \<and> json_scalar (sort_keys (snd kv))" if "kv \<in> set kvs" for kv
  proof -
    have "snd kv \<in> Basic_BNFs.snds kv" by (metis prod.collapse snds.intros)
    with JObj.IH [OF that] JObj.prems that show ?thesis by (auto simp: list_all_iff)
  qed
  then show ?case by (simp add: list_all_iff)
qed (auto simp: list_all_iff)

lemma ascii_bytes_inject:
  assumes "\<forall>x \<in> set a. x < 128" "\<forall>x \<in> set b. x < 128"
    and "concat (map utf8_char a) = concat (map utf8_char b)"
  shows "a = b"
proof -
  have inj: "inj_on (of_nat :: nat \<Rightarrow> 8 word) {x. x < 128}"
  proof (rule inj_onI)
    fix x y :: nat assume "x \<in> {x. x < 128}" "y \<in> {x. x < 128}" "(of_nat x :: 8 word) = of_nat y"
    then have "take_bit 8 x = x" "take_bit 8 y = y" "unat (of_nat x :: 8 word) = unat (of_nat y :: 8 word)"
      by (simp_all add: take_bit_nat_eq_self)
    then show "x = y" by (simp add: unsigned_of_nat)
  qed
  have "map (of_nat :: nat \<Rightarrow> 8 word) a = map of_nat b"
    using assms by (simp add: utf8_ascii)
  then show ?thesis
    by (rule map_inj_on) (rule inj_on_subset [OF inj], use assms in auto)
qed

definition json_bytes :: "json \<Rightarrow> bytes" where
  "json_bytes v = concat (map utf8_char (json_dumps v))"

lemma json_bytes_inject:
  assumes "json_scalar v" "json_scalar w" "json_bytes v = json_bytes w"
  shows "sort_keys v = sort_keys w"
proof -
  have "json_dumps v = json_dumps w"
    using assms emit_ascii [OF sort_keys_scalar] unfolding json_bytes_def json_dumps_def
    by (intro ascii_bytes_inject) auto
  then show ?thesis
    using emit_inject sort_keys_scalar assms(1,2) unfolding json_dumps_def by blast
qed

text \<open>
  The one thing asked of SHA-256: no collision between the two inputs at hand.  Stated per pair,
  because no function into 64 characters is injective.
\<close>

definition collision_free :: "python \<Rightarrow> bytes \<Rightarrow> bytes \<Rightarrow> bool" where
  "collision_free E x y \<longleftrightarrow> (sha256 E x = sha256 E y \<longrightarrow> x = y)"

definition sha_laws :: "python \<Rightarrow> bool" where
  "sha_laws E \<longleftrightarrow> (\<forall>b. is_hex_digest (sha256 E b))"

lemma ascii_sha_laws [simp]: "sha_laws ascii_python"
  by (simp add: sha_laws_def is_hex_digest_def ascii_python_def list_all_iff)

text \<open>
  The contract of a content address: values that are serialized as JSON, and can be recovered from
  it up to the order of object keys.  Both digests of a revision are instances.
\<close>

locale content_address =
  fixes payload :: "'a \<Rightarrow> json"
    and wf :: "'a \<Rightarrow> bool"
  assumes scalar: "wf a \<Longrightarrow> json_scalar (payload a)"
    and recover: "wf a \<Longrightarrow> wf b \<Longrightarrow> sort_keys (payload a) = sort_keys (payload b) \<Longrightarrow> a = b"
begin

lemma digest_determines:
  assumes "wf a" "wf b" "collision_free E (json_bytes (payload a)) (json_bytes (payload b))"
    and "json_sha256 E (payload a) = json_sha256 E (payload b)"
  shows "a = b"
proof -
  have "json_bytes (payload a) = json_bytes (payload b)"
    using assms(3,4) by (simp add: collision_free_def json_sha256_def json_bytes_def)
  then show ?thesis using json_bytes_inject scalar recover assms(1,2) by blast
qed

lemma digest_distinguishes:
  "wf a \<Longrightarrow> wf b \<Longrightarrow> collision_free E (json_bytes (payload a)) (json_bytes (payload b)) \<Longrightarrow> a \<noteq> b \<Longrightarrow>
    json_sha256 E (payload a) \<noteq> json_sha256 E (payload b)"
  using digest_determines by blast

end

end
