(* ===== verification/Manifest.thy ===== *)
theory Manifest
  imports Canonical_Json
begin

text \<open>
  storage/manifest.py: building a manifest from a source mapping with every content problem as an
  error record, the digest that addresses it, and the return trip that checks a persisted manifest
  before any of its paths is used.
\<close>

section \<open>Building\<close>

record entry =
  e_path :: pystr
  e_size :: nat
  e_sha :: pystr

record storage_limits =
  max_file_size :: nat
  max_project_size :: nat
  max_file_count :: nat

text \<open>An error record is its path (None for a project-wide one) and its code.\<close>

type_synonym error_record = "pystr option \<times> string"

definition build_entry :: "python \<Rightarrow> pystr \<Rightarrow> bytes \<Rightarrow> nat \<Rightarrow> entry result" where
  "build_entry E canonical content max_size =
     (if length content > max_size then Inl (LimitExceeded canonical ''file_too_large'')
      else Inr \<lparr>e_path = canonical, e_size = length content, e_sha = sha256 E content\<rparr>)"

text \<open>One turn of the loop over the sorted source mapping; the state is (entries, errors, seen).\<close>

definition build_step ::
    "python \<Rightarrow> storage_limits \<Rightarrow> pystr \<times> bytes \<Rightarrow> entry list \<times> error_record list \<times> pystr list \<Rightarrow>
     (entry list \<times> error_record list \<times> pystr list) result" where
  "build_step E limits file st =
     (case st of (entries, errors, seen) \<Rightarrow>
        case normalize_source_path E (fst file) of
          Inl (UnsafePath p code) \<Rightarrow> Inr (entries, errors @ [(Some p, code)], seen)
        | Inl e \<Rightarrow> Inl e
        | Inr canonical \<Rightarrow>
            if canonical \<in> set seen
            then Inr (entries, errors @ [(Some (fst file), ''duplicate_path'')], seen)
            else (case build_entry E canonical (snd file) (max_file_size limits) of
                    Inl (LimitExceeded p code) \<Rightarrow>
                      Inr (entries, errors @ [(Some p, code)], canonical # seen)
                  | Inl e \<Rightarrow> Inl e
                  | Inr e \<Rightarrow> Inr (entries @ [e], errors, canonical # seen)))"

fun build_loop ::
    "python \<Rightarrow> storage_limits \<Rightarrow> (pystr \<times> bytes) list \<Rightarrow> entry list \<times> error_record list \<times> pystr list \<Rightarrow>
     (entry list \<times> error_record list \<times> pystr list) result" where
  "build_loop E limits [] st = Inr st"
| "build_loop E limits (f # fs) st = rbind (build_step E limits f st) (build_loop E limits fs)"

definition path_ancestors :: "pystr \<Rightarrow> pystr list" where
  "path_ancestors path =
     (let segments = split_on slash path
      in map (\<lambda>index. join_on slash (take index segments)) [1..<length segments])"

definition blocking_ancestor :: "pystr list \<Rightarrow> pystr \<Rightarrow> pystr option" where
  "blocking_ancestor files path = List.find (\<lambda>a. a \<in> set files) (path_ancestors path)"

definition reject_path_conflicts :: "python \<Rightarrow> entry list \<Rightarrow> entry list \<times> error_record list" where
  "reject_path_conflicts E entries =
     (let files = map e_path entries;
          kept = filter (\<lambda>e. blocking_ancestor files (e_path e) = None) entries;
          errors = map (\<lambda>e. (Some (e_path e), ''path_conflict''))
            (filter (\<lambda>e. blocking_ancestor files (e_path e) \<noteq> None) entries);
          collisions = case_insensitive_collisions E (map e_path kept);
          remaining = filter (\<lambda>e. map_of collisions (e_path e) = None) kept;
          folds = map (\<lambda>e. (Some (e_path e), ''case_fold_conflict''))
            (filter (\<lambda>e. map_of collisions (e_path e) \<noteq> None) kept)
      in (remaining, errors @ folds))"

definition build_manifest ::
    "python \<Rightarrow> (pystr \<times> bytes) list \<Rightarrow> storage_limits \<Rightarrow> (entry list \<times> error_record list) result" where
  "build_manifest E files limits =
     rbind (build_loop E limits (sort_key fst files) ([], [], [])) (\<lambda>(entries0, errors0, _).
       let (entries1, conflicts) = reject_path_conflicts E entries0;
           entries = sort_key e_path entries1;
           errors1 = errors0 @ conflicts;
           errors2 = errors1 @
             (if length files > max_file_count limits then [(None, ''too_many_files'')] else []);
           total = sum_list (map (\<lambda>f. length (snd f)) files);
           errors3 = errors2 @
             (if total > max_project_size limits then [(None, ''project_too_large'')] else [])
       in Inr (entries, errors3))"

section \<open>The digest\<close>

definition entry_json :: "entry \<Rightarrow> json" where
  "entry_json e = JObj [(lit ''path'', JStr (e_path e)), (lit ''size'', JInt (int (e_size e))),
                        (lit ''sha256'', JStr (e_sha e))]"

definition json_field :: "json \<Rightarrow> string \<Rightarrow> json option" where
  "json_field v key = (case v of JObj kvs \<Rightarrow> map_of kvs (lit key) | _ \<Rightarrow> None)"

definition json_text :: "json option \<Rightarrow> pystr" where
  "json_text v = (case v of Some (JStr s) \<Rightarrow> s | _ \<Rightarrow> [])"

definition json_nat :: "json option \<Rightarrow> nat" where
  "json_nat v = (case v of Some (JInt i) \<Rightarrow> nat i | _ \<Rightarrow> 0)"

text \<open>Called on entries known to be objects with a text path: built ones, or validated ones.\<close>

definition compute_digest :: "python \<Rightarrow> json list \<Rightarrow> pystr" where
  "compute_digest E entries =
     json_sha256 E (JList (sort_key (\<lambda>e. json_text (json_field e ''path'')) entries))"

section \<open>The return trip\<close>

definition validate_manifest_entry ::
    "python \<Rightarrow> nat \<Rightarrow> json \<Rightarrow> pystr list \<Rightarrow> (reason list \<times> pystr list) result" where
  "validate_manifest_entry E index entry paths =
     (case entry of
        JObj kvs \<Rightarrow>
          (let missing = filter (\<lambda>field. map_of kvs (lit field) = None) [''path'', ''size'', ''sha256'']
           in if missing \<noteq> [] then Inr ([ReasonMissing ''missing_fields'' index missing], paths)
              else case map_of kvs (lit ''path'') of
                Some (JStr path) \<Rightarrow>
                  (case normalize_source_path E path of
                     Inl (UnsafePath _ code) \<Rightarrow> Inr ([ReasonText code path], paths)
                   | Inl e \<Rightarrow> Inl e
                   | Inr canonical \<Rightarrow>
                       if canonical \<noteq> path then Inr ([ReasonText ''non_canonical_path'' path], paths)
                       else let dup = (if path \<in> set paths then [ReasonText ''duplicate_path'' path] else []);
                                size_r = (case map_of kvs (lit ''size'') of
                                    Some (JInt n) \<Rightarrow>
                                      if n < 0 then [ReasonText ''malformed_size'' path] else []
                                  | _ \<Rightarrow> [ReasonText ''malformed_size'' path]);
                                sum_r = (case map_of kvs (lit ''sha256'') of
                                    Some (JStr s) \<Rightarrow>
                                      if is_hex_digest s then [] else [ReasonText ''malformed_checksum'' path]
                                  | _ \<Rightarrow> [ReasonText ''malformed_checksum'' path])
                            in Inr (dup @ size_r @ sum_r, List.insert path paths))
              | _ \<Rightarrow> Inr ([ReasonIndex ''malformed_path'' index], paths))
      | _ \<Rightarrow> Inr ([ReasonIndex ''malformed_entry'' index], paths))"

fun validate_manifest_entries ::
    "python \<Rightarrow> nat \<Rightarrow> json list \<Rightarrow> pystr list \<Rightarrow> (reason list \<times> pystr list) result" where
  "validate_manifest_entries E index [] paths = Inr ([], paths)"
| "validate_manifest_entries E index (entry # rest) paths =
     rbind (validate_manifest_entry E index entry paths) (\<lambda>(reasons, paths').
       rbind (validate_manifest_entries E (Suc index) rest paths') (\<lambda>(more, paths'').
         Inr (reasons @ more, paths'')))"

definition conflicting_paths :: "python \<Rightarrow> pystr list \<Rightarrow> reason list" where
  "conflicting_paths E paths =
     map (ReasonText ''path_conflict'')
       (filter (\<lambda>path. list_ex (\<lambda>a. a \<in> set paths) (path_ancestors path)) (sort paths)) @
     map (ReasonText ''case_fold_conflict'')
       (sort (map fst (case_insensitive_collisions E paths)))"

definition validate_manifest :: "python \<Rightarrow> json \<Rightarrow> pystr option \<Rightarrow> unit result" where
  "validate_manifest E manifest digest =
     (case manifest of
        JList entries \<Rightarrow>
          rbind (validate_manifest_entries E 0 entries []) (\<lambda>(entry_reasons, paths).
            let reasons = entry_reasons @ conflicting_paths E paths;
                all_reasons = reasons @
                  (if digest \<noteq> None \<and> reasons = [] \<and> Some (compute_digest E entries) \<noteq> digest
                   then [Reason ''digest_mismatch''] else [])
            in if all_reasons \<noteq> [] then Inl (RevisionCorrupt all_reasons) else Inr ())
      | _ \<Rightarrow> Inl (RevisionCorrupt [Reason ''manifest_not_a_list'']))"

text \<open>What the storage layer reads off an entry of a validated manifest.\<close>

definition json_entry :: "json \<Rightarrow> entry" where
  "json_entry v = \<lparr>e_path = json_text (json_field v ''path''),
     e_size = json_nat (json_field v ''size''), e_sha = json_text (json_field v ''sha256'')\<rparr>"

definition manifest_entries :: "json \<Rightarrow> entry list" where
  "manifest_entries m = (case m of JList es \<Rightarrow> map json_entry es | _ \<Rightarrow> [])"

definition manifest_json :: "entry list \<Rightarrow> json" where
  "manifest_json es = JList (map entry_json es)"

section \<open>The build loop\<close>

definition accepts :: "python \<Rightarrow> storage_limits \<Rightarrow> pystr \<times> bytes \<Rightarrow> entry \<Rightarrow> bool" where
  "accepts E limits f e \<longleftrightarrow> normalize_source_path E (fst f) = Inr (e_path e) \<and>
     e_size e = length (snd f) \<and> e_sha e = sha256 E (snd f) \<and> length (snd f) \<le> max_file_size limits"

lemma build_step_cases:
  assumes "build_step E limits f (es, errs, seen) = Inr st'"
  obtains (rejected) p code seen' where "st' = (es, errs @ [(Some p, code)], seen')" "set seen \<subseteq> set seen'"
  | (accepted) e where "st' = (es @ [e], errs, e_path e # seen)" "e_path e \<notin> set seen" "accepts E limits f e"
proof (cases "normalize_source_path E (fst f)")
  case (Inl err)
  with assms rejected [of _ _ seen] show ?thesis by (cases err) (auto simp: build_step_def)
next
  case (Inr c)
  consider "c \<in> set seen" | "c \<notin> set seen" "max_file_size limits < length (snd f)"
    | "c \<notin> set seen" "length (snd f) \<le> max_file_size limits" by linarith
  then show ?thesis
  proof cases
    case 1
    with Inr assms rejected [of "fst f" "''duplicate_path''" seen] show ?thesis
      by (simp add: build_step_def)
  next
    case 2
    with Inr assms rejected [of c "''file_too_large''" "c # seen"] show ?thesis
      by (auto simp: build_step_def build_entry_def)
  next
    case 3
    then show ?thesis
      using Inr assms accepted [of "\<lparr>e_path = c, e_size = length (snd f), e_sha = sha256 E (snd f)\<rparr>"]
      by (simp add: build_step_def build_entry_def accepts_def)
  qed
qed

lemma build_loop_sound:
  assumes "build_loop E limits fs (es, errs, seen) = Inr (es', errs', seen')"
    and "distinct (map e_path es)" and "set (map e_path es) \<subseteq> set seen"
  shows "distinct (map e_path es') \<and> (\<exists>new. es' = es @ new \<and> (\<forall>e \<in> set new. \<exists>f \<in> set fs. accepts E limits f e)) \<and>
    (\<exists>newerrs. errs' = errs @ newerrs \<and> list_all (\<lambda>r. fst r \<noteq> None) newerrs \<and>
      length es' + length errs' = length es + length errs + length fs)"
  using assms
proof (induction fs arbitrary: es errs seen)
  case (Cons f fs)
  from Cons.prems(1) obtain st where st: "build_step E limits f (es, errs, seen) = Inr st"
      and loop: "build_loop E limits fs st = Inr (es', errs', seen')"
    by (auto simp: result_simps)
  from st show ?case
  proof (cases rule: build_step_cases)
    case (rejected p code seen1)
    with Cons.IH [of es "errs @ [(Some p, code)]" seen1] Cons.prems loop show ?thesis by fastforce
  next
    case (accepted e)
    with Cons.IH [of "es @ [e]" errs "e_path e # seen"] Cons.prems loop show ?thesis by fastforce
  qed
qed simp

lemma build_loop_clean:
  assumes "build_loop E limits fs (es, [], seen) = Inr (es', [], seen')"
  shows "\<exists>new. es' = es @ new \<and> list_all2 (accepts E limits) fs new"
  using assms
proof (induction fs arbitrary: es seen)
  case (Cons f fs)
  from Cons.prems obtain st where st: "build_step E limits f (es, [], seen) = Inr st"
      and loop: "build_loop E limits fs st = Inr (es', [], seen')"
    by (auto simp: result_simps)
  from st show ?case
  proof (cases rule: build_step_cases)
    case (rejected p code seen1)
    have "length errs \<le> length errs'" if "build_loop E limits fs (es, errs, seen1) = Inr (es', errs', seen')"
      for errs errs' using that
    proof (induction fs arbitrary: es errs seen1)
      case (Cons g gs)
      then obtain st where "build_step E limits g (es, errs, seen1) = Inr st"
          "build_loop E limits gs st = Inr (es', errs', seen')" by (auto simp: result_simps)
      then show ?case by (cases rule: build_step_cases) (use Cons.IH in fastforce)+
    qed simp
    from this [of "[(Some p, code)]" "[]"] loop rejected show ?thesis by simp
  next
    case (accepted e)
    with Cons.IH [of "es @ [e]" "e_path e # seen"] loop obtain new where
      "es' = (es @ [e]) @ new" "list_all2 (accepts E limits) fs new" by auto
    with accepted(3) show ?thesis by (intro exI [of _ "e # new"]) simp
  qed
qed simp

section \<open>Coexistence in one tree\<close>

definition coexist :: "python \<Rightarrow> pystr list \<Rightarrow> bool" where
  "coexist E paths \<longleftrightarrow>
     (\<forall>p \<in> set paths. (\<forall>a \<in> set (path_ancestors p). a \<notin> set paths) \<and> \<not> collides E paths p)"

lemma blocking_None_iff:
  "blocking_ancestor files p = None \<longleftrightarrow> (\<forall>a \<in> set (path_ancestors p). a \<notin> set files)"
  by (auto simp: blocking_ancestor_def find_None_iff)

lemma collides_mono: "collides E ps p \<Longrightarrow> set ps \<subseteq> set qs \<Longrightarrow> collides E qs p"
  unfolding collides_def by blast

lemma reject_path_conflicts_coexist:
  assumes "lower_laws E" and "reject_path_conflicts E entries = (remaining, errors)"
  shows "coexist E (map e_path remaining) \<and> set remaining \<subseteq> set entries \<and>
    length remaining + length errors = length entries \<and> list_all (\<lambda>r. fst r \<noteq> None) errors \<and>
    (distinct (map e_path entries) \<longrightarrow> distinct (map e_path remaining)) \<and>
    (errors = [] \<longrightarrow> remaining = entries)"
proof -
  define free where "free e \<longleftrightarrow> blocking_ancestor (map e_path entries) (e_path e) = None" for e :: entry
  define kept where "kept = filter free entries"
  define lone where "lone e \<longleftrightarrow> map_of (case_insensitive_collisions E (map e_path kept)) (e_path e) = None" for e :: entry
  have rem: "remaining = filter lone kept"
    and err: "errors = map (\<lambda>e. (Some (e_path e), ''path_conflict'')) (filter (\<lambda>e. \<not> free e) entries) @
      map (\<lambda>e. (Some (e_path e), ''case_fold_conflict'')) (filter (\<lambda>e. \<not> lone e) kept)"
    using assms(2) unfolding reject_path_conflicts_def Let_def free_def [symmetric]
      kept_def [symmetric] lone_def [symmetric] by simp_all
  have subset: "set remaining \<subseteq> set kept" "set kept \<subseteq> set entries" by (auto simp: rem kept_def)
  have "\<not> collides E (map e_path remaining) (e_path e)" if "e \<in> set remaining" for e
  proof
    assume "collides E (map e_path remaining) (e_path e)"
    then have "collides E (map e_path kept) (e_path e)" by (rule collides_mono) (use subset in auto)
    moreover have "e_path e \<in> set (map e_path kept)" using that subset by auto
    ultimately show False using that collisions_None_iff [OF assms(1)] by (auto simp: rem lone_def)
  qed
  moreover have "a \<notin> set (map e_path remaining)" if "e \<in> set remaining" "a \<in> set (path_ancestors (e_path e))" for e a
  proof -
    have "free e" using that(1) subset(1) unfolding kept_def by auto
    then have "a \<notin> set (map e_path entries)"
      using that(2) unfolding free_def blocking_None_iff by blast
    moreover have "set (map e_path remaining) \<subseteq> set (map e_path entries)" using subset by auto
    ultimately show ?thesis by blast
  qed
  ultimately have "coexist E (map e_path remaining)" by (auto simp: coexist_def)
  moreover have "length remaining + length errors = length entries"
    using sum_length_filter_compl [of free entries] sum_length_filter_compl [of lone kept]
    by (simp add: rem err kept_def)
  moreover have "remaining = entries" if "errors = []"
  proof -
    from that have "\<forall>e \<in> set entries. free e" "\<forall>e \<in> set kept. lone e"
      unfolding err by (simp_all add: filter_empty_conv)
    then show ?thesis unfolding rem kept_def by (simp add: filter_id_conv)
  qed
  moreover have "list_all (\<lambda>r. fst r \<noteq> None) errors" unfolding err list_all_iff by auto
  moreover have "distinct (map e_path entries) \<Longrightarrow> distinct (map e_path remaining)"
    unfolding rem kept_def by (intro distinct_map_filter)
  ultimately show ?thesis using subset by blast
qed

lemma no_collisions_iff:
  assumes "lower_laws E"
  shows "case_insensitive_collisions E paths = [] \<longleftrightarrow> (\<forall>p \<in> set paths. \<not> collides E paths p)"
proof -
  have "case_insensitive_collisions E paths = [] \<longleftrightarrow> (\<forall>p. map_of (case_insensitive_collisions E paths) p = None)"
    by (simp only: map_of_eq_empty_iff [symmetric] fun_eq_iff)
  then show ?thesis using collisions_None_iff [OF assms] by blast
qed

lemma conflicting_paths_Nil_iff:
  assumes "lower_laws E"
  shows "conflicting_paths E paths = [] \<longleftrightarrow> coexist E paths"
  using no_collisions_iff [OF assms, of paths]
  by (auto simp: conflicting_paths_def coexist_def filter_empty_conv list_ex_iff)

lemma build_manifest_Inr:
  assumes "build_manifest E files limits = Inr (entries, errors)"
  obtains es errs seen rem conf where
    "build_loop E limits (sort_key fst files) ([], [], []) = Inr (es, errs, seen)"
    "reject_path_conflicts E es = (rem, conf)" "entries = sort_key e_path rem"
    "errors = errs @ conf @ (if length files > max_file_count limits then [(None, ''too_many_files'')] else []) @
      (if sum_list (map (\<lambda>f. length (snd f)) files) > max_project_size limits
       then [(None, ''project_too_large'')] else [])"
proof -
  from assms obtain st where st: "build_loop E limits (sort_key fst files) ([], [], []) = Inr st"
      and out: "(case st of (entries0, errors0, _) \<Rightarrow>
       let (entries1, conflicts) = reject_path_conflicts E entries0;
           entries = sort_key e_path entries1;
           errors1 = errors0 @ conflicts;
           errors2 = errors1 @
             (if length files > max_file_count limits then [(None, ''too_many_files'')] else []);
           total = sum_list (map (\<lambda>f. length (snd f)) files);
           errors3 = errors2 @
             (if total > max_project_size limits then [(None, ''project_too_large'')] else [])
       in Inr (entries, errors3)) = (Inr (entries, errors) :: _ result)"
    unfolding build_manifest_def rbind_Inr_iff by blast
  obtain es errs seen where "st = (es, errs, seen)" by (cases st)
  moreover obtain rem conf where "reject_path_conflicts E es = (rem, conf)" by fastforce
  ultimately show ?thesis using st out that by (simp add: Let_def)
qed

section \<open>Validating\<close>

lemma entry_json_fields [simp]:
  "json_field (entry_json e) ''path'' = Some (JStr (e_path e))"
  "json_field (entry_json e) ''size'' = Some (JInt (int (e_size e)))"
  "json_field (entry_json e) ''sha256'' = Some (JStr (e_sha e))"
  by (simp_all add: json_field_def entry_json_def str_simps)

lemma json_entry_json [simp]: "json_entry (entry_json e) = e"
  by (simp add: json_entry_def json_text_def json_nat_def)

lemma manifest_entries_json [simp]: "manifest_entries (manifest_json es) = es"
  by (simp add: manifest_entries_def manifest_json_def comp_def)

definition sound_entry :: "python \<Rightarrow> entry \<Rightarrow> bool" where
  "sound_entry E e \<longleftrightarrow> normalize_source_path E (e_path e) = Inr (e_path e) \<and> is_hex_digest (e_sha e)"

lemma validate_entry_sound:
  "sound_entry E e \<Longrightarrow> e_path e \<notin> set paths \<Longrightarrow>
     validate_manifest_entry E i (entry_json e) paths = Inr ([], e_path e # paths)"
  by (simp add: validate_manifest_entry_def sound_entry_def entry_json_def str_simps Let_def)

lemma validate_entries_sound:
  "\<forall>e \<in> set es. sound_entry E e \<Longrightarrow> distinct (map e_path es) \<Longrightarrow> set (map e_path es) \<inter> set paths = {} \<Longrightarrow>
     validate_manifest_entries E i (map entry_json es) paths = Inr ([], rev (map e_path es) @ paths)"
  by (induction es arbitrary: i paths) (auto simp: validate_entry_sound)

text \<open>What the reasons-free outcome of one entry says about the JSON value.\<close>

definition sound_json :: "python \<Rightarrow> json \<Rightarrow> bool" where
  "sound_json E j \<longleftrightarrow> sound_entry E (json_entry j) \<and>
     json_field j ''path'' = Some (JStr (e_path (json_entry j))) \<and>
     json_field j ''size'' = Some (JInt (int (e_size (json_entry j)))) \<and>
     json_field j ''sha256'' = Some (JStr (e_sha (json_entry j)))"

lemma validate_entry_cases:
  assumes "validate_manifest_entry E i j paths = Inr ([], paths')"
  obtains kvs path where "j = JObj kvs" "map_of kvs (lit ''path'') = Some (JStr path)"
    "normalize_source_path E path = Inr path"
proof -
  from assms obtain kvs where j: "j = JObj kvs"
    by (cases j) (simp_all add: validate_manifest_entry_def)
  from assms obtain path where path: "map_of kvs (lit ''path'') = Some (JStr path)"
    unfolding validate_manifest_entry_def Let_def j
    by (cases "map_of kvs (lit ''path'')"; cases "the (map_of kvs (lit ''path''))") (simp_all split: if_splits)
  from assms have "normalize_source_path E path = Inr path"
    unfolding validate_manifest_entry_def Let_def j
    by (simp add: path split: if_splits sum.splits py_error.splits)
  with j path that show ?thesis by blast
qed

lemma validate_entry_InrD:
  assumes "validate_manifest_entry E i j paths = Inr ([], paths')"
  shows "sound_json E j \<and> e_path (json_entry j) \<notin> set paths \<and> paths' = e_path (json_entry j) # paths"
proof -
  from assms obtain kvs path where j: "j = JObj kvs" and path: "map_of kvs (lit ''path'') = Some (JStr path)"
      and norm: "normalize_source_path E path = Inr path"
    by (rule validate_entry_cases)
  from assms have rest: "path \<notin> set paths" "paths' = path # paths"
      "(case map_of kvs (lit ''size'') of Some (JInt n) \<Rightarrow> if n < 0 then [ReasonText ''malformed_size'' path] else []
        | _ \<Rightarrow> [ReasonText ''malformed_size'' path]) = []"
      "(case map_of kvs (lit ''sha256'') of
          Some (JStr s) \<Rightarrow> if is_hex_digest s then [] else [ReasonText ''malformed_checksum'' path]
        | _ \<Rightarrow> [ReasonText ''malformed_checksum'' path]) = []"
    unfolding validate_manifest_entry_def Let_def by (simp_all add: j path norm split: if_splits)
  from rest(3) obtain n where n: "map_of kvs (lit ''size'') = Some (JInt n)" "0 \<le> n"
    by (auto split: option.splits json.splits if_splits)
  from rest(4) obtain s where s: "map_of kvs (lit ''sha256'') = Some (JStr s)" "is_hex_digest s"
    by (auto split: option.splits json.splits if_splits)
  have "json_entry j = \<lparr>e_path = path, e_size = nat n, e_sha = s\<rparr>"
    using j path n s by (simp add: json_entry_def json_field_def json_text_def json_nat_def)
  with j path norm n s rest(1,2) show ?thesis
    by (simp add: sound_json_def sound_entry_def json_field_def)
qed

lemma validate_entries_InrD:
  assumes "validate_manifest_entries E i js paths = Inr ([], paths')"
  shows "list_all (sound_json E) js \<and> paths' = rev (map (\<lambda>j. e_path (json_entry j)) js) @ paths \<and>
    (distinct paths \<longrightarrow> distinct paths') \<and> set (map (\<lambda>j. e_path (json_entry j)) js) \<inter> set paths = {}"
  using assms
proof (induction js arbitrary: i paths)
  case (Cons j js)
  from Cons.prems obtain p1 where one: "validate_manifest_entry E i j paths = Inr ([], p1)"
      and rest: "validate_manifest_entries E (Suc i) js p1 = Inr ([], paths')"
    by (auto simp: result_simps)
  from validate_entry_InrD [OF one] have p1: "sound_json E j" "e_path (json_entry j) \<notin> set paths"
      "p1 = e_path (json_entry j) # paths" by simp_all
  from Cons.IH [OF rest] show ?case unfolding p1(3) using p1(1,2) by auto
qed simp

lemma validate_manifest_InrD:
  assumes "validate_manifest E m d = Inr u"
  obtains js where "m = JList js" "list_all (sound_json E) js"
    "distinct (map e_path (manifest_entries m))" "\<forall>h. d = Some h \<longrightarrow> compute_digest E js = h"
    "conflicting_paths E (rev (map e_path (manifest_entries m))) = []"
proof -
  from assms obtain js where m: "m = JList js" by (cases m) (auto simp: validate_manifest_def)
  with assms obtain reasons paths where v: "validate_manifest_entries E 0 js [] = Inr (reasons, paths)"
      and conf: "reasons = []" "conflicting_paths E paths = []"
      and dig: "\<forall>h. d = Some h \<longrightarrow> compute_digest E js = h"
    by (auto simp: validate_manifest_def result_simps Let_def split: if_splits)
  from validate_entries_InrD [OF v [unfolded conf(1)]] have
    js: "list_all (sound_json E) js" and paths: "paths = rev (map (\<lambda>j. e_path (json_entry j)) js)" "distinct paths"
    by auto
  have es: "map e_path (manifest_entries m) = map (\<lambda>j. e_path (json_entry j)) js"
    by (simp add: m manifest_entries_def)
  from paths have "distinct (map e_path (manifest_entries m))" unfolding es by (metis distinct_rev)
  moreover have "conflicting_paths E (rev (map e_path (manifest_entries m))) = []"
    using conf(2) unfolding es paths(1) .
  ultimately show ?thesis using m js dig that by blast
qed

section \<open>The manifest digest as a content address\<close>

definition addressable :: "entry list \<Rightarrow> bool" where
  "addressable es \<longleftrightarrow> sorted (map e_path es) \<and>
     list_all (\<lambda>e. list_all json_char (e_path e) \<and> list_all json_char (e_sha e)) es"

definition manifest_payload :: "entry list \<Rightarrow> json" where
  "manifest_payload es = JList (map entry_json es)"

lemma compute_digest_payload:
  "sorted (map e_path es) \<Longrightarrow> compute_digest E (map entry_json es) = json_sha256 E (manifest_payload es)"
  by (simp add: compute_digest_def manifest_payload_def comp_def json_text_def sorted_sort_id
      sort_key_id_if_sorted)

lemma compute_digest_sort:
  "compute_digest E (map entry_json es) = json_sha256 E (JList (map entry_json (sort_key e_path es)))"
  by (simp add: compute_digest_def sort_key_map comp_def json_text_def)

lemma sort_keys_entry:
  "sort_keys (entry_json e) = JObj [(lit ''path'', JStr (e_path e)), (lit ''sha256'', JStr (e_sha e)),
     (lit ''size'', JInt (int (e_size e)))]"
  by (simp add: entry_json_def str_simps)

lemma sort_keys_entry_inject: "sort_keys (entry_json e) = sort_keys (entry_json f) \<Longrightarrow> e = f"
  by (simp add: sort_keys_entry)

lemma addressable_scalar: "addressable es \<Longrightarrow> json_scalar (manifest_payload es)"
  by (auto simp: addressable_def manifest_payload_def list_all_iff entry_json_def str_simps
      json_char_def is_surrogate_def)

interpretation manifest_address: content_address manifest_payload addressable
proof
  fix a b assume "sort_keys (manifest_payload a) = sort_keys (manifest_payload b)"
  then have "map (\<lambda>e. sort_keys (entry_json e)) a = map (\<lambda>e. sort_keys (entry_json e)) b"
    by (simp add: manifest_payload_def comp_def)
  then show "a = b"
    by (rule map_injective) (rule injI, erule sort_keys_entry_inject)
qed (rule addressable_scalar)

section \<open>Properties\<close>

lemma build_manifest_shape:
  assumes "lower_laws E" and "build_manifest E files limits = Inr (entries, errors)"
  shows "sorted (map e_path entries) \<and> distinct (map e_path entries) \<and> coexist E (map e_path entries) \<and>
    (\<forall>e \<in> set entries. \<exists>f \<in> set files. accepts E limits f e) \<and>
    length entries + length (filter (\<lambda>r. fst r \<noteq> None) errors) = length files"
proof -
  obtain es errs seen rem conf where loop: "build_loop E limits (sort_key fst files) ([], [], []) = Inr (es, errs, seen)"
    and rej: "reject_path_conflicts E es = (rem, conf)" and entries: "entries = sort_key e_path rem"
    and errors: "errors = errs @ conf @ (if length files > max_file_count limits then [(None, ''too_many_files'')] else []) @
      (if sum_list (map (\<lambda>f. length (snd f)) files) > max_project_size limits
       then [(None, ''project_too_large'')] else [])"
    using assms(2) by (rule build_manifest_Inr)
  from build_loop_sound [OF loop] have es: "distinct (map e_path es)"
      "\<forall>e \<in> set es. \<exists>f \<in> set files. accepts E limits f e" "list_all (\<lambda>r. fst r \<noteq> None) errs"
      "length es + length errs = length files" by auto
  from reject_path_conflicts_coexist [OF assms(1) rej] es(1) have rem: "coexist E (map e_path rem)"
      "set rem \<subseteq> set es" "length rem + length conf = length es" "list_all (\<lambda>r. fst r \<noteq> None) conf"
      "distinct (map e_path rem)" by auto
  have mset: "mset (map e_path entries) = mset (map e_path rem)" by (simp add: entries)
  have "coexist E (map e_path entries)"
    using rem(1) mset_eq_setD [OF mset] by (simp add: coexist_def collides_def)
  moreover have "distinct (map e_path entries)" using rem(5) mset mset_eq_imp_distinct_iff by blast
  moreover have "sorted (map e_path entries)" by (simp add: entries)
  moreover have "length (filter (\<lambda>r. fst r \<noteq> None) errors) = length errs + length conf"
    using es(3) rem(4) by (simp add: errors list_all_iff)
  moreover have "length entries = length rem" by (simp add: entries)
  moreover have "\<forall>e \<in> set entries. \<exists>f \<in> set files. accepts E limits f e"
    using es(2) rem(2) by (auto simp: entries)
  ultimately show ?thesis using es(4) rem(3) by simp
qed

lemma build_manifest_clean:
  assumes "lower_laws E" and "build_manifest E files limits = Inr (entries, [])"
  shows "\<exists>es. entries = sort_key e_path es \<and> list_all2 (accepts E limits) (sort_key fst files) es"
    and "length files \<le> max_file_count limits"
    and "sum_list (map (\<lambda>f. length (snd f)) files) \<le> max_project_size limits"
proof -
  obtain es errs seen rem conf where loop: "build_loop E limits (sort_key fst files) ([], [], []) = Inr (es, errs, seen)"
    and rej: "reject_path_conflicts E es = (rem, conf)" and entries: "entries = sort_key e_path rem"
    and errors: "[] = errs @ conf @ (if length files > max_file_count limits then [(None, ''too_many_files'')] else []) @
      (if sum_list (map (\<lambda>f. length (snd f)) files) > max_project_size limits
       then [(None, ''project_too_large'')] else [])"
    using assms(2) by (rule build_manifest_Inr)
  from errors have none: "errs = []" "conf = []"
    and "length files \<le> max_file_count limits" "sum_list (map (\<lambda>f. length (snd f)) files) \<le> max_project_size limits"
    by (auto split: if_splits)
  then show "length files \<le> max_file_count limits"
    and "sum_list (map (\<lambda>f. length (snd f)) files) \<le> max_project_size limits" by blast+
  have "rem = es" using reject_path_conflicts_coexist [OF assms(1) rej] none by blast
  moreover have "list_all2 (accepts E limits) (sort_key fst files) es"
    using build_loop_clean loop none(1) by fastforce
  ultimately show "\<exists>es. entries = sort_key e_path es \<and> list_all2 (accepts E limits) (sort_key fst files) es"
    using entries by blast
qed

lemma coexist_set: "set ps = set qs \<Longrightarrow> coexist E ps = coexist E qs"
  by (simp add: coexist_def collides_def)

lemma validate_manifest_accepts:
  assumes "lower_laws E" and "\<forall>e \<in> set es. sound_entry E e" and "distinct (map e_path es)"
    and "coexist E (map e_path es)" and "d = None \<or> d = Some (compute_digest E (map entry_json es))"
  shows "validate_manifest E (manifest_json es) d = Inr ()"
proof -
  have "validate_manifest_entries E 0 (map entry_json es) [] = Inr ([], rev (map e_path es))"
    using validate_entries_sound [of es E "[]" 0] assms(2,3) by simp
  moreover have "conflicting_paths E (rev (map e_path es)) = []"
    unfolding conflicting_paths_Nil_iff [OF assms(1)] 
    using assms(4) coexist_set [of "rev (map e_path es)" "map e_path es" E] by simp
  ultimately show ?thesis using assms(5) by (auto simp: validate_manifest_def manifest_json_def)
qed

lemma accepts_sound:
  assumes "nfc_laws E" "sha_laws E" "accepts E limits f e"
    and "strip (e_path e) = e_path e" "windows_drive (e_path e) = []"
  shows "sound_entry E e"
  using assms normalize_nfc normalize_safe_aux safe_path_accepted
  unfolding accepts_def sound_entry_def sha_laws_def by metis

text \<open>
  C3. Whatever is uploaded, the entries of a built manifest form one well-defined tree: sorted by
  path, one entry per path, each measured from one of the files under a path the policy accepts and
  within the file limit, no file below another file and no letter-case collision; and no file is
  lost, each becomes an entry or an error record of its own.
\<close>

theorem build_manifest_well_formed:
  assumes "lower_laws E" and "build_manifest E files limits = Inr (entries, errors)"
  shows "sorted (map e_path entries) \<and> distinct (map e_path entries) \<and> coexist E (map e_path entries) \<and>
    (\<forall>e \<in> set entries. safe_path E (e_path e) \<and> (\<exists>f \<in> set files. accepts E limits f e)) \<and>
    length entries + length (filter (\<lambda>r. fst r \<noteq> None) errors) = length files"
  using build_manifest_shape [OF assms] normalize_safe_aux unfolding accepts_def by metis

definition example_limits :: storage_limits where
  "example_limits = \<lparr>max_file_size = 4, max_project_size = 100, max_file_count = 10\<rparr>"

definition example_files :: "(pystr \<times> bytes) list" where
  "example_files = [(lit ''pkg/b.py'', [1, 2]), (lit ''a.py'', [3]), (lit ''../x.py'', []),
     (lit ''a.py/c.py'', []), (lit ''big.py'', [1, 2, 3, 4, 5]), (lit ''A.PY'', [])]"

theorem build_manifest_well_formed_witness:
  "\<exists>entries errors. build_manifest ascii_python example_files example_limits = Inr (entries, errors) \<and>
     map e_path entries = [lit ''pkg/b.py''] \<and> map snd errors = [''path_traversal'', ''file_too_large'',
       ''path_conflict'', ''case_fold_conflict'', ''case_fold_conflict''] \<and>
     length entries + length (filter (\<lambda>r. fst r \<noteq> None) errors) = 6"
proof -
  have "(case build_manifest ascii_python example_files example_limits of Inl _ \<Rightarrow> False
      | Inr (entries, errors) \<Rightarrow> map e_path entries = [lit ''pkg/b.py''] \<and>
          map snd errors = [''path_traversal'', ''file_too_large'', ''path_conflict'',
            ''case_fold_conflict'', ''case_fold_conflict''])" by code_simp
  then obtain entries errors where b: "build_manifest ascii_python example_files example_limits = Inr (entries, errors)"
      and c: "map e_path entries = [lit ''pkg/b.py'']" "map snd errors = [''path_traversal'', ''file_too_large'',
       ''path_conflict'', ''case_fold_conflict'', ''case_fold_conflict'']" by (auto split: sum.splits)
  from build_manifest_well_formed [OF ascii_lower_laws b]
  have "length entries + length (filter (\<lambda>r. fst r \<noteq> None) errors) = length example_files" by blast
  with b c show ?thesis by (auto simp: example_files_def)
qed

text \<open>
  A build without errors drops nothing and respects the project limits: the entries are exactly
  the files, in path order, and the file count and total size are within bounds.
\<close>

theorem build_manifest_complete:
  assumes "lower_laws E" and "build_manifest E files limits = Inr (entries, [])"
  shows "(\<exists>es. entries = sort_key e_path es \<and> list_all2 (accepts E limits) (sort_key fst files) es) \<and>
    length files \<le> max_file_count limits \<and>
    sum_list (map (\<lambda>f. length (snd f)) files) \<le> max_project_size limits"
  using build_manifest_clean [OF assms] by blast

theorem build_manifest_complete_witness:
  "\<exists>entries. build_manifest ascii_python [(lit ''b.py'', [1]), (lit ''a.py'', [2])] example_limits = Inr (entries, []) \<and>
     (2 :: nat) \<le> max_file_count example_limits"
proof -
  have "(case build_manifest ascii_python [(lit ''b.py'', [1]), (lit ''a.py'', [2])] example_limits of
      Inl _ \<Rightarrow> False | Inr (_, errors) \<Rightarrow> errors = [])" by code_simp
  then obtain entries where
    b: "build_manifest ascii_python [(lit ''b.py'', [1]), (lit ''a.py'', [2])] example_limits = Inr (entries, [])"
    by (auto split: sum.splits)
  with build_manifest_complete [OF ascii_lower_laws b] show ?thesis by auto
qed

lemma built_manifest_validates:
  assumes "nfc_laws E" "lower_laws E" "sha_laws E"
    and "build_manifest E files limits = Inr (entries, errors)"
    and "\<forall>e \<in> set entries. strip (e_path e) = e_path e \<and> windows_drive (e_path e) = []"
  shows "validate_manifest E (manifest_json entries) (Some (compute_digest E (map entry_json entries))) = Inr ()"
proof (rule validate_manifest_accepts [OF assms(2)])
  note shape = build_manifest_shape [OF assms(2,4)]
  show "\<forall>e \<in> set entries. sound_entry E e"
    using shape accepts_sound [OF assms(1,3)] assms(5) by blast
  show "distinct (map e_path entries)" "coexist E (map e_path entries)" using shape by blast+
qed simp




text \<open>
  C19. A persisted manifest that passes is safe to act on, whatever wrote the row: it is a list of
  objects with distinct canonical paths that can coexist in one tree, non-negative sizes and
  well-formed checksums, and it is the manifest its digest names.
\<close>

theorem validate_manifest_trustworthy:
  assumes "lower_laws E" and "validate_manifest E m d = Inr ()"
  shows "\<exists>js. m = JList js \<and> distinct (map e_path (manifest_entries m)) \<and>
    coexist E (map e_path (manifest_entries m)) \<and>
    list_all (\<lambda>j. sound_json E j \<and> safe_path E (e_path (json_entry j))) js \<and>
    (\<forall>h. d = Some h \<longrightarrow> compute_digest E js = h)"
proof -
  obtain js where m: "m = JList js" and sound: "list_all (sound_json E) js"
    and dist: "distinct (map e_path (manifest_entries m))" and dig: "\<forall>h. d = Some h \<longrightarrow> compute_digest E js = h"
    and conf: "conflicting_paths E (rev (map e_path (manifest_entries m))) = []"
    using assms(2) by (rule validate_manifest_InrD)
  from conf have "coexist E (map e_path (manifest_entries m))"
    unfolding conflicting_paths_Nil_iff [OF assms(1)] using 
      coexist_set [of "rev (map e_path (manifest_entries m))" "map e_path (manifest_entries m)" E] by simp
  moreover have "safe_path E (e_path (json_entry j))" if "j \<in> set js" for j
    using sound that normalize_safe_aux unfolding list_all_iff sound_json_def sound_entry_def by metis
  ultimately show ?thesis using m sound dist dig by (auto simp: list_all_iff)
qed

theorem validate_manifest_trustworthy_witness:
  "validate_manifest ascii_python (manifest_json [\<lparr>e_path = lit ''a.py'', e_size = 3, e_sha = replicate 64 48\<rparr>]) None
     = Inr () \<and>
   coexist ascii_python (map e_path (manifest_entries
     (manifest_json [\<lparr>e_path = lit ''a.py'', e_size = 3, e_sha = replicate 64 48\<rparr>])))"
proof -
  have v: "validate_manifest ascii_python
      (manifest_json [\<lparr>e_path = lit ''a.py'', e_size = 3, e_sha = replicate 64 48\<rparr>]) None = Inr ()"
    by code_simp
  with validate_manifest_trustworthy [OF ascii_lower_laws v] show ?thesis by blast
qed

text \<open>
  The digest addresses the manifest: it does not depend on the order of the entries, and two
  manifests with one digest are the same manifest unless SHA-256 collides on these two inputs.
\<close>

theorem compute_digest_addresses:
  assumes "addressable es" "addressable fs"
    and "collision_free E (json_bytes (manifest_payload es)) (json_bytes (manifest_payload fs))"
    and "mset es' = mset es" "distinct (map e_path es)"
  shows "compute_digest E (map entry_json es') = compute_digest E (map entry_json es) \<and>
    (compute_digest E (map entry_json es) = compute_digest E (map entry_json fs) \<longleftrightarrow> es = fs)"
proof
  have sorted: "sorted (map e_path es)" "sorted (map e_path fs)"
    using assms(1,2) by (simp_all add: addressable_def)
  have "sort_key e_path es' = es"
    using assms(4,5) sorted(1) by (rule sort_key_unique)
  then show "compute_digest E (map entry_json es') = compute_digest E (map entry_json es)"
    using sorted(1) by (simp add: compute_digest_sort sort_key_id_if_sorted)
  show "compute_digest E (map entry_json es) = compute_digest E (map entry_json fs) \<longleftrightarrow> es = fs"
    unfolding compute_digest_payload [OF sorted(1)] compute_digest_payload [OF sorted(2)]
    using manifest_address.digest_determines [OF assms(1-3)] by blast
qed

definition two_entries :: "entry list" where
  "two_entries = [\<lparr>e_path = lit ''a.py'', e_size = 3, e_sha = replicate 64 48\<rparr>,
     \<lparr>e_path = lit ''b.py'', e_size = 5, e_sha = replicate 64 48\<rparr>]"

text \<open>The stand-in for SHA-256 sends every input to one value, so two manifests never are collision free
  under it unless they are equal; this instance is the sum of the bytes, which tells these two apart.\<close>

definition summing_python :: python where
  "summing_python = ascii_python \<lparr>sha256 := (\<lambda>b. [sum_list (map unat b)])\<rparr>"

theorem compute_digest_addresses_witness:
  "compute_digest summing_python (map entry_json (rev two_entries)) = compute_digest summing_python (map entry_json two_entries) \<and>
   compute_digest summing_python (map entry_json two_entries) \<noteq> compute_digest summing_python (map entry_json [])"
proof -
  have a: "addressable two_entries" "addressable []" "distinct (map e_path two_entries)" by code_simp+
  have c: "collision_free summing_python (json_bytes (manifest_payload two_entries)) (json_bytes (manifest_payload []))"
    unfolding collision_free_def by code_simp
  have m: "mset (rev two_entries) = mset two_entries" by simp
  from compute_digest_addresses [OF a(1,2) c m a(3)] show ?thesis by (simp add: two_entries_def)
qed

end
