(* ===== verification/Records.thy ===== *)
theory Records
  imports Canonical_Json
begin

text \<open>
  The persisted state: the choice sets of choices.py, the status groups of constants.py, one record
  per model of models/projects.py and models/scripts.py, and the database as one table of rows per
  model, with the constraints the tables declare and the queries the services issue.
\<close>

section \<open>Equality of JSON values\<close>

text \<open>
  Python's \<open>==\<close> on what a JSONField holds: a bool is the number it is, an integral float equals the
  integer, objects compare by their fields whatever their order.  Two floats compare by their
  shortest text, which is how the model keeps a float.
\<close>

definition number_text :: "json \<Rightarrow> pystr option" where
  "number_text v =
     (case v of
        JBool b \<Rightarrow> Some (dump_int (if b then 1 else 0))
      | JInt i \<Rightarrow> Some (dump_int i)
      | JFloat s \<Rightarrow> Some (if s = lit ''-0.0'' then lit ''0''
          else if endswith s (lit ''.0'') then take (length s - 2) s else s)
      | _ \<Rightarrow> None)"

fun json_eq :: "json \<Rightarrow> json \<Rightarrow> bool" where
  "json_eq (JList xs) (JList ys) = list_all2 json_eq xs ys"
| "json_eq (JObj kvs) (JObj lvs) =
     (set (map fst kvs) = set (map fst lvs) \<and>
      list_all (\<lambda>k. case map_of lvs k of None \<Rightarrow> False | Some w \<Rightarrow>
        list_all (\<lambda>kv. fst kv = k \<and> Some (snd kv) = map_of kvs k \<longrightarrow> json_eq (snd kv) w) kvs) (map fst kvs))"
| "json_eq (JStr s) v = (v = JStr s)"
| "json_eq JNull v = (v = JNull)"
| "json_eq u v = (number_text u \<noteq> None \<and> number_text u = number_text v)"

lemma json_eq_refl [simp]: "json_eq v v"
proof (induction v)
  case (JList xs)
  then show ?case by (induction xs) auto
next
  case (JObj kvs)
  have "json_eq (snd kv) w" if "kv \<in> set kvs" "Some (snd kv) = map_of kvs (fst kv)" "map_of kvs (fst kv) = Some w" for kv w
    using JObj that by (metis option.inject prod.collapse snds.intros)
  moreover have "map_of kvs k \<noteq> None" if "k \<in> fst ` set kvs" for k
    using that by (simp add: map_of_eq_None_iff)
  ultimately show ?case by (fastforce simp: list_all_iff split: option.splits)
qed (simp_all add: number_text_def)

section \<open>Choices and status groups\<close>

datatype source_type = UPLOAD | DATA_SOURCE

datatype activation_policy = MANUAL | AUTOMATIC_IF_VALID

datatype discovery_status = PENDING | DISCOVERED | NO_SCRIPTS | FAILED

datatype revision_status =
  STAGING | MATERIALIZED | STORAGE_FAILED | VALIDATING | VALID | INVALID | ACTIVE | RETIRED

definition ACTIVATABLE_REVISION_STATUSES :: "revision_status list" where
  "ACTIVATABLE_REVISION_STATUSES = [VALID, RETIRED]"

definition STORED_REVISION_STATUSES :: "revision_status list" where
  "STORED_REVISION_STATUSES = [MATERIALIZED, VALID, ACTIVE, RETIRED]"

definition PENDING_VERDICT_REVISION_STATUSES :: "revision_status list" where
  "PENDING_VERDICT_REVISION_STATUSES = [STAGING, MATERIALIZED, VALIDATING]"

definition RETRYABLE_REVISION_STATUSES :: "revision_status list" where
  "RETRYABLE_REVISION_STATUSES = [STAGING, STORAGE_FAILED]"

definition UNSTORED_REVISION_STATUSES :: "revision_status list" where
  "UNSTORED_REVISION_STATUSES = [STAGING, STORAGE_FAILED]"

lemmas status_groups = ACTIVATABLE_REVISION_STATUSES_def STORED_REVISION_STATUSES_def
  PENDING_VERDICT_REVISION_STATUSES_def RETRYABLE_REVISION_STATUSES_def UNSTORED_REVISION_STATUSES_def

definition MAX_VALIDATION_FAILURE_LENGTH :: nat where "MAX_VALIDATION_FAILURE_LENGTH = 500"
definition MAX_SCRIPT_CLASS_NAME_LENGTH :: nat where "MAX_SCRIPT_CLASS_NAME_LENGTH = 79"
definition MAX_SCRIPT_DISPLAY_NAME_LENGTH :: nat where "MAX_SCRIPT_DISPLAY_NAME_LENGTH = 255"
definition MAX_SCRIPT_MODULE_PATH_LENGTH :: nat where "MAX_SCRIPT_MODULE_PATH_LENGTH = 1000"
definition VALIDATION_LEASE_SECONDS :: nat where "VALIDATION_LEASE_SECONDS = 30 * 60"

section \<open>Rows\<close>

type_synonym pk = nat

text \<open>Time is the number of seconds since an epoch before every timestamp of the database.\<close>

type_synonym time = nat

text \<open>
  A row of \<open>validation_errors\<close>: storage names the rejected path and a code, validation the script
  file, a code and a message.
\<close>

datatype problem =
    SourceProblem "pystr option" string
  | ScriptProblem (problem_path: pystr) (problem_code: string) (problem_message: pystr)
      (problem_exception: "pystr option") (problem_traceback: "pystr option")

record script_project =
  p_id :: pk
  p_name :: pystr
  p_key :: pystr
  p_storage_key :: pystr
  p_source_type :: source_type
  p_data_source :: "pk option"
  p_data_path :: pystr
  p_activation_policy :: activation_policy
  p_active_revision :: "pk option"
  p_source_revision :: "pk option"
  p_source_activation_pending :: bool
  p_enabled :: bool

record revision =
  r_id :: pk
  r_project :: pk
  r_created :: time
  r_digest :: "pystr option"
  r_status :: revision_status
  r_manifest :: json
  r_file_count :: nat
  r_total_size :: nat
  r_validation_errors :: "problem list"
  r_discovered_scripts :: json
  r_script_file_snapshot :: json
  r_script_file_digest :: pystr
  r_validation_job :: "pk option"
  r_validation_started :: "time option"
  r_last_validation_failure :: pystr
  r_activated :: "time option"

record script_file =
  f_id :: pk
  f_project :: pk
  f_source_path :: pystr
  f_enabled :: bool
  f_discovery_status :: discovery_status
  f_discovery_error :: pystr
  f_last_discovered_revision :: "pk option"

record netbox_script =
  s_id :: pk
  s_project :: pk
  s_module_path :: pystr
  s_class_name :: pystr
  s_display_name :: pystr
  s_description :: pystr
  s_enabled :: bool
  s_commit_default_override :: "bool option"
  s_job_timeout_override :: "nat option"
  s_notifications_default_override :: pystr
  s_is_retired :: bool
  s_last_seen_revision :: "pk option"
  s_metadata :: json

text \<open>
  What the plugin takes from NetBox core and RQ: the values of JobNotificationChoices, the member
  that stands for always, and RQ's parser of timeouts.
\<close>

record netbox_core =
  notification_values :: "pystr list"
  notification_always :: pystr
  parse_timeout :: "json \<Rightarrow> json result"

record db =
  projects :: "script_project list"
  revisions :: "revision list"
  script_files :: "script_file list"
  scripts :: "netbox_script list"

text \<open>A text field that may be NULL is falsy when it is NULL or empty.\<close>

definition truthy :: "pystr option \<Rightarrow> bool" where
  "truthy d \<longleftrightarrow> d \<noteq> None \<and> d \<noteq> Some []"

section \<open>Queries\<close>

definition project_of :: "db \<Rightarrow> pk \<Rightarrow> script_project option" where
  "project_of d k = List.find (\<lambda>p. p_id p = k) (projects d)"

definition revision_of :: "db \<Rightarrow> pk \<Rightarrow> revision option" where
  "revision_of d k = List.find (\<lambda>r. r_id r = k) (revisions d)"

definition project_revisions :: "db \<Rightarrow> pk \<Rightarrow> revision list" where
  "project_revisions d p = filter (\<lambda>r. r_project r = p) (revisions d)"

definition update_rows :: "('a \<Rightarrow> bool) \<Rightarrow> ('a \<Rightarrow> 'a) \<Rightarrow> 'a list \<Rightarrow> 'a list" where
  "update_rows P f rows = map (\<lambda>r. if P r then f r else r) rows"

text \<open>\<open>order_by('-created').first()\<close>; rows created at one instant keep their table order.\<close>

fun latest :: "revision list \<Rightarrow> revision option" where
  "latest [] = None"
| "latest (r # rs) = (case latest rs of
      None \<Rightarrow> Some r
    | Some m \<Rightarrow> if r_created r < r_created m then Some m else Some r)"

lemma latest_None [simp]: "latest rs = None \<longleftrightarrow> rs = []"
  by (cases rs) (auto split: option.splits)

lemma latest_Some: "latest rs = Some m \<Longrightarrow> m \<in> set rs \<and> (\<forall>r \<in> set rs. r_created r \<le> r_created m)"
  by (induction rs arbitrary: m) (fastforce split: option.splits if_splits)+

section \<open>Table constraints\<close>

text \<open>\<open>enforce_source_ownership\<close>, \<open>unique_data_source_path\<close> and the unique columns of the project table.\<close>

definition owns_source :: "script_project \<Rightarrow> bool" where
  "owns_source p \<longleftrightarrow> (p_source_type p = UPLOAD \<and> p_data_source p = None \<and> p_data_path p = []) \<or>
     (p_source_type p = DATA_SOURCE \<and> p_data_source p \<noteq> None \<and> p_data_path p \<noteq> [])"

definition project_constraints :: "script_project list \<Rightarrow> bool" where
  "project_constraints ps \<longleftrightarrow> distinct (map p_id ps) \<and> distinct (map p_key ps) \<and>
     distinct (map p_storage_key ps) \<and> list_all owns_source ps \<and>
     distinct (map (\<lambda>p. (p_data_source p, p_data_path p)) (filter (\<lambda>p. p_source_type p = DATA_SOURCE) ps))"

text \<open>
  \<open>unique_project_digest_script_files\<close>, \<open>revision_requires_digest_unless_invalid\<close> and
  \<open>unique_active_revision_per_project\<close>.
\<close>

definition revision_constraints :: "revision list \<Rightarrow> bool" where
  "revision_constraints rs \<longleftrightarrow> distinct (map r_id rs) \<and>
     distinct (map (\<lambda>r. (r_project r, r_digest r, r_script_file_digest r)) (filter (\<lambda>r. r_digest r \<noteq> None) rs)) \<and>
     list_all (\<lambda>r. r_status r = INVALID \<or> r_digest r \<noteq> None) rs \<and>
     distinct (map r_project (filter (\<lambda>r. r_status r = ACTIVE) rs))"

text \<open>\<open>unique_project_module_class\<close> and \<open>unique_project_source_path\<close>.\<close>

definition script_constraints :: "netbox_script list \<Rightarrow> bool" where
  "script_constraints ss \<longleftrightarrow> distinct (map s_id ss) \<and>
     distinct (map (\<lambda>s. (s_project s, s_module_path s, s_class_name s)) ss)"

definition script_file_constraints :: "script_file list \<Rightarrow> bool" where
  "script_file_constraints fs \<longleftrightarrow> distinct (map f_id fs) \<and> distinct (map (\<lambda>f. (f_project f, f_source_path f)) fs)"

text \<open>PostgreSQL checks every one of these at the end of each statement.\<close>

definition write_projects :: "db \<Rightarrow> script_project list \<Rightarrow> db result" where
  "write_projects d ps = (if project_constraints ps then Inr (d\<lparr>projects := ps\<rparr>) else Inl IntegrityError)"

definition write_revisions :: "db \<Rightarrow> revision list \<Rightarrow> db result" where
  "write_revisions d rs = (if revision_constraints rs then Inr (d\<lparr>revisions := rs\<rparr>) else Inl IntegrityError)"

definition write_scripts :: "db \<Rightarrow> netbox_script list \<Rightarrow> db result" where
  "write_scripts d ss = (if script_constraints ss then Inr (d\<lparr>scripts := ss\<rparr>) else Inl IntegrityError)"

definition write_script_files :: "db \<Rightarrow> script_file list \<Rightarrow> db result" where
  "write_script_files d fs =
     (if script_file_constraints fs then Inr (d\<lparr>script_files := fs\<rparr>) else Inl IntegrityError)"

lemma write_projects_Inr [result_simps]:
  "write_projects d ps = Inr d' \<longleftrightarrow> project_constraints ps \<and> d' = d\<lparr>projects := ps\<rparr>"
  by (auto simp: write_projects_def)

lemma write_revisions_Inr [result_simps]:
  "write_revisions d rs = Inr d' \<longleftrightarrow> revision_constraints rs \<and> d' = d\<lparr>revisions := rs\<rparr>"
  by (auto simp: write_revisions_def)

lemma write_scripts_Inr [result_simps]:
  "write_scripts d ss = Inr d' \<longleftrightarrow> script_constraints ss \<and> d' = d\<lparr>scripts := ss\<rparr>"
  by (auto simp: write_scripts_def)

lemma write_script_files_Inr [result_simps]:
  "write_script_files d fs = Inr d' \<longleftrightarrow> script_file_constraints fs \<and> d' = d\<lparr>script_files := fs\<rparr>"
  by (auto simp: write_script_files_def)

section \<open>Rows by primary key\<close>

lemma revision_of_SomeD: "revision_of d k = Some r \<Longrightarrow> r \<in> set (revisions d) \<and> r_id r = k"
  unfolding revision_of_def by (rule find_SomeD)

lemma project_of_SomeD: "project_of d k = Some p \<Longrightarrow> p \<in> set (projects d) \<and> p_id p = k"
  unfolding project_of_def by (rule find_SomeD)

lemma find_distinct: "distinct (map f xs) \<Longrightarrow> x \<in> set xs \<Longrightarrow> List.find (\<lambda>y. f y = f x) xs = Some x"
  by (induction xs) (auto simp: rev_image_eqI)

lemma revision_of_member:
  "distinct (map r_id (revisions d)) \<Longrightarrow> r \<in> set (revisions d) \<Longrightarrow> revision_of d (r_id r) = Some r"
  unfolding revision_of_def by (rule find_distinct)

lemma project_of_member:
  "distinct (map p_id (projects d)) \<Longrightarrow> p \<in> set (projects d) \<Longrightarrow> project_of d (p_id p) = Some p"
  unfolding project_of_def by (rule find_distinct)

lemma find_update_rows:
  assumes "\<And>x. f (g x) = f x"
  shows "List.find (\<lambda>y. f y = k) (update_rows P g xs) =
    map_option (\<lambda>x. if P x then g x else x) (List.find (\<lambda>y. f y = k) xs)"
  using assms by (induction xs) (auto simp: update_rows_def)

lemma map_update_rows:
  assumes "\<And>x. f (g x) = f x"
  shows "map f (update_rows P g xs) = map f xs"
  using assms by (simp add: update_rows_def)

lemma set_update_rows: "set (update_rows P g xs) = (\<lambda>x. if P x then g x else x) ` set xs"
  by (simp add: update_rows_def)

text \<open>A new row takes a primary key no row of its table has.\<close>

definition fresh :: "pk list \<Rightarrow> pk" where
  "fresh ks = Suc (foldr max ks 0)"

lemma fresh_notin: "fresh ks \<notin> set ks"
proof -
  have "k \<le> foldr max ks 0" if "k \<in> set ks" for k
    using that by (induction ks) auto
  then show ?thesis by (fastforce simp: fresh_def)
qed

end
