(* ===== verification/Script_Files.thy ===== *)
theory Script_Files
  imports Manifest Source_Names Records
begin

text \<open>
  storage/script_files.py: the snapshot of enabled Script File declarations a revision freezes, the
  digest that joins the revision's identity, and the check a persisted snapshot passes before it
  decides what validation imports.
\<close>

section \<open>Building\<close>

definition EMPTY_SNAPSHOT_DIGEST :: pystr where
  "EMPTY_SNAPSHOT_DIGEST = lit ''4f53cda18c2baa0c0354bb5f9a3ecbe5ed12ab4d8e11ba873c2f11161202b945''"

definition compute_script_file_digest :: "python \<Rightarrow> json \<Rightarrow> pystr" where
  "compute_script_file_digest E snapshot = json_sha256 E snapshot"

text \<open>The dictionary of one declaration: its primary key and source path.\<close>

definition declaration_json :: "int \<times> pystr \<Rightarrow> json" where
  "declaration_json d = JObj [(lit ''script_file'', JInt (fst d)), (lit ''source_path'', JStr (snd d))]"

definition build_script_file_snapshot :: "python \<Rightarrow> script_file list \<Rightarrow> json \<times> pystr" where
  "build_script_file_snapshot E rows =
     (let snapshot = JList (sort_key (\<lambda>e. json_text (json_field e ''source_path''))
            (map (\<lambda>f. declaration_json (int (f_id f), f_source_path f)) rows))
      in (snapshot, compute_script_file_digest E snapshot))"

section \<open>The return trip\<close>

type_synonym claims = "int list \<times> pystr list \<times> (pystr \<times> pystr list) list"

text \<open>The path part of \<open>_validate_entry\<close>, after the identifier was checked.\<close>

definition validate_entry_path :: "python \<Rightarrow> nat \<Rightarrow> json \<Rightarrow> claims \<Rightarrow> (reason list \<times> claims) result" where
  "validate_entry_path E index v claims =
     (case claims of (ids, paths, claimants) \<Rightarrow>
        case v of
          JStr path \<Rightarrow>
            (case normalize_source_path E path of
               Inl (UnsafePath _ code) \<Rightarrow> Inr ([ReasonText code path], claims)
             | Inl e \<Rightarrow> Inl e
             | Inr canonical \<Rightarrow>
                 if canonical \<noteq> path then Inr ([ReasonText ''non_canonical_path'' path], claims)
                 else let named = (case source_path_to_dotted_name E path of
                            Inl _ \<Rightarrow> ([ReasonText ''unimportable_path'' path], claimants)
                          | Inr dotted \<Rightarrow> ([], add_name (dotted, path) claimants));
                          dup = (if path \<in> set paths then [ReasonText ''duplicate_path'' path] else [])
                      in Inr (fst named @ dup, ids, List.insert path paths, snd named))
        | _ \<Rightarrow> Inr ([ReasonIndex ''malformed_path'' index], claims))"

definition validate_entry :: "python \<Rightarrow> nat \<Rightarrow> json \<Rightarrow> claims \<Rightarrow> (reason list \<times> claims) result" where
  "validate_entry E index entry claims =
     (case entry of
        JObj kvs \<Rightarrow>
          (let missing = filter (\<lambda>k. map_of kvs (lit k) = None) [''script_file'', ''source_path''];
               unexpected = sort (remdups (filter (\<lambda>k. k \<notin> {lit ''script_file'', lit ''source_path''}) (map fst kvs)))
           in if missing \<noteq> [] then Inr ([ReasonMissing ''missing_fields'' index missing], claims)
              else if unexpected \<noteq> [] then Inr ([ReasonUnexpected ''unexpected_fields'' index unexpected], claims)
              else case claims of (ids, paths, claimants) \<Rightarrow>
                let (id_reasons, ids') = (case the (map_of kvs (lit ''script_file'')) of
                      JInt n \<Rightarrow> if n < 1 then ([ReasonIndex ''malformed_script_file_id'' index], ids)
                               else (if n \<in> set ids then [ReasonId ''duplicate_script_file'' n] else [],
                                     List.insert n ids)
                    | _ \<Rightarrow> ([ReasonIndex ''malformed_script_file_id'' index], ids))
                in rbind (validate_entry_path E index (the (map_of kvs (lit ''source_path''))) (ids', paths, claimants))
                     (\<lambda>(path_reasons, claims'). Inr (id_reasons @ path_reasons, claims')))
      | _ \<Rightarrow> Inr ([ReasonIndex ''malformed_entry'' index], claims))"

text \<open>The loop over the entries; \<open>previous\<close> is the path of the last sound entry.\<close>

fun validate_entries ::
    "python \<Rightarrow> nat \<Rightarrow> json list \<Rightarrow> claims \<Rightarrow> pystr option \<Rightarrow> (reason list \<times> claims) result" where
  "validate_entries E index [] claims previous = Inr ([], claims)"
| "validate_entries E index (entry # rest) claims previous =
     rbind (validate_entry E index entry claims) (\<lambda>(reasons, claims').
       if reasons \<noteq> []
       then rbind (validate_entries E (Suc index) rest claims' previous) (\<lambda>(more, claims'').
              Inr (reasons @ more, claims''))
       else let path = json_text (json_field entry ''source_path'');
                unsorted = (case previous of None \<Rightarrow> []
                  | Some p \<Rightarrow> if path < p then [ReasonText ''unsorted_entry'' path] else [])
            in rbind (validate_entries E (Suc index) rest claims' (Some path)) (\<lambda>(more, claims'').
                 Inr (unsorted @ more, claims'')))"

definition shared_names :: "(pystr \<times> pystr list) list \<Rightarrow> reason list" where
  "shared_names claimants = concat (map (\<lambda>dotted.
     if length (names_of claimants dotted) > 1
     then map (ReasonText ''duplicate_module_name'') (sort (names_of claimants dotted)) else [])
     (sort (map fst claimants)))"

definition validate_script_file_snapshot :: "python \<Rightarrow> json \<Rightarrow> pystr \<Rightarrow> json list result" where
  "validate_script_file_snapshot E snapshot script_file_digest =
     (case snapshot of
        JList entries \<Rightarrow>
          rbind (validate_entries E 0 entries ([], [], []) None) (\<lambda>(reasons0, ids, paths, claimants).
            let reasons1 = reasons0 @
                  map (ReasonText ''case_fold_conflict'') (sort (map fst (case_insensitive_collisions E paths))) @
                  shared_names claimants;
                reasons = reasons1 @
                  (if reasons1 = [] \<and> compute_script_file_digest E snapshot \<noteq> script_file_digest
                   then [Reason ''script_file_digest_mismatch''] else [])
            in if reasons \<noteq> [] then Inl (RevisionCorrupt reasons) else Inr entries)
      | _ \<Rightarrow> Inl (RevisionCorrupt [Reason ''snapshot_not_a_list'']))"

section \<open>What a sound snapshot is\<close>

text \<open>One declaration that can be executed: a primary key and a canonical, importable path.\<close>

definition sound_declaration :: "python \<Rightarrow> int \<times> pystr \<Rightarrow> bool" where
  "sound_declaration E d \<longleftrightarrow> 1 \<le> fst d \<and> normalize_source_path E (snd d) = Inr (snd d) \<and>
     is_ok (source_path_to_dotted_name E (snd d))"

definition dotted_of :: "python \<Rightarrow> pystr \<Rightarrow> pystr" where
  "dotted_of E path = (case source_path_to_dotted_name E path of Inr n \<Rightarrow> n | Inl _ \<Rightarrow> [])"

definition sound_snapshot :: "python \<Rightarrow> (int \<times> pystr) list \<Rightarrow> bool" where
  "sound_snapshot E ds \<longleftrightarrow> (\<forall>d \<in> set ds. sound_declaration E d) \<and> distinct (map fst ds) \<and>
     sorted (map snd ds) \<and> distinct (map snd ds) \<and> distinct (map (\<lambda>d. dotted_of E (snd d)) ds) \<and>
     (\<forall>d \<in> set ds. \<not> collides E (map snd ds) (snd d))"

text \<open>Two JSON objects with the same fields are the same dictionary.\<close>

definition same_declaration :: "json \<Rightarrow> int \<times> pystr \<Rightarrow> bool" where
  "same_declaration j d \<longleftrightarrow> (\<exists>kvs. j = JObj kvs \<and> map_of kvs = map_of [(lit ''script_file'', JInt (fst d)),
     (lit ''source_path'', JStr (snd d))])"

definition read_declaration :: "json \<Rightarrow> int \<times> pystr" where
  "read_declaration j = (case json_field j ''script_file'' of Some (JInt n) \<Rightarrow> n | _ \<Rightarrow> 0,
     json_text (json_field j ''source_path''))"

lemma lit_keys [simp]: "lit ''script_file'' \<noteq> lit ''source_path''" "lit ''source_path'' \<noteq> lit ''script_file''"
  by (auto dest: inj_lit)

lemma declaration_json_fields [simp]:
  "json_field (declaration_json d) ''script_file'' = Some (JInt (fst d))"
  "json_field (declaration_json d) ''source_path'' = Some (JStr (snd d))"
  by (simp_all add: json_field_def declaration_json_def)

lemma read_declaration_json [simp]: "read_declaration (declaration_json d) = d"
  by (simp add: read_declaration_def json_text_def)

definition claim :: "python \<Rightarrow> int \<times> pystr \<Rightarrow> claims \<Rightarrow> claims" where
  "claim E d c = (case c of (ids, paths, claimants) \<Rightarrow>
     (List.insert (fst d) ids, List.insert (snd d) paths, add_name (dotted_of E (snd d), snd d) claimants))"

lemma same_declarationI:
  assumes "map_of kvs (lit ''script_file'') = Some (JInt n)" "map_of kvs (lit ''source_path'') = Some (JStr p)"
    and "filter (\<lambda>k. k \<notin> {lit ''script_file'', lit ''source_path''}) (map fst kvs) = []"
  shows "map_of kvs = map_of [(lit ''script_file'', JInt n), (lit ''source_path'', JStr p)]"
proof
  fix k
  show "map_of kvs k = map_of [(lit ''script_file'', JInt n), (lit ''source_path'', JStr p)] k"
  proof (cases "k \<in> {lit ''script_file'', lit ''source_path''}")
    case False
    with assms(3) have "k \<notin> fst ` set kvs" by (auto simp: filter_empty_conv)
    then have "map_of kvs k = None" by (simp add: map_of_eq_None_iff)
    with False show ?thesis by simp
  qed (use assms in auto)
qed

lemma same_declaration_keys:
  assumes "map_of kvs = map_of [(lit ''script_file'', a), (lit ''source_path'', b)]"
  shows "filter (\<lambda>k. k \<notin> {lit ''script_file'', lit ''source_path''}) (map fst kvs) = []"
proof -
  have "fst ` set kvs = fst ` set [(lit ''script_file'', a), (lit ''source_path'', b)]"
    unfolding dom_map_of_conv_image_fst [symmetric] assms ..
  then show ?thesis by (auto simp: filter_empty_conv)
qed

lemma validate_entry_iff:
  "validate_entry E i j (ids, paths, cl) = Inr ([], c') \<longleftrightarrow>
     same_declaration j (read_declaration j) \<and> sound_declaration E (read_declaration j) \<and>
     fst (read_declaration j) \<notin> set ids \<and> snd (read_declaration j) \<notin> set paths \<and>
     c' = claim E (read_declaration j) (ids, paths, cl)" (is "?L \<longleftrightarrow> ?R")
proof
  assume ?R
  then obtain kvs where j: "j = JObj kvs"
      and kvs: "map_of kvs = map_of [(lit ''script_file'', JInt (fst (read_declaration j))),
        (lit ''source_path'', JStr (snd (read_declaration j)))]"
    by (auto simp: same_declaration_def)
  obtain n where "source_path_to_dotted_name E (snd (read_declaration j)) = Inr n"
    using \<open>?R\<close> by (auto simp: sound_declaration_def is_ok_iff)
  with \<open>?R\<close> same_declaration_keys [OF kvs] kvs show ?L
    by (simp add: j validate_entry_def validate_entry_path_def sound_declaration_def claim_def dotted_of_def Let_def)
next
  assume L: ?L
  then obtain kvs where j: "j = JObj kvs" by (cases j) (simp_all add: validate_entry_def)
  from L obtain a b where ab: "map_of kvs (lit ''script_file'') = Some a" "map_of kvs (lit ''source_path'') = Some b"
    by (cases "map_of kvs (lit ''script_file'')"; cases "map_of kvs (lit ''source_path'')")
      (simp_all add: j validate_entry_def Let_def)
  from L have unexpected: "filter (\<lambda>k. k \<notin> {lit ''script_file'', lit ''source_path''}) (map fst kvs) = []"
    by (simp add: j validate_entry_def Let_def ab split: if_splits)
  from L obtain n where n: "a = JInt n" "1 \<le> n" "n \<notin> set ids"
    by (cases a) (auto simp: j validate_entry_def Let_def ab unexpected result_simps split: if_splits)
  from L obtain p where p: "b = JStr p" "validate_entry_path E i b (List.insert n ids, paths, cl) = Inr ([], c')"
    by (cases b) (auto simp: j validate_entry_def Let_def ab unexpected n result_simps validate_entry_path_def
        split: if_splits)
  have read: "read_declaration j = (n, p)"
    using ab n(1) p(1) by (simp add: read_declaration_def j json_field_def json_text_def)
  from p(2) have norm: "normalize_source_path E p = Inr p"
    by (simp add: p(1) validate_entry_path_def split: sum.splits py_error.splits if_splits)
  from p(2) obtain m where m: "source_path_to_dotted_name E p = Inr m"
    by (cases "source_path_to_dotted_name E p") (simp_all add: p(1) norm validate_entry_path_def Let_def)
  from p(2) have "p \<notin> set paths" "c' = (List.insert n ids, List.insert p paths, add_name (m, p) cl)"
    by (simp_all add: p(1) norm m validate_entry_path_def Let_def split: if_splits)
  moreover have "same_declaration j (n, p)"
    using same_declarationI ab unexpected n(1) p(1) j by (simp add: same_declaration_def)
  ultimately show ?R using norm m n unfolding read
    by (simp add: sound_declaration_def claim_def dotted_of_def)
qed

definition follows :: "pystr option \<Rightarrow> pystr list \<Rightarrow> bool" where
  "follows previous paths \<longleftrightarrow> sorted (case previous of None \<Rightarrow> paths | Some p \<Rightarrow> p # paths)"

lemma follows_Cons: "follows previous (p # ps) \<longleftrightarrow>
    (case previous of None \<Rightarrow> True | Some q \<Rightarrow> q \<le> p) \<and> follows (Some p) ps"
  by (cases previous) (auto simp: follows_def)

lemma claim_sets:
  "set (fst (claim E d c)) = insert (fst d) (set (fst c))"
  "set (fst (snd (claim E d c))) = insert (snd d) (set (fst (snd c)))"
  by (cases c; simp add: claim_def)+

lemma same_declaration_path: "same_declaration j d \<Longrightarrow> json_text (json_field j ''source_path'') = snd d"
  by (auto simp: same_declaration_def json_field_def json_text_def)

lemma validate_entries_step:
  "validate_entries E i (j # js) c previous = Inr ([], c') \<longleftrightarrow>
      validate_entry E i j c = Inr ([], claim E (read_declaration j) c) \<and>
      (case previous of None \<Rightarrow> True | Some q \<Rightarrow> q \<le> snd (read_declaration j)) \<and>
      validate_entries E (Suc i) js (claim E (read_declaration j) c) (Some (snd (read_declaration j))) = Inr ([], c')"
proof (cases "\<exists>c1. validate_entry E i j c = Inr ([], c1)")
  case True
  then obtain c1 where v: "validate_entry E i j c = Inr ([], c1)" by blast
  then have c1: "c1 = claim E (read_declaration j) c" and same: "same_declaration j (read_declaration j)"
    by (cases c; simp add: validate_entry_iff)+
  show ?thesis
    using v same_declaration_path [OF same] unfolding c1
    by (cases "validate_entries E (Suc i) js (claim E (read_declaration j) c) (Some (snd (read_declaration j)))";
        cases previous) (auto simp: Let_def)
next
  case False
  have "validate_entries E i (j # js) c previous \<noteq> Inr ([], c')"
  proof (cases "validate_entry E i j c")
    case (Inr rc)
    then have "fst rc \<noteq> []" using False by (cases rc) auto
    with Inr show ?thesis
      by (cases rc; cases "validate_entries E (Suc i) js (snd rc) previous") auto
  qed simp
  with False show ?thesis by blast
qed

lemma validate_entries_iff:
  "validate_entries E i js c previous = Inr ([], c') \<longleftrightarrow>
     (\<forall>j \<in> set js. same_declaration j (read_declaration j) \<and> sound_declaration E (read_declaration j)) \<and>
     distinct (map (fst \<circ> read_declaration) js) \<and> set (map (fst \<circ> read_declaration) js) \<inter> set (fst c) = {} \<and>
     distinct (map (snd \<circ> read_declaration) js) \<and> set (map (snd \<circ> read_declaration) js) \<inter> set (fst (snd c)) = {} \<and>
     follows previous (map (snd \<circ> read_declaration) js) \<and> c' = fold (claim E) (map read_declaration js) c"
proof (induction js arbitrary: i c previous)
  case Nil
  then show ?case by (cases previous) (auto simp: follows_def)
next
  case (Cons j js)
  have "validate_entries E i (j # js) c previous = Inr ([], c') \<longleftrightarrow>
      validate_entry E i j c = Inr ([], claim E (read_declaration j) c) \<and>
      (case previous of None \<Rightarrow> True | Some q \<Rightarrow> q \<le> snd (read_declaration j)) \<and>
      validate_entries E (Suc i) js (claim E (read_declaration j) c) (Some (snd (read_declaration j))) = Inr ([], c')"
    by (rule validate_entries_step)
  moreover obtain ids paths cl where c: "c = (ids, paths, cl)" by (cases c)
  ultimately show ?case
    unfolding Cons.IH c validate_entry_iff
    by (simp add: follows_Cons claim_sets comp_def conj_ac)
qed

text \<open>What the loop has claimed after a run of sound declarations.\<close>

definition dotted_pairs :: "python \<Rightarrow> (int \<times> pystr) list \<Rightarrow> (pystr \<times> pystr) list" where
  "dotted_pairs E ds = map (\<lambda>d. (dotted_of E (snd d), snd d)) ds"

lemma fold_claim:
  "set (fst (snd (fold (claim E) ds c))) = set (fst (snd c)) \<union> set (map snd ds)"
  "snd (snd (fold (claim E) ds c)) = fold add_name (dotted_pairs E ds) (snd (snd c))"
  by (induction ds arbitrary: c) (auto simp: claim_def dotted_pairs_def split: prod.splits)

lemma names_of_key: "names_of cl k \<noteq> [] \<Longrightarrow> k \<in> set (map fst cl)"
  by (rule ccontr) (simp add: names_of_def map_of_eq_None_iff [THEN iffD2])

lemma shared_names_Nil_iff: "shared_names cl = [] \<longleftrightarrow> (\<forall>k. length (names_of cl k) \<le> 1)"
proof -
  have "shared_names cl = [] \<longleftrightarrow> (\<forall>k \<in> set (map fst cl). length (names_of cl k) \<le> 1)"
    by (force simp: shared_names_def not_less simp del: if_image_distrib split: if_splits)
  also have "\<dots> \<longleftrightarrow> (\<forall>k. length (names_of cl k) \<le> 1)"
    using names_of_key by (metis list.size(3) zero_le)
  finally show ?thesis .
qed

lemma shared_dotted_Nil_iff:
  assumes "distinct (map snd ds)"
  shows "shared_names (fold add_name (dotted_pairs E ds) []) = [] \<longleftrightarrow>
    distinct (map (\<lambda>d. dotted_of E (snd d)) ds)"
proof -
  define cl where "cl = fold add_name (dotted_pairs E ds) []"
  have dist: "distinct (names_of cl k)" for k
    unfolding cl_def by (rule names_of_distinct) (simp add: names_of_def)
  have sets: "set (names_of cl k) = {p. \<exists>d \<in> set ds. snd d = p \<and> dotted_of E p = k}" for k
    unfolding cl_def names_of_add_name by (auto simp: dotted_pairs_def names_of_def)
  have "(\<forall>k. length (names_of cl k) \<le> 1) \<longleftrightarrow> inj_on (dotted_of E) (set (map snd ds))"
  proof
    assume short: "\<forall>k. length (names_of cl k) \<le> 1"
    show "inj_on (dotted_of E) (set (map snd ds))"
    proof (rule inj_onI)
      fix p q assume p: "p \<in> set (map snd ds)" and q: "q \<in> set (map snd ds)" and "dotted_of E p = dotted_of E q"
      then have "p \<in> set (names_of cl (dotted_of E p))" "q \<in> set (names_of cl (dotted_of E p))"
        unfolding sets by auto
      with short two_names [OF dist, of p "dotted_of E p"] show "p = q" by (metis not_le)
    qed
  next
    assume inj: "inj_on (dotted_of E) (set (map snd ds))"
    show "\<forall>k. length (names_of cl k) \<le> 1"
    proof (rule allI, rule ccontr)
      fix k assume long: "\<not> length (names_of cl k) \<le> 1"
      then obtain p where p: "p \<in> set (names_of cl k)"
        by (cases "names_of cl k") auto
      with long two_names [OF dist p] obtain q where "q \<in> set (names_of cl k)" "q \<noteq> p" by (auto simp: not_le)
      with p inj show False unfolding sets by (auto dest: inj_onD)
    qed
  qed
  then have "shared_names cl = [] \<longleftrightarrow> distinct (map (dotted_of E) (map snd ds))"
    using assms unfolding shared_names_Nil_iff distinct_map [of "dotted_of E"] by blast
  then show ?thesis by (simp add: cl_def comp_def)
qed

lemma validate_snapshot_iff:
  assumes "lower_laws E"
  shows "validate_script_file_snapshot E snapshot digest = Inr js \<longleftrightarrow>
    snapshot = JList js \<and> (\<forall>j \<in> set js. same_declaration j (read_declaration j)) \<and>
    sound_snapshot E (map read_declaration js) \<and> compute_script_file_digest E snapshot = digest"
proof (cases snapshot)
  case (JList entries)
  define ds where "ds = map read_declaration entries"
  have "validate_script_file_snapshot E snapshot digest = Inr js \<longleftrightarrow> js = entries \<and>
      (\<exists>c'. validate_entries E 0 entries ([], [], []) None = Inr ([], c') \<and>
        case_insensitive_collisions E (fst (snd c')) = [] \<and> shared_names (snd (snd c')) = []) \<and>
      compute_script_file_digest E snapshot = digest"
    unfolding JList validate_script_file_snapshot_def
    by (cases "validate_entries E 0 entries ([], [], []) None") (auto simp: Let_def split: if_splits)
  also have "\<dots> \<longleftrightarrow> js = entries \<and> compute_script_file_digest E snapshot = digest \<and>
      (\<forall>j \<in> set entries. same_declaration j (read_declaration j) \<and> sound_declaration E (read_declaration j)) \<and>
      distinct (map fst ds) \<and> distinct (map snd ds) \<and> sorted (map snd ds) \<and>
      case_insensitive_collisions E (fst (snd (fold (claim E) ds ([], [], [])))) = [] \<and>
      shared_names (fold add_name (dotted_pairs E ds) []) = []"
    unfolding validate_entries_iff ds_def by (auto simp: follows_def fold_claim(2))
  finally show ?thesis
    unfolding JList no_collisions_iff [OF assms] collides_def sound_snapshot_def
    using shared_dotted_Nil_iff [of ds E] by (auto simp: fold_claim(1) ds_def)
qed (simp_all add: validate_script_file_snapshot_def)

section \<open>The snapshot digest as a content address\<close>

definition snapshot_payload :: "(int \<times> pystr) list \<Rightarrow> json" where
  "snapshot_payload ds = JList (map declaration_json ds)"

definition snapshot_addressable :: "(int \<times> pystr) list \<Rightarrow> bool" where
  "snapshot_addressable ds \<longleftrightarrow> list_all (\<lambda>d. list_all json_char (snd d)) ds"

lemma sort_keys_declaration: "sort_keys (declaration_json d) = declaration_json d"
  by (cases d) (simp add: declaration_json_def str_simps)

interpretation snapshot_address: content_address snapshot_payload snapshot_addressable
proof
  fix a b assume "sort_keys (snapshot_payload a) = sort_keys (snapshot_payload b)"
  then have "map declaration_json a = map declaration_json b"
    by (simp add: snapshot_payload_def sort_keys_declaration comp_def)
  then show "a = b"
    by (rule map_injective) (rule injI, metis read_declaration_json)
qed (auto simp: snapshot_addressable_def snapshot_payload_def list_all_iff declaration_json_def str_simps
    json_char_def is_surrogate_def)

definition selection :: "script_file list \<Rightarrow> (int \<times> pystr) list" where
  "selection rows = sort_key snd (map (\<lambda>f. (int (f_id f), f_source_path f)) rows)"

lemma build_snapshot_selection:
  "build_script_file_snapshot E rows =
     (snapshot_payload (selection rows), json_sha256 E (snapshot_payload (selection rows)))"
proof -
  have "map (\<lambda>f. declaration_json (int (f_id f), f_source_path f)) rows =
      map declaration_json (map (\<lambda>f. (int (f_id f), f_source_path f)) rows)" by simp
  then show ?thesis
    unfolding build_script_file_snapshot_def Let_def selection_def snapshot_payload_def compute_script_file_digest_def
    by (simp only: sort_key_map declaration_json_fields json_text_def option.case json.case)
qed

section \<open>Properties\<close>

text \<open>What the live declarations must satisfy for their snapshot to be executable.\<close>

definition executable_selection :: "python \<Rightarrow> script_file list \<Rightarrow> bool" where
  "executable_selection E rows \<longleftrightarrow>
     (\<forall>f \<in> set rows. 0 < f_id f \<and> normalize_source_path E (f_source_path f) = Inr (f_source_path f) \<and>
        is_ok (source_path_to_dotted_name E (f_source_path f)) \<and>
        \<not> collides E (map f_source_path rows) (f_source_path f)) \<and>
     distinct (map f_id rows) \<and> distinct (map f_source_path rows) \<and>
     distinct (map (\<lambda>f. dotted_of E (f_source_path f)) rows)"

lemma same_declaration_json [simp]: "same_declaration (declaration_json d) d"
  by (simp add: same_declaration_def declaration_json_def)

lemma selection_mset: "mset (map g (selection rows)) = mset (map (\<lambda>f. g (int (f_id f), f_source_path f)) rows)"
  by (simp add: selection_def image_mset.compositionality comp_def)

lemma selection_distinct:
  "distinct (map g (selection rows)) \<longleftrightarrow> distinct (map (\<lambda>f. g (int (f_id f), f_source_path f)) rows)"
  by (rule mset_eq_imp_distinct_iff) (rule selection_mset)

lemma sound_selection: "sound_snapshot E (selection rows) \<longleftrightarrow> executable_selection E rows"
proof -
  have sets: "set (selection rows) = (\<lambda>f. (int (f_id f), f_source_path f)) ` set rows" by (simp add: selection_def)
  have col: "collides E (map snd (selection rows)) p = collides E (map f_source_path rows) p" for p
    by (simp add: collides_def sets image_image)
  have ids: "distinct (map (\<lambda>f. int (f_id f)) rows) = distinct (map f_id rows)"
    by (auto simp: distinct_map inj_on_def)
  have "sorted (map snd (selection rows))" by (simp add: selection_def)
  then show ?thesis
    unfolding sound_snapshot_def executable_selection_def selection_distinct fst_conv snd_conv ids col sets
    by (auto simp: sound_declaration_def)
qed

lemma snapshot_readable:
  assumes "lower_laws E" and "build_script_file_snapshot E rows = (snapshot, digest)"
  shows "is_ok (validate_script_file_snapshot E snapshot digest) \<longleftrightarrow> executable_selection E rows"
  using assms(2) validate_snapshot_iff [OF assms(1)] sound_selection [of E rows]
  by (auto simp: build_snapshot_selection is_ok_iff snapshot_payload_def comp_def compute_script_file_digest_def)

text \<open>
  C20. A revision's snapshot can be read back, and so the revision activated, exactly when the
  declarations it froze are executable together: canonical importable paths, no two of them one
  module or one name on a case-insensitive host.
\<close>

theorem script_file_snapshot_round_trip:
  assumes "lower_laws E" and "build_script_file_snapshot E rows = (snapshot, digest)"
  shows "is_ok (validate_script_file_snapshot E snapshot digest) \<longleftrightarrow> executable_selection E rows"
  using assms by (rule snapshot_readable)

definition example_row :: "pk \<Rightarrow> pystr \<Rightarrow> script_file" where
  "example_row k path = \<lparr>f_id = k, f_project = 1, f_source_path = path, f_enabled = True,
     f_discovery_status = PENDING, f_discovery_error = [], f_last_discovered_revision = None\<rparr>"

theorem script_file_snapshot_round_trip_witness:
  "\<exists>snapshot digest. build_script_file_snapshot ascii_python [example_row 2 (lit ''b.py''), example_row 1 (lit ''a/x.py'')]
       = (snapshot, digest) \<and>
     is_ok (validate_script_file_snapshot ascii_python snapshot digest) \<and>
     executable_selection ascii_python [example_row 2 (lit ''b.py''), example_row 1 (lit ''a/x.py'')]"
proof -
  obtain snapshot digest where b: "build_script_file_snapshot ascii_python
      [example_row 2 (lit ''b.py''), example_row 1 (lit ''a/x.py'')] = (snapshot, digest)" by fastforce
  have "is_ok (case build_script_file_snapshot ascii_python [example_row 2 (lit ''b.py''), example_row 1 (lit ''a/x.py'')]
      of (s, d) \<Rightarrow> validate_script_file_snapshot ascii_python s d)" by code_simp
  with script_file_snapshot_round_trip [OF ascii_lower_laws b] b show ?thesis by auto
qed

text \<open>
  A persisted snapshot that passes is the one its digest names, and names distinct declarations
  of canonical importable files in path order, each its own module and its own name on every host.
\<close>

theorem validate_script_file_snapshot_trustworthy:
  assumes "lower_laws E" and "validate_script_file_snapshot E snapshot digest = Inr js"
  shows "snapshot = JList js \<and> sound_snapshot E (map read_declaration js) \<and>
    list_all (\<lambda>j. same_declaration j (read_declaration j)) js \<and> compute_script_file_digest E snapshot = digest"
  using assms(2) unfolding validate_snapshot_iff [OF assms(1)] list_all_iff by blast

theorem validate_script_file_snapshot_trustworthy_witness:
  "validate_script_file_snapshot ascii_python (snapshot_payload [(7, lit ''a.py'')])
      (compute_script_file_digest ascii_python (snapshot_payload [(7, lit ''a.py'')])) =
     Inr [declaration_json (7, lit ''a.py'')] \<and>
   sound_snapshot ascii_python (map read_declaration [declaration_json (7, lit ''a.py'')])"
proof -
  have v: "validate_script_file_snapshot ascii_python (snapshot_payload [(7, lit ''a.py'')])
      (compute_script_file_digest ascii_python (snapshot_payload [(7, lit ''a.py'')])) =
     Inr [declaration_json (7, lit ''a.py'')]" by code_simp
  from v validate_script_file_snapshot_trustworthy [OF ascii_lower_laws v] show ?thesis by blast
qed

text \<open>
  The snapshot digest is the identity of the selection: the order in which the rows are read
  does not matter, and two selections share a digest only when they name the same declarations,
  unless SHA-256 collides on these two inputs.
\<close>

theorem script_file_digest_identifies:
  assumes "snapshot_addressable (selection rows)" "snapshot_addressable (selection rows')"
    and "collision_free E (json_bytes (snapshot_payload (selection rows)))
      (json_bytes (snapshot_payload (selection rows')))"
    and "distinct (map f_source_path rows)" "distinct (map f_source_path rows')"
  shows "snd (build_script_file_snapshot E rows) = snd (build_script_file_snapshot E rows') \<longleftrightarrow>
    (\<lambda>f. (f_id f, f_source_path f)) ` set rows = (\<lambda>f. (f_id f, f_source_path f)) ` set rows'"
proof -
  have "selection rows = selection rows' \<longleftrightarrow> set (selection rows) = set (selection rows')"
  proof
    assume eq: "set (selection rows) = set (selection rows')"
    have dist: "distinct (map snd (selection rows))" "distinct (map snd (selection rows'))"
      unfolding selection_distinct using assms(4,5) by simp_all
    then have "mset (selection rows) = mset (selection rows')"
      using eq by (simp add: distinct_map set_eq_iff_mset_eq_distinct)
    then have "sort_key snd (selection rows) = selection rows'"
      using dist(2) by (intro sort_key_unique) (simp_all add: selection_def)
    then show "selection rows = selection rows'" by (simp add: sort_key_id_if_sorted selection_def)
  qed simp
  moreover have "set (selection rs) = (\<lambda>(k, p). (int k, p)) ` ((\<lambda>f. (f_id f, f_source_path f)) ` set rs)" for rs
    by (auto simp: selection_def)
  moreover have "inj (\<lambda>(k, p). (int k, p :: pystr))" by (auto simp: inj_def)
  ultimately have "selection rows = selection rows' \<longleftrightarrow>
      (\<lambda>f. (f_id f, f_source_path f)) ` set rows = (\<lambda>f. (f_id f, f_source_path f)) ` set rows'"
    by (simp add: inj_image_eq_iff)
  then show ?thesis
    using snapshot_address.digest_determines [OF assms(1-3)] by (auto simp: build_snapshot_selection)
qed

theorem script_file_digest_identifies_witness:
  "snd (build_script_file_snapshot summing_python [example_row 1 (lit ''a.py''), example_row 2 (lit ''b.py'')]) \<noteq>
   snd (build_script_file_snapshot summing_python [example_row 1 (lit ''a.py'')])"
proof -
  have a: "snapshot_addressable (selection [example_row 1 (lit ''a.py''), example_row 2 (lit ''b.py'')])"
    "snapshot_addressable (selection [example_row 1 (lit ''a.py'')])"
    "distinct (map f_source_path [example_row 1 (lit ''a.py''), example_row 2 (lit ''b.py'')])"
    "distinct (map f_source_path [example_row 1 (lit ''a.py'')])" by code_simp+
  have c: "collision_free summing_python
     (json_bytes (snapshot_payload (selection [example_row 1 (lit ''a.py''), example_row 2 (lit ''b.py'')])))
     (json_bytes (snapshot_payload (selection [example_row 1 (lit ''a.py'')])))"
    unfolding collision_free_def by code_simp
  show ?thesis
    unfolding script_file_digest_identifies [OF a(1,2) c a(3,4)] by (auto simp: example_row_def)
qed

end
