(* ===== verification/Script_Model.thy ===== *)
theory Script_Model
  imports Script_Files
begin

text \<open>
  models/scripts.py: the Script File declaration (cleaning, saving, the sibling rule) and the
  published Script (override precedence, refusal to run, the save that restores what publication
  owns).  A save is a function from the database and the instance to the new database.
\<close>

section \<open>Saving a row\<close>

text \<open>
  \<open>Model.save()\<close>: an INSERT for a new instance, an UPDATE of the named columns (all of them when
  no \<open>update_fields\<close> is given) for a stored one.  An UPDATE that matches nothing falls back to an
  INSERT on a full save and raises DatabaseError on a partial one.
\<close>

definition save_row ::
    "('a \<Rightarrow> pk) \<Rightarrow> (string list option \<Rightarrow> 'a \<Rightarrow> 'a \<Rightarrow> 'a) \<Rightarrow> bool \<Rightarrow> string list option \<Rightarrow> 'a \<Rightarrow> 'a list \<Rightarrow> 'a list result" where
  "save_row idf copy adding update_fields self rows =
     (if adding then Inr (rows @ [self])
      else if idf self \<in> set (map idf rows)
      then Inr (update_rows (\<lambda>r. idf r = idf self) (copy update_fields self) rows)
      else if update_fields = None then Inr (rows @ [self]) else Inl DatabaseError)"

definition writes :: "string list option \<Rightarrow> string list \<Rightarrow> bool" where
  "writes update_fields names \<longleftrightarrow> (case update_fields of None \<Rightarrow> True | Some fs \<Rightarrow> list_ex (\<lambda>n. n \<in> set fs) names)"

definition copy_script_file :: "string list option \<Rightarrow> script_file \<Rightarrow> script_file \<Rightarrow> script_file" where
  "copy_script_file uf self row = row\<lparr>
     f_project := if writes uf [''project'', ''project_id''] then f_project self else f_project row,
     f_source_path := if writes uf [''source_path''] then f_source_path self else f_source_path row,
     f_enabled := if writes uf [''enabled''] then f_enabled self else f_enabled row,
     f_discovery_status := if writes uf [''discovery_status''] then f_discovery_status self else f_discovery_status row,
     f_discovery_error := if writes uf [''discovery_error''] then f_discovery_error self else f_discovery_error row,
     f_last_discovered_revision := if writes uf [''last_discovered_revision'', ''last_discovered_revision_id'']
       then f_last_discovered_revision self else f_last_discovered_revision row\<rparr>"

section \<open>Script Files\<close>

definition siblings_of :: "db \<Rightarrow> script_file \<Rightarrow> pystr list" where
  "siblings_of d self =
     map f_source_path (filter (\<lambda>f. f_project f = f_project self \<and> f_id f \<noteq> f_id self) (script_files d))"

text \<open>The first sibling that collides, by letter case in one of its nodes or by module name.\<close>

fun scan_siblings :: "python \<Rightarrow> (pystr \<times> pystr) list \<Rightarrow> pystr \<Rightarrow> pystr list \<Rightarrow> string option" where
  "scan_siblings E mine dotted [] = None"
| "scan_siblings E mine dotted (other_path # rest) =
     (if list_ex (\<lambda>(form, node). case map_of mine form of None \<Rightarrow> False | Some n \<Rightarrow> n \<noteq> node)
          (case_insensitive_nodes E other_path) then Some ''case_fold_conflict''
      else case source_path_to_dotted_name E other_path of
        Inr name \<Rightarrow> if name = dotted then Some ''duplicate_module_name'' else scan_siblings E mine dotted rest
      | Inl _ \<Rightarrow> scan_siblings E mine dotted rest)"

definition sibling_path_conflict :: "python \<Rightarrow> db \<Rightarrow> script_file \<Rightarrow> string option result" where
  "sibling_path_conflict E d self =
     (let mine = case_insensitive_nodes E (f_source_path self)
      in rbind (source_path_to_dotted_name E (f_source_path self)) (\<lambda>dotted.
           Inr (scan_siblings E mine dotted (siblings_of d self))))"

definition file_of :: "db \<Rightarrow> pk \<Rightarrow> script_file option" where
  "file_of d k = List.find (\<lambda>f. f_id f = k) (script_files d)"

definition save_declaration ::
    "python \<Rightarrow> bool \<Rightarrow> string list option \<Rightarrow> script_file \<Rightarrow> db \<Rightarrow> db result" where
  "save_declaration E adding update_fields self0 d =
     (case normalize_source_path E (f_source_path self0) of
        Inl (UnsafePath _ _) \<Rightarrow> Inl (ValidationError [''source_path''])
      | Inl e \<Rightarrow> Inl e
      | Inr canonical \<Rightarrow>
          let self = self0\<lparr>f_source_path := canonical\<rparr>
          in if \<not> is_ok (source_path_to_dotted_name E canonical) then Inl (ValidationError [''source_path''])
             else rbind (if adding \<or> writes update_fields [''source_path'']
                         then sibling_path_conflict E d self else Inr None) (\<lambda>conflict.
               if conflict \<noteq> None then Inl (ValidationError [''source_path''])
               else
                 let original = (if adding then None else file_of d (f_id self));
                     moved = (case original of None \<Rightarrow> []
                       | Some row \<Rightarrow> (if f_project row \<noteq> f_project self then [''project''] else []) @
                           (if f_source_path row \<noteq> f_source_path self then [''source_path''] else []));
                     restored = (case original of
                         Some row \<Rightarrow> if update_fields = None
                           then self\<lparr>f_discovery_status := f_discovery_status row,
                             f_discovery_error := f_discovery_error row,
                             f_last_discovered_revision := f_last_discovered_revision row\<rparr> else self
                       | None \<Rightarrow> self)
                 in if moved \<noteq> [] then Inl (ValidationError moved)
                    else rbind (save_row f_id copy_script_file adding update_fields restored (script_files d))
                           (write_script_files d)))"

text \<open>\<open>ScriptFile.clean\<close>: the errors by field; a later error on a field replaces the earlier one.\<close>

definition clean_script_file :: "python \<Rightarrow> bool \<Rightarrow> script_file \<Rightarrow> db \<Rightarrow> script_file result" where
  "clean_script_file E adding self0 d =
     rbind (case normalize_source_path E (f_source_path self0) of
              Inl (UnsafePath _ _) \<Rightarrow> Inr (self0, True)
            | Inl e \<Rightarrow> Inl e
            | Inr canonical \<Rightarrow> Inr (self0\<lparr>f_source_path := canonical\<rparr>, False))
       (\<lambda>(self, unsafe).
          let unimportable = (\<not> unsafe \<and> \<not> is_ok (source_path_to_dotted_name E (f_source_path self)))
          in rbind (if unsafe \<or> unimportable then Inr None else sibling_path_conflict E d self) (\<lambda>conflict.
            let path_error = (unsafe \<or> unimportable \<or> conflict \<noteq> None);
                pointer_error = (case f_last_discovered_revision self of None \<Rightarrow> False
                  | Some k \<Rightarrow> (case revision_of d k of None \<Rightarrow> False | Some r \<Rightarrow> r_project r \<noteq> f_project self));
                original = (if adding then None else file_of d (f_id self));
                moved_project = (case original of None \<Rightarrow> False | Some row \<Rightarrow> f_project row \<noteq> f_project self);
                moved_path = (case original of None \<Rightarrow> False
                  | Some row \<Rightarrow> \<not> path_error \<and> f_source_path row \<noteq> f_source_path self);
                errors = (if path_error \<or> moved_path then [''source_path''] else []) @
                  (if pointer_error then [''last_discovered_revision''] else []) @
                  (if moved_project then [''project''] else [])
            in if errors \<noteq> [] then Inl (ValidationError errors) else Inr self))"

section \<open>Published Scripts\<close>

definition json_truthy :: "json \<Rightarrow> bool" where
  "json_truthy v = (case v of JNull \<Rightarrow> False | JBool b \<Rightarrow> b | JInt i \<Rightarrow> i \<noteq> 0
     | JFloat s \<Rightarrow> s \<noteq> lit ''0.0'' \<and> s \<noteq> lit ''-0.0'' | JStr s \<Rightarrow> s \<noteq> [] | JList vs \<Rightarrow> vs \<noteq> [] | JObj kvs \<Rightarrow> kvs \<noteq> [])"

text \<open>The recorded metadata is always an object, so \<open>get\<close> is the lookup of a field.\<close>

definition metadata_get :: "netbox_script \<Rightarrow> string \<Rightarrow> json \<Rightarrow> json" where
  "metadata_get s key dflt = (case json_field (s_metadata s) key of Some v \<Rightarrow> v | None \<Rightarrow> dflt)"

definition full_name :: "netbox_script \<Rightarrow> pystr" where
  "full_name s = s_module_path s @ dot # s_class_name s"

definition commit_default :: "netbox_script \<Rightarrow> bool" where
  "commit_default s = (case s_commit_default_override s of
      Some b \<Rightarrow> b | None \<Rightarrow> json_truthy (metadata_get s ''commit_default'' (JBool True)))"

definition scheduling_enabled :: "netbox_script \<Rightarrow> bool" where
  "scheduling_enabled s = json_truthy (metadata_get s ''scheduling_enabled'' (JBool True))"

definition job_timeout :: "netbox_script \<Rightarrow> json" where
  "job_timeout s = (case s_job_timeout_override s of
      Some n \<Rightarrow> JInt (int n) | None \<Rightarrow> metadata_get s ''job_timeout'' JNull)"

definition notifications_default :: "netbox_core \<Rightarrow> netbox_script \<Rightarrow> json" where
  "notifications_default N s =
     (if s_notifications_default_override s \<noteq> [] then JStr (s_notifications_default_override s)
      else if json_truthy (metadata_get s ''notifications_default'' JNull)
      then metadata_get s ''notifications_default'' JNull else JStr (notification_always N))"

definition run_refusal_reason :: "script_project \<Rightarrow> netbox_script \<Rightarrow> string option" where
  "run_refusal_reason project s =
     (if \<not> s_enabled s then Some ''disabled''
      else if s_is_retired s then Some ''retired''
      else if \<not> p_enabled project then Some ''project_disabled''
      else if p_active_revision project = None then Some ''no_active_revision''
      else None)"

definition is_executable :: "script_project \<Rightarrow> netbox_script \<Rightarrow> bool" where
  "is_executable project s \<longleftrightarrow> run_refusal_reason project s = None"

definition copy_script :: "string list option \<Rightarrow> netbox_script \<Rightarrow> netbox_script \<Rightarrow> netbox_script" where
  "copy_script uf self row = row\<lparr>
     s_project := if writes uf [''project'', ''project_id''] then s_project self else s_project row,
     s_module_path := if writes uf [''module_path''] then s_module_path self else s_module_path row,
     s_class_name := if writes uf [''class_name''] then s_class_name self else s_class_name row,
     s_display_name := if writes uf [''display_name''] then s_display_name self else s_display_name row,
     s_description := if writes uf [''description''] then s_description self else s_description row,
     s_enabled := if writes uf [''enabled''] then s_enabled self else s_enabled row,
     s_commit_default_override := if writes uf [''commit_default_override'']
       then s_commit_default_override self else s_commit_default_override row,
     s_job_timeout_override := if writes uf [''job_timeout_override'']
       then s_job_timeout_override self else s_job_timeout_override row,
     s_notifications_default_override := if writes uf [''notifications_default_override'']
       then s_notifications_default_override self else s_notifications_default_override row,
     s_is_retired := if writes uf [''is_retired''] then s_is_retired self else s_is_retired row,
     s_last_seen_revision := if writes uf [''last_seen_revision'', ''last_seen_revision_id'']
       then s_last_seen_revision self else s_last_seen_revision row,
     s_metadata := if writes uf [''metadata''] then s_metadata self else s_metadata row\<rparr>"

definition script_of :: "db \<Rightarrow> pk \<Rightarrow> netbox_script option" where
  "script_of d k = List.find (\<lambda>s. s_id s = k) (scripts d)"

definition save_script :: "bool \<Rightarrow> string list option \<Rightarrow> netbox_script \<Rightarrow> db \<Rightarrow> db result" where
  "save_script adding update_fields self d =
     (let restored = (if adding \<or> update_fields \<noteq> None then self
        else case script_of d (s_id self) of None \<Rightarrow> self
        | Some row \<Rightarrow> self\<lparr>s_description := s_description row, s_display_name := s_display_name row,
            s_is_retired := s_is_retired row, s_last_seen_revision := s_last_seen_revision row,
            s_metadata := s_metadata row\<rparr>)
      in rbind (save_row s_id copy_script adding update_fields restored (scripts d)) (write_scripts d))"

section \<open>Letter case, pairwise\<close>

definition compatible :: "python \<Rightarrow> pystr \<Rightarrow> pystr \<Rightarrow> bool" where
  "compatible E p q \<longleftrightarrow> (\<forall>n \<in> set (path_nodes p). \<forall>m \<in> set (path_nodes q). lower E n = lower E m \<longrightarrow> n = m)"

lemma collides_compatible: "collides E paths p \<longleftrightarrow> (\<exists>q \<in> set paths. \<not> compatible E p q)"
  by (auto simp: collides_def compatible_def)

lemma compatible_sym: "compatible E p q = compatible E q p"
  unfolding compatible_def by metis

lemma compatible_self: "lower_laws E \<Longrightarrow> compatible E p p"
  unfolding compatible_def using nodes_lower_inj inj_onD by metis

lemma nodes_lookup:
  assumes "lower_laws E"
  shows "map_of (case_insensitive_nodes E p) form = Some n \<longleftrightarrow> n \<in> set (path_nodes p) \<and> form = lower E n"
proof -
  have "distinct (map fst (case_insensitive_nodes E p))"
    unfolding case_insensitive_nodes_def by (rule dict_by_distinct)
  then show ?thesis using in_nodes_iff [OF assms] by (simp add: map_of_eq_Some_iff)
qed

lemma node_scan_iff:
  assumes "lower_laws E"
  shows "list_ex (\<lambda>(form, node). case map_of (case_insensitive_nodes E p) form of None \<Rightarrow> False | Some n \<Rightarrow> n \<noteq> node)
      (case_insensitive_nodes E q) \<longleftrightarrow> \<not> compatible E p q"
proof -
  have "list_ex (\<lambda>(form, node). case map_of (case_insensitive_nodes E p) form of None \<Rightarrow> False | Some n \<Rightarrow> n \<noteq> node)
      (case_insensitive_nodes E q) \<longleftrightarrow>
    (\<exists>form node n. (form, node) \<in> set (case_insensitive_nodes E q) \<and>
      map_of (case_insensitive_nodes E p) form = Some n \<and> n \<noteq> node)"
    by (fastforce simp: list_ex_iff split: option.splits)
  also have "\<dots> \<longleftrightarrow> \<not> compatible E p q"
    unfolding nodes_lookup [OF assms] in_nodes_iff [OF assms] compatible_def by metis
  finally show ?thesis .
qed

lemma scan_siblings_None_iff:
  assumes "lower_laws E"
  shows "scan_siblings E (case_insensitive_nodes E p) dotted others = None \<longleftrightarrow>
    (\<forall>q \<in> set others. compatible E p q \<and> source_path_to_dotted_name E q \<noteq> Inr dotted)"
  by (induction others) (auto simp: node_scan_iff [OF assms] split: sum.splits)

lemma sibling_conflict_None_iff:
  assumes "lower_laws E"
  shows "sibling_path_conflict E d self = Inr None \<longleftrightarrow>
    (\<exists>dotted. source_path_to_dotted_name E (f_source_path self) = Inr dotted \<and>
      (\<forall>q \<in> set (siblings_of d self). compatible E (f_source_path self) q \<and>
         source_path_to_dotted_name E q \<noteq> Inr dotted))"
  unfolding sibling_path_conflict_def Let_def rbind_Inr_iff
  using scan_siblings_None_iff [OF assms] by simp

section \<open>Executable selections\<close>

definition good_file :: "python \<Rightarrow> script_file \<Rightarrow> bool" where
  "good_file E f \<longleftrightarrow> 0 < f_id f \<and> normalize_source_path E (f_source_path f) = Inr (f_source_path f) \<and>
     is_ok (source_path_to_dotted_name E (f_source_path f))"

lemma executable_iff:
  "executable_selection E rows \<longleftrightarrow> (\<forall>f \<in> set rows. good_file E f) \<and>
     distinct (map f_id rows) \<and> distinct (map f_source_path rows) \<and>
     distinct (map (\<lambda>f. dotted_of E (f_source_path f)) rows) \<and>
     (\<forall>f \<in> set rows. \<forall>g \<in> set rows. compatible E (f_source_path f) (f_source_path g))"
  unfolding executable_selection_def good_file_def collides_compatible by auto

lemma executable_filter:
  assumes "executable_selection E rows"
  shows "executable_selection E (filter P rows)"
  using assms unfolding executable_iff by (auto simp: distinct_map_filter)

lemma executable_pairs:
  "executable_selection E rows \<longleftrightarrow> (let ds = map (\<lambda>f. (f_id f, f_source_path f)) rows in
     (\<forall>d \<in> set ds. 0 < fst d \<and> normalize_source_path E (snd d) = Inr (snd d) \<and>
        is_ok (source_path_to_dotted_name E (snd d)) \<and> \<not> collides E (map snd ds) (snd d)) \<and>
     distinct (map fst ds) \<and> distinct (map snd ds) \<and> distinct (map (\<lambda>d. dotted_of E (snd d)) ds))"
  by (simp add: executable_selection_def Let_def comp_def)

lemma executable_cong:
  "map (\<lambda>f. (f_id f, f_source_path f)) rows = map (\<lambda>f. (f_id f, f_source_path f)) rows' \<Longrightarrow>
     executable_selection E rows = executable_selection E rows'"
  by (simp only: executable_pairs)

lemma executable_snoc:
  assumes "lower_laws E" "executable_selection E rows" "good_file E self" "f_id self \<notin> f_id ` set rows"
    and "\<forall>q \<in> f_source_path ` set rows. compatible E (f_source_path self) q \<and>
      source_path_to_dotted_name E q \<noteq> source_path_to_dotted_name E (f_source_path self)"
  shows "executable_selection E (rows @ [self])"
proof -
  have dotted: "dotted_of E (f_source_path f) \<noteq> dotted_of E (f_source_path self)" if f: "f \<in> set rows" for f
  proof -
    from assms(2) f obtain a where a: "source_path_to_dotted_name E (f_source_path f) = Inr a"
      unfolding executable_iff good_file_def is_ok_iff by blast
    from assms(3) obtain b where b: "source_path_to_dotted_name E (f_source_path self) = Inr b"
      unfolding good_file_def is_ok_iff by blast
    from a b assms(5) f show ?thesis by (auto simp: dotted_of_def)
  qed
  have "f_source_path self \<notin> f_source_path ` set rows" using assms(5) by auto
  moreover have "compatible E (f_source_path f) (f_source_path self)" if "f \<in> set rows" for f
    using assms(5) that compatible_sym by blast
  ultimately show ?thesis
    using assms dotted compatible_self [OF assms(1)] unfolding executable_iff
    by (auto simp: image_iff) metis+
qed

definition project_files :: "pk \<Rightarrow> db \<Rightarrow> script_file list" where
  "project_files p d = filter (\<lambda>f. f_project f = p) (script_files d)"

text \<open>At rest, the declarations of every project are executable together.\<close>

definition declarations_ok :: "python \<Rightarrow> db \<Rightarrow> bool" where
  "declarations_ok E d \<longleftrightarrow> distinct (map f_id (script_files d)) \<and> (\<forall>p. executable_selection E (project_files p d))"

section \<open>Saving a declaration\<close>

lemma save_declaration_InrD:
  assumes "save_declaration E adding uf self0 d = Inr d'"
  obtains canonical self where
    "normalize_source_path E (f_source_path self0) = Inr canonical"
    "is_ok (source_path_to_dotted_name E canonical)"
    "f_id self = f_id self0" "f_project self = f_project self0" "f_source_path self = canonical"
    "f_enabled self = f_enabled self0"
    "adding \<or> writes uf [''source_path''] \<longrightarrow> sibling_path_conflict E d self = Inr None"
    "save_row f_id copy_script_file adding uf self (script_files d) = Inr (script_files d')"
    "script_file_constraints (script_files d')" "d' = d\<lparr>script_files := script_files d'\<rparr>"
    "\<not> adding \<longrightarrow> (case file_of d (f_id self0) of None \<Rightarrow> True | Some row \<Rightarrow>
       f_project row = f_project self \<and> f_source_path row = f_source_path self \<and>
       (uf = None \<longrightarrow> f_discovery_status self = f_discovery_status row \<and>
          f_discovery_error self = f_discovery_error row \<and>
          f_last_discovered_revision self = f_last_discovered_revision row))"
proof -
  from assms obtain canonical where norm: "normalize_source_path E (f_source_path self0) = Inr canonical"
    by (auto simp: save_declaration_def split: sum.splits py_error.splits)
  define self1 where "self1 = self0\<lparr>f_source_path := canonical\<rparr>"
  define original where "original = (if adding then None else file_of d (f_id self0))"
  define moved where "moved = (case original of None \<Rightarrow> []
       | Some row \<Rightarrow> (if f_project row \<noteq> f_project self1 then [''project''] else []) @
           (if f_source_path row \<noteq> f_source_path self1 then [''source_path''] else []))"
  define self where "self = (case original of
      Some row \<Rightarrow> if uf = None
        then self1\<lparr>f_discovery_status := f_discovery_status row, f_discovery_error := f_discovery_error row,
          f_last_discovered_revision := f_last_discovered_revision row\<rparr> else self1
    | None \<Rightarrow> self1)"
  have id: "f_id self1 = f_id self0" by (simp add: self1_def)
  have ok: "is_ok (source_path_to_dotted_name E canonical)"
    using assms by (simp add: save_declaration_def norm Let_def split: if_splits)
  from assms have run: "rbind (if adding \<or> writes uf [''source_path''] then sibling_path_conflict E d self1 else Inr None)
      (\<lambda>conflict. if conflict \<noteq> None then Inl (ValidationError [''source_path''])
         else if moved \<noteq> [] then Inl (ValidationError moved)
         else rbind (save_row f_id copy_script_file adding uf self (script_files d)) (write_script_files d)) = Inr d'"
    unfolding save_declaration_def norm sum.case Let_def self1_def [symmetric] id original_def [symmetric]
      moved_def [symmetric] self_def [symmetric]
    using ok by simp
  then have conflict: "adding \<or> writes uf [''source_path''] \<Longrightarrow> sibling_path_conflict E d self1 = Inr None"
    by (auto simp: result_simps split: if_splits)
  from run obtain rows where m: "moved = []"
      and rows: "save_row f_id copy_script_file adding uf self (script_files d) = Inr rows"
      "script_file_constraints rows" "d' = d\<lparr>script_files := rows\<rparr>"
    by (auto simp: result_simps split: if_splits)
  have same: "f_id self = f_id self0" "f_project self = f_project self0" "f_source_path self = canonical"
    "f_enabled self = f_enabled self0"
    "sibling_path_conflict E d self = sibling_path_conflict E d self1"
    by (auto simp: self_def self1_def sibling_path_conflict_def siblings_of_def split: option.splits)
  have "case file_of d (f_id self0) of None \<Rightarrow> True | Some row \<Rightarrow>
       f_project row = f_project self \<and> f_source_path row = f_source_path self \<and>
       (uf = None \<longrightarrow> f_discovery_status self = f_discovery_status row \<and>
          f_discovery_error self = f_discovery_error row \<and>
          f_last_discovered_revision self = f_last_discovered_revision row)" if "\<not> adding"
    using that m by (auto simp: moved_def self_def original_def self1_def split: option.splits if_splits)
  with norm ok same conflict rows show ?thesis by (intro that [of canonical self]) simp_all
qed

lemma save_row_cases:
  assumes "save_row idf copy adding uf self rows = Inr rows'"
  obtains (insert) "rows' = rows @ [self]" "adding \<or> uf = None" "adding \<or> idf self \<notin> set (map idf rows)"
  | (update) "rows' = update_rows (\<lambda>r. idf r = idf self) (copy uf self) rows" "\<not> adding" "idf self \<in> set (map idf rows)"
  using assms by (auto simp: save_row_def split: if_splits)

lemma filter_update_rows:
  assumes "\<And>r. r \<in> set rows \<Longrightarrow> P r \<Longrightarrow> h (g r) = h r" "\<And>r. r \<in> set rows \<Longrightarrow> P r \<Longrightarrow> Q (g r) = Q r"
  shows "map h (filter Q (update_rows P g rows)) = map h (filter Q rows)"
  using assms by (induction rows) (auto simp: update_rows_def)

lemma file_of_member: "distinct (map f_id (script_files d)) \<Longrightarrow> r \<in> set (script_files d) \<Longrightarrow> file_of d (f_id r) = Some r"
  unfolding file_of_def by (rule find_distinct)

lemma copy_script_file_frozen [simp]:
  "f_id (copy_script_file uf self row) = f_id row"
  "f_project self = f_project row \<Longrightarrow> f_project (copy_script_file uf self row) = f_project row"
  "f_source_path self = f_source_path row \<Longrightarrow> f_source_path (copy_script_file uf self row) = f_source_path row"
  by (simp_all add: copy_script_file_def)

lemma save_declaration_ok:
  assumes "nfc_laws E" "lower_laws E" "identifier_laws E"
    and ok: "declarations_ok E d" and pos: "0 < f_id self0"
    and save: "save_declaration E adding uf self0 d = Inr d'"
  shows "declarations_ok E d'"
proof -
  obtain canonical self where norm: "normalize_source_path E (f_source_path self0) = Inr canonical"
    and imp: "is_ok (source_path_to_dotted_name E canonical)"
    and self: "f_id self = f_id self0" "f_project self = f_project self0" "f_source_path self = canonical"
    and "f_enabled self = f_enabled self0"
    and conflict: "adding \<or> writes uf [''source_path''] \<longrightarrow> sibling_path_conflict E d self = Inr None"
    and rows: "save_row f_id copy_script_file adding uf self (script_files d) = Inr (script_files d')"
    and cons: "script_file_constraints (script_files d')" and "d' = d\<lparr>script_files := script_files d'\<rparr>"
    and frozen: "\<not> adding \<longrightarrow> (case file_of d (f_id self0) of None \<Rightarrow> True | Some row \<Rightarrow>
       f_project row = f_project self \<and> f_source_path row = f_source_path self \<and>
       (uf = None \<longrightarrow> f_discovery_status self = f_discovery_status row \<and>
          f_discovery_error self = f_discovery_error row \<and>
          f_last_discovered_revision self = f_last_discovered_revision row))"
    using save by (rule save_declaration_InrD)
  have distinct: "distinct (map f_id (script_files d))" using ok by (simp add: declarations_ok_def)
  from rows have "executable_selection E (project_files p d')" for p
  proof (cases rule: save_row_cases)
    case insert
    have clash: "f_id self \<notin> f_id ` set (script_files d)"
      using cons insert(1) by (auto simp: script_file_constraints_def)
    show ?thesis
    proof (cases "f_project self = p")
      case True
      have good: "good_file E self"
        using pos imp importable_canonical [OF assms(1,3) norm] self by (auto simp: good_file_def is_ok_iff)
      have "sibling_path_conflict E d self = Inr None" using conflict insert(2) by (auto simp: writes_def)
      moreover have "siblings_of d self = map f_source_path (project_files p d)"
        unfolding siblings_of_def project_files_def
        by (rule arg_cong, rule filter_cong [OF refl]) (use clash True in \<open>auto simp: image_iff\<close>)
      ultimately have "\<forall>q \<in> f_source_path ` set (project_files p d). compatible E (f_source_path self) q \<and>
          source_path_to_dotted_name E q \<noteq> source_path_to_dotted_name E (f_source_path self)"
        unfolding sibling_conflict_None_iff [OF assms(2)] by auto
      then have "executable_selection E (project_files p d @ [self])"
        using ok clash good by (intro executable_snoc [OF assms(2)]) (auto simp: declarations_ok_def project_files_def)
      then show ?thesis using insert(1) True by (simp add: project_files_def)
    next
      case False
      then show ?thesis using insert(1) ok by (simp add: project_files_def declarations_ok_def)
    qed
  next
    case update
    have row: "f_project self = f_project r \<and> f_source_path self = f_source_path r"
      if "r \<in> set (script_files d)" "f_id r = f_id self" for r
      using frozen update(2) file_of_member [OF distinct that(1)] that(2) self(1) by simp
    have "map (\<lambda>f. (f_id f, f_source_path f)) (project_files p d') =
        map (\<lambda>f. (f_id f, f_source_path f)) (project_files p d)"
      unfolding project_files_def update(1)
      by (rule filter_update_rows; drule (1) row; simp)
    from executable_cong [OF this] ok show ?thesis by (simp add: declarations_ok_def)
  qed
  then show ?thesis using cons by (simp add: declarations_ok_def script_file_constraints_def)
qed

section \<open>Properties\<close>

text \<open>
  C21. Saving a Script File keeps the declarations of every project executable together, whatever
  is saved and however: canonical importable paths, no two that share a module name or collide
  without letter case.  Every snapshot of enabled declarations can therefore be read back.
\<close>

theorem save_declaration_keeps_executable:
  assumes "nfc_laws E" "lower_laws E" "identifier_laws E" and "declarations_ok E d" and "0 < f_id self"
    and "save_declaration E adding update_fields self d = Inr d'"
    and "build_script_file_snapshot E (filter f_enabled (project_files p d')) = (snapshot, digest)"
  shows "declarations_ok E d' \<and> is_ok (validate_script_file_snapshot E snapshot digest)"
proof
  show ok: "declarations_ok E d'" using save_declaration_ok [OF assms(1-6)] .
  then have "executable_selection E (filter f_enabled (project_files p d'))"
    unfolding declarations_ok_def using executable_filter by blast
  then show "is_ok (validate_script_file_snapshot E snapshot digest)"
    using assms(7) snapshot_readable [OF assms(2)] by blast
qed

definition empty_db :: db where
  "empty_db = \<lparr>projects = [], revisions = [], script_files = [], scripts = []\<rparr>"

theorem save_declaration_keeps_executable_witness:
  "\<exists>d'. save_declaration ascii_python True None (example_row 1 (lit ''./a.py'')) empty_db = Inr d' \<and>
     map f_source_path (script_files d') = [lit ''a.py''] \<and> declarations_ok ascii_python d'"
proof -
  have "case save_declaration ascii_python True None (example_row 1 (lit ''./a.py'')) empty_db of
      Inl _ \<Rightarrow> False | Inr d' \<Rightarrow> map f_source_path (script_files d') = [lit ''a.py'']" by code_simp
  then obtain d' where s: "save_declaration ascii_python True None (example_row 1 (lit ''./a.py'')) empty_db = Inr d'"
      and paths: "map f_source_path (script_files d') = [lit ''a.py'']" by (auto split: sum.splits)
  have ok: "declarations_ok ascii_python empty_db"
    by (simp add: declarations_ok_def project_files_def empty_db_def executable_selection_def)
  have pos: "0 < f_id (example_row 1 (lit ''./a.py''))" by (simp add: example_row_def)
  obtain snapshot digest where b: "build_script_file_snapshot ascii_python (filter f_enabled (project_files 1 d')) = (snapshot, digest)"
    by fastforce
  from save_declaration_keeps_executable [OF ascii_nfc_laws ascii_lower_laws ascii_identifier_laws ok pos s b]
  have "declarations_ok ascii_python d'" by (rule conjunct1)
  with s paths show ?thesis by (intro exI [of _ d'] conjI)
qed

text \<open>
  Saving a stored declaration never moves it and never rolls discovery back: project and path
  of every row are what they were, a full save keeps the discovery result the database holds
  whatever the form carried, and no other row changes.
\<close>

theorem save_declaration_frozen:
  assumes "script_file_constraints (script_files d)" and "r \<in> set (script_files d)"
    and "save_declaration E False update_fields self d = Inr d'"
  shows "\<exists>r'. file_of d' (f_id r) = Some r' \<and> f_project r' = f_project r \<and> f_source_path r' = f_source_path r \<and>
    (update_fields = None \<longrightarrow> f_discovery_status r' = f_discovery_status r \<and>
       f_discovery_error r' = f_discovery_error r \<and> f_last_discovered_revision r' = f_last_discovered_revision r) \<and>
    (f_id r \<noteq> f_id self \<longrightarrow> r' = r)"
proof -
  obtain canonical s where "normalize_source_path E (f_source_path self) = Inr canonical"
    "is_ok (source_path_to_dotted_name E canonical)"
    and s: "f_id s = f_id self" "f_project s = f_project self" "f_source_path s = canonical"
    and "f_enabled s = f_enabled self"
    and "False \<or> writes update_fields [''source_path''] \<longrightarrow> sibling_path_conflict E d s = Inr None"
    and rows: "save_row f_id copy_script_file False update_fields s (script_files d) = Inr (script_files d')"
    and cons: "script_file_constraints (script_files d')" and "d' = d\<lparr>script_files := script_files d'\<rparr>"
    and frozen: "\<not> False \<longrightarrow> (case file_of d (f_id self) of None \<Rightarrow> True | Some row \<Rightarrow>
       f_project row = f_project s \<and> f_source_path row = f_source_path s \<and>
       (update_fields = None \<longrightarrow> f_discovery_status s = f_discovery_status row \<and>
          f_discovery_error s = f_discovery_error row \<and>
          f_last_discovered_revision s = f_last_discovered_revision row))"
    using assms(3) by (rule save_declaration_InrD)
  have dist: "distinct (map f_id (script_files d))" using assms(1) by (simp add: script_file_constraints_def)
  have old: "file_of d (f_id r) = Some r" using file_of_member [OF dist assms(2)] .
  from rows show ?thesis
  proof (cases rule: save_row_cases)
    case insert
    then have "f_id r \<noteq> f_id self" using assms(2) s(1) by (auto simp: image_iff)
    moreover have "file_of d' (f_id r) = Some r"
      using old insert(1) cons assms(2) file_of_member [of d' r] by (simp add: script_file_constraints_def)
    ultimately show ?thesis by simp
  next
    case update
    define r' where "r' = (if f_id r = f_id s then copy_script_file update_fields s r else r)"
    have "file_of d' (f_id r) = Some r'"
      using old unfolding file_of_def update(1) r'_def by (subst find_update_rows) simp_all
    moreover have "f_project r' = f_project r \<and> f_source_path r' = f_source_path r \<and>
      (update_fields = None \<longrightarrow> f_discovery_status r' = f_discovery_status r \<and>
       f_discovery_error r' = f_discovery_error r \<and> f_last_discovered_revision r' = f_last_discovered_revision r)"
      using frozen old s(1) by (auto simp: r'_def copy_script_file_def)
    ultimately show ?thesis using s(1) by (auto simp: r'_def)
  qed
qed

theorem save_declaration_frozen_witness:
  "\<exists>d' r'. save_declaration ascii_python False None
        (example_row 1 (lit ''a.py'') \<lparr>f_enabled := False, f_discovery_status := PENDING\<rparr>)
        (empty_db\<lparr>script_files := [example_row 1 (lit ''a.py'') \<lparr>f_discovery_status := DISCOVERED\<rparr>]\<rparr>) = Inr d' \<and>
     file_of d' 1 = Some r' \<and> f_discovery_status r' = DISCOVERED"
proof -
  let ?row = "example_row 1 (lit ''a.py'') \<lparr>f_discovery_status := DISCOVERED\<rparr>"
  let ?d = "empty_db\<lparr>script_files := [?row]\<rparr>"
  let ?self = "example_row 1 (lit ''a.py'') \<lparr>f_enabled := False, f_discovery_status := PENDING\<rparr>"
  have "is_ok (save_declaration ascii_python False None ?self ?d)" by code_simp
  then obtain d' where s: "save_declaration ascii_python False None ?self ?d = Inr d'" by (auto simp: is_ok_iff)
  have c: "script_file_constraints (script_files ?d)" by code_simp
  have m: "?row \<in> set (script_files ?d)" by simp
  from save_declaration_frozen [OF c m s] s show ?thesis by (auto simp: example_row_def)
qed

text \<open>
  An ordinary edit of a Script cannot write a stale copy of what publication owns: after any
  full save of a stored row its name, description, metadata, retirement and last seen revision are
  the stored ones, and every other row is untouched.
\<close>

theorem save_script_keeps_publication:
  assumes "script_constraints (scripts d)" and "r \<in> set (scripts d)" and "save_script False None self d = Inr d'"
  shows "\<exists>r'. script_of d' (s_id r) = Some r' \<and> s_display_name r' = s_display_name r \<and>
    s_description r' = s_description r \<and> s_metadata r' = s_metadata r \<and> s_is_retired r' = s_is_retired r \<and>
    s_last_seen_revision r' = s_last_seen_revision r \<and>
    (if s_id r = s_id self then s_enabled r' = s_enabled self \<and>
       s_commit_default_override r' = s_commit_default_override self \<and>
       s_job_timeout_override r' = s_job_timeout_override self else r' = r)"
proof -
  define s where "s = (case script_of d (s_id self) of None \<Rightarrow> self
    | Some row \<Rightarrow> self\<lparr>s_description := s_description row, s_display_name := s_display_name row,
        s_is_retired := s_is_retired row, s_last_seen_revision := s_last_seen_revision row,
        s_metadata := s_metadata row\<rparr>)"
  have id: "s_id s = s_id self" by (simp add: s_def split: option.splits)
  from assms(3) have rows: "save_row s_id copy_script False None s (scripts d) = Inr (scripts d')"
    and cons: "script_constraints (scripts d')"
    by (auto simp: save_script_def s_def [symmetric] result_simps)
  have dist: "distinct (map s_id (scripts d))" "distinct (map s_id (scripts d'))"
    using assms(1) cons by (simp_all add: script_constraints_def)
  have old: "script_of d (s_id r) = Some r"
    unfolding script_of_def by (rule find_distinct [OF dist(1) assms(2)])
  from rows show ?thesis
  proof (cases rule: save_row_cases)
    case insert
    then have "s_id r \<noteq> s_id self" using assms(2) id by (auto simp: image_iff)
    moreover have "script_of d' (s_id r) = Some r"
      unfolding script_of_def by (rule find_distinct [OF dist(2)]) (simp add: insert(1) assms(2))
    ultimately show ?thesis by simp
  next
    case update
    have "script_of d' (s_id r) = Some (if s_id r = s_id s then copy_script None s r else r)"
      using old unfolding script_of_def update(1) by (subst find_update_rows) (simp_all add: copy_script_def)
    moreover have "s_id r = s_id self \<Longrightarrow> s_display_name s = s_display_name r \<and> s_description s = s_description r \<and>
        s_metadata s = s_metadata r \<and> s_is_retired s = s_is_retired r \<and>
        s_last_seen_revision s = s_last_seen_revision r" using old by (simp add: s_def)
    moreover have "s_enabled s = s_enabled self" "s_commit_default_override s = s_commit_default_override self"
      "s_job_timeout_override s = s_job_timeout_override self" by (simp_all add: s_def split: option.splits)
    ultimately show ?thesis using id by (auto simp: copy_script_def writes_def)
  qed
qed

definition example_script :: "pk \<Rightarrow> pystr \<Rightarrow> netbox_script" where
  "example_script k name = \<lparr>s_id = k, s_project = 1, s_module_path = lit ''a'', s_class_name = name,
     s_display_name = name, s_description = [], s_enabled = True, s_commit_default_override = None,
     s_job_timeout_override = None, s_notifications_default_override = [], s_is_retired = False,
     s_last_seen_revision = None, s_metadata = JObj []\<rparr>"

theorem save_script_keeps_publication_witness:
  "\<exists>d' r'. save_script False None (example_script 1 (lit ''X'') \<lparr>s_enabled := False\<rparr>)
        (empty_db\<lparr>scripts := [example_script 1 (lit ''X'') \<lparr>s_is_retired := True\<rparr>]\<rparr>) = Inr d' \<and>
     script_of d' 1 = Some r' \<and> s_is_retired r' \<and> \<not> s_enabled r'"
proof -
  let ?row = "example_script 1 (lit ''X'') \<lparr>s_is_retired := True\<rparr>"
  let ?d = "empty_db\<lparr>scripts := [?row]\<rparr>"
  let ?self = "example_script 1 (lit ''X'') \<lparr>s_enabled := False\<rparr>"
  have "is_ok (save_script False None ?self ?d)" by code_simp
  then obtain d' where s: "save_script False None ?self ?d = Inr d'" by (auto simp: is_ok_iff)
  have c: "script_constraints (scripts ?d)" by code_simp
  have m: "?row \<in> set (scripts ?d)" by simp
  from save_script_keeps_publication [OF c m s] s show ?thesis by (auto simp: example_script_def)
qed

end
