(* ===== verification/Project_Model.thy ===== *)
theory Project_Model
  imports Script_Model
begin

text \<open>
  models/projects.py: the Script Project (cleaning, the save that refuses identity changes and
  unauthorized source moves, the revision queries, the selection of Script Files) and the frozen
  content of a revision.
\<close>

section \<open>The project\<close>

text \<open>\<open>_overlapping_sibling\<close>\<close>

definition overlapping_sibling :: "db \<Rightarrow> script_project \<Rightarrow> script_project option" where
  "overlapping_sibling d self = List.find (\<lambda>other. data_paths_overlap (p_data_path self) (p_data_path other))
     (filter (\<lambda>other. p_source_type other = DATA_SOURCE \<and> p_data_source other = p_data_source self \<and>
        p_id other \<noteq> p_id self) (projects d))"

text \<open>
  \<open>_active_revision_error\<close>; the assigned object is the one cached on the instance, or the row the
  foreign key names.
\<close>

definition active_revision_error :: "revision option \<Rightarrow> script_project \<Rightarrow> string option result" where
  "active_revision_error assigned self =
     (case p_active_revision self of
        None \<Rightarrow> Inr None
      | Some _ \<Rightarrow> (case assigned of
            None \<Rightarrow> Inl DoesNotExist
          | Some r \<Rightarrow> Inr (if r_project r \<noteq> p_id self then Some ''foreign_revision''
              else if r_status r \<noteq> ACTIVE then Some ''not_active''
              else if \<not> truthy (r_digest r) then Some ''no_digest'' else None)))"

definition clean_project :: "bool \<Rightarrow> revision option \<Rightarrow> script_project \<Rightarrow> db \<Rightarrow> script_project result" where
  "clean_project adding assigned self0 d =
     (let (self, path_error0) = (case normalize_data_path (p_data_path self0) of
            Inr path \<Rightarrow> (self0\<lparr>p_data_path := path\<rparr>, False) | Inl _ \<Rightarrow> (self0, True));
          from_source = (p_source_type self = DATA_SOURCE);
          source_error = (if from_source then p_data_source self = None else p_data_source self \<noteq> None);
          path_error1 = (path_error0 \<or> (if from_source then p_data_path self = [] else p_data_path self \<noteq> []));
          path_error = (path_error1 \<or>
            (from_source \<and> p_data_source self \<noteq> None \<and> overlapping_sibling d self \<noteq> None));
          original = (if adding then None else project_of d (p_id self));
          key_error = (case original of None \<Rightarrow> False | Some row \<Rightarrow> p_key row \<noteq> p_key self);
          type_error = (case original of None \<Rightarrow> False | Some row \<Rightarrow> p_source_type row \<noteq> p_source_type self)
      in rbind (active_revision_error assigned self) (\<lambda>pointer_error.
        let errors = (if path_error then [''data_path''] else []) @
              (if source_error then [''data_source''] else []) @
              (if pointer_error \<noteq> None then [''active_revision''] else []) @
              (if key_error then [''key''] else []) @ (if type_error then [''source_type''] else [])
        in if errors \<noteq> [] then Inl (ValidationError errors) else Inr self))"

definition copy_project :: "string list option \<Rightarrow> script_project \<Rightarrow> script_project \<Rightarrow> script_project" where
  "copy_project uf self row = row\<lparr>
     p_name := if writes uf [''name''] then p_name self else p_name row,
     p_key := if writes uf [''key''] then p_key self else p_key row,
     p_storage_key := if writes uf [''storage_key''] then p_storage_key self else p_storage_key row,
     p_source_type := if writes uf [''source_type''] then p_source_type self else p_source_type row,
     p_data_source := if writes uf [''data_source'', ''data_source_id''] then p_data_source self else p_data_source row,
     p_data_path := if writes uf [''data_path''] then p_data_path self else p_data_path row,
     p_activation_policy := if writes uf [''activation_policy'']
       then p_activation_policy self else p_activation_policy row,
     p_active_revision := if writes uf [''active_revision'', ''active_revision_id'']
       then p_active_revision self else p_active_revision row,
     p_source_revision := if writes uf [''source_revision'', ''source_revision_id'']
       then p_source_revision self else p_source_revision row,
     p_source_activation_pending := if writes uf [''source_activation_pending'']
       then p_source_activation_pending self else p_source_activation_pending row,
     p_enabled := if writes uf [''enabled''] then p_enabled self else p_enabled row\<rparr>"

text \<open>GATED_SOURCE_FIELDS: the fields an authorized edit moves, by name.\<close>

definition moving_fields :: "string list option \<Rightarrow> script_project \<Rightarrow> script_project \<Rightarrow> string list" where
  "moving_fields uf self original =
     (if writes uf [''activation_policy''] \<and> p_activation_policy self \<noteq> p_activation_policy original
      then [''activation_policy''] else []) @
     (if writes uf [''data_source'', ''data_source_id''] \<and> p_data_source self \<noteq> p_data_source original
      then [''data_source''] else []) @
     (if writes uf [''data_path''] \<and> p_data_path self \<noteq> p_data_path original then [''data_path''] else [])"

text \<open>
  \<open>ScriptProject.save\<close> reads the stored row under the project's write lock and hands it to
  \<open>_save_project\<close>; \<open>authorized\<close> is the set of moves the request's gate stamped on the instance.
\<close>

definition save_project ::
    "bool \<Rightarrow> string list option \<Rightarrow> string list option \<Rightarrow> (pk \<Rightarrow> revision option) \<Rightarrow> script_project \<Rightarrow> db \<Rightarrow> db result" where
  "save_project adding update_fields authorized assigned self0 d =
     (let original = (if adding then None else project_of d (p_id self0));
          self = (case original of None \<Rightarrow> self0
            | Some row \<Rightarrow> self0\<lparr>p_source_revision := p_source_revision row,
                p_source_activation_pending := p_source_activation_pending row,
                p_active_revision := if update_fields = None then p_active_revision row
                  else p_active_revision self0\<rparr>);
          frozen = (case original of None \<Rightarrow> []
            | Some row \<Rightarrow> (if p_key row \<noteq> p_key self then [''key''] else []) @
                (if p_source_type row \<noteq> p_source_type self then [''source_type''] else []) @
                (if p_storage_key row \<noteq> p_storage_key self then [''storage_key''] else []));
          unauthorized = (case (original, authorized) of
              (Some row, Some granted) \<Rightarrow> filter (\<lambda>f. f \<notin> set granted) (moving_fields update_fields self row)
            | _ \<Rightarrow> [])
      in if frozen \<noteq> [] then Inl (ValidationError frozen)
         else if unauthorized \<noteq> [] then Inl AbortRequest
         else rbind (if writes update_fields [''active_revision'', ''active_revision_id'']
                     then active_revision_error (Option.bind (p_active_revision self) assigned) self
                     else Inr None) (\<lambda>pointer_error.
           if pointer_error \<noteq> None then Inl (ValidationError [''active_revision''])
           else rbind (save_row p_id copy_project adding update_fields self (projects d)) (write_projects d)))"

section \<open>Revision queries\<close>

definition activatable_revision :: "db \<Rightarrow> script_project \<Rightarrow> revision option" where
  "activatable_revision d p = latest (filter (\<lambda>r. r_status r \<in> set ACTIVATABLE_REVISION_STATUSES \<and>
     (p_active_revision p \<noteq> None \<longrightarrow> Some (r_id r) \<noteq> p_active_revision p)) (project_revisions d (p_id p)))"

definition latest_revision :: "db \<Rightarrow> script_project \<Rightarrow> revision option" where
  "latest_revision d p = latest (project_revisions d (p_id p))"

definition stored_content :: "revision \<Rightarrow> bool" where
  "stored_content r \<longleftrightarrow> r_digest r \<noteq> None \<and> r_status r \<notin> set UNSTORED_REVISION_STATUSES"

definition latest_stored_revision :: "db \<Rightarrow> script_project \<Rightarrow> revision option" where
  "latest_stored_revision d p =
     (let source_id = Option.bind (project_of d (p_id p)) p_source_revision;
          source = (case source_id of None \<Rightarrow> None
            | Some k \<Rightarrow> List.find (\<lambda>r. r_id r = k \<and> stored_content r) (project_revisions d (p_id p)))
      in case source of Some r \<Rightarrow> Some r | None \<Rightarrow> latest (filter stored_content (project_revisions d (p_id p))))"

datatype source_summary = NoSource | ActiveIsNewest | NewestIs revision_status | NewerExists

definition source_state :: "db \<Rightarrow> script_project \<Rightarrow> source_summary" where
  "source_state d p =
     (case latest_revision d p of
        None \<Rightarrow> NoSource
      | Some r \<Rightarrow>
          if Some (r_id r) = p_active_revision p \<or>
             (truthy (r_digest r) \<and> r_status r \<notin> set UNSTORED_REVISION_STATUSES \<and> r_status r \<noteq> MATERIALIZED \<and>
              p_active_revision p \<noteq> None \<and> p_source_revision p = p_active_revision p)
          then ActiveIsNewest
          else if r_status r \<noteq> ACTIVE then NewestIs (r_status r) else NewerExists)"

definition current_revision :: "db \<Rightarrow> script_project \<Rightarrow> revision option" where
  "current_revision d p = (case Option.bind (p_active_revision p) (revision_of d) of
     Some r \<Rightarrow> Some r | None \<Rightarrow> latest_stored_revision d p)"

definition manifest_paths :: "revision \<Rightarrow> pystr list" where
  "manifest_paths r = map e_path (manifest_entries (r_manifest r))"

definition paths_awaiting_activation :: "db \<Rightarrow> script_project \<Rightarrow> pystr set" where
  "paths_awaiting_activation d p =
     (if p_active_revision p = None then {}
      else case (current_revision d p,
                 latest (filter (\<lambda>r. stored_content r \<and> r_status r \<noteq> INVALID) (project_revisions d (p_id p)))) of
        (Some current, Some newest) \<Rightarrow>
          if r_id newest = r_id current then {}
          else set (manifest_paths newest) - set (manifest_paths current)
      | _ \<Rightarrow> {})"

section \<open>Selecting Script Files\<close>

text \<open>The paths of a Data Source's files are rows of NetBox core: \<open>datafiles\<close>.\<close>

definition source_paths :: "(pk \<Rightarrow> pystr list) \<Rightarrow> db \<Rightarrow> script_project \<Rightarrow> pystr list" where
  "source_paths datafiles d p =
     (case (p_source_type p, p_data_source p) of
        (DATA_SOURCE, Some ds) \<Rightarrow>
          List.map_filter (\<lambda>path. data_source_relative_path path (p_data_path p)) (datafiles ds)
      | _ \<Rightarrow> (case current_revision d p of None \<Rightarrow> [] | Some r \<Rightarrow> manifest_paths r))"

definition script_file_candidates :: "(pk \<Rightarrow> pystr list) \<Rightarrow> db \<Rightarrow> script_project \<Rightarrow> pystr list" where
  "script_file_candidates datafiles d p = sort (filter (\<lambda>path. endswith path PY_SUFFIX) (source_paths datafiles d p))"

definition declarable_script_files :: "(pk \<Rightarrow> pystr list) \<Rightarrow> db \<Rightarrow> script_project \<Rightarrow> pystr list" where
  "declarable_script_files datafiles d p =
     sort (remdups (map f_source_path (project_files (p_id p) d) @ script_file_candidates datafiles d p))"

definition new_script_file :: "db \<Rightarrow> pk \<Rightarrow> pystr \<Rightarrow> script_file" where
  "new_script_file d p path = \<lparr>f_id = fresh (map f_id (script_files d)), f_project = p, f_source_path = path,
     f_enabled = True, f_discovery_status = PENDING, f_discovery_error = [], f_last_discovered_revision = None\<rparr>"

fun create_declarations :: "python \<Rightarrow> pk \<Rightarrow> pystr list \<Rightarrow> db \<Rightarrow> (db \<times> pk list) result" where
  "create_declarations E p [] d = Inr (d, [])"
| "create_declarations E p (path # rest) d =
     rbind (clean_script_file E True (new_script_file d p path) d) (\<lambda>item.
       rbind (save_declaration E True None item d) (\<lambda>d'.
         rbind (create_declarations E p rest d') (\<lambda>(d'', created). Inr (d'', f_id item # created))))"

fun switch_declarations :: "python \<Rightarrow> pystr list \<Rightarrow> script_file list \<Rightarrow> db \<Rightarrow> db result" where
  "switch_declarations E selected [] d = Inr d"
| "switch_declarations E selected (item # rest) d =
     rbind (save_declaration E False (Some [''enabled'', ''last_updated''])
         (item\<lparr>f_enabled := f_source_path item \<in> set selected\<rparr>) d)
       (switch_declarations E selected rest)"

text \<open>\<open>permit\<close> is \<open>validate_script_file_permissions\<close>: it sees the database, the created and the changed keys.\<close>

definition select_script_files ::
    "python \<Rightarrow> (pk \<Rightarrow> pystr list) \<Rightarrow> (db \<Rightarrow> pk list \<Rightarrow> pk list \<Rightarrow> unit result) \<Rightarrow> script_project \<Rightarrow> pystr list \<Rightarrow> db \<Rightarrow>
     (db \<times> bool) result" where
  "select_script_files E datafiles permit p paths d =
     (let selected = remdups paths;
          unknown = filter (\<lambda>path. path \<notin> set (declarable_script_files datafiles d p)) selected;
          existing = project_files (p_id p) d;
          switched = filter (\<lambda>item. f_enabled item \<noteq> (f_source_path item \<in> set selected)) existing;
          changed = map f_id switched;
          missing = sort (filter (\<lambda>path. path \<notin> set (map f_source_path existing)) selected)
      in if unknown \<noteq> [] then Inl (ValidationError [''script_files''])
         else rbind (permit d [] changed) (\<lambda>_.
           rbind (create_declarations E (p_id p) missing d) (\<lambda>(d1, created).
             rbind (switch_declarations E selected switched d1) (\<lambda>d2.
               rbind (permit d2 created changed) (\<lambda>_.
                 Inr (d2, created \<noteq> [] \<or> changed \<noteq> []))))))"

section \<open>The frozen content of a revision\<close>

definition copy_revision :: "string list option \<Rightarrow> revision \<Rightarrow> revision \<Rightarrow> revision" where
  "copy_revision uf self row = row\<lparr>
     r_project := if writes uf [''project'', ''project_id''] then r_project self else r_project row,
     r_digest := if writes uf [''digest''] then r_digest self else r_digest row,
     r_status := if writes uf [''status''] then r_status self else r_status row,
     r_manifest := if writes uf [''manifest''] then r_manifest self else r_manifest row,
     r_file_count := if writes uf [''file_count''] then r_file_count self else r_file_count row,
     r_total_size := if writes uf [''total_size''] then r_total_size self else r_total_size row,
     r_validation_errors := if writes uf [''validation_errors''] then r_validation_errors self else r_validation_errors row,
     r_discovered_scripts := if writes uf [''discovered_scripts'']
       then r_discovered_scripts self else r_discovered_scripts row,
     r_script_file_snapshot := if writes uf [''script_file_snapshot'']
       then r_script_file_snapshot self else r_script_file_snapshot row,
     r_script_file_digest := if writes uf [''script_file_digest'']
       then r_script_file_digest self else r_script_file_digest row,
     r_validation_job := if writes uf [''validation_job'', ''validation_job_id'']
       then r_validation_job self else r_validation_job row,
     r_validation_started := if writes uf [''validation_started'']
       then r_validation_started self else r_validation_started row,
     r_last_validation_failure := if writes uf [''last_validation_failure'']
       then r_last_validation_failure self else r_last_validation_failure row,
     r_activated := if writes uf [''activated''] then r_activated self else r_activated row\<rparr>"

definition content_changes :: "revision \<Rightarrow> revision \<Rightarrow> string list" where
  "content_changes original self =
     (if r_project original \<noteq> r_project self then [''project''] else []) @
     (if r_digest original \<noteq> r_digest self then [''digest''] else []) @
     (if \<not> json_eq (r_manifest original) (r_manifest self) then [''manifest''] else []) @
     (if r_file_count original \<noteq> r_file_count self then [''file_count''] else []) @
     (if r_total_size original \<noteq> r_total_size self then [''total_size''] else []) @
     (if \<not> json_eq (r_script_file_snapshot original) (r_script_file_snapshot self) then [''script_file_snapshot''] else []) @
     (if r_script_file_digest original \<noteq> r_script_file_digest self then [''script_file_digest''] else [])"

definition save_revision :: "bool \<Rightarrow> string list option \<Rightarrow> revision \<Rightarrow> db \<Rightarrow> db result" where
  "save_revision adding update_fields self d =
     (let errors = (if adding then [] else case revision_of d (r_id self) of
            None \<Rightarrow> [] | Some original \<Rightarrow> content_changes original self)
      in if errors \<noteq> [] then Inl (ValidationError errors)
         else rbind (save_row r_id copy_revision adding update_fields self (revisions d)) (write_revisions d))"

definition short_digest :: "revision \<Rightarrow> pystr" where
  "short_digest r = (if truthy (r_digest r) then take 12 (the (r_digest r)) else [])"

definition is_activatable :: "revision \<Rightarrow> bool" where
  "is_activatable r \<longleftrightarrow> r_status r \<in> set ACTIVATABLE_REVISION_STATUSES"

section \<open>Saving a project\<close>

lemma save_project_InrD:
  assumes "save_project adding uf authorized assigned self0 d = Inr d'"
  obtains self where "p_id self = p_id self0"
    "p_data_source self = p_data_source self0" "p_data_path self = p_data_path self0"
    "p_source_type self = p_source_type self0"
    "save_row p_id copy_project adding uf self (projects d) = Inr (projects d')"
    "project_constraints (projects d')" "d' = d\<lparr>projects := projects d'\<rparr>"
    "\<not> adding \<longrightarrow> (case project_of d (p_id self0) of None \<Rightarrow> True | Some row \<Rightarrow>
       p_key self = p_key row \<and> p_source_type self = p_source_type row \<and> p_storage_key self = p_storage_key row \<and>
       p_source_revision self = p_source_revision row \<and>
       p_source_activation_pending self = p_source_activation_pending row \<and>
       (uf = None \<longrightarrow> p_active_revision self = p_active_revision row) \<and>
       (case authorized of None \<Rightarrow> True | Some granted \<Rightarrow> set (moving_fields uf self row) \<subseteq> set granted))"
    "writes uf [''active_revision'', ''active_revision_id''] \<longrightarrow>
       active_revision_error (Option.bind (p_active_revision self) assigned) self = Inr None"
proof -
  define original where "original = (if adding then None else project_of d (p_id self0))"
  define self where "self = (case original of None \<Rightarrow> self0
    | Some row \<Rightarrow> self0\<lparr>p_source_revision := p_source_revision row,
        p_source_activation_pending := p_source_activation_pending row,
        p_active_revision := if uf = None then p_active_revision row else p_active_revision self0\<rparr>)"
  define frozen where "frozen = (case original of None \<Rightarrow> []
    | Some row \<Rightarrow> (if p_key row \<noteq> p_key self then [''key''] else []) @
        (if p_source_type row \<noteq> p_source_type self then [''source_type''] else []) @
        (if p_storage_key row \<noteq> p_storage_key self then [''storage_key''] else []))"
  define unauthorized where "unauthorized = (case (original, authorized) of
      (Some row, Some granted) \<Rightarrow> filter (\<lambda>f. f \<notin> set granted) (moving_fields uf self row) | _ \<Rightarrow> [])"
  have run: "save_project adding uf authorized assigned self0 d =
      (if frozen \<noteq> [] then Inl (ValidationError frozen) else if unauthorized \<noteq> [] then Inl AbortRequest
       else rbind (if writes uf [''active_revision'', ''active_revision_id'']
                   then active_revision_error (Option.bind (p_active_revision self) assigned) self else Inr None)
         (\<lambda>e. if e \<noteq> None then Inl (ValidationError [''active_revision''])
            else rbind (save_row p_id copy_project adding uf self (projects d)) (write_projects d)))"
    unfolding save_project_def Let_def original_def [symmetric] self_def [symmetric] frozen_def [symmetric]
      unauthorized_def [symmetric] ..
  from assms have ok: "frozen = []" "unauthorized = []" unfolding run by (auto split: if_splits)
  from assms obtain rows where "save_row p_id copy_project adding uf self (projects d) = Inr rows"
      "project_constraints rows" "d' = d\<lparr>projects := rows\<rparr>"
      "writes uf [''active_revision'', ''active_revision_id''] \<longrightarrow>
       active_revision_error (Option.bind (p_active_revision self) assigned) self = Inr None"
    unfolding run using ok by (auto simp: result_simps split: if_splits)
  moreover have "p_id self = p_id self0" "p_data_source self = p_data_source self0"
    "p_data_path self = p_data_path self0" "p_source_type self = p_source_type self0"
    by (simp_all add: self_def split: option.splits)
  moreover have "\<not> adding \<longrightarrow> (case project_of d (p_id self0) of None \<Rightarrow> True | Some row \<Rightarrow>
       p_key self = p_key row \<and> p_source_type self = p_source_type row \<and> p_storage_key self = p_storage_key row \<and>
       p_source_revision self = p_source_revision row \<and>
       p_source_activation_pending self = p_source_activation_pending row \<and>
       (uf = None \<longrightarrow> p_active_revision self = p_active_revision row) \<and>
       (case authorized of None \<Rightarrow> True | Some granted \<Rightarrow> set (moving_fields uf self row) \<subseteq> set granted))"
  proof (cases original)
    case (Some row)
    then have "p_key self = p_key row" "p_source_type self = p_source_type row" "p_storage_key self = p_storage_key row"
      using ok(1) by (simp_all add: frozen_def split: if_splits)
    moreover have "case authorized of None \<Rightarrow> True | Some granted \<Rightarrow> set (moving_fields uf self row) \<subseteq> set granted"
      using ok(2) Some by (auto simp: unauthorized_def filter_empty_conv split: option.splits)
    ultimately show ?thesis using Some by (simp add: self_def original_def split: if_splits)
  qed (simp add: original_def split: if_splits)
  ultimately show ?thesis by (intro that [of self]) simp_all
qed

lemma copy_project_id [simp]: "p_id (copy_project uf self row) = p_id row"
  by (simp add: copy_project_def)

lemma project_of_after_save:
  assumes "save_row p_id copy_project adding uf self (projects d) = Inr (projects d')"
    and "distinct (map p_id (projects d'))" and "project_of d k = Some r"
  shows "\<not> adding \<and> k = p_id self \<and> project_of d' k = Some (copy_project uf self r) \<or>
    k \<noteq> p_id self \<and> project_of d' k = Some r"
proof -
  have r: "r \<in> set (projects d)" "p_id r = k" using project_of_SomeD [OF assms(3)] by simp_all
  from assms(1) show ?thesis
  proof (cases rule: save_row_cases)
    case insert
    have "k \<noteq> p_id self" using assms(2) r unfolding insert(1) by (auto simp: image_iff)
    then show ?thesis using project_of_member [OF assms(2), of r] r insert(1) by simp
  next
    case update
    then show ?thesis
      using assms(3) r(2) unfolding project_of_def update(1) by (subst (1 2) find_update_rows) auto
  qed
qed

section \<open>Overlapping sources\<close>

text \<open>No two Data Source projects can be given one file.\<close>

definition disjoint_sources :: "db \<Rightarrow> bool" where
  "disjoint_sources d \<longleftrightarrow> (\<forall>a \<in> set (projects d). \<forall>b \<in> set (projects d).
     p_source_type a = DATA_SOURCE \<and> p_source_type b = DATA_SOURCE \<and> p_id a \<noteq> p_id b \<and>
     p_data_source a = p_data_source b \<longrightarrow> \<not> data_paths_overlap (p_data_path a) (p_data_path b))"

lemma data_paths_overlap_sym: "data_paths_overlap a b = data_paths_overlap b a"
  unfolding overlap_iff by blast

lemma no_overlapping_sibling:
  "overlapping_sibling d self = None \<longleftrightarrow> (\<forall>other \<in> set (projects d).
     p_source_type other = DATA_SOURCE \<and> p_data_source other = p_data_source self \<and> p_id other \<noteq> p_id self \<longrightarrow>
     \<not> data_paths_overlap (p_data_path self) (p_data_path other))"
  by (auto simp: overlapping_sibling_def find_None_iff)

lemma clean_project_InrD:
  assumes "clean_project adding assigned self0 d = Inr self"
  shows "p_id self = p_id self0 \<and> owns_source self \<and> p_source_type self = p_source_type self0 \<and>
    normalize_data_path (p_data_path self0) = Inr (p_data_path self) \<and>
    (p_source_type self = DATA_SOURCE \<longrightarrow> overlapping_sibling d self = None)"
proof (cases "normalize_data_path (p_data_path self0)")
  case (Inr path)
  with assms show ?thesis
    by (cases "p_source_type self0") (auto simp: clean_project_def Let_def result_simps owns_source_def split: if_splits)
next
  case (Inl e)
  with assms show ?thesis by (auto simp: clean_project_def Let_def result_simps split: if_splits)
qed

section \<open>Selecting Script Files, step by step\<close>

lemma clean_script_file_InrD:
  assumes "clean_script_file E adding self0 d = Inr self"
  shows "\<exists>canonical. normalize_source_path E (f_source_path self0) = Inr canonical \<and>
    self = self0\<lparr>f_source_path := canonical\<rparr> \<and> is_ok (source_path_to_dotted_name E canonical)"
proof -
  from assms obtain s unsafe where s: "(case normalize_source_path E (f_source_path self0) of
              Inl (UnsafePath _ _) \<Rightarrow> Inr (self0, True) | Inl e \<Rightarrow> Inl e
            | Inr canonical \<Rightarrow> Inr (self0\<lparr>f_source_path := canonical\<rparr>, False)) = Inr (s, unsafe)"
      and r: "s = self" "\<not> unsafe" "is_ok (source_path_to_dotted_name E (f_source_path self))"
    unfolding clean_script_file_def by (auto simp: result_simps Let_def split: if_splits)
  then show ?thesis by (auto split: sum.splits py_error.splits)
qed

lemma save_new_declaration:
  assumes "save_declaration E True None item d = Inr d'" "normalize_source_path E (f_source_path item) = Inr c"
  shows "\<exists>s. d' = d\<lparr>script_files := script_files d @ [s]\<rparr> \<and> f_id s = f_id item \<and> f_project s = f_project item \<and>
    f_source_path s = c \<and> f_enabled s = f_enabled item"
proof -
  obtain canonical s where "normalize_source_path E (f_source_path item) = Inr canonical"
    "is_ok (source_path_to_dotted_name E canonical)" "f_id s = f_id item" "f_project s = f_project item"
    "f_source_path s = canonical" "f_enabled s = f_enabled item"
    "True \<or> writes None [''source_path''] \<longrightarrow> sibling_path_conflict E d s = Inr None"
    "save_row f_id copy_script_file True None s (script_files d) = Inr (script_files d')"
    "script_file_constraints (script_files d')" "d' = d\<lparr>script_files := script_files d'\<rparr>"
    using assms(1) by (rule save_declaration_InrD) blast
  then show ?thesis using assms(2) by (intro exI [of _ s]) (auto simp: save_row_def)
qed

lemma switch_one:
  assumes "save_declaration E False (Some [''enabled'', ''last_updated'']) item d = Inr d'"
  shows "d' = d\<lparr>script_files := update_rows (\<lambda>r. f_id r = f_id item) (\<lambda>r. r\<lparr>f_enabled := f_enabled item\<rparr>) (script_files d)\<rparr>"
proof -
  obtain canonical s where "normalize_source_path E (f_source_path item) = Inr canonical"
    "is_ok (source_path_to_dotted_name E canonical)" "f_id s = f_id item" "f_project s = f_project item"
    "f_source_path s = canonical" "f_enabled s = f_enabled item"
    "False \<or> writes (Some [''enabled'', ''last_updated'']) [''source_path''] \<longrightarrow> sibling_path_conflict E d s = Inr None"
    "save_row f_id copy_script_file False (Some [''enabled'', ''last_updated'']) s (script_files d) = Inr (script_files d')"
    "script_file_constraints (script_files d')" "d' = d\<lparr>script_files := script_files d'\<rparr>"
    using assms by (rule save_declaration_InrD) blast
  moreover have "copy_script_file (Some [''enabled'', ''last_updated'']) s = (\<lambda>r. r\<lparr>f_enabled := f_enabled s\<rparr>)"
    by (auto simp: copy_script_file_def writes_def)
  ultimately show ?thesis by (auto simp: save_row_def split: if_splits)
qed

lemma switch_all:
  assumes "switch_declarations E selected items d = Inr d'"
    and "\<forall>item \<in> set items. \<forall>r \<in> set (script_files d). f_id r = f_id item \<longrightarrow> f_source_path r = f_source_path item"
  shows "d' = d\<lparr>script_files := update_rows (\<lambda>r. f_id r \<in> f_id ` set items)
    (\<lambda>r. r\<lparr>f_enabled := f_source_path r \<in> set selected\<rparr>) (script_files d)\<rparr>"
  using assms
proof (induction items arbitrary: d)
  case Nil
  then show ?case by (simp add: update_rows_def)
next
  case (Cons item items)
  from Cons.prems(1) obtain d1 where one: "save_declaration E False (Some [''enabled'', ''last_updated''])
         (item\<lparr>f_enabled := f_source_path item \<in> set selected\<rparr>) d = Inr d1"
      and rest: "switch_declarations E selected items d1 = Inr d'" by (auto simp: result_simps)
  have d1: "d1 = d\<lparr>script_files := update_rows (\<lambda>r. f_id r = f_id item)
      (\<lambda>r. r\<lparr>f_enabled := f_source_path item \<in> set selected\<rparr>) (script_files d)\<rparr>"
    using switch_one [OF one] by simp
  have "\<forall>i \<in> set items. \<forall>r \<in> set (script_files d1). f_id r = f_id i \<longrightarrow> f_source_path r = f_source_path i"
    using Cons.prems(2) by (auto simp: d1 set_update_rows split: if_splits)
  note tail = Cons.IH [OF rest this]
  have "update_rows (\<lambda>r. f_id r \<in> f_id ` set items) (\<lambda>r. r\<lparr>f_enabled := f_source_path r \<in> set selected\<rparr>)
      (update_rows (\<lambda>r. f_id r = f_id item) (\<lambda>r. r\<lparr>f_enabled := f_source_path item \<in> set selected\<rparr>) (script_files d)) =
      update_rows (\<lambda>r. f_id r \<in> f_id ` set (item # items))
      (\<lambda>r. r\<lparr>f_enabled := f_source_path r \<in> set selected\<rparr>) (script_files d)"
    unfolding update_rows_def map_map
  proof (rule map_cong [OF refl])
    fix r assume "r \<in> set (script_files d)"
    then have "f_id r = f_id item \<Longrightarrow> f_source_path r = f_source_path item" using Cons.prems(2) by simp
    then show "((\<lambda>r. if f_id r \<in> f_id ` set items then r\<lparr>f_enabled := f_source_path r \<in> set selected\<rparr> else r) \<circ>
        (\<lambda>r. if f_id r = f_id item then r\<lparr>f_enabled := f_source_path item \<in> set selected\<rparr> else r)) r =
      (if f_id r \<in> f_id ` set (item # items) then r\<lparr>f_enabled := f_source_path r \<in> set selected\<rparr> else r)"
      by simp
  qed
  with tail show ?case by (simp add: d1)
qed

lemma create_all:
  assumes "nfc_laws E" "lower_laws E" "identifier_laws E" "declarations_ok E d"
    and "create_declarations E p paths d = Inr (d', created)"
  shows "\<exists>new. d' = d\<lparr>script_files := script_files d @ new\<rparr> \<and> created = map f_id new \<and> declarations_ok E d' \<and>
    list_all2 (\<lambda>path s. f_project s = p \<and> f_enabled s \<and> normalize_source_path E path = Inr (f_source_path s)) paths new"
  using assms(4,5)
proof (induction paths arbitrary: d created)
  case (Cons path rest)
  from Cons.prems(2) obtain item d1 ids where item: "clean_script_file E True (new_script_file d p path) d = Inr item"
      and save: "save_declaration E True None item d = Inr d1"
      and rest: "create_declarations E p rest d1 = Inr (d', ids)" and created: "created = f_id item # ids"
    by (auto simp: result_simps)
  from clean_script_file_InrD [OF item] obtain c where c: "normalize_source_path E path = Inr c"
      "item = (new_script_file d p path)\<lparr>f_source_path := c\<rparr>" "is_ok (source_path_to_dotted_name E c)"
    by (auto simp: new_script_file_def)
  have stable: "normalize_source_path E (f_source_path item) = Inr c"
    using importable_canonical [OF assms(1,3) c(1)] c by (auto simp: is_ok_iff)
  from save_new_declaration [OF save stable] obtain s where s: "d1 = d\<lparr>script_files := script_files d @ [s]\<rparr>"
      "f_id s = f_id item" "f_project s = p" "f_source_path s = c" "f_enabled s"
    by (auto simp: c(2) new_script_file_def)
  have "0 < f_id item" by (simp add: c(2) new_script_file_def fresh_def)
  then have "declarations_ok E d1" using save_declaration_ok [OF assms(1-3) Cons.prems(1) _ save] by blast
  from Cons.IH [OF this rest] obtain new where new: "d' = d1\<lparr>script_files := script_files d1 @ new\<rparr>" "ids = map f_id new"
      "declarations_ok E d'" "list_all2 (\<lambda>path s. f_project s = p \<and> f_enabled s \<and>
        normalize_source_path E path = Inr (f_source_path s)) rest new"
    by blast
  show ?case
    using new s c(1) created by (intro exI [of _ "s # new"]) simp
qed simp

definition enabled_paths :: "pk \<Rightarrow> db \<Rightarrow> pystr set" where
  "enabled_paths p d = f_source_path ` set (filter f_enabled (project_files p d))"

lemma selected_rows:
  assumes "distinct (map f_id (old @ new))" and "switched = filter (\<lambda>r. f_project r = p \<and> f_enabled r \<noteq> (f_source_path r \<in> S)) old"
    and "rows = update_rows (\<lambda>r. f_id r \<in> f_id ` set switched) (\<lambda>r. r\<lparr>f_enabled := f_source_path r \<in> S\<rparr>) (old @ new)"
  shows "rows = map (\<lambda>r. if f_project r = p then r\<lparr>f_enabled := f_source_path r \<in> S\<rparr> else r) old @ new"
proof -
  have "f_id r \<in> f_id ` set switched \<longleftrightarrow> r \<in> set switched" if "r \<in> set (old @ new)" for r
  proof
    assume "f_id r \<in> f_id ` set switched"
    then obtain x where x: "x \<in> set switched" "f_id r = f_id x" by auto
    then have "x \<in> set (old @ new)" by (simp add: assms(2))
    with assms(1) that x(2) have "r = x" by (meson distinct_map inj_onD)
    with x(1) show "r \<in> set switched" by simp
  qed auto
  moreover have "r \<notin> set old" if "r \<in> set new" for r using assms(1) that by auto
  ultimately show ?thesis
    unfolding assms(3) update_rows_def map_append
    by (intro arg_cong2 [of _ _ _ _ append] map_cong map_idI) (auto simp: assms(2))
qed

lemma distinct_map_eq: "distinct (map f xs) \<Longrightarrow> x \<in> set xs \<Longrightarrow> y \<in> set xs \<Longrightarrow> f x = f y \<Longrightarrow> x = y"
  by (auto simp: distinct_map dest: inj_onD)

text \<open>Whether the selection was a change, over the paths of the project's rows.\<close>

lemma selection_changed:
  assumes "distinct (map f_source_path (existing @ new))"
  shows "f_source_path ` {r \<in> set existing. f_source_path r \<in> S} \<union> f_source_path ` set new \<noteq>
      f_source_path ` {r \<in> set existing. f_enabled r} \<longleftrightarrow>
    new \<noteq> [] \<or> filter (\<lambda>r. f_enabled r \<noteq> (f_source_path r \<in> S)) existing \<noteq> []" (is "?A \<noteq> ?B \<longleftrightarrow> _")
proof
  assume differ: "?A \<noteq> ?B"
  show "new \<noteq> [] \<or> filter (\<lambda>r. f_enabled r \<noteq> (f_source_path r \<in> S)) existing \<noteq> []"
  proof (rule ccontr)
    assume "\<not> ?thesis"
    then have "new = []" "\<forall>r \<in> set existing. f_enabled r = (f_source_path r \<in> S)" by (auto simp: filter_empty_conv)
    then have "?A = ?B" by auto
    with differ show False ..
  qed
next
  note unique = distinct_map_eq [OF assms]
  assume "new \<noteq> [] \<or> filter (\<lambda>r. f_enabled r \<noteq> (f_source_path r \<in> S)) existing \<noteq> []"
  then have "(\<exists>s. s \<in> set new) \<or> (\<exists>r \<in> set existing. f_enabled r \<noteq> (f_source_path r \<in> S))"
    by (cases new) (auto simp: filter_empty_conv)
  then consider s where "s \<in> set new" | r where "r \<in> set existing" "f_enabled r \<noteq> (f_source_path r \<in> S)"
    by blast
  then show "?A \<noteq> ?B"
  proof cases
    case 1
    then have "f_source_path s \<in> ?A" by blast
    moreover have "f_source_path s \<notin> f_source_path ` set existing" using assms 1 by auto
    ultimately show ?thesis by blast
  next
    case 2
    have "f_source_path r \<notin> f_source_path ` set new" using assms 2(1) by auto
    moreover have "f_source_path r \<in> f_source_path ` {q \<in> set existing. Q q} \<longleftrightarrow> Q r" for Q
      using unique [of r] 2(1) by auto
    ultimately have "f_source_path r \<in> ?A \<longleftrightarrow> f_source_path r \<in> S" "f_source_path r \<in> ?B \<longleftrightarrow> f_enabled r" by auto
    with 2(2) show ?thesis by blast
  qed
qed

lemma enabled_after:
  assumes "script_files d' = map (\<lambda>r. if f_project r = k then r\<lparr>f_enabled := f_source_path r \<in> S\<rparr> else r) (script_files d) @ new"
    and "\<And>s. s \<in> set new \<Longrightarrow> f_project s = k \<and> f_enabled s"
  shows "enabled_paths k d' = f_source_path ` {r \<in> set (project_files k d). f_source_path r \<in> S} \<union> f_source_path ` set new"
proof (rule set_eqI)
  fix c
  have "c \<in> enabled_paths k d' \<longleftrightarrow> (\<exists>x \<in> set (script_files d'). f_project x = k \<and> f_enabled x \<and> c = f_source_path x)"
    by (auto simp: enabled_paths_def project_files_def)
  also have "\<dots> \<longleftrightarrow> (\<exists>r \<in> set (script_files d). f_project r = k \<and> f_source_path r \<in> S \<and> c = f_source_path r) \<or>
      (\<exists>s \<in> set new. f_project s = k \<and> f_enabled s \<and> c = f_source_path s)"
    unfolding assms(1) set_append set_map bex_Un bex_simps(7) by (intro arg_cong2 [of _ _ _ _ "(\<or>)"] bex_cong) auto
  also have "\<dots> \<longleftrightarrow> c \<in> f_source_path ` {r \<in> set (project_files k d). f_source_path r \<in> S} \<union> f_source_path ` set new"
    using assms(2) by (auto simp: project_files_def)
  finally show "c \<in> enabled_paths k d' \<longleftrightarrow>
      c \<in> f_source_path ` {r \<in> set (project_files k d). f_source_path r \<in> S} \<union> f_source_path ` set new" .
qed

section \<open>Properties\<close>


definition example_project :: "pk \<Rightarrow> script_project" where
  "example_project k = \<lparr>p_id = k, p_name = lit ''n'', p_key = replicate k 97, p_storage_key = replicate k 98,
     p_source_type = DATA_SOURCE, p_data_source = Some 1, p_data_path = lit ''x'',
     p_activation_policy = MANUAL, p_active_revision = None, p_source_revision = Some 4,
     p_source_activation_pending = True, p_enabled = True\<rparr>"


text \<open>
  Cleaning and saving projects never lets two Data Source projects read one file: when it
  succeeds, every pair of projects on one Data Source has disjoint directories, if it did before.
\<close>

theorem clean_save_keeps_disjoint_sources:
  assumes "disjoint_sources d" and "clean_project adding assigned0 self0 d = Inr self"
    and "save_project adding None authorized assigned self d = Inr d'"
  shows "disjoint_sources d'"
proof -
  obtain s where s: "p_id s = p_id self" "p_data_source s = p_data_source self" "p_data_path s = p_data_path self"
    "p_source_type s = p_source_type self"
    and row: "save_row p_id copy_project adding None s (projects d) = Inr (projects d')"
    and "project_constraints (projects d')" "d' = d\<lparr>projects := projects d'\<rparr>"
    and "\<not> adding \<longrightarrow> (case project_of d (p_id self) of None \<Rightarrow> True | Some row \<Rightarrow>
       p_key s = p_key row \<and> p_source_type s = p_source_type row \<and> p_storage_key s = p_storage_key row \<and>
       p_source_revision s = p_source_revision row \<and>
       p_source_activation_pending s = p_source_activation_pending row \<and>
       ((None :: string list option) = None \<longrightarrow> p_active_revision s = p_active_revision row) \<and>
       (case authorized of None \<Rightarrow> True | Some granted \<Rightarrow> set (moving_fields None s row) \<subseteq> set granted))"
    and "writes None [''active_revision'', ''active_revision_id''] \<longrightarrow>
       active_revision_error (Option.bind (p_active_revision s) assigned) s = Inr None"
    using assms(3) by (rule save_project_InrD)
  from clean_project_InrD [OF assms(2)] have lone: "p_source_type s = DATA_SOURCE \<Longrightarrow>
      \<forall>other \<in> set (projects d). p_source_type other = DATA_SOURCE \<and> p_data_source other = p_data_source s \<and>
        p_id other \<noteq> p_id s \<longrightarrow> \<not> data_paths_overlap (p_data_path s) (p_data_path other)"
    using s by (simp add: no_overlapping_sibling)
  define saved where "saved a \<longleftrightarrow> p_id a = p_id s \<and> p_source_type a = p_source_type s \<and>
      p_data_source a = p_data_source s \<and> p_data_path a = p_data_path s" for a :: script_project
  have rows: "a \<in> set (projects d) \<and> (p_id a \<noteq> p_id s \<or> adding) \<or> saved a" if "a \<in> set (projects d')" for a
    using row
  proof (cases rule: save_row_cases)
    case insert
    with that show ?thesis unfolding saved_def by (auto simp: image_iff)
  next
    case update
    from that obtain r where "r \<in> set (projects d)" "a = (if p_id r = p_id s then copy_project None s r else r)"
      unfolding update(1) set_update_rows by blast
    then show ?thesis unfolding saved_def by (auto simp: copy_project_def writes_def)
  qed
  show ?thesis
    unfolding disjoint_sources_def
  proof (intro ballI impI)
    fix a b assume "a \<in> set (projects d')" "b \<in> set (projects d')"
      and c: "p_source_type a = DATA_SOURCE \<and> p_source_type b = DATA_SOURCE \<and> p_id a \<noteq> p_id b \<and>
        p_data_source a = p_data_source b"
    with rows consider "a \<in> set (projects d)" "b \<in> set (projects d)" | "saved a" "b \<in> set (projects d)"
      | "a \<in> set (projects d)" "saved b" | "saved a" "saved b" by blast
    then show "\<not> data_paths_overlap (p_data_path a) (p_data_path b)"
    proof cases
      case 1
      with assms(1) c show ?thesis by (simp add: disjoint_sources_def)
    next
      case 2
      with lone c show ?thesis by (auto simp: saved_def)
    next
      case 3
      with lone c show ?thesis by (subst data_paths_overlap_sym) (auto simp: saved_def)
    next
      case 4
      with c show ?thesis by (simp add: saved_def)
    qed
  qed
qed

theorem clean_save_keeps_disjoint_sources_witness:
  "\<exists>self d'. clean_project True None (example_project 2 \<lparr>p_data_path := lit ''./y/''\<rparr>)
        (empty_db\<lparr>projects := [example_project 1]\<rparr>) = Inr self \<and>
     save_project True None None (\<lambda>_. None) self (empty_db\<lparr>projects := [example_project 1]\<rparr>) = Inr d' \<and>
     disjoint_sources d'"
proof -
  let ?d = "empty_db\<lparr>projects := [example_project 1]\<rparr>"
  let ?form = "example_project 2 \<lparr>p_data_path := lit ''./y/''\<rparr>"
  let ?self = "example_project 2 \<lparr>p_data_path := lit ''y''\<rparr>"
  have c: "clean_project True None ?form ?d = Inr ?self" by code_simp
  have "is_ok (save_project True None None (\<lambda>_. None) ?self ?d)" by code_simp
  then obtain d' where s: "save_project True None None (\<lambda>_. None) ?self ?d = Inr d'" by (auto simp: is_ok_iff)
  have j: "disjoint_sources ?d" by (simp add: disjoint_sources_def)
  from clean_save_keeps_disjoint_sources [OF j c s] have "disjoint_sources d'" .
  with c s show ?thesis by (intro exI [of _ ?self] exI [of _ d'] conjI)
qed

text \<open>
  A selection of Script Files that succeeds leaves exactly the selected files enabled, in their
  canonical spelling, deletes nothing, touches no other project, keeps the declarations executable
  together, and reports whether the enabled set changed.
\<close>

theorem select_script_files_exact:
  assumes "nfc_laws E" "lower_laws E" "identifier_laws E" "declarations_ok E d"
    and "select_script_files E datafiles permit p paths d = Inr (d', changed)"
  shows "enabled_paths (p_id p) d' = {c. \<exists>path \<in> set paths. normalize_source_path E path = Inr c} \<and>
    (changed \<longleftrightarrow> enabled_paths (p_id p) d' \<noteq> enabled_paths (p_id p) d) \<and>
    f_id ` set (script_files d) \<subseteq> f_id ` set (script_files d') \<and>
    (\<forall>q. q \<noteq> p_id p \<longrightarrow> project_files q d' = project_files q d) \<and> distinct (map f_id (script_files d'))"
proof -
  define k where "k = p_id p"
  define existing where "existing = project_files k d"
  define switched where "switched = filter (\<lambda>item. f_enabled item \<noteq> (f_source_path item \<in> set paths)) existing"
  define missing where "missing = sort (filter (\<lambda>path. path \<notin> set (map f_source_path existing)) (remdups paths))"
  from assms(5) obtain d1 created where create: "create_declarations E k missing d = Inr (d1, created)"
      and switch: "switch_declarations E (remdups paths) switched d1 = Inr d'"
      and flag: "changed \<longleftrightarrow> created \<noteq> [] \<or> map f_id switched \<noteq> []"
    unfolding select_script_files_def Let_def k_def [symmetric] existing_def [symmetric] set_remdups
      switched_def [symmetric] missing_def [symmetric]
    by (auto simp: result_simps split: if_splits)
  from create_all [OF assms(1-4) create] obtain new where d1: "d1 = d\<lparr>script_files := script_files d @ new\<rparr>"
      "created = map f_id new" and ok1: "declarations_ok E d1"
      and new: "list_all2 (\<lambda>path s. f_project s = k \<and> f_enabled s \<and>
        normalize_source_path E path = Inr (f_source_path s)) missing new" by blast
  have dist: "distinct (map f_id (script_files d @ new))" using ok1 by (simp add: declarations_ok_def d1)
  have sw: "switched = filter (\<lambda>r. f_project r = k \<and> f_enabled r \<noteq> (f_source_path r \<in> set paths)) (script_files d)"
    by (simp add: switched_def existing_def project_files_def conj_commute)
  have "f_source_path r = f_source_path item"
    if "item \<in> set switched" "r \<in> set (script_files d1)" "f_id r = f_id item" for item r
  proof -
    have "item \<in> set (script_files d1)" using that(1) by (simp add: sw d1)
    then have "r = item" using distinct_map_eq [OF dist] that(2,3) by (simp add: d1)
    then show ?thesis by simp
  qed
  with switch_all [OF switch] have "script_files d' = update_rows (\<lambda>r. f_id r \<in> f_id ` set switched)
      (\<lambda>r. r\<lparr>f_enabled := f_source_path r \<in> set paths\<rparr>) (script_files d @ new)" by (simp add: d1)
  from selected_rows [OF dist sw this] have rows: "script_files d' =
      map (\<lambda>r. if f_project r = k then r\<lparr>f_enabled := f_source_path r \<in> set paths\<rparr> else r) (script_files d) @ new" .
  have new_in: "s \<in> set new \<Longrightarrow> f_project s = k \<and> f_enabled s" for s
    using new by (auto simp: list_all2_conv_all_nth in_set_conv_nth)
  have new_paths: "f_source_path ` set new = {c. \<exists>path \<in> set missing. normalize_source_path E path = Inr c}"
    using new by (induction rule: list_all2_induct) auto
  have good: "normalize_source_path E (f_source_path r) = Inr (f_source_path r)" if "r \<in> set existing" for r
    using assms(4) that by (auto simp: declarations_ok_def executable_iff good_file_def existing_def)
  have en: "enabled_paths k d' = f_source_path ` {r \<in> set existing. f_source_path r \<in> set paths} \<union> f_source_path ` set new"
    unfolding existing_def using enabled_after [OF rows] new_in by blast
  also have "\<dots> = {c. \<exists>path \<in> set paths. normalize_source_path E path = Inr c}"
  proof (intro subset_antisym subsetI)
    fix c assume "c \<in> f_source_path ` {r \<in> set existing. f_source_path r \<in> set paths} \<union> f_source_path ` set new"
    then show "c \<in> {c. \<exists>path \<in> set paths. normalize_source_path E path = Inr c}"
      unfolding new_paths using good by (auto simp: missing_def)
  next
    fix c assume "c \<in> {c. \<exists>path \<in> set paths. normalize_source_path E path = Inr c}"
    then obtain path where path: "path \<in> set paths" "normalize_source_path E path = Inr c" by blast
    show "c \<in> f_source_path ` {r \<in> set existing. f_source_path r \<in> set paths} \<union> f_source_path ` set new"
    proof (cases "path \<in> f_source_path ` set existing")
      case True
      with good path have "c = path" by auto
      with True path(1) show ?thesis by blast
    next
      case False
      with path show ?thesis unfolding new_paths by (auto simp: missing_def)
    qed
  qed
  finally have exact: "enabled_paths k d' = {c. \<exists>path \<in> set paths. normalize_source_path E path = Inr c}" .
  have frame: "project_files q d' = project_files q d" if "q \<noteq> k" for q
  proof -
    have "filter (\<lambda>f. f_project f = q) new = []" using new_in that by (auto simp: filter_empty_conv)
    moreover have "filter (\<lambda>f. f_project f = q)
        (map (\<lambda>r. if f_project r = k then r\<lparr>f_enabled := f_source_path r \<in> set paths\<rparr> else r) rs) =
        filter (\<lambda>f. f_project f = q) rs" for rs
      using that by (induction rs) auto
    ultimately show ?thesis by (simp add: project_files_def rows)
  qed
  have ids: "map f_id (script_files d') = map f_id (script_files d @ new)" by (simp add: rows)
  have old: "enabled_paths k d = f_source_path ` {r \<in> set existing. f_enabled r}"
    by (auto simp: enabled_paths_def existing_def)
  have "changed \<longleftrightarrow> enabled_paths k d' \<noteq> enabled_paths k d"
  proof -
    have "project_files k d1 = existing @ new"
      using new_in by (auto simp: project_files_def existing_def d1 filter_id_conv)
    then have "distinct (map f_source_path (existing @ new))"
      using ok1 by (metis declarations_ok_def executable_iff)
    from selection_changed [OF this, of "set paths"] show ?thesis
      unfolding flag d1(2) en old switched_def by simp
  qed
  moreover have "f_id ` set (script_files d) \<subseteq> f_id ` set (script_files d')"
    unfolding set_map [symmetric] ids by auto
  moreover have "distinct (map f_id (script_files d'))" unfolding ids by (rule dist)
  ultimately show ?thesis using exact frame unfolding k_def [symmetric] by blast
qed

theorem select_script_files_exact_witness:
  "\<exists>d' changed. select_script_files ascii_python (\<lambda>_. [lit ''x/a.py'', lit ''x/b.py'', lit ''y/c.py'']) (\<lambda>_ _ _. Inr ())
       (example_project 1) [lit ''b.py''] (empty_db\<lparr>script_files := [example_row 1 (lit ''a.py'')]\<rparr>) = Inr (d', changed) \<and>
     enabled_paths 1 d' = {lit ''b.py''}"
proof -
  let ?d = "empty_db\<lparr>script_files := [example_row 1 (lit ''a.py'')]\<rparr>"
  let ?run = "select_script_files ascii_python (\<lambda>_. [lit ''x/a.py'', lit ''x/b.py'', lit ''y/c.py'']) (\<lambda>_ _ _. Inr ())
       (example_project 1) [lit ''b.py''] ?d"
  have "is_ok ?run" by code_simp
  then obtain d' changed where s: "?run = Inr (d', changed)" by (cases "?run") auto
  have "executable_selection ascii_python [example_row 1 (lit ''a.py'')]"
  proof -
    have "is_ok (source_path_to_dotted_name ascii_python (lit ''a.py''))"
      "normalize_source_path ascii_python (lit ''a.py'') = Inr (lit ''a.py'')" by code_simp+
    then show ?thesis by (simp add: executable_iff good_file_def example_row_def compatible_self)
  qed
  then have ok: "declarations_ok ascii_python ?d"
    by (simp add: declarations_ok_def project_files_def executable_selection_def)
  have "normalize_source_path ascii_python (lit ''b.py'') = Inr (lit ''b.py'')" by code_simp
  with s select_script_files_exact [OF ascii_nfc_laws ascii_lower_laws ascii_identifier_laws ok s]
  show ?thesis by (auto simp: example_project_def)
qed


text \<open>
  The content of a revision is frozen: whatever a save names and carries, project, digest,
  manifest, counters, snapshot and snapshot digest of every stored revision stay as they were
  created, and the table keeps its rows.
\<close>

theorem save_revision_frozen:
  assumes "revision_of d k = Some r" and "save_revision False update_fields self d = Inr d'"
  shows "\<exists>r'. revision_of d' k = Some r' \<and> content_changes r r' = [] \<and> r_created r' = r_created r \<and>
    (k \<noteq> r_id self \<longrightarrow> r' = r)"
proof -
  from assms(2) have row: "save_row r_id copy_revision False update_fields self (revisions d) = Inr (revisions d')"
    and cons: "revision_constraints (revisions d')"
    and none: "case revision_of d (r_id self) of None \<Rightarrow> True | Some original \<Rightarrow> content_changes original self = []"
    by (auto simp: save_revision_def result_simps Let_def split: if_splits option.splits)
  from row show ?thesis
  proof (cases rule: save_row_cases)
    case insert
    have "k \<noteq> r_id self" using insert(3) revision_of_SomeD [OF assms(1)] by (auto simp: image_iff)
    moreover have "revision_of d' k = Some r"
      using revision_of_member [of d' r] revision_of_SomeD [OF assms(1)] cons insert(1)
      by (simp add: revision_constraints_def)
    ultimately show ?thesis by (simp add: content_changes_def)
  next
    case update
    define r' where "r' = (if k = r_id self then copy_revision update_fields self r else r)"
    have "r_id r = k" using revision_of_SomeD [OF assms(1)] by simp
    then have "revision_of d' k = Some r'"
      using assms(1) unfolding revision_of_def update(1) r'_def
      by (subst find_update_rows) (simp_all add: copy_revision_def)
    moreover have "content_changes r r' = []"
    proof (cases "k = r_id self")
      case True
      then have "content_changes r self = []" using none assms(1) by simp
      then have "r_project self = r_project r" "r_digest self = r_digest r" "json_eq (r_manifest r) (r_manifest self)"
        "r_file_count self = r_file_count r" "r_total_size self = r_total_size r"
        "json_eq (r_script_file_snapshot r) (r_script_file_snapshot self)" "r_script_file_digest self = r_script_file_digest r"
        by (simp_all add: content_changes_def split: if_splits)
      with True show ?thesis by (simp add: r'_def content_changes_def copy_revision_def)
    qed (simp add: r'_def content_changes_def)
    moreover have "r_created r' = r_created r" by (simp add: r'_def copy_revision_def)
    ultimately show ?thesis by (auto simp: r'_def)
  qed
qed

definition example_revision :: "pk \<Rightarrow> revision_status \<Rightarrow> revision" where
  "example_revision k status = \<lparr>r_id = k, r_project = 1, r_created = k, r_digest = Some (replicate 64 48),
     r_status = status, r_manifest = JList [], r_file_count = 0, r_total_size = 0, r_validation_errors = [],
     r_discovered_scripts = JList [], r_script_file_snapshot = JList [], r_script_file_digest = replicate k 48,
     r_validation_job = None, r_validation_started = None, r_last_validation_failure = [], r_activated = None\<rparr>"

theorem save_revision_frozen_witness:
  "\<exists>d' r'. save_revision False (Some [''status'', ''last_updated'']) (example_revision 1 RETIRED)
        (empty_db\<lparr>revisions := [example_revision 1 ACTIVE]\<rparr>) = Inr d' \<and>
     revision_of d' 1 = Some r' \<and> content_changes (example_revision 1 ACTIVE) r' = []"
proof -
  let ?d = "empty_db\<lparr>revisions := [example_revision 1 ACTIVE]\<rparr>"
  have "is_ok (save_revision False (Some [''status'', ''last_updated'']) (example_revision 1 RETIRED) ?d)" by code_simp
  then obtain d' where s: "save_revision False (Some [''status'', ''last_updated'']) (example_revision 1 RETIRED) ?d = Inr d'"
    by (auto simp: is_ok_iff)
  have r: "revision_of ?d 1 = Some (example_revision 1 ACTIVE)" by code_simp
  from save_revision_frozen [OF r s] s show ?thesis by blast
qed

end
