(* ===== verification/Store.thy ===== *)
theory Store
  imports Manifest
begin

text \<open>
  storage/store.py: writing, verifying, reading and deleting a revision's files in a storage
  backend.  The backend is Django's storage API, code outside the repository: it is a record of
  operations over an opaque state \<open>'b\<close>, whose handles \<open>'h\<close> are read chunk by chunk.  What an honest
  backend promises is the predicate \<open>lawful\<close>; the operations themselves assume nothing.
\<close>

section \<open>Backends\<close>

text \<open>An operation that changes the store returns the new state also when it raises.\<close>

type_synonym ('b, 'a) io = "'b \<Rightarrow> 'b \<times> 'a result"

definition sbind :: "('b, 'a) io \<Rightarrow> ('a \<Rightarrow> ('b, 'c) io) \<Rightarrow> ('b, 'c) io" where
  "sbind m f s = (case m s of (s', Inl e) \<Rightarrow> (s', Inl e) | (s', Inr x) \<Rightarrow> f x s')"

definition lift :: "('b \<Rightarrow> 'a result) \<Rightarrow> ('b, 'a) io" where
  "lift f s = (s, f s)"

record ('b, 'h) backend =
  b_exists :: "'b \<Rightarrow> pystr \<Rightarrow> bool result"
  b_size :: "'b \<Rightarrow> pystr \<Rightarrow> nat result"
  b_open :: "'b \<Rightarrow> pystr \<Rightarrow> 'h result"
  b_read :: "'h \<Rightarrow> nat \<Rightarrow> ('h \<times> bytes) result"
  b_save :: "pystr \<Rightarrow> bytes \<Rightarrow> ('b, pystr) io"
  b_delete :: "pystr \<Rightarrow> ('b, unit) io"

section \<open>Reading one file\<close>

definition HASH_CHUNK :: nat where "HASH_CHUNK = 1024 * 1024"

text \<open>A sink is the function that appends a chunk to the bytes kept so far, and may fail.\<close>

type_synonym sink = "bytes \<Rightarrow> bytes \<Rightarrow> bytes result"

datatype stream_error = BackendFailed py_error | DestinationFailed py_error

text \<open>
  \<open>_measure\<close>: the loop, with the bytes hashed so far and the bytes kept so far.  It runs while
  \<open>remaining\<close> is positive, and every round reads at least one byte.
\<close>

function measure_loop ::
    "('b, 'h) backend \<Rightarrow> sink option \<Rightarrow> 'h \<Rightarrow> nat \<Rightarrow> bytes \<Rightarrow> bytes \<Rightarrow> stream_error + (bytes \<times> bytes)" where
  "measure_loop be sink handle remaining hashed kept =
     (if remaining = 0 then Inr (hashed, kept)
      else case b_read be handle (min HASH_CHUNK remaining) of
        Inl e \<Rightarrow> Inl (BackendFailed e)
      | Inr (handle', chunk) \<Rightarrow>
          if chunk = [] then Inr (hashed, kept)
          else (case sink of
                  None \<Rightarrow> measure_loop be sink handle' (remaining - length chunk) (hashed @ chunk) kept
                | Some write \<Rightarrow> (case write kept chunk of
                      Inl e \<Rightarrow> Inl (if is_os_error e then DestinationFailed e else BackendFailed e)
                    | Inr kept' \<Rightarrow> measure_loop be sink handle' (remaining - length chunk) (hashed @ chunk) kept')))"
  by pat_completeness auto
termination
  by (relation "measure (\<lambda>(_, _, _, remaining, _, _). remaining)") auto

definition measure_file ::
    "python \<Rightarrow> ('b, 'h) backend \<Rightarrow> 'h \<Rightarrow> nat \<Rightarrow> sink option \<Rightarrow> stream_error + (nat \<times> pystr \<times> bytes)" where
  "measure_file E be handle expected sink =
     (case measure_loop be sink handle (expected + 1) [] [] of
        Inl e \<Rightarrow> Inl e
      | Inr (hashed, kept) \<Rightarrow> Inr (length hashed, sha256 E hashed, kept))"

definition store_size :: "('b, 'h) backend \<Rightarrow> 'b \<Rightarrow> pystr \<Rightarrow> nat option result" where
  "store_size be s key =
     (case b_size be s key of
        Inr n \<Rightarrow> Inr (Some n)
      | Inl NotSupported \<Rightarrow> Inr None
      | Inl FileNotFound \<Rightarrow> Inl FileNotFound
      | Inl _ \<Rightarrow> Inl StorageError)"

text \<open>The except clauses of \<open>_stream_verified\<close>, applied to what its try block raised.\<close>

definition classify :: "pystr \<Rightarrow> stream_error \<Rightarrow> py_error" where
  "classify path e =
     (case e of
        BackendFailed FileNotFound \<Rightarrow> RevisionCorrupt [ReasonText ''missing'' path]
      | DestinationFailed original \<Rightarrow> original
      | BackendFailed err \<Rightarrow> if is_storage_error err then err else StorageError)"

definition stream_verified ::
    "python \<Rightarrow> ('b, 'h) backend \<Rightarrow> 'b \<Rightarrow> pystr \<Rightarrow> entry \<Rightarrow> sink option \<Rightarrow> bytes result" where
  "stream_verified E be s key entry sink =
     (case (case store_size be s key of
              Inl e \<Rightarrow> Inl (BackendFailed e)
            | Inr reported \<Rightarrow>
                if reported \<noteq> None \<and> reported \<noteq> Some (e_size entry)
                then Inl (BackendFailed (RevisionCorrupt [ReasonText ''size_mismatch'' (e_path entry)]))
                else (case b_open be s key of
                        Inl e \<Rightarrow> Inl (BackendFailed e)
                      | Inr handle \<Rightarrow> measure_file E be handle (e_size entry) sink)) of
        Inl e \<Rightarrow> Inl (classify (e_path entry) e)
      | Inr (measured, checksum, kept) \<Rightarrow>
          if measured \<noteq> e_size entry then Inl (RevisionCorrupt [ReasonText ''size_mismatch'' (e_path entry)])
          else if checksum \<noteq> e_sha entry then Inl (RevisionCorrupt [ReasonText ''checksum_mismatch'' (e_path entry)])
          else Inr kept)"

definition copy_verified :: "python \<Rightarrow> ('b, 'h) backend \<Rightarrow> 'b \<Rightarrow> pystr \<Rightarrow> entry \<Rightarrow> sink option \<Rightarrow> bytes result" where
  "copy_verified E be s key entry destination = stream_verified E be s key entry destination"

definition read_verified :: "python \<Rightarrow> ('b, 'h) backend \<Rightarrow> 'b \<Rightarrow> pystr \<Rightarrow> entry \<Rightarrow> bytes result" where
  "read_verified E be s key entry = stream_verified E be s key entry (Some (\<lambda>kept chunk. Inr (kept @ chunk)))"

definition verify_entry :: "python \<Rightarrow> ('b, 'h) backend \<Rightarrow> 'b \<Rightarrow> pystr \<Rightarrow> entry \<Rightarrow> reason list result" where
  "verify_entry E be s key entry =
     (case copy_verified E be s key entry None of
        Inl (RevisionCorrupt reasons) \<Rightarrow> Inr reasons
      | Inl e \<Rightarrow> Inl e
      | Inr _ \<Rightarrow> Inr [])"

section \<open>Verifying a tree\<close>

fun verify_entries :: "python \<Rightarrow> ('b, 'h) backend \<Rightarrow> 'b \<Rightarrow> pystr \<Rightarrow> entry list \<Rightarrow> reason list result" where
  "verify_entries E be s pre [] = Inr []"
| "verify_entries E be s pre (e # es) =
     rbind (verify_entry E be s (pre @ e_path e) e) (\<lambda>reasons.
       rbind (verify_entries E be s pre es) (\<lambda>more. Inr (reasons @ more)))"

definition is_missing :: "reason \<Rightarrow> bool" where
  "is_missing r = (case r of ReasonText code _ \<Rightarrow> code = ''missing'' | _ \<Rightarrow> False)"

text \<open>\<open>_verify_tree\<close>: the entries by path, a later entry of one path replacing an earlier one.\<close>

definition verify_tree ::
    "python \<Rightarrow> ('b, 'h) backend \<Rightarrow> pystr \<Rightarrow> pystr option \<Rightarrow> json \<Rightarrow> 'b \<Rightarrow> pystr result" where
  "verify_tree E be storage_key digest manifest s =
     rbind (revision_prefix E storage_key digest) (\<lambda>pre.
       let expected = sort_key e_path (map snd (dict_by e_path (manifest_entries manifest)))
       in rbind (verify_entries E be s pre expected) (\<lambda>reasons.
            if expected \<noteq> [] \<and> length reasons = length expected \<and> list_all is_missing reasons
            then Inl (RevisionCorrupt [Reason ''prefix_missing''])
            else if reasons \<noteq> [] then Inl (RevisionCorrupt reasons)
            else Inr pre))"

definition verify_revision_tree ::
    "python \<Rightarrow> ('b, 'h) backend \<Rightarrow> pystr \<Rightarrow> pystr option \<Rightarrow> json \<Rightarrow> 'b \<Rightarrow> pystr result" where
  "verify_revision_tree E be storage_key digest manifest s =
     rbind (validate_manifest E manifest digest) (\<lambda>_. verify_tree E be storage_key digest manifest s)"

section \<open>Writing\<close>

definition store_exists :: "('b, 'h) backend \<Rightarrow> 'b \<Rightarrow> pystr \<Rightarrow> bool result" where
  "store_exists be s key = (case b_exists be s key of Inr b \<Rightarrow> Inr b | Inl _ \<Rightarrow> Inl StorageError)"

definition store_delete :: "('b, 'h) backend \<Rightarrow> pystr \<Rightarrow> ('b, unit) io" where
  "store_delete be key s = (case b_delete be key s of (s', Inr u) \<Rightarrow> (s', Inr u) | (s', Inl _) \<Rightarrow> (s', Inl StorageError))"

text \<open>What \<open>_write_one\<close> does once the key is free: save, and settle a renamed save.\<close>

definition save_at :: "python \<Rightarrow> ('b, 'h) backend \<Rightarrow> pystr \<Rightarrow> bytes \<Rightarrow> entry \<Rightarrow> ('b, unit) io" where
  "save_at E be key content entry s =
     (case b_save be key content s of
        (s1, Inl _) \<Rightarrow> (s1, Inl StorageError)
      | (s1, Inr stored) \<Rightarrow>
          if stored = key then (s1, Inr ())
          else let s2 = fst (b_delete be stored s1)
               in (case verify_entry E be s2 key entry of
                     Inl e \<Rightarrow> (s2, Inl e)
                   | Inr reasons \<Rightarrow> (s2, if reasons \<noteq> [] then Inl StorageError else Inr ())))"

definition write_one :: "python \<Rightarrow> ('b, 'h) backend \<Rightarrow> pystr \<Rightarrow> bytes \<Rightarrow> entry \<Rightarrow> ('b, unit) io" where
  "write_one E be key content entry =
     sbind (lift (\<lambda>s. store_exists be s key)) (\<lambda>occupied.
       if occupied
       then sbind (lift (\<lambda>s. verify_entry E be s key entry)) (\<lambda>reasons.
              if reasons = [] then lift (\<lambda>_. Inr ())
              else sbind (store_delete be key) (\<lambda>_. save_at E be key content entry))
       else save_at E be key content entry)"

fun canonical_source :: "python \<Rightarrow> (pystr \<times> bytes) list \<Rightarrow> (pystr \<times> bytes) list \<Rightarrow> (pystr \<times> bytes) list result" where
  "canonical_source E [] source = Inr source"
| "canonical_source E ((path, content) # files) source =
     rbind (normalize_source_path E path) (\<lambda>canonical.
       if map_of source canonical \<noteq> None then Inl (UnsafePath path ''duplicate_path'')
       else canonical_source E files (source @ [(canonical, content)]))"

fun write_entries ::
    "python \<Rightarrow> ('b, 'h) backend \<Rightarrow> pystr \<Rightarrow> (pystr \<times> bytes) list \<Rightarrow> entry list \<Rightarrow> ('b, unit) io" where
  "write_entries E be pre source [] = lift (\<lambda>_. Inr ())"
| "write_entries E be pre source (e # es) =
     (case map_of source (e_path e) of
        None \<Rightarrow> lift (\<lambda>_. Inl StorageError)
      | Some content \<Rightarrow> sbind (write_one E be (pre @ e_path e) content e) (\<lambda>_. write_entries E be pre source es))"

definition write_revision ::
    "python \<Rightarrow> ('b, 'h) backend \<Rightarrow> pystr \<Rightarrow> pystr option \<Rightarrow> (pystr \<times> bytes) list \<Rightarrow> json \<Rightarrow> ('b, pystr) io" where
  "write_revision E be storage_key digest files manifest =
     sbind (lift (\<lambda>_. rbind (validate_manifest E manifest digest) (\<lambda>_.
         rbind (revision_prefix E storage_key digest) (\<lambda>pre.
           rbind (canonical_source E files []) (\<lambda>source. Inr (pre, source))))))
       (\<lambda>(pre, source). sbind (write_entries E be pre source (manifest_entries manifest)) (\<lambda>_.
          lift (verify_tree E be storage_key digest manifest)))"

section \<open>Deleting, probing, reading back\<close>

text \<open>\<open>delete_revision\<close>: the paths that failed, in path order.\<close>

fun delete_paths ::
    "python \<Rightarrow> ('b, 'h) backend \<Rightarrow> pystr \<Rightarrow> pystr option \<Rightarrow> pystr list \<Rightarrow> 'b \<Rightarrow> 'b \<times> pystr list" where
  "delete_paths E be storage_key digest [] s = (s, [])"
| "delete_paths E be storage_key digest (path # paths) s =
     (let (s1, failed) = (case revision_key E storage_key digest path of
            Inl _ \<Rightarrow> (s, True)
          | Inr key \<Rightarrow> (case b_delete be key s of
                (s', Inr _) \<Rightarrow> (s', False)
              | (s', Inl e) \<Rightarrow> (s', e \<noteq> FileNotFound)));
          (s2, failures) = delete_paths E be storage_key digest paths s1
      in (s2, if failed then path # failures else failures))"

definition delete_revision ::
    "python \<Rightarrow> ('b, 'h) backend \<Rightarrow> pystr \<Rightarrow> pystr option \<Rightarrow> pystr list \<Rightarrow> ('b, unit) io" where
  "delete_revision E be storage_key digest paths s =
     (case delete_paths E be storage_key digest (sort paths) s of
        (s', failures) \<Rightarrow> (s', if failures \<noteq> [] then Inl StorageError else Inr ()))"

fun present_in ::
    "python \<Rightarrow> ('b, 'h) backend \<Rightarrow> pystr \<Rightarrow> pystr option \<Rightarrow> 'b \<Rightarrow> pystr list \<Rightarrow> pystr list result" where
  "present_in E be storage_key digest s [] = Inr []"
| "present_in E be storage_key digest s (path # paths) =
     rbind (revision_key E storage_key digest path) (\<lambda>key.
       rbind (store_exists be s key) (\<lambda>occupied.
         rbind (present_in E be storage_key digest s paths) (\<lambda>rest.
           Inr (if occupied then path # rest else rest))))"

definition present_keys ::
    "python \<Rightarrow> ('b, 'h) backend \<Rightarrow> pystr \<Rightarrow> pystr option \<Rightarrow> pystr list \<Rightarrow> 'b \<Rightarrow> pystr list result" where
  "present_keys E be storage_key digest paths s = present_in E be storage_key digest s (sort paths)"

fun read_entries :: "python \<Rightarrow> ('b, 'h) backend \<Rightarrow> 'b \<Rightarrow> pystr \<Rightarrow> entry list \<Rightarrow> (pystr \<times> bytes) list \<Rightarrow>
    (pystr \<times> bytes) list result" where
  "read_entries E be s pre [] tree = Inr tree"
| "read_entries E be s pre (e # es) tree =
     rbind (read_verified E be s (pre @ e_path e) e) (\<lambda>content.
       read_entries E be s pre es (AList.update (e_path e) content tree))"

definition read_revision_tree ::
    "python \<Rightarrow> ('b, 'h) backend \<Rightarrow> pystr \<Rightarrow> pystr option \<Rightarrow> json \<Rightarrow> 'b \<Rightarrow> (pystr \<times> bytes) list result" where
  "read_revision_tree E be storage_key digest manifest s =
     rbind (validate_manifest E manifest digest) (\<lambda>_.
       rbind (revision_prefix E storage_key digest) (\<lambda>pre.
         read_entries E be s pre (manifest_entries manifest) []))"

section \<open>Any backend\<close>

declare measure_loop.simps [simp del]

definition keep :: sink where
  "keep kept chunk = Inr (kept @ chunk)"

lemma read_verified_keep: "read_verified E be s key entry = stream_verified E be s key entry (Some keep)"
  by (simp add: read_verified_def keep_def [abs_def])

text \<open>However a backend reads, the bytes kept are the bytes hashed.\<close>

lemma measure_keeps:
  "measure_loop be sink handle remaining hashed kept = Inr (hashed', kept') \<Longrightarrow> sink = Some keep \<Longrightarrow> hashed = kept \<Longrightarrow>
     hashed' = kept'"
proof (induction be sink handle remaining hashed kept arbitrary: hashed' kept' rule: measure_loop.induct)
  case (1 be sink handle remaining hashed kept)
  show ?case
  proof (cases "remaining = 0")
    case True
    then show ?thesis using 1(3-) by (auto simp: measure_loop.simps)
  next
    case False
    then obtain handle' chunk where read: "b_read be handle (min HASH_CHUNK remaining) = Inr (handle', chunk)"
      using 1(3) by (subst (asm) measure_loop.simps) (auto split: sum.splits)
    show ?thesis
    proof (cases "chunk = []")
      case True
      then show ?thesis using 1(3-) False read by (auto simp: measure_loop.simps)
    next
      case chunk: False
      from 1(3) have "measure_loop be sink handle' (remaining - length chunk) (hashed @ chunk) (kept @ chunk) = Inr (hashed', kept')"
        using False read chunk 1(4) by (subst (asm) measure_loop.simps) (simp add: keep_def)
      from 1(2) [OF False read refl chunk 1(4) _ this 1(4)] 1(5) show ?thesis by (simp add: keep_def)
    qed
  qed
qed

definition matches :: "python \<Rightarrow> entry \<Rightarrow> bytes \<Rightarrow> bool" where
  "matches E entry c \<longleftrightarrow> length c = e_size entry \<and> sha256 E c = e_sha entry"

lemma read_verified_matches: "read_verified E be s key entry = Inr c \<Longrightarrow> matches E entry c"
  unfolding read_verified_keep stream_verified_def matches_def measure_file_def
  by (auto split: sum.splits if_splits option.splits dest: measure_keeps)

lemma update_new: "k \<notin> fst ` set d \<Longrightarrow> AList.update k v d = d @ [(k, v)]"
  by (induction d) auto

lemma read_entries_sound:
  assumes "read_entries E be s pre es tree = Inr tree'" and "distinct (map e_path es)"
    and "set (map e_path es) \<inter> set (map fst tree) = {}"
  shows "\<exists>cs. tree' = tree @ zip (map e_path es) cs \<and> list_all2 (matches E) es cs"
  using assms
proof (induction es arbitrary: tree)
  case (Cons e es)
  from Cons.prems(1) obtain c where c: "read_verified E be s (pre @ e_path e) e = Inr c"
      and rest: "read_entries E be s pre es (AList.update (e_path e) c tree) = Inr tree'" by (auto simp: result_simps)
  have "AList.update (e_path e) c tree = tree @ [(e_path e, c)]"
    using Cons.prems(3) by (intro update_new) auto
  with Cons.IH [OF rest] Cons.prems(2,3) obtain cs where "tree' = (tree @ [(e_path e, c)]) @ zip (map e_path es) cs"
      "list_all2 (matches E) es cs" by auto
  with read_verified_matches [OF c] show ?case by (intro exI [of _ "c # cs"]) simp
qed simp

section \<open>Honest backends\<close>

text \<open>A handle that serves the bytes \<open>c\<close>: every read gives at least one and at most the bytes asked for.\<close>

inductive streams :: "('b, 'h) backend \<Rightarrow> 'h \<Rightarrow> bytes \<Rightarrow> bool" for be where
  exhausted: "(\<And>n. 0 < n \<Longrightarrow> \<exists>h'. b_read be h n = Inr (h', [])) \<Longrightarrow> streams be h []"
| more: "c \<noteq> [] \<Longrightarrow> (\<And>n. 0 < n \<Longrightarrow> \<exists>h' m. b_read be h n = Inr (h', take m c) \<and> 0 < m \<and> m \<le> n \<and>
    streams be h' (drop m c)) \<Longrightarrow> streams be h c"

text \<open>
  Django's documented contract: exists, size and open agree with the content, a save to a free key
  takes that key and a save to an occupied one a new name, a delete removes one key and may raise
  FileNotFoundError when there is nothing to remove.  A backend need not support size.
\<close>

definition lawful :: "('b, 'h) backend \<Rightarrow> ('b \<Rightarrow> pystr \<Rightarrow> bytes option) \<Rightarrow> bool" where
  "lawful be content \<longleftrightarrow>
     (\<forall>s k. b_exists be s k = Inr (content s k \<noteq> None)) \<and>
     (\<forall>s k. b_size be s k = Inl NotSupported \<or>
        b_size be s k = (case content s k of None \<Rightarrow> Inl FileNotFound | Some c \<Rightarrow> Inr (length c))) \<and>
     (\<forall>s k. case content s k of None \<Rightarrow> b_open be s k = Inl FileNotFound
        | Some c \<Rightarrow> \<exists>h. b_open be s k = Inr h \<and> streams be h c) \<and>
     (\<forall>s k c. content s k = None \<longrightarrow> (\<exists>s'. b_save be k c s = (s', Inr k) \<and> content s' = (content s)(k \<mapsto> c))) \<and>
     (\<forall>s k c. content s k \<noteq> None \<longrightarrow> (\<exists>s' k'. b_save be k c s = (s', Inr k') \<and> k' \<noteq> k \<and> content s k' = None \<and>
        content s' = (content s)(k' \<mapsto> c))) \<and>
     (\<forall>s k. \<exists>s' r. b_delete be k s = (s', r) \<and> content s' = (content s)(k := None) \<and>
        (r = Inr () \<or> content s k = None \<and> r = Inl FileNotFound))"

lemma lawfulD:
  assumes "lawful be content"
  shows "b_exists be s k = Inr (content s k \<noteq> None)"
    and "b_size be s k = Inl NotSupported \<or>
        b_size be s k = (case content s k of None \<Rightarrow> Inl FileNotFound | Some c \<Rightarrow> Inr (length c))"
    and "content s k = None \<Longrightarrow> b_open be s k = Inl FileNotFound"
    and "content s k = Some c \<Longrightarrow> \<exists>h. b_open be s k = Inr h \<and> streams be h c"
    and "content s k = None \<Longrightarrow> \<exists>s'. b_save be k c s = (s', Inr k) \<and> content s' = (content s)(k \<mapsto> c)"
    and "\<exists>s' r. b_delete be k s = (s', r) \<and> content s' = (content s)(k := None) \<and>
        (r = Inr () \<or> content s k = None \<and> r = Inl FileNotFound)"
proof -
  from assms have "case content s k of None \<Rightarrow> b_open be s k = Inl FileNotFound
        | Some c \<Rightarrow> \<exists>h. b_open be s k = Inr h \<and> streams be h c" unfolding lawful_def by blast
  then show "content s k = None \<Longrightarrow> b_open be s k = Inl FileNotFound"
    "content s k = Some c \<Longrightarrow> \<exists>h. b_open be s k = Inr h \<and> streams be h c" by simp_all
qed (use assms in \<open>simp_all only: lawful_def\<close>)

lemma measure_streams:
  assumes "streams be h c"
  shows "measure_loop be None h remaining hashed kept = Inr (hashed @ take remaining c, kept)"
    and "measure_loop be (Some keep) h remaining hashed kept = Inr (hashed @ take remaining c, kept @ take remaining c)"
proof -
  have "measure_loop be None h remaining hashed kept = Inr (hashed @ take remaining c, kept) \<and>
    measure_loop be (Some keep) h remaining hashed kept = Inr (hashed @ take remaining c, kept @ take remaining c)"
    using assms
  proof (induction arbitrary: remaining hashed kept)
    case (exhausted h)
    show ?case
    proof (cases "remaining = 0")
      case False
      then have "0 < min HASH_CHUNK remaining" by (simp add: HASH_CHUNK_def)
      with exhausted obtain h' where "b_read be h (min HASH_CHUNK remaining) = Inr (h', [])" by blast
      with False show ?thesis by (simp add: measure_loop.simps)
    qed (simp add: measure_loop.simps)
  next
    case (more c h)
    show ?case
    proof (cases "remaining = 0")
      case False
      then have "0 < min HASH_CHUNK remaining" by (simp add: HASH_CHUNK_def)
      with more(2) obtain h' m where m: "b_read be h (min HASH_CHUNK remaining) = Inr (h', take m c)" "0 < m"
          "m \<le> remaining" and IH: "\<And>r x y. measure_loop be None h' r x y = Inr (x @ take r (drop m c), y) \<and>
            measure_loop be (Some keep) h' r x y = Inr (x @ take r (drop m c), y @ take r (drop m c))"
        by (metis min.boundedE)
      have "take m c @ take (remaining - length (take m c)) (drop m c) = take remaining c"
        using m(3) by (cases "m \<le> length c") (simp_all add: take_add [symmetric])
      with False m more(1) IH show ?thesis
        by (subst (1 2) measure_loop.simps) (simp add: keep_def [of _ "take m c"])
    qed (simp add: measure_loop.simps)
  qed
  then show "measure_loop be None h remaining hashed kept = Inr (hashed @ take remaining c, kept)"
    "measure_loop be (Some keep) h remaining hashed kept = Inr (hashed @ take remaining c, kept @ take remaining c)"
    by blast+
qed

lemma measure_file_honest:
  assumes "streams be h c"
  shows "measure_file E be h n None = Inr (length (take (n + 1) c), sha256 E (take (n + 1) c), [])"
    and "measure_file E be h n (Some keep) = Inr (length (take (n + 1) c), sha256 E (take (n + 1) c), take (n + 1) c)"
  by (simp_all add: measure_file_def measure_streams [OF assms])

text \<open>What verifying one stored object of an honest backend reports.\<close>

definition entry_reasons :: "python \<Rightarrow> bytes option \<Rightarrow> entry \<Rightarrow> reason list" where
  "entry_reasons E c entry =
     (case c of
        None \<Rightarrow> [ReasonText ''missing'' (e_path entry)]
      | Some b \<Rightarrow> if length b \<noteq> e_size entry then [ReasonText ''size_mismatch'' (e_path entry)]
          else if sha256 E b \<noteq> e_sha entry then [ReasonText ''checksum_mismatch'' (e_path entry)] else [])"

lemma entry_reasons_Nil: "entry_reasons E c entry = [] \<longleftrightarrow> (\<exists>b. c = Some b \<and> matches E entry b)"
  by (auto simp: entry_reasons_def matches_def split: option.splits)

lemma stream_honest:
  assumes "lawful be content" and "sink = None \<or> sink = Some keep"
  shows "stream_verified E be s key entry sink =
    (if entry_reasons E (content s key) entry = []
     then Inr (if sink = None then [] else the (content s key))
     else Inl (RevisionCorrupt (entry_reasons E (content s key) entry)))"
proof (cases "content s key")
  case None
  with lawfulD(2) [OF assms(1), of s key] lawfulD(3) [OF assms(1) None] show ?thesis
    by (auto simp: stream_verified_def store_size_def classify_def entry_reasons_def)
next
  case (Some c)
  then obtain h where h: "b_open be s key = Inr h" "streams be h c" using lawfulD(4) [OF assms(1)] by blast
  have measured: "measure_file E be h (e_size entry) sink = Inr (length (take (e_size entry + 1) c),
      sha256 E (take (e_size entry + 1) c), if sink = None then [] else take (e_size entry + 1) c)"
    using assms(2) measure_file_honest [OF h(2)] by auto
  consider "b_size be s key = Inl NotSupported" | "b_size be s key = Inr (length c)"
    using lawfulD(2) [OF assms(1), of s key] Some by auto
  then show ?thesis
    by cases (auto simp: stream_verified_def store_size_def classify_def entry_reasons_def Some h(1) measured
        min_def)
qed

lemma verify_entry_honest:
  "lawful be content \<Longrightarrow> verify_entry E be s key entry = Inr (entry_reasons E (content s key) entry)"
  by (simp add: verify_entry_def copy_verified_def stream_honest)

lemma verify_entries_honest:
  "lawful be content \<Longrightarrow> verify_entries E be s pre es =
     Inr (concat (map (\<lambda>e. entry_reasons E (content s (pre @ e_path e)) e) es))"
  by (induction es) (simp_all add: verify_entry_honest)

definition intact :: "python \<Rightarrow> (pystr \<Rightarrow> bytes option) \<Rightarrow> pystr \<Rightarrow> entry \<Rightarrow> bool" where
  "intact E store pre e \<longleftrightarrow> (\<exists>b. store (pre @ e_path e) = Some b \<and> matches E e b)"

lemma manifest_order:
  fixes es :: "entry list"
  assumes "distinct (map e_path es)"
  shows "mset (sort_key e_path (map snd (dict_by e_path es))) = mset es"
proof -
  have "fold (\<lambda>x d. AList.update (e_path x) x d) es d = d @ map (\<lambda>e. (e_path e, e)) es"
    if "distinct (map e_path es)" "set (map e_path es) \<inter> fst ` set d = {}" for es :: "entry list" and d
    using that
  proof (induction es arbitrary: d)
    case (Cons e es)
    then have "AList.update (e_path e) e d = d @ [(e_path e, e)]" by (intro update_new) auto
    with Cons show ?case by auto
  qed simp
  from this [of es "[]"] assms show ?thesis by (simp add: dict_by_def comp_def)
qed

lemma verify_tree_honest:
  assumes "lawful be content" "distinct (map e_path (manifest_entries m))"
  shows "verify_tree E be storage_key digest m s = Inr pre \<longleftrightarrow>
    revision_prefix E storage_key digest = Inr pre \<and> (\<forall>e \<in> set (manifest_entries m). intact E (content s) pre e)"
proof -
  define expected where "expected = sort_key e_path (map snd (dict_by e_path (manifest_entries m)))"
  have entries: "set expected = set (manifest_entries m)"
    unfolding expected_def using mset_eq_setD [OF manifest_order [OF assms(2)]] .
  have "verify_tree E be storage_key digest m s = Inr pre \<longleftrightarrow>
      revision_prefix E storage_key digest = Inr pre \<and>
      concat (map (\<lambda>e. entry_reasons E (content s (pre @ e_path e)) e) expected) = []"
    unfolding verify_tree_def Let_def verify_entries_honest [OF assms(1)] expected_def [symmetric]
    by (cases "revision_prefix E storage_key digest") (auto simp: Let_def simp del: concat_eq_Nil_conv split: if_splits)
  also have "\<dots> \<longleftrightarrow> revision_prefix E storage_key digest = Inr pre \<and>
      (\<forall>e \<in> set (manifest_entries m). intact E (content s) pre e)"
    by (simp add: entries entry_reasons_Nil intact_def)
  finally show ?thesis .
qed

lemma validated_distinct:
  assumes "validate_manifest E m d = Inr ()"
  shows "distinct (map e_path (manifest_entries m))"
  using assms by (elim validate_manifest_InrD)

section \<open>Writing to an honest backend\<close>

lemma save_at_honest:
  assumes "lawful be content" "content s key = None"
  shows "\<exists>s'. save_at E be key c entry s = (s', Inr ()) \<and> content s' = (content s)(key \<mapsto> c)"
  using lawfulD(5) [OF assms, of c] by (auto simp: save_at_def)

lemma write_one_honest:
  assumes "lawful be content"
  shows "\<exists>s'. write_one E be key c entry s = (s', Inr ()) \<and>
    content s' = (if \<exists>b. content s key = Some b \<and> matches E entry b then content s else (content s)(key \<mapsto> c))"
proof (cases "content s key")
  case None
  then show ?thesis
    using save_at_honest [OF assms None]
    by (auto simp: write_one_def sbind_def lift_def store_exists_def lawfulD(1) [OF assms])
next
  case (Some b)
  show ?thesis
  proof (cases "matches E entry b")
    case True
    then have "entry_reasons E (content s key) entry = []" using Some by (simp add: entry_reasons_Nil)
    then show ?thesis
      using Some True by (auto simp: write_one_def sbind_def lift_def store_exists_def lawfulD(1) [OF assms]
          verify_entry_honest [OF assms])
  next
    case False
    then have reasons: "entry_reasons E (content s key) entry \<noteq> []" using Some by (simp add: entry_reasons_Nil)
    from lawfulD(6) [OF assms, where s = s and k = key] Some obtain s1 where
      s1: "b_delete be key s = (s1, Inr ())" "content s1 = (content s)(key := None)" by auto
    have "content s1 key = None" by (simp add: s1(2))
    from save_at_honest [OF assms this] obtain s2 where
      "save_at E be key c entry s1 = (s2, Inr ())" "content s2 = (content s1)(key \<mapsto> c)" by blast
    then show ?thesis
      using Some False reasons s1 by (auto simp: write_one_def sbind_def lift_def store_exists_def store_delete_def
          lawfulD(1) [OF assms] verify_entry_honest [OF assms])
  qed
qed

lemma write_entries_honest:
  assumes "lawful be content" "distinct (map e_path es)" "\<forall>e \<in> set es. \<exists>c. map_of source (e_path e) = Some c \<and> matches E e c"
  shows "\<exists>s'. write_entries E be pre source es s = (s', Inr ()) \<and>
    (\<forall>e \<in> set es. intact E (content s') pre e) \<and>
    (\<forall>k. k \<notin> (\<lambda>e. pre @ e_path e) ` set es \<longrightarrow> content s' k = content s k)"
  using assms(2,3)
proof (induction es arbitrary: s)
  case (Cons e es)
  obtain c where c: "map_of source (e_path e) = Some c" "matches E e c" using Cons.prems(2) by auto
  obtain s1 where one: "write_one E be (pre @ e_path e) c e s = (s1, Inr ())"
    and s1: "content s1 = (if \<exists>b. content s (pre @ e_path e) = Some b \<and> matches E e b then content s
      else (content s)(pre @ e_path e \<mapsto> c))" using write_one_honest [OF assms(1)] by blast
  from Cons.IH [of s1] Cons.prems obtain s2 where s2: "write_entries E be pre source es s1 = (s2, Inr ())"
      "\<forall>e \<in> set es. intact E (content s2) pre e"
      "\<forall>k. k \<notin> (\<lambda>e. pre @ e_path e) ` set es \<longrightarrow> content s2 k = content s1 k" by auto
  have "pre @ e_path e \<notin> (\<lambda>e. pre @ e_path e) ` set es" using Cons.prems(1) by auto
  then have "content s2 (pre @ e_path e) = content s1 (pre @ e_path e)" using s2(3) by blast
  then have "intact E (content s2) pre e" using s1 c(2) by (auto simp: intact_def)
  moreover have "content s2 k = content s k" if "k \<notin> (\<lambda>e. pre @ e_path e) ` set (e # es)" for k
    using that s2(3) s1 by (auto simp: image_iff)
  ultimately show ?case using one s2 c(1) by (intro exI [of _ s2]) (simp add: sbind_def)
qed (simp add: lift_def)

section \<open>Deleting from an honest backend\<close>

lemma delete_paths_honest:
  assumes "lawful be content"
  shows "\<exists>s'. delete_paths E be storage_key digest paths s =
      (s', filter (\<lambda>path. \<not> is_ok (revision_key E storage_key digest path)) paths) \<and>
    content s' = (\<lambda>k. if \<exists>path \<in> set paths. revision_key E storage_key digest path = Inr k then None else content s k)"
proof (induction paths arbitrary: s)
  case Nil
  then show ?case by simp
next
  case (Cons path paths)
  show ?case
  proof (cases "revision_key E storage_key digest path")
    case (Inl e)
    from Cons.IH [of s] obtain s' where "delete_paths E be storage_key digest paths s =
        (s', filter (\<lambda>path. \<not> is_ok (revision_key E storage_key digest path)) paths)"
      "content s' = (\<lambda>k. if \<exists>path \<in> set paths. revision_key E storage_key digest path = Inr k then None else content s k)"
      by blast
    then show ?thesis by (intro exI [of _ s']) (simp add: Inl)
  next
    case (Inr key)
    from lawfulD(6) [OF assms, where s = s and k = key] obtain s1 r where s1: "b_delete be key s = (s1, r)"
      "content s1 = (content s)(key := None)" "r = Inr () \<or> r = Inl FileNotFound" by blast
    from Cons.IH [of s1] obtain s' where "delete_paths E be storage_key digest paths s1 =
        (s', filter (\<lambda>path. \<not> is_ok (revision_key E storage_key digest path)) paths)"
      "content s' = (\<lambda>k. if \<exists>path \<in> set paths. revision_key E storage_key digest path = Inr k then None else content s1 k)"
      by blast
    then show ?thesis using s1 by (intro exI [of _ s']) (auto simp: Inr fun_eq_iff)
  qed
qed

section \<open>A backend in memory\<close>

text \<open>An instance of the contract that computes: the objects as an association list.\<close>

type_synonym memory = "(pystr \<times> bytes) list"

definition unused_name :: "pystr \<Rightarrow> memory \<Rightarrow> pystr" where
  "unused_name key s = key @ replicate (Suc (sum_list (map (length \<circ> fst) s))) 95"

definition memory_backend :: "(memory, bytes) backend" where
  "memory_backend = \<lparr>b_exists = (\<lambda>s k. Inr (map_of s k \<noteq> None)),
     b_size = (\<lambda>s k. case map_of s k of None \<Rightarrow> Inl FileNotFound | Some c \<Rightarrow> Inr (length c)),
     b_open = (\<lambda>s k. case map_of s k of None \<Rightarrow> Inl FileNotFound | Some c \<Rightarrow> Inr c),
     b_read = (\<lambda>h n. Inr (drop n h, take n h)),
     b_save = (\<lambda>k c s. if map_of s k = None then ((k, c) # s, Inr k) else ((unused_name k s, c) # s, Inr (unused_name k s))),
     b_delete = (\<lambda>k s. (AList.delete k s, Inr ()))\<rparr>"

lemma unused_name_fresh: "map_of s (unused_name key s) = None" "unused_name key s \<noteq> key"
proof -
  have "length k \<le> sum_list (map (length \<circ> fst) s)" if "k \<in> fst ` set s" for k
    using that by (force intro!: member_le_sum_list)
  then have "unused_name key s \<notin> fst ` set s" by (fastforce simp: unused_name_def)
  then show "map_of s (unused_name key s) = None" by (simp add: map_of_eq_None_iff)
qed (simp add: unused_name_def)

lemma memory_streams: "streams memory_backend c c"
proof (induction "length c" arbitrary: c rule: less_induct)
  case less
  show ?case
  proof (cases "c = []")
    case True
    have "streams memory_backend [] []" by (rule exhausted) (simp add: memory_backend_def)
    with True show ?thesis by simp
  next
    case False
    then show ?thesis
    proof (rule more)
      fix n :: nat assume "0 < n"
      then have "streams memory_backend (drop n c) (drop n c)" using False less by simp
      then show "\<exists>h' m. b_read memory_backend c n = Inr (h', take m c) \<and> 0 < m \<and> m \<le> n \<and> streams memory_backend h' (drop m c)"
        using \<open>0 < n\<close> by (intro exI [of _ "drop n c"] exI [of _ n]) (simp add: memory_backend_def)
    qed
  qed
qed

lemma memory_lawful: "lawful memory_backend map_of"
  unfolding lawful_def
proof (intro conjI allI impI)
  fix s :: memory and k
  show "case map_of s k of None \<Rightarrow> b_open memory_backend s k = Inl FileNotFound
     | Some c \<Rightarrow> \<exists>h. b_open memory_backend s k = Inr h \<and> streams memory_backend h c"
    using memory_streams by (auto simp: memory_backend_def split: option.split)
qed (auto simp: memory_backend_def unused_name_fresh delete_conv' split: option.splits)

section \<open>Properties\<close>

lemma write_revision_honest:
  assumes "lawful be content" and "validate_manifest E m digest = Inr ()"
    and "revision_prefix E storage_key digest = Inr pre" and "canonical_source E files [] = Inr source"
    and "\<forall>e \<in> set (manifest_entries m). \<exists>c. map_of source (e_path e) = Some c \<and> matches E e c"
  shows "\<exists>s'. write_revision E be storage_key digest files m s = (s', Inr pre) \<and>
    (\<forall>e \<in> set (manifest_entries m). intact E (content s') pre e) \<and>
    (\<forall>k. k \<notin> (\<lambda>e. pre @ e_path e) ` set (manifest_entries m) \<longrightarrow> content s' k = content s k)"
proof -
  note dist = validated_distinct [OF assms(2)]
  from write_entries_honest [OF assms(1) dist assms(5)] obtain s' where
    s': "write_entries E be pre source (manifest_entries m) s = (s', Inr ())"
      "\<forall>e \<in> set (manifest_entries m). intact E (content s') pre e"
      "\<forall>k. k \<notin> (\<lambda>e. pre @ e_path e) ` set (manifest_entries m) \<longrightarrow> content s' k = content s k" by blast
  have "verify_tree E be storage_key digest m s' = Inr pre"
    unfolding verify_tree_honest [OF assms(1) dist] using assms(3) s'(2) by blast
  with s' show ?thesis
    by (intro exI [of _ s']) (simp add: write_revision_def sbind_def lift_def assms(2-4))
qed

text \<open>
  Writing completes a revision from any state of the store: on an honest backend, a call whose
  source holds what the manifest describes returns the revision's prefix with every manifest file
  stored intact, whatever an earlier, interrupted or damaged write left there, and touches no key
  the manifest does not name.
\<close>

theorem write_revision_completes:
  assumes "lawful be content" and "validate_manifest E m digest = Inr ()"
    and "revision_prefix E storage_key digest = Inr pre" and "canonical_source E files [] = Inr source"
    and "\<forall>e \<in> set (manifest_entries m). \<exists>c. map_of source (e_path e) = Some c \<and> matches E e c"
  shows "\<exists>s'. write_revision E be storage_key digest files m s = (s', Inr pre) \<and>
    (\<forall>e \<in> set (manifest_entries m). intact E (content s') pre e) \<and>
    (\<forall>k. k \<notin> (\<lambda>e. pre @ e_path e) ` set (manifest_entries m) \<longrightarrow> content s' k = content s k)"
  using assms by (rule write_revision_honest)

definition stored_example :: json where
  "stored_example = manifest_json [\<lparr>e_path = lit ''a.py'', e_size = 2, e_sha = replicate 64 48\<rparr>]"

definition stored_digest :: "pystr option" where
  "stored_digest = Some (compute_digest ascii_python (map entry_json (manifest_entries stored_example)))"

definition stored_prefix :: pystr where
  "stored_prefix = (case revision_prefix ascii_python (lit ''k'') stored_digest of Inr pre \<Rightarrow> pre | Inl _ \<Rightarrow> [])"

lemma stored_example_valid: "validate_manifest ascii_python stored_example stored_digest = Inr ()"
  by code_simp

lemma stored_example_prefix: "revision_prefix ascii_python (lit ''k'') stored_digest = Inr stored_prefix"
  by code_simp

lemma case_option_ex: "(case x of None \<Rightarrow> False | Some b \<Rightarrow> P b) \<longleftrightarrow> (\<exists>b. x = Some b \<and> P b)"
  by (simp split: option.split)

theorem write_revision_completes_witness:
  "\<exists>s'. write_revision ascii_python memory_backend (lit ''k'') stored_digest [(lit ''./a.py'', [1, 2])] stored_example
       [(stored_prefix @ lit ''a.py'', [9])] = (s', Inr stored_prefix) \<and>
     (\<forall>e \<in> set (manifest_entries stored_example). intact ascii_python (map_of s') stored_prefix e)"
proof -
  have c: "canonical_source ascii_python [(lit ''./a.py'', [1, 2])] [] = Inr [(lit ''a.py'', [1, 2])]" by code_simp
  have "list_all (\<lambda>e. case map_of [(lit ''a.py'', [1, 2])] (e_path e) of None \<Rightarrow> False | Some b \<Rightarrow> matches ascii_python e b)
      (manifest_entries stored_example)" by code_simp
  then have "\<forall>e \<in> set (manifest_entries stored_example). \<exists>b. map_of [(lit ''a.py'', [1, 2])] (e_path e) = Some b \<and>
      matches ascii_python e b" unfolding list_all_iff case_option_ex .
  from write_revision_completes [OF memory_lawful stored_example_valid stored_example_prefix c this]
  show ?thesis by blast
qed

text \<open>
  C23. Verification decides integrity: on an honest backend a revision verifies exactly when its
  manifest is sound and every file it names is stored with the recorded length and checksum.
\<close>

theorem verify_revision_tree_iff:
  assumes "lawful be content"
  shows "verify_revision_tree E be storage_key digest m s = Inr pre \<longleftrightarrow>
    validate_manifest E m digest = Inr () \<and> revision_prefix E storage_key digest = Inr pre \<and>
    (\<forall>e \<in> set (manifest_entries m). intact E (content s) pre e)"
  using verify_tree_honest [OF assms validated_distinct]
  by (auto simp: verify_revision_tree_def result_simps)

theorem verify_revision_tree_iff_witness:
  "verify_revision_tree ascii_python memory_backend (lit ''k'') stored_digest stored_example
     [(stored_prefix @ lit ''a.py'', [9])] \<noteq> Inr stored_prefix"
proof -
  have "\<not> intact ascii_python (map_of [(stored_prefix @ lit ''a.py'', [9])]) stored_prefix
     \<lparr>e_path = lit ''a.py'', e_size = 2, e_sha = replicate 64 48\<rparr>" by (simp add: intact_def matches_def)
  moreover have "\<lparr>e_path = lit ''a.py'', e_size = 2, e_sha = replicate 64 48\<rparr> \<in> set (manifest_entries stored_example)"
    by (simp add: stored_example_def)
  ultimately show ?thesis unfolding verify_revision_tree_iff [OF memory_lawful] by blast
qed

text \<open>
  Content is trusted for its hash alone: on any backend, honest or not, a tree that is read
  back has exactly the manifest's paths, each with content of the recorded length and checksum.
\<close>

theorem read_revision_tree_sound:
  assumes "read_revision_tree E be storage_key digest m s = Inr tree"
  shows "\<exists>cs. tree = zip (map e_path (manifest_entries m)) cs \<and> list_all2 (matches E) (manifest_entries m) cs"
  using assms read_entries_sound [OF _ validated_distinct]
  by (fastforce simp: read_revision_tree_def result_simps)

theorem read_revision_tree_sound_witness:
  "\<exists>tree cs. read_revision_tree ascii_python memory_backend (lit ''k'') stored_digest stored_example
       [(stored_prefix @ lit ''a.py'', [7, 7])] = Inr tree \<and>
     tree = zip (map e_path (manifest_entries stored_example)) cs"
proof -
  have "is_ok (read_revision_tree ascii_python memory_backend (lit ''k'') stored_digest stored_example
       [(stored_prefix @ lit ''a.py'', [7, 7])])" by code_simp
  then obtain tree where t: "read_revision_tree ascii_python memory_backend (lit ''k'') stored_digest stored_example
       [(stored_prefix @ lit ''a.py'', [7, 7])] = Inr tree" by (auto simp: is_ok_iff)
  from read_revision_tree_sound [OF t] t show ?thesis by blast
qed

text \<open>
  Deletion is exact: on an honest backend, whether or not it reports a failure, it removes the
  keys of the given paths and nothing else, in particular no file of another revision or project;
  it fails only for paths no key can be built from, and repeating it changes nothing.
\<close>

theorem delete_revision_exact:
  assumes "lawful be content"
  shows "\<exists>s' r. delete_revision E be storage_key digest paths s = (s', r) \<and>
    (is_ok r \<longleftrightarrow> (\<forall>path \<in> set paths. is_ok (revision_key E storage_key digest path))) \<and>
    (\<forall>k. content s' k = (if \<exists>path \<in> set paths. revision_key E storage_key digest path = Inr k then None else content s k)) \<and>
    (\<forall>storage_key' digest' path' k. revision_key E storage_key' digest' path' = Inr k \<and>
       (uuid_parse E storage_key' \<noteq> uuid_parse E storage_key \<or> digest' \<noteq> digest) \<longrightarrow> content s' k = content s k)"
proof -
  obtain s' where s': "delete_paths E be storage_key digest (sort paths) s =
      (s', filter (\<lambda>path. \<not> is_ok (revision_key E storage_key digest path)) (sort paths))"
    "content s' = (\<lambda>k. if \<exists>path \<in> set (sort paths). revision_key E storage_key digest path = Inr k then None else content s k)"
    using delete_paths_honest [OF assms] by blast
  have "content s' k = content s k" if "revision_key E storage_key' digest' path' = Inr k"
      "uuid_parse E storage_key' \<noteq> uuid_parse E storage_key \<or> digest' \<noteq> digest" for storage_key' digest' path' k
  proof -
    have "\<not> (\<exists>path \<in> set (sort paths). revision_key E storage_key digest path = Inr k)"
    proof
      assume "\<exists>path \<in> set (sort paths). revision_key E storage_key digest path = Inr k"
      then obtain path where "revision_key E storage_key digest path = Inr k" by blast
      from revision_key_inject [OF that(1) this] that(2) show False by blast
    qed
    then show ?thesis unfolding s'(2) by (rule if_not_P)
  qed
  moreover define r where "r = snd (delete_revision E be storage_key digest paths s)"
  have "delete_revision E be storage_key digest paths s = (s', r)"
    using s'(1) by (simp add: r_def delete_revision_def)
  moreover have "is_ok r \<longleftrightarrow> (\<forall>path \<in> set paths. is_ok (revision_key E storage_key digest path))"
    using s'(1) by (simp add: r_def delete_revision_def filter_empty_conv)
  moreover have "content s' k = (if \<exists>path \<in> set paths. revision_key E storage_key digest path = Inr k then None else content s k)" for k
    using s'(2) by simp
  ultimately show ?thesis by blast
qed


theorem delete_revision_exact_witness:
  "\<exists>s' r. delete_revision ascii_python memory_backend (lit ''k'') stored_digest [lit ''a.py'', lit ''..'']
       [(stored_prefix @ lit ''a.py'', [1, 2]), (lit ''other'', [3])] = (s', r) \<and> \<not> is_ok r \<and>
     map_of s' (stored_prefix @ lit ''a.py'') = None \<and> map_of s' (lit ''other'') = Some [3]"
proof -
  have k: "revision_key ascii_python (lit ''k'') stored_digest (lit ''a.py'') = Inr (stored_prefix @ lit ''a.py'')"
    "\<not> is_ok (revision_key ascii_python (lit ''k'') stored_digest (lit ''..''))" by code_simp+
  have o: "stored_prefix @ lit ''a.py'' \<noteq> lit ''other''" by code_simp
  have n: "revision_key ascii_python (lit ''k'') stored_digest (lit ''..'') \<noteq> Inr q" for q
    using k(2) by (auto simp: is_ok_iff)
  from delete_revision_exact [OF memory_lawful, where E = ascii_python and storage_key = "lit ''k''" and
      digest = stored_digest and paths = "[lit ''a.py'', lit ''..'']" and
      s = "[(stored_prefix @ lit ''a.py'', [1, 2]), (lit ''other'', [3])]"]
  show ?thesis using k o n by auto
qed

end
