(* ===== verification/Settings.thy ===== *)
theory Settings
  imports Store
begin

text \<open>
  storage/config.py and branching.py: the settings a storage operation resolves first, and the guard
  that refuses to run where NetBox Branching could route the plugin's rows to a branch schema.
\<close>

section \<open>Settings\<close>

datatype setting = IntSetting int | BoolSetting bool | OtherSetting

text \<open>
  A deployment: the STORAGES entry of the plugin (absent, failing to construct, or a backend), the
  PLUGINS_CONFIG values, and what is installed of NetBox Branching.
\<close>

datatype branching_api =
    NotInstalled
  | NoInspectionApi
  | InspectionApi "string \<Rightarrow> bool result"

record 'be deployment =
  storages_entry :: "'be result option"
  plugin_config :: "string \<Rightarrow> setting option"
  branching_installed :: branching_api

definition get_storage :: "'be deployment \<Rightarrow> 'be result" where
  "get_storage dep =
     (case storages_entry dep of
        None \<Rightarrow> Inl StorageConfigurationError
      | Some (Inl _) \<Rightarrow> Inl StorageConfigurationError
      | Some (Inr be) \<Rightarrow> Inr be)"

definition check_storage_configured :: "'be deployment \<Rightarrow> string list" where
  "check_storage_configured dep = (if storages_entry dep \<noteq> None then [] else [''netbox_scripts.W001''])"

definition resolve_positive_integer :: "'be deployment \<Rightarrow> string \<Rightarrow> int \<Rightarrow> nat result" where
  "resolve_positive_integer dep parameter dflt =
     (case (case plugin_config dep parameter of None \<Rightarrow> IntSetting dflt | Some v \<Rightarrow> v) of
        IntSetting n \<Rightarrow> if n \<le> 0 then Inl StorageConfigurationError else Inr (nat n)
      | _ \<Rightarrow> Inl StorageConfigurationError)"

definition DEFAULT_MAX_FILE_SIZE :: int where "DEFAULT_MAX_FILE_SIZE = 10 * 1024 * 1024"
definition DEFAULT_MAX_PROJECT_SIZE :: int where "DEFAULT_MAX_PROJECT_SIZE = 100 * 1024 * 1024"
definition DEFAULT_MAX_FILE_COUNT :: int where "DEFAULT_MAX_FILE_COUNT = 1000"

definition get_storage_limits :: "'be deployment \<Rightarrow> storage_limits result" where
  "get_storage_limits dep =
     rbind (resolve_positive_integer dep ''max_file_size'' DEFAULT_MAX_FILE_SIZE) (\<lambda>file_size.
       rbind (resolve_positive_integer dep ''max_project_size'' DEFAULT_MAX_PROJECT_SIZE) (\<lambda>project_size.
         rbind (resolve_positive_integer dep ''max_file_count'' DEFAULT_MAX_FILE_COUNT) (\<lambda>file_count.
           Inr \<lparr>max_file_size = file_size, max_project_size = project_size, max_file_count = file_count\<rparr>)))"

lemma storage_limits_positive:
  "get_storage_limits dep = Inr limits \<Longrightarrow>
     0 < max_file_size limits \<and> 0 < max_project_size limits \<and> 0 < max_file_count limits"
  by (auto simp: get_storage_limits_def resolve_positive_integer_def result_simps
      split: option.splits setting.splits if_splits)

section \<open>Branch routing\<close>

definition APP_LABEL :: string where "APP_LABEL = ''netbox_scripts''"

definition GLOBAL_MODELS :: "string list" where
  "GLOBAL_MODELS = [''migrationrun'', ''netboxscript'', ''scriptfile'', ''scriptproject'', ''scriptprojectrevision'']"

text \<open>The resolver offered to NetBox Branching: Some False routes a model to the main schema.\<close>

definition resolve_branching_support :: "string \<Rightarrow> string \<Rightarrow> bool option" where
  "resolve_branching_support app_label model_name =
     (if app_label = APP_LABEL \<and> model_name \<in> set GLOBAL_MODELS then Some False else None)"

datatype routing_problem = ApiUnavailable | ReportFailed | RoutedToBranch "string list"

fun ask_all :: "(string \<Rightarrow> bool result) \<Rightarrow> string list \<Rightarrow> string list result" where
  "ask_all supports [] = Inr []"
| "ask_all supports (name # names) =
     rbind (supports name) (\<lambda>aware. rbind (ask_all supports names) (\<lambda>rest.
       Inr (if aware then name # rest else rest)))"

definition unsafe_routing_reason :: "'be deployment \<Rightarrow> routing_problem option" where
  "unsafe_routing_reason dep =
     (case branching_installed dep of
        NotInstalled \<Rightarrow> None
      | NoInspectionApi \<Rightarrow> Some ApiUnavailable
      | InspectionApi supports \<Rightarrow> (case ask_all supports GLOBAL_MODELS of
            Inl _ \<Rightarrow> Some ReportFailed
          | Inr branch_aware \<Rightarrow> if branch_aware \<noteq> [] then Some (RoutedToBranch branch_aware) else None))"

definition require_safe_routing :: "'be deployment \<Rightarrow> unit result" where
  "require_safe_routing dep = (if unsafe_routing_reason dep \<noteq> None then Inl ImproperlyConfigured else Inr ())"

definition check_routing :: "'be deployment \<Rightarrow> string list" where
  "check_routing dep = (if unsafe_routing_reason dep \<noteq> None then [''netbox_scripts.E001''] else [])"

lemma ask_all_Nil: "ask_all supports names = Inr [] \<longleftrightarrow> (\<forall>name \<in> set names. supports name = Inr False)"
  by (induction names) (auto simp: result_simps)

text \<open>
  The guard fails closed: operations run only where no branching is installed or where it reported,
  for every model of the plugin, that the model stays in the main schema.
\<close>

lemma require_safe_routing_iff [result_simps]:
  "require_safe_routing dep = Inr u \<longleftrightarrow> (case branching_installed dep of NotInstalled \<Rightarrow> True
     | NoInspectionApi \<Rightarrow> False | InspectionApi supports \<Rightarrow> \<forall>name \<in> set GLOBAL_MODELS. supports name = Inr False)"
proof (cases "branching_installed dep")
  case (InspectionApi supports)
  have "require_safe_routing dep = Inr u \<longleftrightarrow> ask_all supports GLOBAL_MODELS = Inr []"
    by (cases "ask_all supports GLOBAL_MODELS") (simp_all add: require_safe_routing_def unsafe_routing_reason_def InspectionApi)
  then show ?thesis by (simp add: ask_all_Nil InspectionApi)
qed (simp_all add: require_safe_routing_def unsafe_routing_reason_def)

section \<open>The one database alias\<close>

definition DEFAULT_DB_ALIAS :: string where "DEFAULT_DB_ALIAS = ''default''"

text \<open>\<open>require_default_database\<close>: the alias is the instance's own or the one a router picks for a write.\<close>

definition require_default_database :: "string \<Rightarrow> string result" where
  "require_default_database alias_name =
     (if alias_name \<noteq> DEFAULT_DB_ALIAS then Inl ImproperlyConfigured else Inr alias_name)"

lemma require_default_database_iff [result_simps]:
  "require_default_database alias_name = Inr u \<longleftrightarrow> alias_name = DEFAULT_DB_ALIAS \<and> u = alias_name"
  by (auto simp: require_default_database_def)

end
