(* ===== verification/Service.thy ===== *)
theory Service
  imports Settings Project_Model
begin

text \<open>
  storage/service.py: staging a source tree as a revision, accepting it as the project's source,
  refreshing a revision under the current declarations, and promoting a revision.

  An operation is a sequence of database statements and store calls.  The project lock keeps every
  other storage operation on the same project out, but not the operations that take no such lock
  (validation's lease, deletion, ordinary edits), so before each statement the transactions other
  connections committed in the meantime are applied: \<open>w_others\<close> lists them, one per statement.
\<close>

section \<open>Statements\<close>

record 'b world =
  w_db :: db
  w_store :: 'b
  w_others :: "(db \<Rightarrow> db) list"
  w_now :: time

definition ret :: "'a \<Rightarrow> ('s, 'a) io" where
  "ret x s = (s, Inr x)"

definition fail :: "py_error \<Rightarrow> ('s, 'a) io" where
  "fail e s = (s, Inl e)"

definition interfere :: "'b world \<Rightarrow> 'b world" where
  "interfere w = (case w_others w of [] \<Rightarrow> w | f # fs \<Rightarrow> w\<lparr>w_db := f (w_db w), w_others := fs\<rparr>)"

text \<open>A SELECT, a statement (or a transaction) that may change the database, a call of the store.\<close>

definition select :: "(db \<Rightarrow> 'a result) \<Rightarrow> ('b world, 'a) io" where
  "select f w = (let w' = interfere w in (w', f (w_db w')))"

definition statement :: "(db \<Rightarrow> (db \<times> 'a) result) \<Rightarrow> ('b world, 'a) io" where
  "statement f w = (let w' = interfere w in
     case f (w_db w') of Inl e \<Rightarrow> (w', Inl e) | Inr (d, x) \<Rightarrow> (w'\<lparr>w_db := d\<rparr>, Inr x))"

definition on_store :: "('b, 'a) io \<Rightarrow> ('b world, 'a) io" where
  "on_store m w = (case m (w_store w) of (s, r) \<Rightarrow> (w\<lparr>w_store := s\<rparr>, r))"

text \<open>\<open>try: m except (OSError, StorageError): handler; raise\<close>\<close>

definition on_storage_failure :: "('s, 'a) io \<Rightarrow> ('s, unit) io \<Rightarrow> ('s, 'a) io" where
  "on_storage_failure m handler s =
     (case m s of
        (s', Inr x) \<Rightarrow> (s', Inr x)
      | (s', Inl e) \<Rightarrow>
          if is_os_error e \<or> is_storage_error e
          then (case handler s' of (s'', Inl e') \<Rightarrow> (s'', Inl e') | (s'', Inr _) \<Rightarrow> (s'', Inl e))
          else (s', Inl e))"

section \<open>Reads that report a deletion\<close>

definition project_or_vanished :: "pk \<Rightarrow> db \<Rightarrow> script_project result" where
  "project_or_vanished k d = (case project_of d k of None \<Rightarrow> Inl ProjectVanished | Some p \<Rightarrow> Inr p)"

definition revision_or_vanished :: "pk \<Rightarrow> pk option \<Rightarrow> db \<Rightarrow> revision result" where
  "revision_or_vanished k project d =
     (case List.find (\<lambda>r. r_id r = k \<and> (project \<noteq> None \<longrightarrow> Some (r_project r) = project)) (revisions d) of
        None \<Rightarrow> Inl RevisionVanished | Some r \<Rightarrow> Inr r)"

definition refresh_surviving :: "pk \<Rightarrow> db \<Rightarrow> revision result" where
  "refresh_surviving k d = (case revision_of d k of None \<Rightarrow> Inl RevisionVanished | Some r \<Rightarrow> Inr r)"

section \<open>Checking a row against its manifest\<close>

definition validated_manifest :: "python \<Rightarrow> revision \<Rightarrow> json result" where
  "validated_manifest E r =
     rbind (validate_manifest E (r_manifest r) (r_digest r)) (\<lambda>_.
       let entries = manifest_entries (r_manifest r);
           reasons = (if r_file_count r \<noteq> length entries then [Reason ''file_count_mismatch''] else []) @
             (if r_total_size r \<noteq> sum_list (map e_size entries) then [Reason ''total_size_mismatch''] else [])
       in if reasons \<noteq> [] then Inl (RevisionCorrupt reasons) else Inr (r_manifest r))"

section \<open>The frozen source\<close>

text \<open>What a caller may put in the source mapping.\<close>

datatype pyvalue = PyStr pystr | PyBytes bytes | PyBytearray bytes | PyMemoryview bytes | PyOther

fun freeze_items :: "(pyvalue \<times> pyvalue) list \<Rightarrow> (pystr \<times> bytes) list \<Rightarrow> (pystr \<times> bytes) list result" where
  "freeze_items [] frozen = Inr frozen"
| "freeze_items ((path, content) # items) frozen =
     (case path of
        PyStr p \<Rightarrow>
          (case content of
             PyBytes b \<Rightarrow> freeze_items items (AList.update p b frozen)
           | PyBytearray b \<Rightarrow> freeze_items items (AList.update p b frozen)
           | PyMemoryview b \<Rightarrow> freeze_items items (AList.update p b frozen)
           | _ \<Rightarrow> Inl TypeError)
      | _ \<Rightarrow> Inl TypeError)"

definition frozen_source :: "(pyvalue \<times> pyvalue) list \<Rightarrow> (pystr \<times> bytes) list result" where
  "frozen_source files = freeze_items files []"

section \<open>Inserting a revision\<close>

definition new_revision :: "db \<Rightarrow> time \<Rightarrow> pk \<Rightarrow> pystr option \<Rightarrow> revision_status \<Rightarrow> json \<Rightarrow> nat \<Rightarrow> nat \<Rightarrow>
    problem list \<Rightarrow> json \<Rightarrow> pystr \<Rightarrow> revision" where
  "new_revision d now project digest status manifest file_count total_size errors snapshot snapshot_digest =
     \<lparr>r_id = fresh (map r_id (revisions d)), r_project = project, r_created = now, r_digest = digest,
      r_status = status, r_manifest = manifest, r_file_count = file_count, r_total_size = total_size,
      r_validation_errors = errors, r_discovered_scripts = JList [], r_script_file_snapshot = snapshot,
      r_script_file_digest = snapshot_digest, r_validation_job = None, r_validation_started = None,
      r_last_validation_failure = [], r_activated = None\<rparr>"

text \<open>The INSERT also checks the foreign key to the project.\<close>

definition insert_revision :: "(db \<Rightarrow> revision) \<Rightarrow> db \<Rightarrow> (db \<times> revision) result" where
  "insert_revision row d =
     (if project_of d (r_project (row d)) = None then Inl IntegrityError
      else rbind (write_revisions d (revisions d @ [row d])) (\<lambda>d'. Inr (d', row d)))"

definition find_identity :: "pk \<Rightarrow> pystr option \<Rightarrow> pystr \<Rightarrow> db \<Rightarrow> revision option" where
  "find_identity project digest snapshot_digest d =
     List.find (\<lambda>r. r_project r = project \<and> r_digest r = digest \<and> r_script_file_digest r = snapshot_digest) (revisions d)"

text \<open>\<open>get_or_create\<close>: an insert that loses the race on the identity is followed by a second read.\<close>

definition get_or_create :: "pk \<Rightarrow> pystr option \<Rightarrow> pystr \<Rightarrow> (db \<Rightarrow> revision) \<Rightarrow> ('b world, revision \<times> bool) io" where
  "get_or_create project digest snapshot_digest row =
     sbind (select (\<lambda>d. Inr (find_identity project digest snapshot_digest d))) (\<lambda>found.
       case found of
         Some r \<Rightarrow> ret (r, False)
       | None \<Rightarrow> (\<lambda>w. case statement (insert_revision row) w of
             (w', Inl IntegrityError) \<Rightarrow>
               sbind (select (\<lambda>d. case find_identity project digest snapshot_digest d of
                  None \<Rightarrow> Inl IntegrityError | Some r \<Rightarrow> Inr r)) (\<lambda>r. ret (r, False)) w'
           | (w', Inl e) \<Rightarrow> (w', Inl e)
           | (w', Inr r) \<Rightarrow> (w', Inr (r, True))))"

text \<open>\<open>filter(pk=..., status__in=...).update(...)\<close>: whether a row was changed.\<close>

definition update_where :: "pk \<Rightarrow> revision_status list \<Rightarrow> (revision \<Rightarrow> revision) \<Rightarrow> db \<Rightarrow> (db \<times> bool) result" where
  "update_where k statuses f d =
     (let hit = (\<lambda>r. r_id r = k \<and> r_status r \<in> set statuses)
      in rbind (write_revisions d (update_rows hit f (revisions d))) (\<lambda>d'. Inr (d', list_ex hit (revisions d))))"

section \<open>Accepting a source\<close>

text \<open>\<open>_accept_source\<close>, one transaction: the returned instance's digest and status decide.\<close>

definition accept_source :: "revision \<Rightarrow> bool \<Rightarrow> ('b world, unit) io" where
  "accept_source r activate_once =
     (if truthy (r_digest r) \<and> r_status r \<notin> set UNSTORED_REVISION_STATUSES
      then sbind (select (\<lambda>d. case project_of d (r_project r) of
               None \<Rightarrow> Inl DoesNotExist
             | Some p \<Rightarrow> Inr (p_source_revision p = Some (r_id r) \<and> p_source_activation_pending p))) (\<lambda>was_pending.
             statement (\<lambda>d. if revision_of d (r_id r) = None \<and> project_of d (r_project r) \<noteq> None then Inl IntegrityError
               else rbind (write_projects d (update_rows (\<lambda>p. p_id p = r_project r)
                   (\<lambda>p. p\<lparr>p_source_revision := Some (r_id r),
                     p_source_activation_pending := (activate_once \<or> was_pending) \<and> r_status r \<noteq> ACTIVE\<rparr>) (projects d)))
                 (\<lambda>d'. Inr (d', ()))))
      else ret ())"

section \<open>Staging\<close>

type_synonym ('b, 'h) service_env = "('b, 'h) backend deployment"

definition in_statuses :: "revision \<Rightarrow> revision_status list \<Rightarrow> bool" where
  "in_statuses r statuses \<longleftrightarrow> r_status r \<in> set statuses"

text \<open>
  The \<open>while True\<close> loop: it either returns the row as it stands (with None) or has claimed the write
  window.  It ends because every round that fails to claim has seen another connection commit, or
  reads back a row that is no longer retryable.
\<close>

definition reenter :: "revision \<Rightarrow> revision" where
  "reenter r = r\<lparr>r_status := STAGING\<rparr>"

function claim_window :: "(revision \<Rightarrow> ('b world, unit) io) \<Rightarrow> revision \<Rightarrow> ('b world, revision \<times> bool) io" where
  "claim_window verify r w =
     (if r_status r \<in> set STORED_REVISION_STATUSES then sbind (verify r) (\<lambda>_. ret (r, False)) w
      else if r_status r \<notin> set RETRYABLE_REVISION_STATUSES then (w, Inr (r, False))
      else case statement (update_where (r_id r) RETRYABLE_REVISION_STATUSES reenter) w of
          (w1, Inl e) \<Rightarrow> (w1, Inl e)
        | (w1, Inr True) \<Rightarrow> (w1, Inr (r, True))
        | (w1, Inr False) \<Rightarrow> (case select (refresh_surviving (r_id r)) w1 of
              (w2, Inl e) \<Rightarrow> (w2, Inl e)
            | (w2, Inr r') \<Rightarrow> claim_window verify r' w2))"
  by pat_completeness auto

lemma interfere_others: "length (w_others (interfere w)) = length (w_others w) - 1"
  by (simp add: interfere_def split: list.split)

lemma interfere_none [simp]: "w_others w = [] \<Longrightarrow> interfere w = w"
  by (simp add: interfere_def)

lemma statement_others: "length (w_others (fst (statement f w))) = length (w_others w) - 1"
  by (simp add: statement_def Let_def interfere_others split: sum.split)

lemma update_where_miss:
  assumes "update_where k statuses f d = Inr (d', False)"
  shows "d' = d \<and> (\<forall>r \<in> set (revisions d). r_id r = k \<longrightarrow> r_status r \<notin> set statuses)"
proof -
  have miss: "\<forall>r \<in> set (revisions d). \<not> (r_id r = k \<and> r_status r \<in> set statuses)"
    using assms by (auto simp: update_where_def Let_def result_simps list_ex_iff)
  then have "update_rows (\<lambda>r. r_id r = k \<and> r_status r \<in> set statuses) f (revisions d) = revisions d"
    unfolding update_rows_def by (intro map_idI) (use miss in auto)
  then show ?thesis using assms miss by (auto simp: update_where_def Let_def result_simps)
qed

definition claim_measure :: "revision \<Rightarrow> 'b world \<Rightarrow> nat" where
  "claim_measure r w = 2 * length (w_others w) + (if r_status r \<in> set RETRYABLE_REVISION_STATUSES then 1 else 0)"

lemma claim_decreases:
  assumes c: "r_status r \<in> set RETRYABLE_REVISION_STATUSES"
    "statement (update_where (r_id r) RETRYABLE_REVISION_STATUSES reenter) w = (w1, Inr False)"
    "select (refresh_surviving (r_id r)) w1 = (w2, Inr r')"
  shows "claim_measure r' w2 < claim_measure r w"
proof (cases "w_others w = []")
  case True
  then have w1: "update_where (r_id r) RETRYABLE_REVISION_STATUSES reenter (w_db w) = Inr (w_db w1, False)" "w_others w1 = []"
    using c(2) by (auto simp: statement_def split: sum.splits)
  then have r': "revision_of (w_db w1) (r_id r) = Some r'" "w_others w2 = []"
    using c(3) by (auto simp: select_def refresh_surviving_def split: option.splits)
  have "r_status r' \<notin> set RETRYABLE_REVISION_STATUSES"
    using update_where_miss [OF w1(1)] revision_of_SomeD [OF r'(1)] by auto
  with True c(1) r'(2) show ?thesis by (simp add: claim_measure_def)
next
  case False
  have "length (w_others w1) = length (w_others w) - 1" using statement_others c(2) by (metis fst_conv)
  moreover have "length (w_others w2) \<le> length (w_others w1)"
    using c(3) interfere_others [of w1] by (auto simp: select_def Let_def)
  ultimately show ?thesis using False c(1) by (cases "w_others w") (auto simp: claim_measure_def)
qed

termination claim_window
proof (relation "measure (\<lambda>(_, r, w). claim_measure r w)", goal_cases)
  case (2 verify r w w1 y b w2 y' r')
  then show ?case using claim_decreases [of r w w1 w2 r'] by simp
qed simp

definition stage_rejected :: "pk \<Rightarrow> error_record list \<Rightarrow> entry list \<Rightarrow> json \<times> pystr \<Rightarrow> ('b world, revision) io" where
  "stage_rejected project errors entries frozen = (\<lambda>w.
     statement (insert_revision (\<lambda>d. new_revision d (w_now w) project None INVALID (manifest_json entries)
       (length entries) (sum_list (map e_size entries)) (map (\<lambda>(p, c). SourceProblem p c) errors)
       (fst frozen) (snd frozen))) w)"

definition write_failed :: "revision \<Rightarrow> revision" where
  "write_failed r = r\<lparr>r_status := STORAGE_FAILED, r_validation_errors := [SourceProblem None ''storage_write_failed'']\<rparr>"

definition write_settled :: "revision \<Rightarrow> revision" where
  "write_settled r = r\<lparr>r_status := MATERIALIZED, r_validation_errors := []\<rparr>"

text \<open>The part of \<open>_stage_revision\<close> under the project lock.\<close>

definition stage_accepted ::
    "python \<Rightarrow> ('b, 'h) backend \<Rightarrow> pk \<Rightarrow> pystr \<Rightarrow> (pystr \<times> bytes) list \<Rightarrow> entry list \<Rightarrow> json \<times> pystr \<Rightarrow>
     ('b world, revision \<times> bool) io" where
  "stage_accepted E be project storage_key source entries frozen = (\<lambda>w.
     let digest = Some (compute_digest E (map entry_json entries));
         verify = (\<lambda>r. case validated_manifest E r of
            Inl e \<Rightarrow> fail e
          | Inr m \<Rightarrow> on_store (lift (\<lambda>s. rbind (verify_revision_tree E be storage_key (r_digest r) m s) (\<lambda>_. Inr ()))))
     in sbind (get_or_create project digest (snd frozen) (\<lambda>d. new_revision d (w_now w) project digest STAGING
            (manifest_json entries) (length entries) (sum_list (map e_size entries)) [] (fst frozen) (snd frozen)))
          (\<lambda>(r, created). sbind (claim_window verify r) (\<lambda>(r, claimed).
             if \<not> claimed then ret (r, created)
             else sbind (on_storage_failure
                    (case validated_manifest E r of
                       Inl e \<Rightarrow> fail e
                     | Inr m \<Rightarrow> on_store (write_revision E be storage_key (r_digest r) source m))
                    (sbind (statement (update_where (r_id r) [STAGING] write_failed)) (\<lambda>_. ret ())))
                  (\<lambda>_. sbind (statement (update_where (r_id r) [STAGING] write_settled)) (\<lambda>_.
                    sbind (select (refresh_surviving (r_id r))) (\<lambda>r. ret (r, created))))))
          w)"

definition stage_revision_locked ::
    "python \<Rightarrow> ('b, 'h) service_env \<Rightarrow> string \<Rightarrow> pk \<Rightarrow> (pyvalue \<times> pyvalue) list \<Rightarrow> ('b world, revision \<times> bool) io" where
  "stage_revision_locked E dep alias_name project files =
     sbind (lift (\<lambda>_. rbind (require_safe_routing dep) (\<lambda>_.
       rbind (get_storage dep) (\<lambda>be.
         rbind (get_storage_limits dep) (\<lambda>limits.
           rbind (require_default_database alias_name) (\<lambda>_.
             rbind (frozen_source files) (\<lambda>source.
               rbind (build_manifest E source limits) (\<lambda>(entries, errors). Inr (be, source, entries, errors)))))))))
     (\<lambda>(be, source, entries, errors).
        sbind (select (\<lambda>d. Inr (build_script_file_snapshot E (filter f_enabled (project_files project d))))) (\<lambda>frozen.
          if errors \<noteq> [] then sbind (stage_rejected project errors entries frozen) (\<lambda>r. ret (r, True))
          else sbind (select (project_or_vanished project)) (\<lambda>p.
            stage_accepted E be project (p_storage_key p) source entries frozen)))"

definition stage_revision ::
    "python \<Rightarrow> ('b, 'h) service_env \<Rightarrow> string \<Rightarrow> pk \<Rightarrow> (pyvalue \<times> pyvalue) list \<Rightarrow> bool \<Rightarrow> ('b world, revision \<times> bool) io" where
  "stage_revision E dep alias_name project files activate_once =
     sbind (lift (\<lambda>_. rbind (require_safe_routing dep) (\<lambda>_. require_default_database alias_name))) (\<lambda>_.
       sbind (select (project_or_vanished project)) (\<lambda>_.
         sbind (stage_revision_locked E dep alias_name project files) (\<lambda>(r, created).
           sbind (accept_source r activate_once) (\<lambda>_. ret (r, created)))))"

section \<open>Refreshing\<close>

definition refresh_locked ::
    "python \<Rightarrow> ('b, 'h) service_env \<Rightarrow> string \<Rightarrow> pk \<Rightarrow> ('b world, revision \<times> bool) io" where
  "refresh_locked E dep alias_name revision_pk = (\<lambda>w.
     sbind (lift (\<lambda>_. rbind (require_safe_routing dep) (\<lambda>_. rbind (get_storage dep) (\<lambda>be.
         rbind (require_default_database alias_name) (\<lambda>_. Inr be))))) (\<lambda>be.
       sbind (select (revision_or_vanished revision_pk None)) (\<lambda>source.
         if \<not> truthy (r_digest source) then fail ValueError
         else sbind (lift (\<lambda>_. validated_manifest E source)) (\<lambda>manifest.
           sbind (select (\<lambda>d. Inr (build_script_file_snapshot E (filter f_enabled (project_files (r_project source) d)))))
             (\<lambda>frozen. sbind (select (project_or_vanished (r_project source))) (\<lambda>p.
               sbind (on_store (lift (verify_revision_tree E be (p_storage_key p) (r_digest source) manifest))) (\<lambda>_.
                 sbind (get_or_create (r_project source) (r_digest source) (snd frozen)
                     (\<lambda>d. new_revision d (w_now w) (r_project source) (r_digest source) MATERIALIZED manifest
                        (r_file_count source) (r_total_size source) [] (fst frozen) (snd frozen)))
                   (\<lambda>(candidate, created).
                      if r_status candidate \<in> set RETRYABLE_REVISION_STATUSES
                      then sbind (statement (update_where (r_id candidate) RETRYABLE_REVISION_STATUSES write_settled)) (\<lambda>_.
                        sbind (select (refresh_surviving (r_id candidate))) (\<lambda>r. ret (r, created)))
                      else ret (candidate, created))))))))
     w)"

definition refresh_revision_script_files ::
    "python \<Rightarrow> ('b, 'h) service_env \<Rightarrow> string \<Rightarrow> revision \<Rightarrow> ('b world, revision \<times> bool) io" where
  "refresh_revision_script_files E dep alias_name r =
     sbind (lift (\<lambda>_. rbind (require_safe_routing dep) (\<lambda>_. require_default_database alias_name))) (\<lambda>_.
       sbind (select (project_or_vanished (r_project r))) (\<lambda>_.
         sbind (refresh_locked E dep alias_name (r_id r)) (\<lambda>(staged, created).
           sbind (accept_source staged False) (\<lambda>_. ret (staged, created)))))"

section \<open>Promoting\<close>

definition require_activatable :: "revision \<Rightarrow> bool \<Rightarrow> unit result" where
  "require_activatable r already_active =
     (if \<not> already_active \<and> r_status r \<notin> set ACTIVATABLE_REVISION_STATUSES then Inl ActivationError
      else if \<not> truthy (r_digest r) then Inl ActivationError else Inr ())"

text \<open>What an automatic request still needs: the accepted source, a standing order, the live selection.\<close>

definition automatic_allowed :: "python \<Rightarrow> script_project \<Rightarrow> revision \<Rightarrow> db \<Rightarrow> bool" where
  "automatic_allowed E p r d \<longleftrightarrow> p_source_revision p = Some (r_id r) \<and>
     (p_source_activation_pending p \<or> p_activation_policy p = AUTOMATIC_IF_VALID) \<and>
     snd (build_script_file_snapshot E (filter f_enabled (project_files (p_id p) d))) = r_script_file_digest r"

definition same_verified :: "revision \<Rightarrow> revision \<Rightarrow> bool" where
  "same_verified a b \<longleftrightarrow> r_digest a = r_digest b \<and> json_eq (r_manifest a) (r_manifest b) \<and>
     r_script_file_digest a = r_script_file_digest b \<and> json_eq (r_script_file_snapshot a) (r_script_file_snapshot b) \<and>
     json_eq (r_discovered_scripts a) (r_discovered_scripts b)"

definition clear_pending :: "script_project \<Rightarrow> revision \<Rightarrow> db \<Rightarrow> db result" where
  "clear_pending p r d =
     (if p_source_revision p = Some (r_id r) \<and> p_source_activation_pending p
      then write_projects d (update_rows (\<lambda>q. p_id q = p_id p) (\<lambda>q. q\<lparr>p_source_activation_pending := False\<rparr>) (projects d))
      else Inr d)"

definition retire_previous :: "script_project \<Rightarrow> db \<Rightarrow> db result" where
  "retire_previous p d =
     (case p_active_revision p of
        None \<Rightarrow> Inr d
      | Some k \<Rightarrow> rbind (revision_or_vanished k (Some (p_id p)) d) (\<lambda>previous.
          save_revision False (Some [''status'', ''last_updated'']) (previous\<lparr>r_status := RETIRED\<rparr>) d))"

text \<open>\<open>_promote\<close>: one transaction holding the project row and then the revision row.\<close>

definition promote_tx ::
    "python \<Rightarrow> revision \<Rightarrow> pk \<Rightarrow> (script_project \<Rightarrow> revision \<Rightarrow> db \<Rightarrow> db result) \<Rightarrow> bool \<Rightarrow> time \<Rightarrow> db \<Rightarrow>
     (db \<times> revision option) result" where
  "promote_tx E snapshot revision_pk on_promote automatic now d =
     rbind (project_or_vanished (r_project snapshot) d) (\<lambda>p.
       rbind (revision_or_vanished revision_pk (Some (p_id p)) d) (\<lambda>locked.
         if automatic \<and> \<not> automatic_allowed E p locked d then Inr (d, None)
         else if \<not> same_verified locked snapshot then Inl ActivationError
         else let already_active = (r_status locked = ACTIVE \<and> p_active_revision p = Some (r_id locked))
              in rbind (require_activatable locked already_active) (\<lambda>_.
                rbind (on_promote p locked d) (\<lambda>d1.
                  rbind (clear_pending p locked d1) (\<lambda>d2.
                    if already_active then Inr (d2, Some locked)
                    else rbind (retire_previous p d2) (\<lambda>d3.
                      let active = locked\<lparr>r_status := ACTIVE, r_activated := Some now\<rparr>
                      in rbind (save_revision False (Some [''status'', ''activated'', ''last_updated'']) active d3) (\<lambda>d4.
                        rbind (save_project False (Some [''active_revision'', ''last_updated'']) None (\<lambda>_. Some active)
                            (p\<lparr>p_active_revision := Some (r_id locked)\<rparr>) d4) (\<lambda>d5.
                          Inr (d5, Some active)))))))))"

definition promote_revision ::
    "python \<Rightarrow> ('b, 'h) service_env \<Rightarrow> string \<Rightarrow> pk \<Rightarrow> (script_project \<Rightarrow> revision \<Rightarrow> db \<Rightarrow> db result) \<Rightarrow> bool \<Rightarrow>
     ('b world, revision option) io" where
  "promote_revision E dep alias_name revision_pk on_promote automatic = (\<lambda>w.
     sbind (lift (\<lambda>_. rbind (require_safe_routing dep) (\<lambda>_. rbind (get_storage dep) (\<lambda>be.
         rbind (require_default_database alias_name) (\<lambda>_. Inr be))))) (\<lambda>be.
       sbind (select (revision_or_vanished revision_pk None)) (\<lambda>snapshot.
         sbind (select (project_or_vanished (r_project snapshot))) (\<lambda>p.
           let already_active = (r_status snapshot = ACTIVE \<and> p_active_revision p = Some (r_id snapshot))
           in sbind (lift (\<lambda>_. rbind (require_activatable snapshot already_active) (\<lambda>_.
                rbind (validate_script_file_snapshot E (r_script_file_snapshot snapshot) (r_script_file_digest snapshot)) (\<lambda>_.
                  validated_manifest E snapshot)))) (\<lambda>manifest.
             sbind (on_store (lift (verify_revision_tree E be (p_storage_key p) (r_digest snapshot) manifest))) (\<lambda>_.
               statement (promote_tx E snapshot revision_pk on_promote automatic (w_now w))))))) w)"

end
