(* ===== verification/Introspection.thy ===== *)
theory Introspection
  imports Script_Model
begin

text \<open>
  runtime/naming.py, runtime/discovery.py and runtime/introspection.py: the private module names,
  which classes an imported script file publishes, how each is described for storage, and the check
  a stored discovery snapshot passes before rows are derived from it.

  Importing and running project code is outside the model: a module and its classes are given by
  what discovery and description read of them.
\<close>

section \<open>Names\<close>

definition PRIVATE_ROOT :: pystr where "PRIVATE_ROOT = lit ''_netbox_scripts_runtime''"

text \<open>\<open>uuid.UUID(s).hex\<close>\<close>

definition uuid_hex :: "128 word \<Rightarrow> pystr" where
  "uuid_hex w = hex_fixed 32 (unat w)"

definition project_module_name :: "python \<Rightarrow> pystr \<Rightarrow> pystr result" where
  "project_module_name E storage_key =
     (case uuid_parse E storage_key of
        None \<Rightarrow> Inl ValueError
      | Some w \<Rightarrow> Inr (PRIVATE_ROOT @ lit ''.p_'' @ uuid_hex w))"

definition revision_module_name :: "python \<Rightarrow> pystr \<Rightarrow> pystr \<Rightarrow> pystr result" where
  "revision_module_name E storage_key digest =
     rbind (project_module_name E storage_key) (\<lambda>name. Inr (name @ lit ''.r_'' @ digest))"

definition script_file_dotted_name :: "python \<Rightarrow> pystr \<Rightarrow> pystr result" where
  "script_file_dotted_name E path =
     (case source_path_to_dotted_name E path of
        Inl (ValidationError (code # _)) \<Rightarrow> Inl (UnsafePath path code)
      | r \<Rightarrow> r)"

section \<open>Modules and classes\<close>

text \<open>
  An exception project code raised: which of the classes the handlers test it is an instance of, its
  type name and text, the \<open>name\<close> of a ModuleNotFoundError, the message of a \<open>detail\<close> dictionary it
  carries, and its traceback as file names with the formatted frame.  \<open>ControlC\<close> is an exception type a caller lists as its passthrough.
\<close>

datatype exc_class = ExceptionC | SyntaxErrorC | ImportErrorC | ModuleNotFoundErrorC | StorageErrorC | OSErrorC
  | ValueErrorC | KeyboardInterruptC | GeneratorExitC | ControlC string

record raised =
  x_classes :: "exc_class list"
  x_type :: pystr
  x_text :: pystr
  x_name :: "pystr option"
  x_detail_message :: "pystr option"
  x_frames :: "(pystr \<times> pystr) list"

definition is_instance :: "raised \<Rightarrow> exc_class list \<Rightarrow> bool" where
  "is_instance x classes \<longleftrightarrow> list_ex (\<lambda>c. c \<in> set (x_classes x)) classes"

text \<open>
  A class object: its identity, the module and name it records, whether it subclasses Script, what
  the report test and the description read.  \<open>FormFails\<close> carries the exception building the form raised.
\<close>

datatype form_outcome = FormFields "pystr list" | FormFails raised

record pyclass =
  c_id :: nat
  c_module :: pystr
  c_name :: pystr
  c_is_script :: bool
  c_report_marker :: bool
  c_own_run :: bool
  c_test_methods :: bool
  c_bases :: "(pystr \<times> pystr) list"
  c_vars :: "pystr list"
  c_display_name :: pystr
  c_description :: pystr
  c_form :: form_outcome
  c_fieldset_names :: "pystr list"
  c_commit_default :: bool
  c_scheduling_enabled :: bool
  c_job_timeout :: json
  c_notifications_default :: json

datatype pyobject = ClassObject pyclass | OtherObject

datatype script_order = Unset | Ordered "pyobject list" | NotASequence

record pymodule =
  m_name :: pystr
  m_vars :: "(pystr \<times> pyobject) list"
  m_script_order :: script_order

record discovered_script =
  d_cls :: pyclass
  d_logical_module :: pystr
  d_name :: pystr

section \<open>Discovery\<close>

definition revision_local :: "pystr \<Rightarrow> pyclass \<Rightarrow> bool" where
  "revision_local prefix cls \<longleftrightarrow> startswith (c_module cls) (prefix @ [dot])"

definition same_class :: "pyclass \<Rightarrow> pyclass list \<Rightarrow> bool" where
  "same_class cls seen \<longleftrightarrow> c_id cls \<in> set (map c_id seen)"

fun order_entries :: "pystr \<Rightarrow> pyobject list \<Rightarrow> pyclass list \<Rightarrow> pyclass list result" where
  "order_entries prefix [] seen = Inr seen"
| "order_entries prefix (OtherObject # rest) seen = Inl (DiscoveryError ''not_a_script'')"
| "order_entries prefix (ClassObject cls # rest) seen =
     (if \<not> c_is_script cls then Inl (DiscoveryError ''not_a_script'')
      else if \<not> revision_local prefix cls then Inl (DiscoveryError ''not_revision_local'')
      else if same_class cls seen then Inl (DiscoveryError ''duplicate_entry'')
      else order_entries prefix rest (seen @ [cls]))"

definition script_order_entries :: "pystr \<Rightarrow> pymodule \<Rightarrow> pyclass list result" where
  "script_order_entries prefix m =
     (case m_script_order m of
        Unset \<Rightarrow> Inr []
      | NotASequence \<Rightarrow> Inl (DiscoveryError ''invalid_script_order'')
      | Ordered entries \<Rightarrow> order_entries prefix entries [])"

text \<open>The classes the module body defines, by bound name, each once.\<close>

fun body_entries :: "pystr \<Rightarrow> pyobject list \<Rightarrow> pyclass list \<Rightarrow> pyclass list" where
  "body_entries name [] published = published"
| "body_entries name (OtherObject # rest) published = body_entries name rest published"
| "body_entries name (ClassObject cls # rest) published =
     (if \<not> (c_is_script cls \<and> c_module cls = name) \<or> same_class cls published
      then body_entries name rest published
      else body_entries name rest (published @ [cls]))"

definition report_style :: "pyclass \<Rightarrow> bool" where
  "report_style cls \<longleftrightarrow> c_report_marker cls \<or> (\<not> c_own_run cls \<and> c_test_methods cls)"

definition publish :: "pystr \<Rightarrow> pyclass \<Rightarrow> discovered_script result" where
  "publish prefix cls =
     (if report_style cls then Inl (DiscoveryError ''report_style'')
      else Inr \<lparr>d_cls = cls, d_logical_module = drop (length prefix + 1) (c_module cls), d_name = c_name cls\<rparr>)"

fun publish_all :: "pystr \<Rightarrow> pyclass list \<Rightarrow> discovered_script list result" where
  "publish_all prefix [] = Inr []"
| "publish_all prefix (cls # rest) =
     rbind (publish prefix cls) (\<lambda>d. rbind (publish_all prefix rest) (\<lambda>ds. Inr (d # ds)))"

definition identity_of :: "discovered_script \<Rightarrow> pystr \<times> pystr" where
  "identity_of d = (d_logical_module d, d_name d)"

definition discover_scripts :: "pymodule \<Rightarrow> pystr \<Rightarrow> discovered_script list result" where
  "discover_scripts m prefix =
     rbind (script_order_entries prefix m) (\<lambda>ordered.
       let published = body_entries (m_name m) (map snd (sort_key fst (m_vars m))) ordered
       in rbind (publish_all prefix published) (\<lambda>results.
            if \<not> distinct (map identity_of results) then Inl (DiscoveryError ''duplicate_identity'')
            else Inr results))"

text \<open>The legacy authoring modules the compatibility tier maps.\<close>

definition LEGACY_MODULES :: "pystr list" where
  "LEGACY_MODULES = [lit ''extras.scripts'', lit ''extras.reports'']"

datatype zero_reason = LegacyBase pystr pystr pystr | DefinesNoScript

definition zero_publication_reason :: "pymodule \<Rightarrow> zero_reason" where
  "zero_publication_reason m =
     (case List.find (\<lambda>obj. case obj of OtherObject \<Rightarrow> False
          | ClassObject cls \<Rightarrow> c_module cls = m_name m \<and> list_ex (\<lambda>b. fst b \<in> set LEGACY_MODULES) (c_bases cls))
        (map snd (sort_key fst (m_vars m))) of
        Some (ClassObject cls) \<Rightarrow> (case List.find (\<lambda>b. fst b \<in> set LEGACY_MODULES) (c_bases cls) of
            Some (base_module, base_name) \<Rightarrow> LegacyBase (c_name cls) base_module base_name
          | None \<Rightarrow> DefinesNoScript)
      | _ \<Rightarrow> DefinesNoScript)"

section \<open>Description\<close>

definition RESERVED_VARIABLE_NAMES :: "pystr list" where
  "RESERVED_VARIABLE_NAMES = map lit [''_commit'', ''_schedule_at'', ''_interval'', ''_notifications'']"

definition validate_job_timeout :: "json \<Rightarrow> json result" where
  "validate_job_timeout v = (case v of
     JInt n \<Rightarrow> if n \<le> 0 then Inl (ScriptMetadataError ''invalid_job_timeout'') else Inr v
   | _ \<Rightarrow> Inl (ScriptMetadataError ''invalid_job_timeout''))"

definition validate_notification_policy :: "netbox_core \<Rightarrow> json \<Rightarrow> pystr result" where
  "validate_notification_policy N v = (case v of
     JStr s \<Rightarrow> if s \<in> set (notification_values N) then Inr s else Inl (ScriptMetadataError ''invalid_notifications_default'')
   | _ \<Rightarrow> Inl (ScriptMetadataError ''invalid_notifications_default''))"

definition declared_job_timeout :: "netbox_core \<Rightarrow> pyclass \<Rightarrow> json result" where
  "declared_job_timeout N cls =
     (if c_job_timeout cls = JNull then Inr JNull
      else case rbind (parse_timeout N (c_job_timeout cls)) validate_job_timeout of
          Inl _ \<Rightarrow> Inl (ScriptMetadataError ''invalid_job_timeout'') | Inr t \<Rightarrow> Inr t)"

definition require_storable_identity :: "pystr \<Rightarrow> pystr \<Rightarrow> unit result" where
  "require_storable_identity module_path class_name =
     (if length class_name > MAX_SCRIPT_CLASS_NAME_LENGTH then Inl (ScriptMetadataError ''identity_too_long'')
      else if length module_path > MAX_SCRIPT_MODULE_PATH_LENGTH then Inl (ScriptMetadataError ''identity_too_long'')
      else Inr ())"

definition require_storable_display_name :: "pystr \<Rightarrow> unit result" where
  "require_storable_display_name display_name =
     (if length display_name > MAX_SCRIPT_DISPLAY_NAME_LENGTH then Inl (ScriptMetadataError ''display_name_too_long'')
      else Inr ())"

text \<open>\<open>Escaped\<close>: an exception the caller asked to escape unwrapped, or one that is no Exception.\<close>

datatype described = Described json | Refused string | Escaped raised

definition described_record :: "discovered_script \<Rightarrow> int \<Rightarrow> pystr \<Rightarrow> nat \<Rightarrow> json \<Rightarrow> pystr \<Rightarrow> json" where
  "described_record d file_id file_path position timeout policy = JObj
     [(lit ''module_path'', JStr (d_logical_module d)), (lit ''class_name'', JStr (d_name d)),
      (lit ''script_file_id'', JInt file_id), (lit ''script_file_path'', JStr file_path),
      (lit ''position'', JInt (int position)), (lit ''display_name'', JStr (c_display_name (d_cls d))),
      (lit ''description'', JStr (c_description (d_cls d))),
      (lit ''metadata'', JObj
        [(lit ''commit_default'', JBool (c_commit_default (d_cls d))),
         (lit ''scheduling_enabled'', JBool (c_scheduling_enabled (d_cls d))),
         (lit ''job_timeout'', timeout), (lit ''notifications_default'', JStr policy)])]"

definition describe_script ::
    "netbox_core \<Rightarrow> exc_class list \<Rightarrow> discovered_script \<Rightarrow> int \<Rightarrow> pystr \<Rightarrow> nat \<Rightarrow> described" where
  "describe_script N passthrough d file_id file_path position =
     (let cls = d_cls d
      in if list_ex (\<lambda>v. v \<in> set (c_vars cls)) RESERVED_VARIABLE_NAMES then Refused ''reserved_variable_name''
         else if \<not> is_ok (require_storable_identity (d_logical_module d) (d_name d)) then Refused ''identity_too_long''
         else if \<not> is_ok (require_storable_display_name (c_display_name cls)) then Refused ''display_name_too_long''
         else case c_form cls of
             FormFails error \<Rightarrow>
               if \<not> is_instance error [ExceptionC] \<or> is_instance error passthrough then Escaped error
               else Refused ''form_construction_failed''
           | FormFields form_fields \<Rightarrow>
               if list_ex (\<lambda>name. name \<notin> set form_fields) (c_fieldset_names cls) then Refused ''unknown_fieldset_field''
               else case declared_job_timeout N cls of
                   Inl _ \<Rightarrow> Refused ''invalid_job_timeout''
                 | Inr timeout \<Rightarrow> (case validate_notification_policy N (c_notifications_default cls) of
                       Inl _ \<Rightarrow> Refused ''invalid_notifications_default''
                     | Inr policy \<Rightarrow> Described (described_record d file_id file_path position timeout policy)))"

section \<open>The stored snapshot\<close>

definition REQUIRED_TEXT_KEYS :: "string list" where
  "REQUIRED_TEXT_KEYS = [''module_path'', ''class_name'', ''script_file_path'', ''display_name'', ''description'']"

definition is_text :: "json option \<Rightarrow> bool" where
  "is_text v = (case v of Some (JStr _) \<Rightarrow> True | _ \<Rightarrow> False)"

text \<open>\<open>metadata.get(key) is not None\<close>, then the check of its value.\<close>

definition check_present :: "json option \<Rightarrow> (json \<Rightarrow> 'a result) \<Rightarrow> unit result" where
  "check_present v check = (case v of None \<Rightarrow> Inr () | Some JNull \<Rightarrow> Inr () | Some x \<Rightarrow> rbind (check x) (\<lambda>_. Inr ()))"

definition record_identity :: "json \<Rightarrow> pystr \<times> pystr" where
  "record_identity v = (json_text (json_field v ''module_path''), json_text (json_field v ''class_name''))"

definition validate_discovered_entry ::
    "netbox_core \<Rightarrow> nat \<Rightarrow> json \<Rightarrow> (pystr \<times> pystr) list \<Rightarrow> (pystr \<times> pystr) list result" where
  "validate_discovered_entry N index v identities =
     (case v of
        JObj _ \<Rightarrow>
          if list_ex (\<lambda>key. \<not> is_text (json_field v key)) REQUIRED_TEXT_KEYS then Inl (ScriptMetadataError ''invalid_entry'')
          else if \<not> (case json_field v ''script_file_id'' of Some (JInt n) \<Rightarrow> 0 < n | _ \<Rightarrow> False)
          then Inl (ScriptMetadataError ''invalid_entry'')
          else if \<not> (case json_field v ''position'' of Some p \<Rightarrow> json_eq p (JInt (int index)) | None \<Rightarrow> False)
          then Inl (ScriptMetadataError ''invalid_position'')
          else (case json_field v ''metadata'' of
            Some (JObj meta) \<Rightarrow>
              rbind (check_present (json_field (JObj meta) ''job_timeout'') validate_job_timeout) (\<lambda>_.
                rbind (check_present (json_field (JObj meta) ''notifications_default'') (validate_notification_policy N)) (\<lambda>_.
                  rbind (require_storable_identity (fst (record_identity v)) (snd (record_identity v))) (\<lambda>_.
                    rbind (require_storable_display_name (json_text (json_field v ''display_name''))) (\<lambda>_.
                      if record_identity v \<in> set identities then Inl (ScriptMetadataError ''duplicate_identity'')
                      else Inr (record_identity v # identities)))))
          | _ \<Rightarrow> Inl (ScriptMetadataError ''invalid_entry''))
      | _ \<Rightarrow> Inl (ScriptMetadataError ''invalid_entry''))"

fun validate_discovered_entries :: "netbox_core \<Rightarrow> nat \<Rightarrow> json list \<Rightarrow> (pystr \<times> pystr) list \<Rightarrow> unit result" where
  "validate_discovered_entries N index [] identities = Inr ()"
| "validate_discovered_entries N index (v # vs) identities =
     rbind (validate_discovered_entry N index v identities) (validate_discovered_entries N (Suc index) vs)"

definition validate_discovered_scripts :: "netbox_core \<Rightarrow> json \<Rightarrow> json list result" where
  "validate_discovered_scripts N v =
     (case v of
        JList entries \<Rightarrow> rbind (validate_discovered_entries N 0 entries []) (\<lambda>_. Inr entries)
      | _ \<Rightarrow> Inl (ScriptMetadataError ''invalid_snapshot''))"

section \<open>Run settings\<close>

text \<open>\<open>NetBoxScript.run_settings\<close>\<close>

definition run_settings :: "netbox_core \<Rightarrow> pystr option \<Rightarrow> netbox_script \<Rightarrow> (json \<times> pystr) result" where
  "run_settings N notifications s =
     (case rbind (if job_timeout s = JNull then Inr JNull else validate_job_timeout (job_timeout s)) (\<lambda>timeout.
        rbind (validate_notification_policy N
            (if truthy notifications then JStr (the notifications) else notifications_default N s)) (\<lambda>policy.
          Inr (timeout, policy))) of
        Inl (ScriptMetadataError _) \<Rightarrow> Inl (ValidationError [''run_settings''])
      | r \<Rightarrow> r)"

definition job_timeout_display :: "netbox_script \<Rightarrow> json option result" where
  "job_timeout_display s =
     (if job_timeout s = JNull then Inr None
      else case validate_job_timeout (job_timeout s) of
          Inl (ScriptMetadataError _) \<Rightarrow> Inr (Some (JStr (lit ''invalid'')))
        | Inl e \<Rightarrow> Inl e
        | Inr seconds \<Rightarrow> Inr (Some seconds))"

section \<open>What discovery publishes\<close>

lemma order_entries_Inr:
  assumes "order_entries prefix entries seen = Inr found"
  shows "\<exists>classes. entries = map ClassObject classes \<and> found = seen @ classes \<and>
    list_all (\<lambda>c. c_is_script c \<and> revision_local prefix c) classes \<and>
    (distinct (map c_id seen) \<longrightarrow> distinct (map c_id found))"
  using assms
proof (induction prefix entries seen rule: order_entries.induct)
  case (3 prefix cls rest seen)
  from "3.prems" have ok: "c_is_script cls" "revision_local prefix cls" "\<not> same_class cls seen"
    and rest: "order_entries prefix rest (seen @ [cls]) = Inr found" by (auto split: if_splits)
  from "3.IH" [OF _ _ _ rest] ok obtain classes where "rest = map ClassObject classes" "found = (seen @ [cls]) @ classes"
      "list_all (\<lambda>c. c_is_script c \<and> revision_local prefix c) classes"
      "distinct (map c_id (seen @ [cls])) \<longrightarrow> distinct (map c_id found)" by auto
  with ok show ?case by (intro exI [of _ "cls # classes"]) (auto simp: same_class_def)
qed auto

lemma body_entries_props:
  "\<exists>new. body_entries name objs published = published @ new \<and> list_all (\<lambda>c. c_is_script c \<and> c_module c = name) new \<and>
    (distinct (map c_id published) \<longrightarrow> distinct (map c_id (published @ new))) \<and>
    (\<forall>c. ClassObject c \<in> set objs \<and> c_is_script c \<and> c_module c = name \<longrightarrow> c_id c \<in> c_id ` set (published @ new))"
proof (induction name objs published rule: body_entries.induct)
  case (3 name cls rest published)
  show ?case
  proof (cases "\<not> (c_is_script cls \<and> c_module cls = name) \<or> same_class cls published")
    case True
    from "3.IH"(1) [OF True] obtain new where new: "body_entries name rest published = published @ new"
        "list_all (\<lambda>c. c_is_script c \<and> c_module c = name) new"
        "distinct (map c_id published) \<longrightarrow> distinct (map c_id (published @ new))"
        "\<forall>c. ClassObject c \<in> set rest \<and> c_is_script c \<and> c_module c = name \<longrightarrow> c_id c \<in> c_id ` set (published @ new)"
      by blast
    with True show ?thesis by (intro exI [of _ new]) (auto simp: same_class_def)
  next
    case False
    from "3.IH"(2) [OF False] obtain new where new: "body_entries name rest (published @ [cls]) = (published @ [cls]) @ new"
        "list_all (\<lambda>c. c_is_script c \<and> c_module c = name) new"
        "distinct (map c_id (published @ [cls])) \<longrightarrow> distinct (map c_id ((published @ [cls]) @ new))"
        "\<forall>c. ClassObject c \<in> set rest \<and> c_is_script c \<and> c_module c = name \<longrightarrow> c_id c \<in> c_id ` set ((published @ [cls]) @ new)"
      by blast
    with False show ?thesis by (intro exI [of _ "cls # new"]) (auto simp: same_class_def)
  qed
qed simp_all

lemma publish_all_Inr:
  "publish_all prefix classes = Inr ds \<Longrightarrow> list_all (\<lambda>c. \<not> report_style c) classes \<and>
     ds = map (\<lambda>c. \<lparr>d_cls = c, d_logical_module = drop (length prefix + 1) (c_module c), d_name = c_name c\<rparr>) classes"
  by (induction classes arbitrary: ds) (auto simp: result_simps publish_def split: if_splits)

section \<open>Descriptions and the stored snapshot\<close>

lemma described_fields:
  "json_field (described_record d i f pos t n) ''module_path'' = Some (JStr (d_logical_module d))"
  "json_field (described_record d i f pos t n) ''class_name'' = Some (JStr (d_name d))"
  "json_field (described_record d i f pos t n) ''script_file_path'' = Some (JStr f)"
  "json_field (described_record d i f pos t n) ''display_name'' = Some (JStr (c_display_name (d_cls d)))"
  "json_field (described_record d i f pos t n) ''description'' = Some (JStr (c_description (d_cls d)))"
  "json_field (described_record d i f pos t n) ''script_file_id'' = Some (JInt i)"
  "json_field (described_record d i f pos t n) ''position'' = Some (JInt (int pos))"
  by (simp_all add: described_record_def json_field_def str_simps)

lemma described_metadata:
  "\<exists>meta. json_field (described_record d i f pos t n) ''metadata'' = Some (JObj meta) \<and>
     json_field (JObj meta) ''job_timeout'' = Some t \<and> json_field (JObj meta) ''notifications_default'' = Some (JStr n)"
  by (simp add: described_record_def json_field_def str_simps)

lemma validate_job_timeout_Inr [result_simps]:
  "validate_job_timeout v = Inr t \<longleftrightarrow> t = v \<and> (\<exists>n. v = JInt n \<and> 0 < n)"
  by (auto simp: validate_job_timeout_def split: json.splits)

lemma declared_timeout_checks:
  assumes "declared_job_timeout N cls = Inr t"
  shows "check_present (Some t) validate_job_timeout = Inr ()"
proof -
  have "t = JNull \<or> (\<exists>n. t = JInt n \<and> 0 < n)"
    using assms by (auto simp: declared_job_timeout_def result_simps split: sum.splits if_splits)
  then show ?thesis by (auto simp: check_present_def validate_job_timeout_def)
qed

lemma described_entry_validates:
  assumes "describe_script N passthrough d i f pos = Described r" "0 < i" "identity_of d \<notin> set identities"
  shows "validate_discovered_entry N pos r identities = Inr (identity_of d # identities)"
proof -
  from assms(1) obtain t n where r: "r = described_record d i f pos t n"
    and t: "declared_job_timeout N (d_cls d) = Inr t"
    and n: "validate_notification_policy N (c_notifications_default (d_cls d)) = Inr n"
    and len: "is_ok (require_storable_identity (d_logical_module d) (d_name d))"
      "is_ok (require_storable_display_name (c_display_name (d_cls d)))"
    by (auto simp: describe_script_def Let_def split: if_splits form_outcome.splits sum.splits)
  obtain kvs where obj: "r = JObj kvs" by (simp add: r described_record_def)
  obtain meta where meta: "json_field r ''metadata'' = Some (JObj meta)"
      "json_field (JObj meta) ''job_timeout'' = Some t" "json_field (JObj meta) ''notifications_default'' = Some (JStr n)"
    using described_metadata unfolding r by blast
  have "n \<in> set (notification_values N)"
    using n by (auto simp: validate_notification_policy_def split: json.splits if_splits)
  then have policy: "check_present (Some (JStr n)) (validate_notification_policy N) = Inr ()"
    by (simp add: check_present_def validate_notification_policy_def)
  have timeout: "check_present (Some t) validate_job_timeout = Inr ()"
    by (rule declared_timeout_checks [OF t])
  have ident: "record_identity r = identity_of d"
    by (simp add: record_identity_def identity_of_def json_text_def r described_fields)
  have "list_ex (\<lambda>key. \<not> is_text (json_field r key)) REQUIRED_TEXT_KEYS = False"
    by (simp add: REQUIRED_TEXT_KEYS_def is_text_def r described_fields)
  moreover have "json_text (json_field r ''display_name'') = c_display_name (d_cls d)"
    "json_field r ''script_file_id'' = Some (JInt i)" "json_field r ''position'' = Some (JInt (int pos))"
    by (simp_all add: r described_fields json_text_def)
  moreover have "require_storable_identity (fst (record_identity r)) (snd (record_identity r)) = Inr ()"
    "require_storable_display_name (c_display_name (d_cls d)) = Inr ()"
    using len by (auto simp: ident identity_of_def is_ok_iff)
  ultimately show ?thesis
    using assms(2,3) policy timeout meta
    unfolding validate_discovered_entry_def obj json.case by (simp add: obj [symmetric] ident)
qed

lemma described_entries_validate:
  assumes "list_all2 (\<lambda>(i, f, pos, d) r. describe_script N passthrough d i f pos = Described r \<and> 0 < i) items rs"
    and "map (\<lambda>(i, f, pos, d). pos) items = [k..<k + length items]"
    and "distinct (map (\<lambda>(i, f, pos, d). identity_of d) items)"
    and "set (map (\<lambda>(i, f, pos, d). identity_of d) items) \<inter> set identities = {}"
  shows "validate_discovered_entries N k rs identities = Inr ()"
  using assms
proof (induction items arbitrary: rs k identities)
  case (Cons item items)
  obtain i f pos d where item: "item = (i, f, pos, d)" by (cases item)
  from Cons.prems(1) obtain r rs' where rs: "rs = r # rs'" "describe_script N passthrough d i f pos = Described r" "0 < i"
      "list_all2 (\<lambda>(i, f, pos, d) r. describe_script N passthrough d i f pos = Described r \<and> 0 < i) items rs'"
    by (auto simp: item list_all2_Cons1)
  have pos: "pos = k" "map (\<lambda>(i, f, pos, d). pos) items = [Suc k..<Suc k + length items]"
    using Cons.prems(2) by (auto simp: item upt_conv_Cons simp del: upt_Suc)
  have "validate_discovered_entry N k r identities = Inr (identity_of d # identities)"
    using described_entry_validates [OF rs(2,3)] Cons.prems(4) by (simp add: item pos(1))
  moreover have "validate_discovered_entries N (Suc k) rs' (identity_of d # identities) = Inr ()"
    by (rule Cons.IH [OF rs(4) pos(2)]) (use Cons.prems(3,4) in \<open>auto simp: item\<close>)
  ultimately show ?case by (simp add: rs(1))
qed simp

lemma validate_discovered_entry_InrD:
  assumes "validate_discovered_entry N k v identities = Inr ids"
  shows "ids = record_identity v # identities \<and> record_identity v \<notin> set identities \<and>
    is_text (json_field v ''display_name'') \<and> is_text (json_field v ''description'') \<and>
    length (fst (record_identity v)) \<le> MAX_SCRIPT_MODULE_PATH_LENGTH \<and>
    length (snd (record_identity v)) \<le> MAX_SCRIPT_CLASS_NAME_LENGTH \<and>
    length (json_text (json_field v ''display_name'')) \<le> MAX_SCRIPT_DISPLAY_NAME_LENGTH"
  using assms
  by (auto simp: validate_discovered_entry_def require_storable_identity_def require_storable_display_name_def
      result_simps REQUIRED_TEXT_KEYS_def split: json.splits if_splits option.splits)

lemma validate_discovered_entries_InrD:
  "validate_discovered_entries N k vs identities = Inr u \<Longrightarrow>
     distinct (map record_identity vs) \<and> set (map record_identity vs) \<inter> set identities = {} \<and>
     list_all (\<lambda>v. is_text (json_field v ''display_name'') \<and> is_text (json_field v ''description'') \<and>
       length (fst (record_identity v)) \<le> MAX_SCRIPT_MODULE_PATH_LENGTH \<and>
       length (snd (record_identity v)) \<le> MAX_SCRIPT_CLASS_NAME_LENGTH \<and>
       length (json_text (json_field v ''display_name'')) \<le> MAX_SCRIPT_DISPLAY_NAME_LENGTH) vs"
proof (induction vs arbitrary: k identities)
  case (Cons v vs)
  from Cons.prems obtain ids where one: "validate_discovered_entry N k v identities = Inr ids"
      and rest: "validate_discovered_entries N (Suc k) vs ids = Inr u" by (auto simp: result_simps)
  from validate_discovered_entry_InrD [OF one] Cons.IH [OF rest] show ?case by auto
qed simp


section \<open>The properties of this theory\<close>

definition example_class :: "nat \<Rightarrow> pystr \<Rightarrow> pystr \<Rightarrow> pyclass" where
  "example_class i m n = \<lparr>c_id = i, c_module = m, c_name = n, c_is_script = True, c_report_marker = False,
     c_own_run = True, c_test_methods = False, c_bases = [], c_vars = [], c_display_name = n, c_description = [],
     c_form = FormFields [], c_fieldset_names = [], c_commit_default = True, c_scheduling_enabled = True,
     c_job_timeout = JNull, c_notifications_default = JStr (lit ''always'')\<rparr>"

definition example_module :: pymodule where
  "example_module = \<lparr>m_name = lit ''p.r.deploy'',
     m_vars = [(lit ''B'', ClassObject (example_class 2 (lit ''p.r.deploy'') (lit ''B''))),
               (lit ''A'', ClassObject (example_class 1 (lit ''p.r.deploy'') (lit ''A''))), (lit ''x'', OtherObject)],
     m_script_order = Ordered [ClassObject (example_class 2 (lit ''p.r.deploy'') (lit ''B''))]\<rparr>"



text \<open>
  C25. What the description of scripts writes into a revision is accepted when the revision is
  activated: records described one after the other, from position zero, with distinct identities,
  are a valid discovery snapshot.
\<close>

theorem described_scripts_validate:
  assumes "list_all2 (\<lambda>(i, f, pos, d) r. describe_script N passthrough d i f pos = Described r \<and> 0 < i) items rs"
    and "map (\<lambda>(i, f, pos, d). pos) items = [0..<length items]"
    and "distinct (map (\<lambda>(i, f, pos, d). identity_of d) items)"
  shows "validate_discovered_scripts N (JList rs) = Inr rs"
proof -
  have "validate_discovered_entries N 0 rs [] = Inr ()"
    by (rule described_entries_validate [OF assms(1) _ assms(3)]) (simp_all add: assms(2))
  then show ?thesis by (simp add: validate_discovered_scripts_def)
qed

definition example_core :: netbox_core where
  "example_core = \<lparr>notification_values = [lit ''always'', lit ''never''], notification_always = lit ''always'', parse_timeout = Inr\<rparr>"

definition example_discovered :: discovered_script where
  "example_discovered = \<lparr>d_cls = example_class 1 (lit ''p.r.deploy'') (lit ''A''), d_logical_module = lit ''deploy'', d_name = lit ''A''\<rparr>"

theorem described_scripts_validate_witness:
  "\<exists>r. describe_script example_core [] example_discovered 3 (lit ''deploy.py'') 0 = Described r \<and>
     validate_discovered_scripts example_core (JList [r]) = Inr [r]"
proof -
  define r where "r = described_record example_discovered 3 (lit ''deploy.py'') 0 JNull (lit ''always'')"
  have d: "describe_script example_core [] example_discovered 3 (lit ''deploy.py'') 0 = Described r"
    unfolding r_def by code_simp
  have "validate_discovered_scripts example_core (JList [r]) = Inr [r]"
    by (rule described_scripts_validate [where items = "[(3, lit ''deploy.py'', 0, example_discovered)]" and passthrough = "[]"])
      (use d in auto)
  with d show ?thesis by blast
qed

end
