(* ===== verification/Promotion.thy ===== *)
theory Promotion
  imports Service
begin

text \<open>
  What promotion does to the tables.  The pointer invariant: a project's active revision is a row of
  that project with status ACTIVE and a digest, and every ACTIVE row is its project's active revision.
\<close>

section \<open>Constraints under an update\<close>

lemma distinct_filter_iff:
  "distinct (map r_id rs) \<Longrightarrow> distinct (map g (filter Q rs)) \<longleftrightarrow> inj_on g {r \<in> set rs. Q r}"
  by (simp add: distinct_map)

lemma revision_constraints_iff:
  "revision_constraints rs \<longleftrightarrow> distinct (map r_id rs) \<and>
     inj_on (\<lambda>r. (r_project r, r_digest r, r_script_file_digest r)) {r \<in> set rs. r_digest r \<noteq> None} \<and>
     (\<forall>r \<in> set rs. r_status r = INVALID \<or> r_digest r \<noteq> None) \<and>
     inj_on r_project {r \<in> set rs. r_status r = ACTIVE}"
proof (cases "distinct (map r_id rs)")
  case True
  then show ?thesis by (simp add: revision_constraints_def distinct_filter_iff list_all_iff)
qed (simp add: revision_constraints_def)

text \<open>An update that keeps identities keeps the constraints unless it activates a second row.\<close>

lemma revision_constraints_update:
  assumes "revision_constraints rs"
    and keep: "\<And>r. r \<in> set rs \<Longrightarrow> P r \<Longrightarrow> r_id (f r) = r_id r \<and> r_project (f r) = r_project r \<and>
      r_digest (f r) = r_digest r \<and> r_script_file_digest (f r) = r_script_file_digest r \<and>
      (r_status (f r) = INVALID \<or> r_digest r \<noteq> None)"
    and single: "\<And>r s. r \<in> set rs \<Longrightarrow> P r \<Longrightarrow> r_status (f r) = ACTIVE \<Longrightarrow> s \<in> set rs \<Longrightarrow>
      r_project s = r_project r \<Longrightarrow> r_status (if P s then f s else s) = ACTIVE \<Longrightarrow> s = r"
  shows "revision_constraints (update_rows P f rs)"
proof -
  let ?g = "\<lambda>r. if P r then f r else r"
  have g: "r_id (?g r) = r_id r" "r_project (?g r) = r_project r" "r_digest (?g r) = r_digest r"
    "r_script_file_digest (?g r) = r_script_file_digest r" if "r \<in> set rs" for r
    using keep [OF that] by simp_all
  have ids: "map r_id (map ?g rs) = map r_id rs" using g(1) by simp
  note c = assms(1) [unfolded revision_constraints_iff]
  have "inj_on (\<lambda>r. (r_project r, r_digest r, r_script_file_digest r)) {r \<in> ?g ` set rs. r_digest r \<noteq> None}"
  proof (rule inj_onI)
    fix x y assume "x \<in> {r \<in> ?g ` set rs. r_digest r \<noteq> None}" "y \<in> {r \<in> ?g ` set rs. r_digest r \<noteq> None}"
      and e: "(r_project x, r_digest x, r_script_file_digest x) = (r_project y, r_digest y, r_script_file_digest y)"
    then obtain a b where ab: "a \<in> set rs" "x = ?g a" "b \<in> set rs" "y = ?g b" "r_digest x \<noteq> None" by blast
    have same: "(r_project a, r_digest a, r_script_file_digest a) = (r_project b, r_digest b, r_script_file_digest b)"
      and dg: "r_digest a \<noteq> None" "r_digest b \<noteq> None"
      using e ab(5) g [OF ab(1)] g [OF ab(3)] unfolding ab(2,4) by (metis prod.inject)+
    have inj: "inj_on (\<lambda>r. (r_project r, r_digest r, r_script_file_digest r)) {r \<in> set rs. r_digest r \<noteq> None}"
      using c by blast
    have "a = b" by (rule inj_onD [OF inj same]) (use ab dg in simp_all)
    with ab show "x = y" by simp
  qed
  moreover have "inj_on r_project {r \<in> ?g ` set rs. r_status r = ACTIVE}"
  proof (rule inj_onI)
    fix x y assume "x \<in> {r \<in> ?g ` set rs. r_status r = ACTIVE}" "y \<in> {r \<in> ?g ` set rs. r_status r = ACTIVE}"
      and e: "r_project x = r_project y"
    then obtain a b where ab: "a \<in> set rs" "x = ?g a" "r_status (?g a) = ACTIVE" "b \<in> set rs" "y = ?g b"
        "r_status (?g b) = ACTIVE" by blast
    have p: "r_project a = r_project b" using e g(2) [OF ab(1)] g(2) [OF ab(4)] ab(2,5) by metis
    have "a = b"
    proof (cases "P a \<or> P b")
      case True
      then show ?thesis
      proof
        assume P: "P a"
        then have "r_status (f a) = ACTIVE" using ab(3) by (simp only: if_True)
        from single [OF ab(1) P this ab(4) _ ab(6)] p show ?thesis by simp
      next
        assume P: "P b"
        then have "r_status (f b) = ACTIVE" using ab(6) by (simp only: if_True)
        from single [OF ab(4) P this ab(1) _ ab(3)] p show ?thesis by simp
      qed
    next
      case False
      then have "r_status a = ACTIVE" "r_status b = ACTIVE" using ab(3,6) by simp_all
      moreover have "inj_on r_project {r \<in> set rs. r_status r = ACTIVE}" using c by blast
      ultimately show ?thesis using ab(1,4) p by (auto dest: inj_onD)
    qed
    with ab show "x = y" by simp
  qed
  moreover have "\<forall>r \<in> ?g ` set rs. r_status r = INVALID \<or> r_digest r \<noteq> None"
  proof
    fix x assume "x \<in> ?g ` set rs"
    then obtain a where a: "a \<in> set rs" "x = ?g a" by blast
    show "r_status x = INVALID \<or> r_digest x \<noteq> None"
      using keep [OF a(1)] c a by (cases "P a") auto
  qed
  ultimately show ?thesis
    unfolding revision_constraints_iff update_rows_def set_map ids using c by blast
qed

lemma project_constraints_update:
  assumes "project_constraints ps"
    and "\<And>p. p_id (f p) = p_id p \<and> p_key (f p) = p_key p \<and> p_storage_key (f p) = p_storage_key p \<and>
      p_source_type (f p) = p_source_type p \<and> p_data_source (f p) = p_data_source p \<and> p_data_path (f p) = p_data_path p"
  shows "project_constraints (update_rows P f ps)"
proof -
  have "list_all owns_source (update_rows P f ps) = list_all owns_source ps"
  proof -
    have "owns_source (f p) = owns_source p" for p using assms(2) [of p] by (simp add: owns_source_def)
    then have "\<And>x. owns_source (if P x then f x else x) = owns_source x" by simp
    then show ?thesis by (simp add: update_rows_def list.pred_map comp_def del: if_image_distrib)
  qed
  moreover have "map (\<lambda>p. (p_data_source p, p_data_path p)) (filter (\<lambda>p. p_source_type p = DATA_SOURCE) (update_rows P f ps)) =
      map (\<lambda>p. (p_data_source p, p_data_path p)) (filter (\<lambda>p. p_source_type p = DATA_SOURCE) ps)"
    by (rule filter_update_rows) (use assms(2) in auto)
  ultimately show ?thesis
    using assms by (simp add: project_constraints_def map_update_rows)
qed

section \<open>The pointer invariant\<close>

definition pointers_ok :: "db \<Rightarrow> bool" where
  "pointers_ok d \<longleftrightarrow> project_constraints (projects d) \<and> revision_constraints (revisions d) \<and>
     (\<forall>p \<in> set (projects d). \<forall>k. p_active_revision p = Some k \<longrightarrow>
        (\<exists>r \<in> set (revisions d). r_id r = k \<and> r_project r = p_id p \<and> r_status r = ACTIVE \<and> truthy (r_digest r))) \<and>
     (\<forall>r \<in> set (revisions d). r_status r = ACTIVE \<longrightarrow>
        (\<exists>p \<in> set (projects d). p_id p = r_project r \<and> p_active_revision p = Some (r_id r)))"

lemma pointers_okD:
  assumes "pointers_ok d"
  shows "project_constraints (projects d)" "revision_constraints (revisions d)"
    "distinct (map p_id (projects d))" "distinct (map r_id (revisions d))"
    "\<And>p k. p \<in> set (projects d) \<Longrightarrow> p_active_revision p = Some k \<Longrightarrow>
       \<exists>r \<in> set (revisions d). r_id r = k \<and> r_project r = p_id p \<and> r_status r = ACTIVE \<and> truthy (r_digest r)"
    "\<And>r. r \<in> set (revisions d) \<Longrightarrow> r_status r = ACTIVE \<Longrightarrow>
       \<exists>p \<in> set (projects d). p_id p = r_project r \<and> p_active_revision p = Some (r_id r)"
  using assms by (auto simp: pointers_ok_def project_constraints_def revision_constraints_def)

text \<open>Saving the named columns of a stored revision whose frozen content is unchanged.\<close>

lemma save_revision_columns:
  assumes "distinct (map r_id (revisions d))" "row \<in> set (revisions d)" "r_id self = r_id row"
    and "content_changes row self = []"
  shows "save_revision False (Some uf) self d =
    write_revisions d (update_rows (\<lambda>r. r_id r = r_id self) (copy_revision (Some uf) self) (revisions d))"
proof -
  have "revision_of d (r_id self) = Some row" using revision_of_member [OF assms(1,2)] assms(3) by simp
  moreover have "r_id self \<in> set (map r_id (revisions d))" using assms(2,3) by auto
  ultimately show ?thesis using assms(4) by (simp add: save_revision_def save_row_def)
qed

section \<open>The writes of one promotion\<close>

lemma update_rows_in: "y \<in> set (update_rows P f rs) \<longleftrightarrow> (\<exists>x \<in> set rs. y = (if P x then f x else x))"
  unfolding set_update_rows image_def by blast

lemma update_rows_mem: "x \<in> set rs \<Longrightarrow> (if P x then f x else x) \<in> set (update_rows P f rs)"
  unfolding set_update_rows by (rule imageI)

lemma find_unique: "x \<in> set xs \<Longrightarrow> P x \<Longrightarrow> (\<And>y. y \<in> set xs \<Longrightarrow> P y \<Longrightarrow> y = x) \<Longrightarrow> List.find P xs = Some x"
proof (induction xs)
  case (Cons a xs)
  show ?case
  proof (cases "P a")
    case True
    with Cons.prems(3) [of a] show ?thesis by simp
  next
    case False
    then have "x \<in> set xs" using Cons.prems(1,2) by auto
    from Cons.IH [OF this Cons.prems(2)] Cons.prems(3) False show ?thesis by simp
  qed
qed simp

abbreviation retire :: "revision \<Rightarrow> revision" where
  "retire r \<equiv> r\<lparr>r_status := RETIRED\<rparr>"

abbreviation activate :: "time \<Rightarrow> revision \<Rightarrow> revision" where
  "activate now r \<equiv> r\<lparr>r_status := ACTIVE, r_activated := Some now\<rparr>"

definition retired_rows :: "script_project \<Rightarrow> revision list \<Rightarrow> revision list" where
  "retired_rows p rs = update_rows (\<lambda>x. p_active_revision p = Some (r_id x)) retire rs"

definition activated_rows :: "pk \<Rightarrow> time \<Rightarrow> revision list \<Rightarrow> revision list" where
  "activated_rows k now rs = update_rows (\<lambda>x. r_id x = k) (activate now) rs"

definition pointed_rows :: "pk \<Rightarrow> pk option \<Rightarrow> script_project list \<Rightarrow> script_project list" where
  "pointed_rows project k ps = update_rows (\<lambda>q. p_id q = project) (\<lambda>q. q\<lparr>p_active_revision := k\<rparr>) ps"

lemma copy_columns:
  "copy_revision (Some [''status'', ''last_updated'']) self = (\<lambda>row. row\<lparr>r_status := r_status self\<rparr>)"
  "copy_revision (Some [''status'', ''activated'', ''last_updated'']) self =
     (\<lambda>row. row\<lparr>r_status := r_status self, r_activated := r_activated self\<rparr>)"
  "copy_project (Some [''active_revision'', ''last_updated'']) q = (\<lambda>line. line\<lparr>p_active_revision := p_active_revision q\<rparr>)"
proof -
  have w: "writes (Some fs) names \<longleftrightarrow> list_ex (\<lambda>n. n \<in> set fs) names" for fs names by (simp add: writes_def)
  show "copy_revision (Some [''status'', ''last_updated'']) self = (\<lambda>row. row\<lparr>r_status := r_status self\<rparr>)"
    by (rule ext) (simp add: copy_revision_def w)
  show "copy_revision (Some [''status'', ''activated'', ''last_updated'']) self =
     (\<lambda>row. row\<lparr>r_status := r_status self, r_activated := r_activated self\<rparr>)"
    by (rule ext) (simp add: copy_revision_def w)
  show "copy_project (Some [''active_revision'', ''last_updated'']) q = (\<lambda>line. line\<lparr>p_active_revision := p_active_revision q\<rparr>)"
    by (rule ext) (simp add: copy_project_def w)
qed

lemma content_changes_status [simp]:
  "content_changes r (r\<lparr>r_status := st\<rparr>) = []" "content_changes r (r\<lparr>r_status := st, r_activated := t\<rparr>) = []"
  by (simp_all add: content_changes_def)

lemma retire_constraints:
  assumes "revision_constraints rs" "\<And>r. r \<in> set rs \<Longrightarrow> p_active_revision p = Some (r_id r) \<Longrightarrow> r_digest r \<noteq> None"
  shows "revision_constraints (retired_rows p rs)"
  unfolding retired_rows_def by (rule revision_constraints_update [OF assms(1)]) (use assms(2) in auto)

lemma retire_previous_run:
  assumes "revision_constraints (revisions d)"
    and "\<And>k. p_active_revision p = Some k \<Longrightarrow> \<exists>r \<in> set (revisions d). r_id r = k \<and> r_project r = p_id p \<and> r_digest r \<noteq> None"
  shows "retire_previous p d = Inr (d\<lparr>revisions := retired_rows p (revisions d)\<rparr>)"
proof (cases "p_active_revision p")
  case None
  then show ?thesis by (simp add: retire_previous_def retired_rows_def update_rows_def)
next
  case (Some k)
  then obtain r where r: "r \<in> set (revisions d)" "r_id r = k" "r_project r = p_id p" "r_digest r \<noteq> None"
    using assms(2) by blast
  have dist: "distinct (map r_id (revisions d))" using assms(1) by (simp add: revision_constraints_def)
  have only: "x = r" if "x \<in> set (revisions d)" "r_id x = k" for x
    using distinct_map_eq [OF dist that(1) r(1)] that(2) r(2) by simp
  have "List.find (\<lambda>x. r_id x = k \<and> (Some (p_id p) \<noteq> None \<longrightarrow> Some (r_project x) = Some (p_id p))) (revisions d) = Some r"
    by (rule find_unique [OF r(1)]) (use only r(2,3) in blast)+
  then have found: "revision_or_vanished k (Some (p_id p)) d = Inr r" by (simp add: revision_or_vanished_def)
  have con: "revision_constraints (retired_rows p (revisions d))"
    by (rule retire_constraints [OF assms(1)]) (use Some only r(4) in auto)
  have rows: "update_rows (\<lambda>x. r_id x = k) (copy_revision (Some [''status'', ''last_updated'']) (retire r)) (revisions d) =
      retired_rows p (revisions d)"
    unfolding retired_rows_def update_rows_def copy_columns Some by (rule map_cong) auto
  have "save_revision False (Some [''status'', ''last_updated'']) (retire r) d =
      write_revisions d (update_rows (\<lambda>x. r_id x = r_id (retire r)) (copy_revision (Some [''status'', ''last_updated'']) (retire r)) (revisions d))"
    by (rule save_revision_columns [OF dist r(1)]) simp_all
  then show ?thesis using con rows r(2) by (simp add: retire_previous_def Some found write_revisions_def)
qed

lemma activate_constraints:
  assumes "revision_constraints rs" "r \<in> set rs" "r_digest r \<noteq> None"
    and alone: "\<And>s. s \<in> set rs \<Longrightarrow> r_project s = r_project r \<Longrightarrow> r_status s = ACTIVE \<Longrightarrow> r_id s = r_id r"
  shows "revision_constraints (activated_rows (r_id r) now rs)"
  unfolding activated_rows_def
proof (rule revision_constraints_update [OF assms(1)])
  have dist: "distinct (map r_id rs)" using assms(1) by (simp add: revision_constraints_def)
  have only: "x = r" if "x \<in> set rs" "r_id x = r_id r" for x
    by (rule distinct_map_eq [OF dist that(1) assms(2) that(2)])
  fix x assume x: "x \<in> set rs" "r_id x = r_id r"
  have "x = r" by (rule only [OF x])
  then show "r_id (activate now x) = r_id x \<and> r_project (activate now x) = r_project x \<and> r_digest (activate now x) = r_digest x \<and>
      r_script_file_digest (activate now x) = r_script_file_digest x \<and> (r_status (activate now x) = INVALID \<or> r_digest x \<noteq> None)"
    using assms(3) by simp
  fix s assume s: "s \<in> set rs" "r_project s = r_project x"
    and st: "r_status (if r_id s = r_id r then activate now s else s) = ACTIVE"
  show "s = x"
  proof (cases "r_id s = r_id r")
    case True
    with only [OF s(1)] \<open>x = r\<close> show ?thesis by simp
  next
    case False
    with st have "r_status s = ACTIVE" by simp
    with alone [OF s(1)] s(2) \<open>x = r\<close> False show ?thesis by simp
  qed
qed

lemma activate_run:
  assumes "revision_constraints (revisions d)" "r \<in> set (revisions d)" "r_digest r \<noteq> None"
    and "\<And>s. s \<in> set (revisions d) \<Longrightarrow> r_project s = r_project r \<Longrightarrow> r_status s = ACTIVE \<Longrightarrow> r_id s = r_id r"
  shows "save_revision False (Some [''status'', ''activated'', ''last_updated'']) (activate now r) d =
    Inr (d\<lparr>revisions := activated_rows (r_id r) now (revisions d)\<rparr>)"
proof -
  have dist: "distinct (map r_id (revisions d))" using assms(1) by (simp add: revision_constraints_def)
  have con: "revision_constraints (activated_rows (r_id r) now (revisions d))"
    by (rule activate_constraints [OF assms])
  have rows: "update_rows (\<lambda>x. r_id x = r_id r) (copy_revision (Some [''status'', ''activated'', ''last_updated'']) (activate now r))
      (revisions d) = activated_rows (r_id r) now (revisions d)"
    by (simp add: activated_rows_def copy_columns update_rows_def)
  have "save_revision False (Some [''status'', ''activated'', ''last_updated'']) (activate now r) d =
      write_revisions d (update_rows (\<lambda>x. r_id x = r_id (activate now r))
        (copy_revision (Some [''status'', ''activated'', ''last_updated'']) (activate now r)) (revisions d))"
    by (rule save_revision_columns [OF dist assms(2)]) simp_all
  then show ?thesis using con rows by (simp add: write_revisions_def)
qed

lemma point_run:
  assumes "project_constraints (projects d)" "project_of d (p_id p) = Some row"
    and "p_key p = p_key row" "p_source_type p = p_source_type row" "p_storage_key p = p_storage_key row"
    and "r_project r = p_id p" "r_status r = ACTIVE" "truthy (r_digest r)"
  shows "save_project False (Some [''active_revision'', ''last_updated'']) None (\<lambda>_. Some r)
      (p\<lparr>p_active_revision := Some (r_id r)\<rparr>) d =
    Inr (d\<lparr>projects := pointed_rows (p_id p) (Some (r_id r)) (projects d)\<rparr>)"
proof -
  have con: "project_constraints (pointed_rows (p_id p) (Some (r_id r)) (projects d))"
    unfolding pointed_rows_def by (rule project_constraints_update [OF assms(1)]) simp
  have mem: "p_id p \<in> set (map p_id (projects d))" using project_of_SomeD [OF assms(2)] by (metis image_eqI set_map)
  have w: "writes (Some [''active_revision'', ''last_updated'']) [''active_revision'', ''active_revision_id'']"
    by (simp add: writes_def)
  show ?thesis
    using con mem w assms(3-8)
    by (simp add: save_project_def Let_def assms(2) active_revision_error_def save_row_def write_projects_def
        pointed_rows_def copy_columns)
qed

section \<open>Promotion as a whole\<close>

text \<open>The callback may write derived rows only.\<close>

definition derives_only :: "(script_project \<Rightarrow> revision \<Rightarrow> db \<Rightarrow> db result) \<Rightarrow> bool" where
  "derives_only on_promote \<longleftrightarrow> (\<forall>p r d d'. on_promote p r d = Inr d' \<longrightarrow>
     projects d' = projects d \<and> revisions d' = revisions d \<and> script_files d' = script_files d)"

definition consumed_rows :: "script_project \<Rightarrow> revision \<Rightarrow> script_project list \<Rightarrow> script_project list" where
  "consumed_rows p r ps = update_rows (\<lambda>q. p_id q = p_id p \<and> p_source_revision p = Some (r_id r))
     (\<lambda>q. q\<lparr>p_source_activation_pending := False\<rparr>) ps"

definition promoted :: "script_project \<Rightarrow> revision \<Rightarrow> time \<Rightarrow> db \<Rightarrow> db" where
  "promoted p r now d = d\<lparr>revisions := activated_rows (r_id r) now (retired_rows p (revisions d)),
     projects := pointed_rows (p_id p) (Some (r_id r)) (consumed_rows p r (projects d))\<rparr>"

lemma consumed_project_of:
  "project_of (d\<lparr>projects := consumed_rows p r ps\<rparr>) k = map_option (\<lambda>q. if p_id q = p_id p \<and> p_source_revision p = Some (r_id r)
     then q\<lparr>p_source_activation_pending := False\<rparr> else q) (List.find (\<lambda>q. p_id q = k) ps)"
  unfolding project_of_def consumed_rows_def by (simp add: find_update_rows)

lemma clear_pending_run:
  assumes "project_constraints (projects d)" "p \<in> set (projects d)"
  shows "clear_pending p r d = Inr (d\<lparr>projects := consumed_rows p r (projects d)\<rparr>)"
proof -
  have dist: "distinct (map p_id (projects d))" using assms(1) by (simp add: project_constraints_def)
  have only: "q = p" if "q \<in> set (projects d)" "p_id q = p_id p" for q
    by (rule distinct_map_eq [OF dist that(1) assms(2) that(2)])
  have con: "project_constraints (consumed_rows p r (projects d))"
    unfolding consumed_rows_def by (rule project_constraints_update [OF assms(1)]) simp
  show ?thesis
  proof (cases "p_source_revision p = Some (r_id r) \<and> p_source_activation_pending p")
    case True
    then show ?thesis using con by (simp add: clear_pending_def write_projects_def consumed_rows_def)
  next
    case False
    have "consumed_rows p r (projects d) = projects d"
      unfolding consumed_rows_def update_rows_def
    proof (rule map_idI)
      fix q assume q: "q \<in> set (projects d)"
      show "(if p_id q = p_id p \<and> p_source_revision p = Some (r_id r) then q\<lparr>p_source_activation_pending := False\<rparr> else q) = q"
      proof (cases "p_id q = p_id p \<and> p_source_revision p = Some (r_id r)")
        case True
        then have "q = p" "\<not> p_source_activation_pending p" using only [OF q] False by simp_all
        then show ?thesis by (cases p) simp
      next
        case False
        then show ?thesis by (rule if_not_P)
      qed
    qed
    with False show ?thesis by (auto simp: clear_pending_def)
  qed
qed

lemma lone_active:
  assumes "pointers_ok d" "p \<in> set (projects d)" "s \<in> set (revisions d)" "r_project s = p_id p" "r_status s = ACTIVE"
  shows "p_active_revision p = Some (r_id s)"
proof -
  from pointers_okD(6) [OF assms(1,3,5)] obtain q where q: "q \<in> set (projects d)" "p_id q = r_project s"
      "p_active_revision q = Some (r_id s)" by blast
  have "q = p" by (rule distinct_map_eq [OF pointers_okD(3) [OF assms(1)] q(1) assms(2)]) (simp add: q(2) assms(4))
  with q(3) show ?thesis by simp
qed

text \<open>Retiring the previous revision leaves no active row of the project.\<close>

lemma retired_alone:
  assumes ok: "pointers_ok d" and p: "p \<in> set (projects d)"
    and s: "s \<in> set (retired_rows p (revisions d))" "r_project s = p_id p"
  shows "r_status s \<noteq> ACTIVE"
proof
  assume st: "r_status s = ACTIVE"
  from s(1) obtain x where x: "x \<in> set (revisions d)" "s = (if p_active_revision p = Some (r_id x) then retire x else x)"
    by (auto simp: retired_rows_def set_update_rows)
  have "p_active_revision p \<noteq> Some (r_id x)" using st x(2) by auto
  moreover from this have "p_active_revision p = Some (r_id x)"
    using lone_active [OF ok p x(1)] s(2) st x(2) by simp
  ultimately show False by contradiction
qed

lemma retired_constraints:
  assumes ok: "pointers_ok d" and p: "p \<in> set (projects d)"
  shows "revision_constraints (retired_rows p (revisions d))"
proof (rule retire_constraints [OF pointers_okD(2) [OF ok]])
  fix x assume x: "x \<in> set (revisions d)" "p_active_revision p = Some (r_id x)"
  from pointers_okD(5) [OF ok p x(2)] obtain y where y: "y \<in> set (revisions d)" "r_id y = r_id x" "truthy (r_digest y)"
    by blast
  have "y = x" by (rule distinct_map_eq [OF pointers_okD(4) [OF ok] y(1) x(1) y(2)])
  with y(3) show "r_digest x \<noteq> None" by (simp add: truthy_def)
qed

lemma not_previous:
  assumes ok: "pointers_ok d" and p: "p \<in> set (projects d)" and r: "r \<in> set (revisions d)" "r_status r \<noteq> ACTIVE"
  shows "p_active_revision p \<noteq> Some (r_id r)"
proof
  assume "p_active_revision p = Some (r_id r)"
  with pointers_okD(5) [OF ok p] obtain x where x: "x \<in> set (revisions d)" "r_id x = r_id r" "r_status x = ACTIVE" by blast
  have "x = r" by (rule distinct_map_eq [OF pointers_okD(4) [OF ok] x(1) r(1) x(2)])
  with x(3) r(2) show False by simp
qed

lemma retired_member:
  assumes "r \<in> set (revisions d)" "p_active_revision p \<noteq> Some (r_id r)"
  shows "r \<in> set (retired_rows p (revisions d))"
  using assms unfolding retired_rows_def set_update_rows by (intro image_eqI [of _ _ r]) simp_all

lemma promote_tx_run:
  assumes ok: "pointers_ok d" and p: "project_of d (r_project snapshot) = Some p"
    and r: "revision_of d k = Some r" "r_project r = p_id p" "same_verified r snapshot" "truthy (r_digest r)"
    and allowed: "automatic \<longrightarrow> automatic_allowed E p r d"
    and status: "r_status r \<in> set ACTIVATABLE_REVISION_STATUSES"
    and cb: "derives_only on_promote" "on_promote p r d = Inr d1"
  shows "promote_tx E snapshot k on_promote automatic now d = Inr (promoted p r now d1, Some (activate now r))"
proof -
  have pin: "p \<in> set (projects d)" "p_id p = r_project snapshot" using project_of_SomeD [OF p] by simp_all
  have rin: "r \<in> set (revisions d)" "r_id r = k" using revision_of_SomeD [OF r(1)] by simp_all
  have frame: "projects d1 = projects d" "revisions d1 = revisions d" using cb by (auto simp: derives_only_def)
  define d2 where "d2 = d1\<lparr>projects := consumed_rows p r (projects d)\<rparr>"
  define d3 where "d3 = d2\<lparr>revisions := retired_rows p (revisions d)\<rparr>"
  define d4 where "d4 = d3\<lparr>revisions := activated_rows k now (retired_rows p (revisions d))\<rparr>"
  have found: "revision_or_vanished k (Some (p_id p)) d = Inr r"
  proof -
    have "List.find (\<lambda>x. r_id x = k \<and> (Some (p_id p) \<noteq> None \<longrightarrow> Some (r_project x) = Some (p_id p))) (revisions d) = Some r"
    proof (rule find_unique [OF rin(1)])
      fix y assume "y \<in> set (revisions d)" "r_id y = k \<and> (Some (p_id p) \<noteq> None \<longrightarrow> Some (r_project y) = Some (p_id p))"
      then show "y = r" by (intro distinct_map_eq [OF pointers_okD(4) [OF ok] _ rin(1)]) (simp_all add: rin(2))
    qed (use rin(2) r(2) in simp)
    then show ?thesis by (simp add: revision_or_vanished_def)
  qed
  have notactive: "r_status r \<noteq> ACTIVE" using status by (auto simp: status_groups)
  have notprev: "p_active_revision p \<noteq> Some (r_id r)" by (rule not_previous [OF ok pin(1) rin(1) notactive])
  have c1: "clear_pending p r d1 = Inr d2"
    using clear_pending_run [of d1 p r] pointers_okD(1) [OF ok] pin(1) by (simp add: frame d2_def)
  have c2: "retire_previous p d2 = Inr d3"
  proof -
    have "retire_previous p d2 = Inr (d2\<lparr>revisions := retired_rows p (revisions d2)\<rparr>)"
    proof (rule retire_previous_run)
      show "revision_constraints (revisions d2)" using pointers_okD(2) [OF ok] by (simp add: d2_def frame)
      fix j assume "p_active_revision p = Some j"
      from pointers_okD(5) [OF ok pin(1) this]
      show "\<exists>x \<in> set (revisions d2). r_id x = j \<and> r_project x = p_id p \<and> r_digest x \<noteq> None"
        by (auto simp: d2_def frame truthy_def)
    qed
    then show ?thesis by (simp add: d3_def d2_def frame)
  qed
  have c3: "save_revision False (Some [''status'', ''activated'', ''last_updated'']) (activate now r) d3 = Inr d4"
  proof -
    have "save_revision False (Some [''status'', ''activated'', ''last_updated'']) (activate now r) d3 =
        Inr (d3\<lparr>revisions := activated_rows (r_id r) now (revisions d3)\<rparr>)"
    proof (rule activate_run)
      show "revision_constraints (revisions d3)" using retired_constraints [OF ok pin(1)] by (simp add: d3_def)
      show "r \<in> set (revisions d3)" using retired_member [OF rin(1) notprev] by (simp add: d3_def)
      show "r_digest r \<noteq> None" using r(4) by (simp add: truthy_def)
      show "r_id s = r_id r" if "s \<in> set (revisions d3)" "r_project s = r_project r" "r_status s = ACTIVE" for s
        using retired_alone [OF ok pin(1), of s] that r(2) by (simp add: d3_def)
    qed
    then show ?thesis by (simp add: d4_def d3_def rin(2))
  qed
  have row: "project_of d4 (p_id p) = Some (if p_source_revision p = Some (r_id r)
      then p\<lparr>p_source_activation_pending := False\<rparr> else p)"
  proof -
    have "projects d4 = consumed_rows p r (projects d)" by (simp add: d4_def d3_def d2_def)
    moreover have "List.find (\<lambda>q. p_id q = p_id p) (projects d) = Some p"
      by (rule find_distinct [OF pointers_okD(3) [OF ok] pin(1)])
    ultimately show ?thesis
      unfolding project_of_def by (simp add: consumed_rows_def find_update_rows)
  qed
  have c4: "save_project False (Some [''active_revision'', ''last_updated'']) None (\<lambda>_. Some (activate now r))
      (p\<lparr>p_active_revision := Some (r_id (activate now r))\<rparr>) d4 =
    Inr (d4\<lparr>projects := pointed_rows (p_id p) (Some (r_id (activate now r))) (projects d4)\<rparr>)"
  proof (rule point_run [OF _ row])
    show "project_constraints (projects d4)"
      unfolding d4_def d3_def d2_def consumed_rows_def
      using project_constraints_update [OF pointers_okD(1) [OF ok]] by simp
  qed (use r in simp_all)
  have req: "require_activatable r False = Inr ()" using status r(4) by (simp add: require_activatable_def)
  have vanish: "project_or_vanished (r_project snapshot) d = Inr p" by (simp add: project_or_vanished_def p)
  have "d4\<lparr>projects := pointed_rows (p_id p) (Some (r_id (activate now r))) (projects d4)\<rparr> = promoted p r now d1"
    by (simp add: promoted_def d4_def d3_def d2_def frame rin(2))
  then show ?thesis
    using allowed r(3) notactive c1 c2 c3 c4 req rin(2)
    by (simp add: promote_tx_def vanish found cb(2) Let_def)
qed

section \<open>The invariant after a promotion\<close>

lemma pointed_rows_in:
  "q \<in> set (pointed_rows k v ps) \<longleftrightarrow> (\<exists>x \<in> set ps. q = (if p_id x = k then x\<lparr>p_active_revision := v\<rparr> else x))"
  unfolding pointed_rows_def by (rule update_rows_in)

lemma activated_rows_in:
  "s \<in> set (activated_rows k now rs) \<longleftrightarrow> (\<exists>x \<in> set rs. s = (if r_id x = k then activate now x else x))"
  unfolding activated_rows_def by (rule update_rows_in)

lemma retired_rows_in:
  "s \<in> set (retired_rows p rs) \<longleftrightarrow> (\<exists>x \<in> set rs. s = (if p_active_revision p = Some (r_id x) then retire x else x))"
  unfolding retired_rows_def by (rule update_rows_in)

text \<open>Every project keeps its pointer but for the flag a promotion consumes.\<close>

lemma consumed_rows_in:
  assumes "q \<in> set (consumed_rows p r ps)"
  shows "\<exists>x \<in> set ps. p_id q = p_id x \<and> p_active_revision q = p_active_revision x"
proof -
  from assms obtain x where "x \<in> set ps" "q = (if p_id x = p_id p \<and> p_source_revision p = Some (r_id r)
      then x\<lparr>p_source_activation_pending := False\<rparr> else x)"
    unfolding consumed_rows_def update_rows_in by blast
  then show ?thesis by (intro bexI [of _ x]) simp_all
qed

lemma consumed_rows_mem:
  assumes "x \<in> set ps"
  obtains q where "q \<in> set (consumed_rows p r ps)" "p_id q = p_id x" "p_active_revision q = p_active_revision x"
proof -
  have "(if p_id x = p_id p \<and> p_source_revision p = Some (r_id r) then x\<lparr>p_source_activation_pending := False\<rparr> else x)
      \<in> set (consumed_rows p r ps)"
    unfolding consumed_rows_def using assms by (rule update_rows_mem)
  then show ?thesis by (rule that) simp_all
qed

lemma consumed_pointers:
  assumes "pointers_ok d" "projects d' = consumed_rows p r (projects d)" "revisions d' = revisions d"
  shows "pointers_ok d'"
proof -
  have "project_constraints (projects d')"
    unfolding assms(2) consumed_rows_def by (rule project_constraints_update [OF pointers_okD(1) [OF assms(1)]]) simp
  moreover have "\<exists>s \<in> set (revisions d'). r_id s = k \<and> r_project s = p_id q \<and> r_status s = ACTIVE \<and> truthy (r_digest s)"
    if "q \<in> set (projects d')" "p_active_revision q = Some k" for q k
    using consumed_rows_in [of q p r "projects d"] pointers_okD(5) [OF assms(1)] that by (auto simp: assms(2,3))
  moreover have "\<exists>q \<in> set (projects d'). p_id q = r_project s \<and> p_active_revision q = Some (r_id s)"
    if "s \<in> set (revisions d')" "r_status s = ACTIVE" for s
  proof -
    from pointers_okD(6) [OF assms(1)] that obtain q where q: "q \<in> set (projects d)" "p_id q = r_project s"
        "p_active_revision q = Some (r_id s)" by (auto simp: assms(3))
    obtain x where "x \<in> set (consumed_rows p r (projects d))" "p_id x = p_id q" "p_active_revision x = p_active_revision q"
      by (rule consumed_rows_mem [OF q(1)])
    then show ?thesis unfolding assms(2) using q(2,3) by (intro bexI [of _ x]) simp_all
  qed
  ultimately show ?thesis using pointers_okD(2) [OF assms(1)] assms(3) by (simp add: pointers_ok_def)
qed

lemma promoted_pointers:
  assumes ok: "pointers_ok d" and p: "p \<in> set (projects d)"
    and r: "r \<in> set (revisions d)" "r_project r = p_id p" "truthy (r_digest r)" "r_status r \<noteq> ACTIVE"
    and frame: "projects d1 = projects d" "revisions d1 = revisions d"
  shows "pointers_ok (promoted p r now d1)"
proof -
  define d2 where "d2 = d1\<lparr>projects := consumed_rows p r (projects d)\<rparr>"
  have ok2: "pointers_ok d2" by (rule consumed_pointers [OF ok]) (simp_all add: d2_def frame)
  have fin: "revisions (promoted p r now d1) = activated_rows (r_id r) now (retired_rows p (revisions d))"
    "projects (promoted p r now d1) = pointed_rows (p_id p) (Some (r_id r)) (projects d2)"
    by (simp_all add: promoted_def d2_def frame)
  have notprev: "p_active_revision p \<noteq> Some (r_id r)" by (rule not_previous [OF ok p r(1,4)])
  have alone: "s \<in> set (retired_rows p (revisions d)) \<Longrightarrow> r_project s = p_id p \<Longrightarrow> r_status s \<noteq> ACTIVE" for s
    by (rule retired_alone [OF ok p])
  have rcon: "revision_constraints (revisions (promoted p r now d1))"
    unfolding fin(1)
    by (rule activate_constraints [OF retired_constraints [OF ok p] retired_member [OF r(1) notprev]])
      (use alone r(2,3) in \<open>auto simp: truthy_def\<close>)
  have pcon: "project_constraints (projects (promoted p r now d1))"
    unfolding fin(2) pointed_rows_def by (rule project_constraints_update [OF pointers_okD(1) [OF ok2]]) simp
  have new: "activate now r \<in> set (revisions (promoted p r now d1))"
    unfolding fin(1) activated_rows_in using retired_member [OF r(1) notprev] by (rule rev_bexI) simp
  have keep: "s \<in> set (revisions (promoted p r now d1))"
    if "s \<in> set (revisions d)" "r_project s \<noteq> p_id p" "r_status s = ACTIVE" for s
  proof -
    have "p_active_revision p \<noteq> Some (r_id s)"
    proof
      assume "p_active_revision p = Some (r_id s)"
      from pointers_okD(5) [OF ok p this] obtain x where x: "x \<in> set (revisions d)" "r_id x = r_id s" "r_project x = p_id p"
        by blast
      have "x = s" by (rule distinct_map_eq [OF pointers_okD(4) [OF ok] x(1) that(1) x(2)])
      with x(3) that(2) show False by simp
    qed
    then have "s \<in> set (retired_rows p (revisions d))" by (rule retired_member [OF that(1)])
    moreover have "r_id s \<noteq> r_id r" using distinct_map_eq [OF pointers_okD(4) [OF ok] that(1) r(1)] that(2) r(2) by auto
    ultimately show ?thesis unfolding fin(1) activated_rows_in by (intro bexI [of _ s]) simp_all
  qed
  have "\<exists>s \<in> set (revisions (promoted p r now d1)). r_id s = k \<and> r_project s = p_id q \<and> r_status s = ACTIVE \<and> truthy (r_digest s)"
    if q: "q \<in> set (projects (promoted p r now d1))" "p_active_revision q = Some k" for q k
  proof -
    from q(1) obtain x where x: "x \<in> set (projects d2)" "q = (if p_id x = p_id p then x\<lparr>p_active_revision := Some (r_id r)\<rparr> else x)"
      unfolding fin(2) pointed_rows_in by blast
    show ?thesis
    proof (cases "p_id x = p_id p")
      case True
      then show ?thesis using q(2) x(2) r(2,3) by (intro bexI [OF _ new]) simp
    next
      case False
      then have "q = x" using x(2) by simp
      with pointers_okD(5) [OF ok2 x(1)] q(2) obtain s where s: "s \<in> set (revisions d)" "r_id s = k" "r_project s = p_id q"
          "r_status s = ACTIVE" "truthy (r_digest s)" by (auto simp: d2_def frame)
      with False \<open>q = x\<close> have "r_project s \<noteq> p_id p" by simp
      from keep [OF s(1) this s(4)] s show ?thesis by blast
    qed
  qed
  moreover have "\<exists>q \<in> set (projects (promoted p r now d1)). p_id q = r_project s \<and> p_active_revision q = Some (r_id s)"
    if s: "s \<in> set (revisions (promoted p r now d1))" "r_status s = ACTIVE" for s
  proof -
    from s(1) obtain x where x: "x \<in> set (retired_rows p (revisions d))" "s = (if r_id x = r_id r then activate now x else x)"
      unfolding fin(1) activated_rows_in by blast
    show ?thesis
    proof (cases "r_id x = r_id r")
      case True
      have "x = r"
        by (rule distinct_map_eq [OF _ x(1) retired_member [OF r(1) notprev] True])
          (use retired_constraints [OF ok p] in \<open>simp add: revision_constraints_def\<close>)
      obtain q where "q \<in> set (consumed_rows p r (projects d))" "p_id q = p_id p" "p_active_revision q = p_active_revision p"
        by (rule consumed_rows_mem [OF p])
      then have "q \<in> set (projects d2)" by (simp add: d2_def)
      then have "q\<lparr>p_active_revision := Some (r_id r)\<rparr> \<in> set (projects (promoted p r now d1))"
        unfolding fin(2) pointed_rows_in using \<open>p_id q = p_id p\<close> by (intro bexI [of _ q]) simp_all
      then show ?thesis using x(2) True \<open>x = r\<close> r(2) \<open>p_id q = p_id p\<close> by (intro bexI) simp_all
    next
      case False
      with x(2) have sx: "s = x" by simp
      then have np: "r_project s \<noteq> p_id p" using alone [OF x(1)] s(2) by auto
      from x(1) s(2) sx have "s \<in> set (revisions d2)"
        unfolding retired_rows_in by (auto simp: d2_def frame split: if_splits)
      from pointers_okD(6) [OF ok2 this s(2)] obtain q where q: "q \<in> set (projects d2)" "p_id q = r_project s"
          "p_active_revision q = Some (r_id s)" by blast
      then have "q \<in> set (projects (promoted p r now d1))"
        unfolding fin(2) pointed_rows_in using np by (intro bexI [of _ q]) simp_all
      with q show ?thesis by blast
    qed
  qed
  ultimately show ?thesis using rcon pcon by (simp add: pointers_ok_def)
qed

lemma promote_tx_InrD:
  assumes ok: "pointers_ok d" and cb: "derives_only on_promote"
    and run: "promote_tx E snapshot k on_promote automatic now d = Inr (d', result)"
  obtains (refused) "result = None" "automatic" "d' = d"
    | (promoted) p r d1 where "project_of d (r_project snapshot) = Some p" "p \<in> set (projects d)" "r \<in> set (revisions d)" "r_id r = k"
        "r_project r = p_id p" "same_verified r snapshot" "truthy (r_digest r)" "r_status r \<in> set ACTIVATABLE_REVISION_STATUSES"
        "on_promote p r d = Inr d1" "d' = promoted p r now d1" "result = Some (activate now r)"
    | (repaired) p r d1 where "p \<in> set (projects d)" "r \<in> set (revisions d)" "r_id r = k" "r_project r = p_id p"
        "r_status r = ACTIVE" "p_active_revision p = Some k" "same_verified r snapshot"
        "on_promote p r d = Inr d1" "d' = d1\<lparr>projects := consumed_rows p r (projects d)\<rparr>" "result = Some r"
proof -
  from run obtain p r where vp: "project_or_vanished (r_project snapshot) d = Inr p"
      and vr: "revision_or_vanished k (Some (p_id p)) d = Inr r"
    by (auto simp: promote_tx_def result_simps)
  have p: "project_of d (r_project snapshot) = Some p" using vp by (simp add: project_or_vanished_def split: option.splits)
  note pin = conjunct1 [OF project_of_SomeD [OF p]]
  have rin: "r \<in> set (revisions d)" "r_id r = k" "r_project r = p_id p"
    using vr by (auto simp: revision_or_vanished_def split: option.splits dest: find_SomeD)
  have r: "revision_of d k = Some r" using revision_of_member [OF pointers_okD(4) [OF ok] rin(1)] rin(2) by simp
  show ?thesis
  proof (cases "automatic \<and> \<not> automatic_allowed E p r d")
    case True
    with run refused show ?thesis by (simp add: promote_tx_def vp vr)
  next
    case False
    define already where "already = (r_status r = ACTIVE \<and> p_active_revision p = Some (r_id r))"
    from run False obtain d1 where same: "same_verified r snapshot" and req: "require_activatable r already = Inr ()"
        and d1: "on_promote p r d = Inr d1"
      by (auto simp: promote_tx_def vp vr Let_def result_simps already_def split: if_splits)
    have dig: "truthy (r_digest r)" using req by (simp add: require_activatable_def split: if_splits)
    have frame: "projects d1 = projects d" "revisions d1 = revisions d" using cb d1 by (auto simp: derives_only_def)
    show ?thesis
    proof (cases already)
      case True
      have "clear_pending p r d1 = Inr (d1\<lparr>projects := consumed_rows p r (projects d)\<rparr>)"
        using clear_pending_run [of d1 p r] pointers_okD(1) [OF ok] pin by (simp add: frame)
      with run False same req d1 True have "d' = d1\<lparr>projects := consumed_rows p r (projects d)\<rparr>" "result = Some r"
        by (auto simp: promote_tx_def vp vr Let_def already_def)
      with True show ?thesis
        by (intro repaired [OF pin rin _ _ same d1]) (simp_all add: already_def rin(2))
    next
      case f: False
      have st: "r_status r \<in> set ACTIVATABLE_REVISION_STATUSES"
        using req f by (simp add: require_activatable_def split: if_splits)
      have "automatic \<longrightarrow> automatic_allowed E p r d" using False by blast
      from promote_tx_run [OF ok p r rin(3) same dig this st cb d1] run
      have "d' = promoted p r now d1" "result = Some (activate now r)" by simp_all
      then show ?thesis by (rule promoted [OF p pin rin same dig st d1])
    qed
  qed
qed

lemma interfere_store [simp]: "w_store (interfere w) = w_store w" "w_now (interfere w) = w_now w"
  by (simp_all add: interfere_def split: list.split)

lemma promote_tx_invariant:
  assumes "pointers_ok d" and "derives_only on_promote"
    and "promote_tx E snapshot k on_promote automatic now d = Inr (d', result)"
  shows "pointers_ok d' \<and> (case result of
      None \<Rightarrow> automatic \<and> d' = d
    | Some a \<Rightarrow> a \<in> set (revisions d') \<and> r_id a = k \<and> r_status a = ACTIVE \<and> same_verified a snapshot \<and>
        (\<exists>p \<in> set (projects d'). p_id p = r_project a \<and> p_active_revision p = Some k) \<and>
        (\<forall>s \<in> set (revisions d'). r_project s = r_project a \<and> r_status s = ACTIVE \<longrightarrow> s = a))"
proof -
  have settled: "(\<exists>p \<in> set (projects x). p_id p = r_project a \<and> p_active_revision p = Some (r_id a)) \<and>
        (\<forall>s \<in> set (revisions x). r_project s = r_project a \<and> r_status s = ACTIVE \<longrightarrow> s = a)"
    if "pointers_ok x" "a \<in> set (revisions x)" "r_status a = ACTIVE" for x a
    using pointers_okD(6) [OF that] that inj_onD [of r_project "{r \<in> set (revisions x). r_status r = ACTIVE}"]
      pointers_okD(2) [OF that(1), unfolded revision_constraints_iff] by blast
  from assms show ?thesis
  proof (cases rule: promote_tx_InrD)
    case refused
    with assms(1) show ?thesis by simp
  next
    case (promoted p r d1)
    have frame: "projects d1 = projects d" "revisions d1 = revisions d"
      using assms(2) promoted(9) by (auto simp: derives_only_def)
    have na: "r_status r \<noteq> ACTIVE" using promoted(8) by (auto simp: status_groups)
    have ok: "pointers_ok d'"
      unfolding promoted(10) by (rule promoted_pointers [OF assms(1) promoted(2,3,5,7) na frame])
    have "r \<in> set (retired_rows p (revisions d))"
      by (rule retired_member [OF promoted(3) not_previous [OF assms(1) promoted(2,3) na]])
    then have "activate now r \<in> set (revisions d')"
      unfolding promoted(10) by (simp add: promoted_def frame activated_rows_in) force
    moreover have "same_verified (activate now r) snapshot" using promoted(6) by (simp add: same_verified_def)
    moreover have "r_id (activate now r) = k" "r_status (activate now r) = ACTIVE" using promoted(4) by simp_all
    ultimately show ?thesis using ok settled [OF ok, of "activate now r"] unfolding promoted(11) option.case by metis
  next
    case (repaired p r d1)
    have frame: "projects d1 = projects d" "revisions d1 = revisions d"
      using assms(2) repaired(8) by (auto simp: derives_only_def)
    have ok: "pointers_ok d'"
      by (rule consumed_pointers [OF assms(1), of _ p r]) (simp_all add: repaired(9) frame)
    have "r \<in> set (revisions d')" by (simp add: repaired(9) frame repaired(2))
    from settled [OF ok this repaired(5)] this ok repaired(3,5,7) show ?thesis
      unfolding repaired(10) option.case by blast
  qed
qed

section \<open>The properties of this theory\<close>

text \<open>
  Whatever a promotion's transaction does, it keeps the pointer invariant.  An automatic one may
  decline, and then changes nothing; otherwise the revision it returns is stored, ACTIVE, the content
  that was verified, its project's active revision and the only ACTIVE revision of that project.
\<close>

theorem promote_tx_pointers:
  assumes "pointers_ok d" and "derives_only on_promote"
    and "promote_tx E snapshot k on_promote automatic now d = Inr (d', result)"
  shows "pointers_ok d' \<and> (case result of
      None \<Rightarrow> automatic \<and> d' = d
    | Some a \<Rightarrow> a \<in> set (revisions d') \<and> r_id a = k \<and> r_status a = ACTIVE \<and> same_verified a snapshot \<and>
        (\<exists>p \<in> set (projects d'). p_id p = r_project a \<and> p_active_revision p = Some k) \<and>
        (\<forall>s \<in> set (revisions d'). r_project s = r_project a \<and> r_status s = ACTIVE \<longrightarrow> s = a))"
  using assms by (rule promote_tx_invariant)

definition example_candidate :: revision where
  "example_candidate = (example_revision 6 VALID)\<lparr>r_digest := stored_digest, r_manifest := stored_example,
     r_file_count := 1, r_total_size := 2, r_script_file_snapshot := JList [],
     r_script_file_digest := snd (build_script_file_snapshot ascii_python [])\<rparr>"

definition example_running :: db where
  "example_running = empty_db\<lparr>projects := [(example_project 1)\<lparr>p_active_revision := Some 5, p_storage_key := lit ''k''\<rparr>],
     revisions := [example_revision 5 ACTIVE, example_candidate]\<rparr>"

lemma example_running_ok: "pointers_ok example_running"
proof -
  have c: "project_constraints (projects example_running)" "revision_constraints (revisions example_running)" by code_simp+
  have "truthy (r_digest (example_revision 5 ACTIVE))" by code_simp
  then show ?thesis using c unfolding pointers_ok_def
    by (auto simp: example_running_def example_project_def example_revision_def example_candidate_def)
qed

lemma derives_nothing: "derives_only (\<lambda>p r d. Inr d)"
  by (simp add: derives_only_def)

theorem promote_tx_pointers_witness:
  "\<exists>d' a. promote_tx ascii_python example_candidate 6 (\<lambda>p r d. Inr d) False 9 example_running = Inr (d', Some a) \<and>
     pointers_ok d' \<and> r_id a = 6 \<and> r_status a = ACTIVE"
proof -
  let ?run = "promote_tx ascii_python example_candidate 6 (\<lambda>p r d. Inr d) False 9 example_running"
  have "case ?run of Inr (d', Some a) \<Rightarrow> True | _ \<Rightarrow> False" by code_simp
  then obtain d' a where run: "?run = Inr (d', Some a)" by (auto split: sum.splits prod.splits option.splits)
  from promote_tx_pointers [OF example_running_ok derives_nothing run] run show ?thesis by auto
qed

text \<open>
  C26. Nothing is activated on its status alone: whatever other connections commit meanwhile and
  however the backend behaves, a promotion that returns a revision has read its stored tree back and
  found every byte the manifest names, has checked manifest and script file snapshot against their
  digests, and returns a row with that digest and that content.  It writes nothing to the store.
\<close>

theorem promote_revision_verified:
  assumes "promote_revision E dep alias_name k on_promote automatic w = (w', Inr (Some a))"
  shows "\<exists>be (p :: script_project) snapshot pre entries. get_storage dep = Inr be \<and> require_safe_routing dep = Inr () \<and>
    verify_revision_tree E be (p_storage_key p) (r_digest a) (r_manifest snapshot) (w_store w) = Inr pre \<and>
    validate_script_file_snapshot E (r_script_file_snapshot snapshot) (r_script_file_digest a) = Inr entries \<and>
    same_verified a snapshot \<and> r_id a = k \<and> r_status a = ACTIVE \<and> r_project a = p_id p \<and> w_store w' = w_store w"
proof -
  from assms obtain be snapshot p w1 w2 pre entries manifest where
      be: "get_storage dep = Inr be" "require_safe_routing dep = Inr ()"
    and s: "select (revision_or_vanished k None) w = (w1, Inr snapshot)"
    and p: "select (project_or_vanished (r_project snapshot)) w1 = (w2, Inr p)"
    and sf: "validate_script_file_snapshot E (r_script_file_snapshot snapshot) (r_script_file_digest snapshot) = Inr entries"
    and m: "validated_manifest E snapshot = Inr manifest"
    and v: "verify_revision_tree E be (p_storage_key p) (r_digest snapshot) manifest (w_store w2) = Inr pre"
    and t: "statement (promote_tx E snapshot k on_promote automatic (w_now w)) w2 = (w', Inr (Some a))"
    by (auto simp: promote_revision_def sbind_def lift_def on_store_def result_simps Let_def
        split: sum.splits prod.splits)
  have store: "w_store w1 = w_store w" "w_store w2 = w_store w" "w_store w' = w_store w"
    using s p t by (auto simp: select_def statement_def Let_def split: sum.splits)
  obtain d d' where tx: "promote_tx E snapshot k on_promote automatic (w_now w) d = Inr (d', Some a)"
    using t by (auto simp: statement_def Let_def split: sum.splits)
  then obtain q r where q: "project_or_vanished (r_project snapshot) d = Inr q" "revision_or_vanished k (Some (p_id q)) d = Inr r"
      and sv: "same_verified r snapshot" and ra: "a = r \<and> r_status r = ACTIVE \<or> a = activate (w_now w) r"
    by (auto simp: promote_tx_def Let_def result_simps split: if_splits)
  have "r_id r = k" "r_project r = p_id q" using q(2)
    by (auto simp: revision_or_vanished_def split: option.splits dest: find_SomeD)
  moreover have "p_id q = p_id p"
    using q(1) p by (auto simp: project_or_vanished_def select_def Let_def split: option.splits dest!: project_of_SomeD)
  moreover have "manifest = r_manifest snapshot"
    using m by (auto simp: validated_manifest_def Let_def result_simps split: if_splits)
  moreover have "same_verified a snapshot" "r_digest a = r_digest snapshot" "r_script_file_digest a = r_script_file_digest snapshot"
      "r_id a = r_id r" "r_project a = r_project r" "r_status a = ACTIVE"
    using sv ra by (auto simp: same_verified_def)
  ultimately have "get_storage dep = Inr be \<and> require_safe_routing dep = Inr () \<and>
    verify_revision_tree E be (p_storage_key p) (r_digest a) (r_manifest snapshot) (w_store w) = Inr pre \<and>
    validate_script_file_snapshot E (r_script_file_snapshot snapshot) (r_script_file_digest a) = Inr entries \<and>
    same_verified a snapshot \<and> r_id a = k \<and> r_status a = ACTIVE \<and> r_project a = p_id p \<and> w_store w' = w_store w"
    using be sf v store by simp
  then show ?thesis by blast
qed

definition example_service :: "(memory, bytes) service_env" where
  "example_service = \<lparr>storages_entry = Some (Inr memory_backend), plugin_config = (\<lambda>_. None), branching_installed = NotInstalled\<rparr>"

definition example_world :: "memory world" where
  "example_world = \<lparr>w_db = example_running, w_store = [(stored_prefix @ lit ''a.py'', [1, 2])], w_others = [], w_now = 9\<rparr>"

theorem promote_revision_verified_witness:
  "\<exists>w' a. promote_revision ascii_python example_service DEFAULT_DB_ALIAS 6 (\<lambda>p r d. Inr d) False example_world = (w', Inr (Some a)) \<and>
     r_status a = ACTIVE \<and> w_store w' = w_store example_world"
proof -
  let ?run = "promote_revision ascii_python example_service DEFAULT_DB_ALIAS 6 (\<lambda>p r d. Inr d) False example_world"
  have "case snd ?run of Inr (Some a) \<Rightarrow> True | _ \<Rightarrow> False" by code_simp
  then obtain w' a where run: "?run = (w', Inr (Some a))" by (cases ?run) (auto split: sum.splits option.splits)
  from promote_revision_verified [OF run] run show ?thesis by blast
qed

text \<open>
  C27. Promotion goes through: on an honest backend, when no other connection interferes and the
  deployment is configured, a revision that passed validation, describes itself and is intact in the
  store becomes the active one, its predecessor is retired, a one-shot request for it is consumed and
  every other row is as it was.
\<close>

theorem promote_revision_switches:
  assumes "w_others w = []" and "require_safe_routing dep = Inr ()" and "get_storage dep = Inr be" and "lawful be content"
    and "pointers_ok (w_db w)" and "revision_of (w_db w) k = Some r" and "project_of (w_db w) (r_project r) = Some p"
    and "is_activatable r" and "validated_manifest E r = Inr (r_manifest r)"
    and "is_ok (validate_script_file_snapshot E (r_script_file_snapshot r) (r_script_file_digest r))"
    and "revision_prefix E (p_storage_key p) (r_digest r) = Inr pre"
    and "\<forall>e \<in> set (manifest_entries (r_manifest r)). intact E (content (w_store w)) pre e"
    and "derives_only on_promote" and "on_promote p r (w_db w) = Inr d1" and "truthy (r_digest r)"
  shows "promote_revision E dep DEFAULT_DB_ALIAS k on_promote False w =
      (w\<lparr>w_db := promoted p r (w_now w) d1\<rparr>, Inr (Some (activate (w_now w) r)))"
proof -
  have rin: "r \<in> set (revisions (w_db w))" "r_id r = k" using revision_of_SomeD [OF assms(6)] by simp_all
  have pin: "p_id p = r_project r" using project_of_SomeD [OF assms(7)] by simp
  have found: "revision_or_vanished k None (w_db w) = Inr r"
    using assms(6) by (simp add: revision_or_vanished_def revision_of_def)
  have st: "r_status r \<in> set ACTIVATABLE_REVISION_STATUSES" using assms(8) by (simp add: is_activatable_def)
  then have na: "r_status r \<noteq> ACTIVE" by (auto simp: status_groups)
  have req: "require_activatable r False = Inr ()" using st assms(15) by (simp add: require_activatable_def)
  have "validate_manifest E (r_manifest r) (r_digest r) = Inr ()"
    using assms(9) by (auto simp: validated_manifest_def Let_def result_simps)
  then have v: "verify_revision_tree E be (p_storage_key p) (r_digest r) (r_manifest r) (w_store w) = Inr pre"
    using assms(11,12) by (simp add: verify_revision_tree_def verify_tree_honest [OF assms(4) validated_distinct])
  have tx: "promote_tx E r k on_promote False (w_now w) (w_db w) = Inr (promoted p r (w_now w) d1, Some (activate (w_now w) r))"
    by (rule promote_tx_run [OF assms(5) assms(7) assms(6) pin [symmetric] _ assms(15) _ st assms(13,14)])
      (simp_all add: same_verified_def)
  show ?thesis
    using assms(10) na
    by (auto simp: promote_revision_def sbind_def lift_def on_store_def select_def statement_def Let_def assms(1-3)
        found project_or_vanished_def assms(7) req assms(9) v tx require_default_database_def is_ok_iff)
qed

theorem promote_revision_switches_witness:
  "promote_revision ascii_python example_service DEFAULT_DB_ALIAS 6 (\<lambda>p r d. Inr d) False example_world =
      (example_world\<lparr>w_db := promoted ((example_project 1)\<lparr>p_active_revision := Some 5, p_storage_key := lit ''k''\<rparr>)
         example_candidate 9 example_running\<rparr>, Inr (Some (activate 9 example_candidate)))"
proof -
  let ?p = "(example_project 1)\<lparr>p_active_revision := Some 5, p_storage_key := lit ''k''\<rparr>"
  have c: "require_safe_routing example_service = Inr ()" "get_storage example_service = Inr memory_backend"
    by (simp_all add: example_service_def require_safe_routing_def unsafe_routing_reason_def get_storage_def)
  have w: "w_others example_world = []" "w_db example_world = example_running" "w_now example_world = 9"
    "w_store example_world = [(stored_prefix @ lit ''a.py'', [1, 2])]"
    by (simp_all add: example_world_def)
  have r: "revision_of (w_db example_world) 6 = Some example_candidate"
    "project_of (w_db example_world) (r_project example_candidate) = Some ?p" "is_activatable example_candidate"
    by (simp_all add: w example_running_def revision_of_def project_of_def example_revision_def example_candidate_def
        example_project_def is_activatable_def status_groups)
  have "is_ok (validated_manifest ascii_python example_candidate)"
    and sf: "is_ok (validate_script_file_snapshot ascii_python (r_script_file_snapshot example_candidate) (r_script_file_digest example_candidate))"
    and dig: "truthy (r_digest example_candidate)" by code_simp+
  then have vm: "validated_manifest ascii_python example_candidate = Inr (r_manifest example_candidate)"
    by (auto simp: is_ok_iff validated_manifest_def Let_def result_simps split: if_splits)
  have pre: "revision_prefix ascii_python (p_storage_key ?p) (r_digest example_candidate) = Inr stored_prefix"
    using stored_example_prefix by (simp add: example_candidate_def)
  have m: "matches ascii_python \<lparr>e_path = lit ''a.py'', e_size = 2, e_sha = replicate 64 48\<rparr> [1, 2]" by code_simp
  have "manifest_entries (r_manifest example_candidate) = [\<lparr>e_path = lit ''a.py'', e_size = 2, e_sha = replicate 64 48\<rparr>]"
    by code_simp
  then have i: "\<forall>e \<in> set (manifest_entries (r_manifest example_candidate)).
      intact ascii_python (map_of (w_store example_world)) stored_prefix e"
    using m by (simp add: intact_def w)
  from promote_revision_switches [OF w(1) c memory_lawful _ r vm sf pre i derives_nothing refl dig] example_running_ok
  show ?thesis by (simp add: w)
qed

end
