(* ===== verification/Activation.thy ===== *)
theory Activation
  imports Promotion Introspection
begin

text \<open>
  activation.py: publishing a project's scripts from the discovery snapshot of its active revision,
  in the transaction that moves the pointer, and standing a project down.
\<close>

section \<open>Saving the fields that differ\<close>

text \<open>One entry of the values dictionary: the field, whether the row differs from the value, the assignment.\<close>

type_synonym change = "string \<times> (netbox_script \<Rightarrow> bool) \<times> (netbox_script \<Rightarrow> netbox_script)"

definition record_text :: "json \<Rightarrow> string \<Rightarrow> pystr" where
  "record_text v key = json_text (json_field v key)"

definition record_metadata :: "json \<Rightarrow> json" where
  "record_metadata v = (case json_field v ''metadata'' of None \<Rightarrow> JNull | Some m \<Rightarrow> m)"

definition publication :: "json \<Rightarrow> pk \<Rightarrow> change list" where
  "publication v revision_pk =
     [(''display_name'', \<lambda>s. s_display_name s \<noteq> record_text v ''display_name'',
        \<lambda>s. s\<lparr>s_display_name := record_text v ''display_name''\<rparr>),
      (''description'', \<lambda>s. s_description s \<noteq> record_text v ''description'',
        \<lambda>s. s\<lparr>s_description := record_text v ''description''\<rparr>),
      (''metadata'', \<lambda>s. \<not> json_eq (s_metadata s) (record_metadata v), \<lambda>s. s\<lparr>s_metadata := record_metadata v\<rparr>),
      (''is_retired'', \<lambda>s. s_is_retired s, \<lambda>s. s\<lparr>s_is_retired := False\<rparr>),
      (''last_seen_revision'', \<lambda>s. s_last_seen_revision s \<noteq> Some revision_pk,
        \<lambda>s. s\<lparr>s_last_seen_revision := Some revision_pk\<rparr>)]"

definition retirement :: "change list" where
  "retirement = [(''is_retired'', \<lambda>s. \<not> s_is_retired s, \<lambda>s. s\<lparr>s_is_retired := True\<rparr>)]"

definition save_changes :: "change list \<Rightarrow> netbox_script \<Rightarrow> db \<Rightarrow> (db \<times> bool) result" where
  "save_changes values row d =
     (let changed = filter (\<lambda>(name, differs, assign). differs row) values
      in if changed = [] then Inr (d, False)
         else rbind (save_script False (Some (map fst changed @ [''last_updated'']))
                (fold (\<lambda>(name, differs, assign). assign) changed row) d) (\<lambda>d'. Inr (d', True)))"

section \<open>Synchronization\<close>

definition script_identity :: "netbox_script \<Rightarrow> pystr \<times> pystr" where
  "script_identity s = (s_module_path s, s_class_name s)"

definition new_script :: "pk \<Rightarrow> pk \<Rightarrow> json \<Rightarrow> netbox_script list \<Rightarrow> netbox_script" where
  "new_script project revision_pk v rows = \<lparr>s_id = fresh (map s_id rows), s_project = project,
     s_module_path = fst (record_identity v), s_class_name = snd (record_identity v),
     s_display_name = record_text v ''display_name'', s_description = record_text v ''description'',
     s_enabled = True, s_commit_default_override = None, s_job_timeout_override = None,
     s_notifications_default_override = [], s_is_retired = False, s_last_seen_revision = Some revision_pk,
     s_metadata = record_metadata v\<rparr>"

text \<open>The loop over the records; \<open>rows\<close> is the dictionary entries are popped from.\<close>

fun publish_records :: "pk \<Rightarrow> pk \<Rightarrow> json list \<Rightarrow> ((pystr \<times> pystr) \<times> netbox_script) list \<Rightarrow> db \<Rightarrow> nat \<Rightarrow>
    (db \<times> ((pystr \<times> pystr) \<times> netbox_script) list \<times> nat) result" where
  "publish_records project revision_pk [] rows d written = Inr (d, rows, written)"
| "publish_records project revision_pk (v # vs) rows d written =
     (case map_of rows (record_identity v) of
        None \<Rightarrow> rbind (save_script True None (new_script project revision_pk v (scripts d)) d) (\<lambda>d'.
          publish_records project revision_pk vs rows d' (written + 1))
      | Some row \<Rightarrow> rbind (save_changes (publication v revision_pk) row d) (\<lambda>(d', wrote).
          publish_records project revision_pk vs (AList.delete (record_identity v) rows) d'
            (written + (if wrote then 1 else 0))))"

fun retire_rows :: "netbox_script list \<Rightarrow> db \<Rightarrow> nat \<Rightarrow> (db \<times> nat) result" where
  "retire_rows [] d retired = Inr (d, retired)"
| "retire_rows (row # rows) d retired =
     rbind (save_changes retirement row d) (\<lambda>(d', wrote). retire_rows rows d' (retired + (if wrote then 1 else 0)))"

record sync_result =
  sync_published :: nat
  sync_retired :: nat
  sync_written :: nat

definition synchronize_scripts :: "pk \<Rightarrow> pk \<Rightarrow> json list \<Rightarrow> db \<Rightarrow> (db \<times> sync_result) result" where
  "synchronize_scripts project revision_pk records d =
     (let rows = dict_by script_identity (sort_key s_id (filter (\<lambda>s. s_project s = project) (scripts d)))
      in rbind (publish_records project revision_pk records rows d 0) (\<lambda>(d1, rest, written).
           rbind (retire_rows (map snd rest) d1 0) (\<lambda>(d2, retired).
             Inr (d2, \<lparr>sync_published = length records, sync_retired = retired, sync_written = written + retired\<rparr>))))"

section \<open>Activating and standing down\<close>

definition validated_records :: "netbox_core \<Rightarrow> revision \<Rightarrow> json list result" where
  "validated_records N r =
     (case validate_discovered_scripts N (r_discovered_scripts r) of
        Inl (ScriptMetadataError code) \<Rightarrow> Inl ActivationError
      | other \<Rightarrow> other)"

definition publish_on_promote :: "netbox_core \<Rightarrow> bool \<Rightarrow> script_project \<Rightarrow> revision \<Rightarrow> db \<Rightarrow> db result" where
  "publish_on_promote N repair p r d =
     (if repair \<and> p_active_revision p \<noteq> Some (r_id r) then Inl ActivationError
      else rbind (validated_records N r) (\<lambda>records.
        rbind (synchronize_scripts (p_id p) (r_id r) records d) (\<lambda>(d', outcome). Inr d')))"

definition activate_revision ::
    "python \<Rightarrow> netbox_core \<Rightarrow> ('b, 'h) service_env \<Rightarrow> string \<Rightarrow> revision \<Rightarrow> bool \<Rightarrow> bool \<Rightarrow> ('b world, revision option) io" where
  "activate_revision E N dep alias_name r automatic repair =
     sbind (lift (\<lambda>_. validated_records N r)) (\<lambda>_.
       promote_revision E dep alias_name (r_id r) (publish_on_promote N repair) automatic)"

definition deactivate_tx :: "pk \<Rightarrow> pk \<Rightarrow> db \<Rightarrow> (db \<times> revision) result" where
  "deactivate_tx project revision_pk d =
     rbind (project_or_vanished project d) (\<lambda>p.
       rbind (revision_or_vanished revision_pk (Some (p_id p)) d) (\<lambda>locked.
         if p_active_revision p \<noteq> Some (r_id locked) then Inl ActivationError
         else rbind (synchronize_scripts (p_id p) (r_id locked) [] d) (\<lambda>(d1, outcome).
           rbind (save_revision False (Some [''status'', ''last_updated'']) (retire locked) d1) (\<lambda>d2.
             rbind (save_project False (Some [''active_revision'', ''last_updated'']) None (\<lambda>_. None)
                 (p\<lparr>p_active_revision := None\<rparr>) d2) (\<lambda>d3. Inr (d3, retire locked))))))"

definition deactivate_revision :: "('b, 'h) service_env \<Rightarrow> string \<Rightarrow> revision \<Rightarrow> ('b world, revision) io" where
  "deactivate_revision dep alias_name r =
     sbind (lift (\<lambda>_. rbind (require_safe_routing dep) (\<lambda>_. require_default_database alias_name))) (\<lambda>_.
       sbind (select (project_or_vanished (r_project r))) (\<lambda>_. statement (deactivate_tx (r_project r) (r_id r))))"

section \<open>What synchronization is to do\<close>

text \<open>
  The specification: one row per published record, found by identity or created, and every other row
  of the project retired.
\<close>

definition published_row :: "json \<Rightarrow> pk \<Rightarrow> netbox_script \<Rightarrow> netbox_script" where
  "published_row v revision_pk s = s\<lparr>s_display_name := record_text v ''display_name'',
     s_description := record_text v ''description'',
     s_metadata := (if json_eq (s_metadata s) (record_metadata v) then s_metadata s else record_metadata v),
     s_is_retired := False, s_last_seen_revision := Some revision_pk\<rparr>"

definition publish_step :: "pk \<Rightarrow> pk \<Rightarrow> json \<Rightarrow> netbox_script list \<Rightarrow> netbox_script list" where
  "publish_step project revision_pk v rows =
     (if list_ex (\<lambda>s. s_project s = project \<and> script_identity s = record_identity v) rows
      then update_rows (\<lambda>s. s_project s = project \<and> script_identity s = record_identity v) (published_row v revision_pk) rows
      else rows @ [new_script project revision_pk v rows])"

definition synchronized :: "pk \<Rightarrow> pk \<Rightarrow> json list \<Rightarrow> netbox_script list \<Rightarrow> netbox_script list" where
  "synchronized project revision_pk records rows =
     update_rows (\<lambda>s. s_project s = project \<and> script_identity s \<notin> set (map record_identity records))
       (\<lambda>s. s\<lparr>s_is_retired := True\<rparr>) (fold (publish_step project revision_pk) records rows)"

section \<open>One save\<close>

lemma script_constraints_update:
  assumes "script_constraints rows"
    and "\<And>s. s \<in> set rows \<Longrightarrow> P s \<Longrightarrow> s_id (f s) = s_id s \<and> s_project (f s) = s_project s \<and> script_identity (f s) = script_identity s"
  shows "script_constraints (update_rows P f rows)"
proof -
  have "map s_id (update_rows P f rows) = map s_id rows" using assms(2) by (simp add: update_rows_def)
  moreover have "map (\<lambda>s. (s_project s, s_module_path s, s_class_name s)) (update_rows P f rows) =
      map (\<lambda>s. (s_project s, s_module_path s, s_class_name s)) rows"
    using assms(2) by (simp add: update_rows_def script_identity_def)
  ultimately show ?thesis using assms(1) by (simp add: script_constraints_def)
qed

lemma save_changes_run:
  assumes c: "script_constraints (scripts d)" and row: "row \<in> set (scripts d)"
    and changed: "changed = filter (\<lambda>(name, differs, assign). differs row) values"
    and target: "target = fold (\<lambda>(name, differs, assign). assign) changed row"
    and keep: "s_id target = s_id row" "s_project target = s_project row" "script_identity target = script_identity row"
    and copy: "copy_script (Some (map fst changed @ [''last_updated''])) target row = target"
  shows "save_changes values row d =
    Inr (d\<lparr>scripts := update_rows (\<lambda>s. s_id s = s_id row) (\<lambda>s. target) (scripts d)\<rparr>, changed \<noteq> [])"
proof -
  have dist: "distinct (map s_id (scripts d))" using c by (simp add: script_constraints_def)
  have only: "s = row" if "s \<in> set (scripts d)" "s_id s = s_id row" for s
    by (rule distinct_map_eq [OF dist that(1) row that(2)])
  show ?thesis
  proof (cases "changed = []")
    case True
    then have "target = row" by (simp add: target)
    then have "update_rows (\<lambda>s. s_id s = s_id row) (\<lambda>s. target) (scripts d) = scripts d"
      unfolding update_rows_def by (intro map_idI) (use only in auto)
    with True show ?thesis by (simp add: save_changes_def changed [symmetric])
  next
    case False
    have rows: "update_rows (\<lambda>s. s_id s = s_id row) (copy_script (Some (map fst changed @ [''last_updated''])) target) (scripts d) =
        update_rows (\<lambda>s. s_id s = s_id row) (\<lambda>s. target) (scripts d)"
      unfolding update_rows_def by (rule map_cong) (use only copy in auto)
    have "script_constraints (update_rows (\<lambda>s. s_id s = s_id row) (\<lambda>s. target) (scripts d))"
      by (rule script_constraints_update [OF c]) (use only keep in auto)
    moreover have "s_id row \<in> set (map s_id (scripts d))" using row by (simp add: rev_image_eqI)
    ultimately show ?thesis
      using False rows keep(1)
      by (simp add: save_changes_def Let_def changed [symmetric] target [symmetric] save_script_def save_row_def
          write_scripts_def)
  qed
qed

lemma publication_target:
  "fold (\<lambda>(name, differs, assign). assign) (filter (\<lambda>(name, differs, assign). differs s) (publication v k)) s = published_row v k s"
  by (cases s) (simp add: publication_def published_row_def)

lemma publication_copy:
  "copy_script (Some (map fst (filter (\<lambda>(name, differs, assign). differs s) (publication v k)) @ [''last_updated'']))
     (published_row v k s) s = published_row v k s"
proof -
  define names where "names = map fst (filter (\<lambda>(name, differs, assign). differs s) (publication v k)) @ [''last_updated'']"
  have w: "writes (Some names) ns \<longleftrightarrow> list_ex (\<lambda>n. n \<in> set names) ns" for ns by (simp add: writes_def)
  have n: "n \<in> set names \<longleftrightarrow> n = ''display_name'' \<and> s_display_name s \<noteq> record_text v ''display_name'' \<or>
      n = ''description'' \<and> s_description s \<noteq> record_text v ''description'' \<or>
      n = ''metadata'' \<and> \<not> json_eq (s_metadata s) (record_metadata v) \<or> n = ''is_retired'' \<and> s_is_retired s \<or>
      n = ''last_seen_revision'' \<and> s_last_seen_revision s \<noteq> Some k \<or> n = ''last_updated''" for n
    by (auto simp: names_def publication_def)
  have "copy_script (Some names) (published_row v k s) s = published_row v k s"
    by (rule netbox_script.equality) (simp_all add: copy_script_def w n published_row_def)
  then show ?thesis by (simp add: names_def)
qed

lemma published_row_keeps [simp]:
  "s_id (published_row v k s) = s_id s" "s_project (published_row v k s) = s_project s"
  "script_identity (published_row v k s) = script_identity s" "s_enabled (published_row v k s) = s_enabled s"
  by (simp_all add: published_row_def script_identity_def)

text \<open>What is written is what differs.\<close>

definition publication_pending :: "json \<Rightarrow> pk \<Rightarrow> netbox_script \<Rightarrow> bool" where
  "publication_pending v k s \<longleftrightarrow> filter (\<lambda>(name, differs, assign). differs s) (publication v k) \<noteq> []"

lemma publish_run:
  assumes "script_constraints (scripts d)" "row \<in> set (scripts d)"
  shows "save_changes (publication v k) row d =
    Inr (d\<lparr>scripts := update_rows (\<lambda>s. s_id s = s_id row) (published_row v k) (scripts d)\<rparr>, publication_pending v k row)"
proof -
  have "update_rows (\<lambda>s. s_id s = s_id row) (\<lambda>s. published_row v k row) (scripts d) =
      update_rows (\<lambda>s. s_id s = s_id row) (published_row v k) (scripts d)"
    unfolding update_rows_def
  proof (rule map_cong)
    fix s assume "s \<in> set (scripts d)"
    then have "s = row" if "s_id s = s_id row"
      using distinct_map_eq [of s_id "scripts d" s row] assms that by (simp add: script_constraints_def)
    then show "(if s_id s = s_id row then published_row v k row else s) = (if s_id s = s_id row then published_row v k s else s)"
      by auto
  qed simp
  moreover have "save_changes (publication v k) row d =
      Inr (d\<lparr>scripts := update_rows (\<lambda>s. s_id s = s_id row) (\<lambda>s. published_row v k row) (scripts d)\<rparr>,
        filter (\<lambda>(name, differs, assign). differs row) (publication v k) \<noteq> [])"
    by (rule save_changes_run [OF assms refl publication_target [symmetric] _ _ _ publication_copy]) simp_all
  ultimately show ?thesis by (simp add: publication_pending_def)
qed

lemma retire_run:
  assumes "script_constraints (scripts d)" "row \<in> set (scripts d)"
  shows "save_changes retirement row d =
    Inr (d\<lparr>scripts := update_rows (\<lambda>s. s_id s = s_id row) (\<lambda>s. s\<lparr>s_is_retired := True\<rparr>) (scripts d)\<rparr>, \<not> s_is_retired row)"
proof -
  have "update_rows (\<lambda>s. s_id s = s_id row) (\<lambda>s. row\<lparr>s_is_retired := True\<rparr>) (scripts d) =
      update_rows (\<lambda>s. s_id s = s_id row) (\<lambda>s. s\<lparr>s_is_retired := True\<rparr>) (scripts d)"
    unfolding update_rows_def
  proof (rule map_cong)
    fix s assume "s \<in> set (scripts d)"
    then have "s = row" if "s_id s = s_id row"
      using distinct_map_eq [of s_id "scripts d" s row] assms that by (simp add: script_constraints_def)
    then show "(if s_id s = s_id row then row\<lparr>s_is_retired := True\<rparr> else s) = (if s_id s = s_id row then s\<lparr>s_is_retired := True\<rparr> else s)"
      by auto
  qed simp
  moreover have "save_changes retirement row d =
      Inr (d\<lparr>scripts := update_rows (\<lambda>s. s_id s = s_id row) (\<lambda>s. row\<lparr>s_is_retired := True\<rparr>) (scripts d)\<rparr>,
        filter (\<lambda>(name, differs, assign). differs row) retirement \<noteq> [])"
    by (rule save_changes_run [OF assms refl])
      (cases row; simp add: retirement_def script_identity_def copy_script_def writes_def)+
  ultimately show ?thesis by (simp add: retirement_def)
qed

section \<open>The loops\<close>

lemma script_rows_unique:
  assumes "script_constraints rows" "a \<in> set rows" "b \<in> set rows"
  shows "s_id a = s_id b \<longleftrightarrow> a = b" and "s_project a = s_project b \<and> script_identity a = script_identity b \<longleftrightarrow> a = b"
proof -
  have "distinct (map s_id rows)" "distinct (map (\<lambda>s. (s_project s, s_module_path s, s_class_name s)) rows)"
    using assms(1) by (simp_all add: script_constraints_def)
  from distinct_map_eq [OF this(1) assms(2,3)] distinct_map_eq [OF this(2) assms(2,3)]
  show "s_id a = s_id b \<longleftrightarrow> a = b" "s_project a = s_project b \<and> script_identity a = script_identity b \<longleftrightarrow> a = b"
    by (auto simp: script_identity_def)
qed

lemma new_script_simps [simp]:
  "s_id (new_script p k v rows) = fresh (map s_id rows)" "s_project (new_script p k v rows) = p"
  "script_identity (new_script p k v rows) = record_identity v"
  by (simp_all add: new_script_def script_identity_def)

lemma create_script_run:
  assumes "script_constraints (scripts d)"
    and "\<forall>s \<in> set (scripts d). \<not> (s_project s = p \<and> script_identity s = record_identity v)"
  shows "script_constraints (scripts d @ [new_script p k v (scripts d)])"
    and "save_script True None (new_script p k v (scripts d)) d = Inr (d\<lparr>scripts := scripts d @ [new_script p k v (scripts d)]\<rparr>)"
proof -
  have ids: "distinct (map s_id (scripts d))"
    and keys: "distinct (map (\<lambda>s. (s_project s, s_module_path s, s_class_name s)) (scripts d))"
    using assms(1) by (simp_all add: script_constraints_def)
  have new: "(p, fst (record_identity v), snd (record_identity v)) \<notin> (\<lambda>s. (s_project s, s_module_path s, s_class_name s)) ` set (scripts d)"
    using assms(2) by (auto simp: script_identity_def)
  have f: "fresh (map s_id (scripts d)) \<notin> s_id ` set (scripts d)" using fresh_notin [of "map s_id (scripts d)"] by simp
  show "script_constraints (scripts d @ [new_script p k v (scripts d)])"
    using ids keys new f by (simp add: script_constraints_def) (simp add: new_script_def)
  then show "save_script True None (new_script p k v (scripts d)) d = Inr (d\<lparr>scripts := scripts d @ [new_script p k v (scripts d)]\<rparr>)"
    by (simp add: save_script_def save_row_def write_scripts_def)
qed

lemma publish_records_run:
  assumes "script_constraints (scripts d)" "distinct (map record_identity vs)" "distinct (map fst rows)"
    and "\<And>i r. (i, r) \<in> set rows \<Longrightarrow> r \<in> set (scripts d) \<and> s_project r = p \<and> script_identity r = i"
    and "\<And>v s. v \<in> set vs \<Longrightarrow> s \<in> set (scripts d) \<Longrightarrow> s_project s = p \<Longrightarrow> script_identity s = record_identity v \<Longrightarrow>
      (record_identity v, s) \<in> set rows"
  shows "script_constraints (fold (publish_step p k) vs (scripts d)) \<and>
    (\<exists>n. publish_records p k vs rows d written =
      Inr (d\<lparr>scripts := fold (publish_step p k) vs (scripts d)\<rparr>, filter (\<lambda>(i, r). i \<notin> record_identity ` set vs) rows, n)) \<and>
    (\<forall>(i, r) \<in> set rows. i \<notin> record_identity ` set vs \<longrightarrow> r \<in> set (fold (publish_step p k) vs (scripts d)))"
  using assms
proof (induction vs arbitrary: d rows written)
  case Nil
  then show ?case by auto
next
  case (Cons v vs)
  let ?i = "record_identity v"
  note c = Cons.prems(1)
  define d' where "d' = d\<lparr>scripts := publish_step p k v (scripts d)\<rparr>"
  define rest where "rest = filter (\<lambda>(i, r). i \<noteq> ?i) rows"
  have fr: "?i \<notin> record_identity ` set vs" "distinct (map record_identity vs)" using Cons.prems(2) by auto
  have step: "script_constraints (scripts d') \<and>
      (\<exists>n. publish_records p k (v # vs) rows d written = publish_records p k vs rest d' n) \<and>
      (\<forall>s. s_project s \<noteq> p \<or> script_identity s \<noteq> ?i \<longrightarrow> s \<in> set (scripts d') \<longleftrightarrow> s \<in> set (scripts d))"
  proof (cases "map_of rows ?i")
    case None
    have none: "\<forall>s \<in> set (scripts d). \<not> (s_project s = p \<and> script_identity s = ?i)"
    proof (intro ballI notI)
      fix s assume "s \<in> set (scripts d)" "s_project s = p \<and> script_identity s = ?i"
      then have "(?i, s) \<in> set rows" using Cons.prems(5) [of v s] by simp
      with None show False by (auto simp: map_of_eq_None_iff rev_image_eqI)
    qed
    then have "\<not> list_ex (\<lambda>s. s_project s = p \<and> script_identity s = ?i) (scripts d)" unfolding list_ex_iff by blast
    then have st: "publish_step p k v (scripts d) = scripts d @ [new_script p k v (scripts d)]"
      by (simp add: publish_step_def)
    have "rest = rows" unfolding rest_def using None by (auto simp: filter_id_conv map_of_eq_None_iff rev_image_eqI)
    then show ?thesis using create_script_run [OF c none, where k = k] None by (auto simp: d'_def st)
  next
    case (Some row)
    then have row: "row \<in> set (scripts d)" "s_project row = p" "script_identity row = ?i"
      using Cons.prems(4) map_of_SomeD by fast+
    have same: "s_id s = s_id row \<longleftrightarrow> s_project s = p \<and> script_identity s = ?i" if "s \<in> set (scripts d)" for s
      using script_rows_unique [OF c that row(1)] row(2,3) by simp
    have "list_ex (\<lambda>s. s_project s = p \<and> script_identity s = ?i) (scripts d)" using row by (auto simp: list_ex_iff)
    then have st: "publish_step p k v (scripts d) = update_rows (\<lambda>s. s_id s = s_id row) (published_row v k) (scripts d)"
      unfolding publish_step_def update_rows_def using same by (auto intro: map_cong)
    have "script_constraints (scripts d')"
      unfolding d'_def st using script_constraints_update [OF c] by simp
    moreover have "AList.delete ?i rows = rest"
      unfolding rest_def AList.delete_eq by (rule filter_cong) auto
    moreover have "s \<in> set (scripts d') \<longleftrightarrow> s \<in> set (scripts d)" if "s_project s \<noteq> p \<or> script_identity s \<noteq> ?i" for s
    proof -
      have "(s \<in> set (scripts d')) \<longleftrightarrow> (\<exists>x \<in> set (scripts d). s = (if s_id x = s_id row then published_row v k x else x))"
        by (simp add: d'_def st update_rows_in)
      also have "\<dots> \<longleftrightarrow> s \<in> set (scripts d)"
      proof
        assume "\<exists>x \<in> set (scripts d). s = (if s_id x = s_id row then published_row v k x else x)"
        then obtain x where x: "x \<in> set (scripts d)" "s = (if s_id x = s_id row then published_row v k x else x)" by blast
        have "s_id x \<noteq> s_id row" using that x(2) same [OF x(1)] by auto
        with x show "s \<in> set (scripts d)" by simp
      next
        assume s: "s \<in> set (scripts d)"
        with same [OF this] that have "s_id s \<noteq> s_id row" by blast
        with s show "\<exists>x \<in> set (scripts d). s = (if s_id x = s_id row then published_row v k x else x)"
          by (intro bexI [of _ s]) simp_all
      qed
      finally show ?thesis .
    qed
    ultimately show ?thesis
      using publish_run [OF c row(1), of v k] Some by (auto simp: d'_def st)
  qed
  then obtain n where run: "publish_records p k (v # vs) rows d written = publish_records p k vs rest d' n"
    and c': "script_constraints (scripts d')"
    and mem: "\<And>s. s_project s \<noteq> p \<or> script_identity s \<noteq> ?i \<Longrightarrow> s \<in> set (scripts d') \<longleftrightarrow> s \<in> set (scripts d)" by blast
  have "script_constraints (fold (publish_step p k) vs (scripts d')) \<and>
    (\<exists>n'. publish_records p k vs rest d' n =
      Inr (d'\<lparr>scripts := fold (publish_step p k) vs (scripts d')\<rparr>, filter (\<lambda>(i, r). i \<notin> record_identity ` set vs) rest, n')) \<and>
    (\<forall>(i, r) \<in> set rest. i \<notin> record_identity ` set vs \<longrightarrow> r \<in> set (fold (publish_step p k) vs (scripts d')))"
  proof (rule Cons.IH [OF c' fr(2)])
    show "distinct (map fst rest)" unfolding rest_def using Cons.prems(3) by (rule distinct_map_filter)
    show "r \<in> set (scripts d') \<and> s_project r = p \<and> script_identity r = i" if "(i, r) \<in> set rest" for i r
      using Cons.prems(4) [of i r] that mem [of r] by (auto simp: rest_def)
    show "(record_identity u, s) \<in> set rest"
      if "u \<in> set vs" "s \<in> set (scripts d')" "s_project s = p" "script_identity s = record_identity u" for u s
    proof -
      have "record_identity u \<noteq> ?i"
      proof
        assume "record_identity u = ?i"
        with that(1) have "?i \<in> record_identity ` set vs" by (metis imageI)
        with fr(1) show False by contradiction
      qed
      with that mem [of s] Cons.prems(5) [of u s] show ?thesis by (simp add: rest_def)
    qed
  qed
  moreover have "filter (\<lambda>(i, r). i \<notin> record_identity ` set vs) rest = filter (\<lambda>(i, r). i \<notin> record_identity ` set (v # vs)) rows"
    unfolding rest_def filter_filter by (rule filter_cong) auto
  moreover have "d'\<lparr>scripts := fold (publish_step p k) vs (scripts d')\<rparr> = d\<lparr>scripts := fold (publish_step p k) (v # vs) (scripts d)\<rparr>"
    "fold (publish_step p k) vs (scripts d') = fold (publish_step p k) (v # vs) (scripts d)"
    by (simp_all add: d'_def)
  ultimately show ?case unfolding run by (auto simp: rest_def)
qed

lemma retire_rows_run:
  assumes "script_constraints (scripts d)" "distinct (map s_id rows)" "set rows \<subseteq> set (scripts d)"
  shows "\<exists>n. retire_rows rows d retired =
    Inr (d\<lparr>scripts := update_rows (\<lambda>s. s_id s \<in> s_id ` set rows) (\<lambda>s. s\<lparr>s_is_retired := True\<rparr>) (scripts d)\<rparr>, n)"
  using assms
proof (induction rows arbitrary: d retired)
  case Nil
  then show ?case by (simp add: update_rows_def)
next
  case (Cons row rows)
  define d' where "d' = d\<lparr>scripts := update_rows (\<lambda>s. s_id s = s_id row) (\<lambda>s. s\<lparr>s_is_retired := True\<rparr>) (scripts d)\<rparr>"
  have "script_constraints (scripts d')"
    using script_constraints_update [OF Cons.prems(1)] by (simp add: d'_def script_identity_def)
  moreover have "set rows \<subseteq> set (scripts d')"
  proof
    fix x assume x: "x \<in> set rows"
    then have "s_id x \<noteq> s_id row" using Cons.prems(2) by (auto simp: rev_image_eqI)
    with x Cons.prems(3) show "x \<in> set (scripts d')"
      unfolding d'_def by (simp add: update_rows_in) (metis subsetD)
  qed
  ultimately obtain n where n: "retire_rows rows d' (retired + (if \<not> s_is_retired row then 1 else 0)) =
      Inr (d'\<lparr>scripts := update_rows (\<lambda>s. s_id s \<in> s_id ` set rows) (\<lambda>s. s\<lparr>s_is_retired := True\<rparr>) (scripts d')\<rparr>, n)"
    using Cons.IH [of d'] Cons.prems(2) by (metis distinct.simps(2) list.simps(9))
  have "update_rows (\<lambda>s. s_id s \<in> s_id ` set rows) (\<lambda>s. s\<lparr>s_is_retired := True\<rparr>) (scripts d') =
      update_rows (\<lambda>s. s_id s \<in> s_id ` set (row # rows)) (\<lambda>s. s\<lparr>s_is_retired := True\<rparr>) (scripts d)"
    by (simp add: d'_def update_rows_def)
  with n retire_run [OF Cons.prems(1), of row] Cons.prems(3) show ?case by (simp add: d'_def [symmetric]) (simp add: d'_def)
qed

text \<open>Rows of other identities pass through a step unchanged.\<close>

lemma publish_step_other:
  assumes "s_project s \<noteq> p \<or> script_identity s \<noteq> record_identity v"
  shows "s \<in> set (publish_step p k v rows) \<longleftrightarrow> s \<in> set rows"
proof (cases "list_ex (\<lambda>s. s_project s = p \<and> script_identity s = record_identity v) rows")
  case True
  have "(\<exists>x \<in> set rows. s = (if s_project x = p \<and> script_identity x = record_identity v then published_row v k x else x)) \<longleftrightarrow>
      s \<in> set rows" (is "?l \<longleftrightarrow> ?r")
  proof
    assume ?l
    then obtain x where x: "x \<in> set rows" "s = (if s_project x = p \<and> script_identity x = record_identity v then published_row v k x else x)"
      by blast
    then have "\<not> (s_project x = p \<and> script_identity x = record_identity v)" using assms by auto
    with x show ?r by (simp only: if_False)
  next
    assume ?r
    with assms show ?l by (intro bexI [of _ s]) auto
  qed
  with True show ?thesis by (simp add: publish_step_def update_rows_in)
next
  case False
  with assms show ?thesis by (auto simp: publish_step_def)
qed

lemma fold_publish_other:
  assumes "s_project s \<noteq> p \<or> script_identity s \<notin> record_identity ` set vs"
  shows "s \<in> set (fold (publish_step p k) vs rows) \<longleftrightarrow> s \<in> set rows"
  using assms by (induction vs arbitrary: rows) (auto simp: publish_step_other)

text \<open>A row that says what a record publishes.\<close>

definition publishes :: "pk \<Rightarrow> pk \<Rightarrow> json \<Rightarrow> netbox_script \<Rightarrow> bool" where
  "publishes p k v s \<longleftrightarrow> s_project s = p \<and> script_identity s = record_identity v \<and>
     s_display_name s = record_text v ''display_name'' \<and> s_description s = record_text v ''description'' \<and>
     json_eq (s_metadata s) (record_metadata v) \<and> \<not> s_is_retired s \<and> s_last_seen_revision s = Some k"

lemma publish_step_publishes: "\<exists>s \<in> set (publish_step p k v rows). publishes p k v s"
proof (cases "list_ex (\<lambda>s. s_project s = p \<and> script_identity s = record_identity v) rows")
  case True
  then obtain x where x: "x \<in> set rows" "s_project x = p" "script_identity x = record_identity v" by (auto simp: list_ex_iff)
  then have "published_row v k x \<in> set (publish_step p k v rows)"
    using True by (simp add: publish_step_def update_rows_in) force
  moreover have "publishes p k v (published_row v k x)"
    using x by (simp add: publishes_def) (simp add: published_row_def)
  ultimately show ?thesis by blast
next
  case False
  then show ?thesis by (simp add: publish_step_def publishes_def) (simp add: new_script_def)
qed

lemma fold_publish_publishes:
  "distinct (map record_identity vs) \<Longrightarrow> v \<in> set vs \<Longrightarrow> \<exists>s \<in> set (fold (publish_step p k) vs rows). publishes p k v s"
proof (induction vs arbitrary: rows)
  case (Cons u vs)
  show ?case
  proof (cases "v = u")
    case True
    obtain s where s: "s \<in> set (publish_step p k v rows)" "publishes p k v s" using publish_step_publishes by blast
    have "script_identity s \<notin> record_identity ` set vs" using Cons.prems(1) s(2) True by (auto simp: publishes_def)
    then have "s \<in> set (fold (publish_step p k) vs (publish_step p k v rows))" using s(1) by (simp add: fold_publish_other)
    with s(2) show ?thesis using True by auto
  next
    case False
    with Cons show ?thesis by simp
  qed
qed simp

text \<open>No row is lost, and what an administrator set on it stays.\<close>

definition same_script :: "netbox_script \<Rightarrow> netbox_script \<Rightarrow> bool" where
  "same_script a b \<longleftrightarrow> s_id a = s_id b \<and> s_project a = s_project b \<and> script_identity a = script_identity b \<and>
     s_enabled a = s_enabled b \<and> s_commit_default_override a = s_commit_default_override b \<and>
     s_job_timeout_override a = s_job_timeout_override b \<and>
     s_notifications_default_override a = s_notifications_default_override b"

lemma same_script_refl [simp]: "same_script s s"
  by (simp add: same_script_def)

lemma publish_step_keeps:
  assumes "s \<in> set rows"
  shows "\<exists>t \<in> set (publish_step p k v rows). same_script s t"
proof (cases "list_ex (\<lambda>s. s_project s = p \<and> script_identity s = record_identity v) rows")
  case True
  have "(if s_project s = p \<and> script_identity s = record_identity v then published_row v k s else s) \<in> set (publish_step p k v rows)"
    unfolding publish_step_def if_P [OF True] by (rule update_rows_mem [OF assms])
  moreover have "same_script s (if s_project s = p \<and> script_identity s = record_identity v then published_row v k s else s)"
    by (simp add: same_script_def) (simp add: published_row_def)
  ultimately show ?thesis by blast
next
  case False
  with assms show ?thesis unfolding publish_step_def if_not_P [OF False] by (intro bexI [of _ s]) simp_all
qed

lemma fold_publish_keeps: "s \<in> set rows \<Longrightarrow> \<exists>t \<in> set (fold (publish_step p k) vs rows). same_script s t"
proof (induction vs arbitrary: rows s)
  case Nil
  show ?case by (rule bexI [of _ s]) (simp_all add: Nil)
next
  case (Cons v vs)
  obtain t where t: "t \<in> set (publish_step p k v rows)" "same_script s t" using publish_step_keeps [OF Cons.prems] by blast
  from Cons.IH [OF t(1)] t(2) show ?case by (auto simp: same_script_def)
qed

section \<open>The whole synchronization\<close>

lemma synchronize_scripts_run:
  assumes c: "script_constraints (scripts d)" and dist: "distinct (map record_identity records)"
  shows "script_constraints (synchronized p k records (scripts d))"
    and "\<exists>retired written. synchronize_scripts p k records d = Inr (d\<lparr>scripts := synchronized p k records (scripts d)\<rparr>,
      \<lparr>sync_published = length records, sync_retired = retired, sync_written = written\<rparr>)"
proof -
  define mine where "mine = sort_key s_id (filter (\<lambda>s. s_project s = p) (scripts d))"
  define rows where "rows = dict_by script_identity mine"
  have mine: "set mine = {s \<in> set (scripts d). s_project s = p}" by (auto simp: mine_def)
  have inj: "inj_on script_identity (set mine)"
  proof (rule inj_onI)
    fix x y assume "x \<in> set mine" "y \<in> set mine" "script_identity x = script_identity y"
    then show "x = y" using script_rows_unique(2) [OF c, of x y] by (simp add: mine)
  qed
  have sound: "r \<in> set (scripts d) \<and> s_project r = p \<and> script_identity r = i" if "(i, r) \<in> set rows" for i r
    using dict_by_sound [of i r script_identity mine] that mine by (auto simp: rows_def)
  have complete: "(script_identity s, s) \<in> set rows" if "s \<in> set (scripts d)" "s_project s = p" for s
    unfolding rows_def by (rule dict_by_complete [OF _ inj]) (use that mine in simp)
  have fst_rows: "distinct (map fst rows)" unfolding rows_def by (rule dict_by_distinct)
  have com: "(record_identity v, s) \<in> set rows"
    if "v \<in> set records" "s \<in> set (scripts d)" "s_project s = p" "script_identity s = record_identity v" for v s
    using complete [OF that(2,3)] that(4) by simp
  define after where "after = fold (publish_step p k) records (scripts d)"
  define rest where "rest = filter (\<lambda>(i, r). i \<notin> record_identity ` set records) rows"
  from publish_records_run [OF c dist fst_rows sound com, of k 0]
  obtain n where c1: "script_constraints after"
    and run: "publish_records p k records rows d 0 = Inr (d\<lparr>scripts := after\<rparr>, rest, n)"
    and left: "\<forall>(i, r) \<in> set rows. i \<notin> record_identity ` set records \<longrightarrow> r \<in> set after"
    unfolding after_def rest_def by blast
  have sub: "set (map snd rest) \<subseteq> set after" using left by (auto simp: rest_def)
  have ids: "s_id ` set (map snd rest) = s_id ` {s \<in> set after. s_project s = p \<and> script_identity s \<notin> record_identity ` set records}"
  proof (rule arg_cong [where f = "image s_id"], rule set_eqI, rule iffI)
    fix s assume "s \<in> set (map snd rest)"
    then obtain i where "(i, s) \<in> set rows" "i \<notin> record_identity ` set records" by (auto simp: rest_def)
    with sound left show "s \<in> {s \<in> set after. s_project s = p \<and> script_identity s \<notin> record_identity ` set records}" by auto
  next
    fix s assume s: "s \<in> {s \<in> set after. s_project s = p \<and> script_identity s \<notin> record_identity ` set records}"
    then have "s \<in> set (scripts d)" using fold_publish_other [of s p records k "scripts d"] by (simp add: after_def)
    with complete s have "(script_identity s, s) \<in> set rest" by (simp add: rest_def)
    then show "s \<in> set (map snd rest)" by force
  qed
  have drest: "distinct (map s_id (map snd rest))"
  proof -
    have "distinct (map snd rest)"
    proof -
      have "distinct rest" unfolding rest_def using fst_rows by (simp add: distinct_map)
      moreover have "inj_on snd (set rest)"
      proof (rule inj_onI)
        fix x y assume xy: "x \<in> set rest" "y \<in> set rest" "snd x = snd y"
        have "fst z = script_identity (snd z)" if "z \<in> set rest" for z
          using sound [of "fst z" "snd z"] that by (auto simp: rest_def)
        with xy show "x = y" by (metis prod.expand)
      qed
      ultimately show ?thesis by (simp add: distinct_map)
    qed
    moreover have "inj_on s_id (set (map snd rest))"
      by (rule inj_onI) (use script_rows_unique(1) [OF c1] sub in blast)
    ultimately show ?thesis by (simp only: distinct_map)
  qed
  have eq: "update_rows (\<lambda>s. s_id s \<in> s_id ` set (map snd rest)) (\<lambda>s. s\<lparr>s_is_retired := True\<rparr>) after = synchronized p k records (scripts d)"
    unfolding synchronized_def after_def [symmetric] update_rows_def
  proof (rule map_cong)
    fix s assume s: "s \<in> set after"
    have "s_id s \<in> s_id ` set (map snd rest) \<longleftrightarrow> s_project s = p \<and> script_identity s \<notin> set (map record_identity records)"
      unfolding ids using script_rows_unique(1) [OF c1 s] s by auto
    then show "(if s_id s \<in> s_id ` set (map snd rest) then s\<lparr>s_is_retired := True\<rparr> else s) =
        (if s_project s = p \<and> script_identity s \<notin> set (map record_identity records) then s\<lparr>s_is_retired := True\<rparr> else s)"
      by (simp only:)
  qed simp
  show "script_constraints (synchronized p k records (scripts d))"
    unfolding eq [symmetric] by (rule script_constraints_update [OF c1]) (simp add: script_identity_def)
  from retire_rows_run [of "d\<lparr>scripts := after\<rparr>" "map snd rest" 0] c1 drest sub
  obtain m where "retire_rows (map snd rest) (d\<lparr>scripts := after\<rparr>) 0 = Inr (d\<lparr>scripts := synchronized p k records (scripts d)\<rparr>, m)"
    using eq by auto
  then show "\<exists>retired written. synchronize_scripts p k records d = Inr (d\<lparr>scripts := synchronized p k records (scripts d)\<rparr>,
      \<lparr>sync_published = length records, sync_retired = retired, sync_written = written\<rparr>)"
    using run by (simp add: synchronize_scripts_def mine_def [symmetric] rows_def [symmetric])
qed

lemma synchronized_other:
  assumes "s_project s \<noteq> p"
  shows "s \<in> set (synchronized p k records rows) \<longleftrightarrow> s \<in> set rows"
proof -
  have "s \<in> set (synchronized p k records rows) \<longleftrightarrow> s \<in> set (fold (publish_step p k) records rows)" (is "?l \<longleftrightarrow> ?r")
  proof
    assume ?l
    then obtain x where x: "x \<in> set (fold (publish_step p k) records rows)"
        "s = (if s_project x = p \<and> script_identity x \<notin> set (map record_identity records) then x\<lparr>s_is_retired := True\<rparr> else x)"
      unfolding synchronized_def update_rows_in by blast
    with assms show ?r by (auto split: if_splits)
  next
    assume ?r
    with assms show ?l unfolding synchronized_def update_rows_in by (intro bexI [of _ s]) simp_all
  qed
  then show ?thesis using fold_publish_other [of s p records k rows] assms by simp
qed

lemma synchronized_mine:
  assumes "s \<in> set (synchronized p k records rows)" "s_project s = p" "script_identity s \<notin> record_identity ` set records"
  shows "s_is_retired s"
proof -
  from assms(1) obtain x where x: "x \<in> set (fold (publish_step p k) records rows)"
      "s = (if s_project x = p \<and> script_identity x \<notin> set (map record_identity records) then x\<lparr>s_is_retired := True\<rparr> else x)"
    unfolding synchronized_def update_rows_in by blast
  show ?thesis
  proof (cases "s_project x = p \<and> script_identity x \<notin> set (map record_identity records)")
    case True
    with x(2) show ?thesis by simp
  next
    case False
    then have "s = x" using x(2) by (simp only: if_False)
    with False assms(2,3) show ?thesis by simp
  qed
qed

lemma synchronized_published:
  assumes "distinct (map record_identity records)" "v \<in> set records"
  shows "\<exists>s \<in> set (synchronized p k records rows). publishes p k v s"
proof -
  obtain s where s: "s \<in> set (fold (publish_step p k) records rows)" "publishes p k v s"
    using fold_publish_publishes [OF assms] by blast
  then have "\<not> (s_project s = p \<and> script_identity s \<notin> set (map record_identity records))"
    using assms(2) by (auto simp: publishes_def)
  with s(1) have "s \<in> set (synchronized p k records rows)"
    unfolding synchronized_def update_rows_in by (intro bexI [of _ s]) (simp_all only: if_False)
  with s(2) show ?thesis by blast
qed

lemma synchronized_keeps:
  assumes "s \<in> set rows"
  shows "\<exists>t \<in> set (synchronized p k records rows). same_script s t"
proof -
  obtain t where t: "t \<in> set (fold (publish_step p k) records rows)" "same_script s t" using fold_publish_keeps [OF assms] by blast
  have "(if s_project t = p \<and> script_identity t \<notin> set (map record_identity records) then t\<lparr>s_is_retired := True\<rparr> else t)
      \<in> set (synchronized p k records rows)"
    unfolding synchronized_def by (rule update_rows_mem [OF t(1)])
  moreover have "same_script s (if s_project t = p \<and> script_identity t \<notin> set (map record_identity records) then t\<lparr>s_is_retired := True\<rparr> else t)"
    using t(2) by (simp add: same_script_def script_identity_def)
  ultimately show ?thesis by blast
qed

section \<open>Publication follows the active revision\<close>

definition live_identities :: "pk \<Rightarrow> db \<Rightarrow> (pystr \<times> pystr) set" where
  "live_identities p d = script_identity ` {s \<in> set (scripts d). s_project s = p \<and> \<not> s_is_retired s}"

definition recorded_identities :: "db \<Rightarrow> pk option \<Rightarrow> (pystr \<times> pystr) set" where
  "recorded_identities d active = (case Option.bind active (revision_of d) of
      Some r \<Rightarrow> (case r_discovered_scripts r of JList vs \<Rightarrow> record_identity ` set vs | _ \<Rightarrow> {})
    | None \<Rightarrow> {})"

definition publication_ok :: "db \<Rightarrow> bool" where
  "publication_ok d \<longleftrightarrow> script_constraints (scripts d) \<and>
     (\<forall>p \<in> set (projects d). live_identities (p_id p) d = recorded_identities d (p_active_revision p))"

lemma live_synchronized:
  assumes "distinct (map record_identity records)" "scripts d' = synchronized p k records (scripts d)"
  shows "live_identities q d' = (if q = p then record_identity ` set records else live_identities q d)"
proof (cases "q = p")
  case True
  have "live_identities p d' = record_identity ` set records"
  proof (rule subset_antisym; rule subsetI)
    fix i assume "i \<in> live_identities p d'"
    then obtain s where "s \<in> set (synchronized p k records (scripts d))" "s_project s = p" "\<not> s_is_retired s" "i = script_identity s"
      by (auto simp: live_identities_def assms(2))
    with synchronized_mine show "i \<in> record_identity ` set records" by blast
  next
    fix i assume "i \<in> record_identity ` set records"
    then obtain v where v: "v \<in> set records" "i = record_identity v" by blast
    with synchronized_published [OF assms(1) v(1), of p k "scripts d"]
    obtain s where "s \<in> set (scripts d')" "publishes p k v s" by (auto simp: assms(2))
    with v(2) show "i \<in> live_identities p d'" unfolding live_identities_def publishes_def by (intro image_eqI [of _ _ s]) simp_all
  qed
  with True show ?thesis by simp
next
  case False
  then have "{s \<in> set (scripts d'). s_project s = q \<and> \<not> s_is_retired s} = {s \<in> set (scripts d). s_project s = q \<and> \<not> s_is_retired s}"
    using synchronized_other [of _ p k records "scripts d"] by (auto simp: assms(2))
  with False show ?thesis by (simp add: live_identities_def)
qed

lemma validated_records_InrD:
  assumes "validated_records N r = Inr records"
  shows "r_discovered_scripts r = JList records \<and> distinct (map record_identity records)"
  using assms
  by (auto simp: validated_records_def validate_discovered_scripts_def result_simps
      split: sum.splits json.splits py_error.splits dest!: validate_discovered_entries_InrD)

lemma publish_on_promote_derives: "derives_only (publish_on_promote N repair)"
proof -
  have save: "projects d' = projects d \<and> revisions d' = revisions d \<and> script_files d' = script_files d"
    if "save_script adding uf s d = Inr d'" for adding uf s d d'
    using that by (auto simp: save_script_def Let_def result_simps)
  have changes: "projects d' = projects d \<and> revisions d' = revisions d \<and> script_files d' = script_files d"
    if "save_changes values row d = Inr (d', wrote)" for "values" row d d' wrote
    using that save by (auto simp: save_changes_def Let_def result_simps split: if_splits)
  have loop: "publish_records p k vs rows d n = Inr (d', rest, m) \<Longrightarrow>
      projects d' = projects d \<and> revisions d' = revisions d \<and> script_files d' = script_files d" for p k vs rows d n d' rest m
  proof (induction p k vs rows d n rule: publish_records.induct)
    case (2 p k v vs rows d n)
    show ?case
    proof (cases "map_of rows (record_identity v)")
      case None
      with "2.prems" obtain d1 where d1: "save_script True None (new_script p k v (scripts d)) d = Inr d1"
          "publish_records p k vs rows d1 (n + 1) = Inr (d', rest, m)" by (auto simp: result_simps)
      with "2.IH"(1) [OF None d1(2)] save [OF d1(1)] show ?thesis by simp
    next
      case (Some row)
      with "2.prems" obtain d1 wrote where d1: "save_changes (publication v k) row d = Inr (d1, wrote)"
          "publish_records p k vs (AList.delete (record_identity v) rows) d1 (n + (if wrote then 1 else 0)) = Inr (d', rest, m)"
        by (auto simp: result_simps)
      with "2.IH"(2) [OF Some d1(2)] changes [OF d1(1)] show ?thesis by simp
    qed
  qed simp
  have retire: "retire_rows rows d n = Inr (d', m) \<Longrightarrow>
      projects d' = projects d \<and> revisions d' = revisions d \<and> script_files d' = script_files d" for rows d n d' m
  proof (induction rows arbitrary: d n)
    case (Cons row rows)
    from Cons.prems obtain d1 wrote where d1: "save_changes retirement row d = Inr (d1, wrote)"
        "retire_rows rows d1 (n + (if wrote then 1 else 0)) = Inr (d', m)" by (auto simp: result_simps)
    from Cons.IH [OF d1(2)] changes [OF d1(1)] show ?case by simp
  qed simp
  show ?thesis
    unfolding derives_only_def
    by (auto simp: publish_on_promote_def synchronize_scripts_def Let_def result_simps split: if_splits
        dest!: loop retire)
qed

section \<open>Reading the active revision back\<close>

lemma revision_of_map:
  assumes "revisions d' = map f (revisions d)" "\<And>x. r_id (f x) = r_id x"
  shows "revision_of d' k = map_option f (revision_of d k)"
proof -
  have "List.find (\<lambda>r. r_id r = k) (map f rs) = map_option f (List.find (\<lambda>r. r_id r = k) rs)" for rs
    using assms(2) by (induction rs) auto
  then show ?thesis by (simp add: revision_of_def assms(1))
qed

lemma recorded_map:
  assumes "revisions d' = map f (revisions d)" "\<And>x. r_id (f x) = r_id x" "\<And>x. r_discovered_scripts (f x) = r_discovered_scripts x"
  shows "recorded_identities d' active = recorded_identities d active"
  using revision_of_map [of d' f d, OF assms(1,2)] assms(3)
  by (cases active) (auto simp: recorded_identities_def split: option.splits)

lemma promoted_revisions:
  "revisions (promoted p r now d) = map (\<lambda>x. if r_id x = r_id r then activate now x
     else if p_active_revision p = Some (r_id x) then retire x else x) (revisions d)"
  by (simp add: promoted_def activated_rows_def retired_rows_def update_rows_def)

lemma promoted_active:
  assumes "q \<in> set (projects (promoted p r now d))"
  shows "\<exists>x \<in> set (projects d). p_id q = p_id x \<and>
    p_active_revision q = (if p_id x = p_id p then Some (r_id r) else p_active_revision x)"
proof -
  from assms obtain y where y: "y \<in> set (consumed_rows p r (projects d))"
      "q = (if p_id y = p_id p then y\<lparr>p_active_revision := Some (r_id r)\<rparr> else y)"
    by (auto simp: promoted_def pointed_rows_in)
  from consumed_rows_in [OF y(1)] obtain x where "x \<in> set (projects d)" "p_id y = p_id x" "p_active_revision y = p_active_revision x"
    by blast
  with y(2) show ?thesis by (intro bexI [of _ x]) simp_all
qed

text \<open>One activation: the pointer moves and the scripts follow.\<close>

lemma published_after:
  assumes "publication_ok d" and d1: "publish_on_promote N repair p r d = Inr d1" and rin: "revision_of d (r_id r) = Some r"
    and proj: "\<And>q. q \<in> set (projects d') \<Longrightarrow> \<exists>x \<in> set (projects d). p_id q = p_id x \<and>
      p_active_revision q = (if p_id x = p_id p then Some (r_id r) else p_active_revision x)"
    and rec: "\<And>a. recorded_identities d' a = recorded_identities d a" and scr: "scripts d' = scripts d1"
  shows "publication_ok d'"
proof -
  from d1 obtain records outcome where v: "validated_records N r = Inr records"
      and sync: "synchronize_scripts (p_id p) (r_id r) records d = Inr (d1, outcome)"
    by (auto simp: publish_on_promote_def result_simps split: if_splits)
  have recs: "r_discovered_scripts r = JList records" "distinct (map record_identity records)"
    using validated_records_InrD [OF v] by simp_all
  have c: "script_constraints (scripts d)" using assms(1) by (simp add: publication_ok_def)
  have s: "scripts d' = synchronized (p_id p) (r_id r) records (scripts d)"
    using synchronize_scripts_run(2) [OF c recs(2), of "p_id p" "r_id r"] sync by (auto simp: scr)
  have "live_identities (p_id q) d' = recorded_identities d' (p_active_revision q)" if q: "q \<in> set (projects d')" for q
  proof -
    from proj [OF q] obtain x where x: "x \<in> set (projects d)" "p_id q = p_id x"
      "p_active_revision q = (if p_id x = p_id p then Some (r_id r) else p_active_revision x)" by blast
    have live: "live_identities (p_id x) d' = (if p_id x = p_id p then record_identity ` set records else live_identities (p_id x) d)"
      by (rule live_synchronized [OF recs(2) s])
    show ?thesis
    proof (cases "p_id x = p_id p")
      case True
      have "recorded_identities d' (Some (r_id r)) = record_identity ` set records"
        by (subst rec) (simp add: recorded_identities_def rin recs(1))
      with True show ?thesis using live x(2,3) by simp
    next
      case False
      then show ?thesis using live x assms(1) by (simp add: rec publication_ok_def)
    qed
  qed
  then show ?thesis using synchronize_scripts_run(1) [OF c recs(2)] s by (simp add: publication_ok_def)
qed

lemma activation_keeps_publication:
  assumes ok: "pointers_ok d" "publication_ok d"
    and run: "promote_tx E snapshot k (publish_on_promote N repair) automatic now d = Inr (d', result)"
  shows "publication_ok d'"
  using ok(1) publish_on_promote_derives run
proof (cases rule: promote_tx_InrD)
  case refused
  with ok(2) show ?thesis by simp
next
  case (promoted p r d1)
  have frame: "projects d1 = projects d" "revisions d1 = revisions d"
    using publish_on_promote_derives promoted(9) by (auto simp: derives_only_def)
  have rin: "revision_of d (r_id r) = Some r" by (rule revision_of_member [OF pointers_okD(4) [OF ok(1)] promoted(3)])
  show ?thesis
  proof (rule published_after [OF ok(2) promoted(9) rin])
    show "\<exists>x \<in> set (projects d). p_id q = p_id x \<and>
        p_active_revision q = (if p_id x = p_id p then Some (r_id r) else p_active_revision x)" if "q \<in> set (projects d')" for q
      using promoted_active [of q p r now d1] that by (simp add: promoted(10) frame)
    show "recorded_identities d' a = recorded_identities d a" for a
    proof (rule recorded_map)
      show "revisions d' = map (\<lambda>x. if r_id x = r_id r then activate now x
          else if p_active_revision p = Some (r_id x) then retire x else x) (revisions d)"
        by (simp add: promoted(10) promoted_revisions frame)
    qed simp_all
    show "scripts d' = scripts d1" by (simp add: promoted(10) promoted_def)
  qed
next
  case (repaired p r d1)
  have frame: "projects d1 = projects d" "revisions d1 = revisions d"
    using publish_on_promote_derives repaired(8) by (auto simp: derives_only_def)
  have rin: "revision_of d (r_id r) = Some r" by (rule revision_of_member [OF pointers_okD(4) [OF ok(1)] repaired(2)])
  show ?thesis
  proof (rule published_after [OF ok(2) repaired(8) rin])
    fix q assume "q \<in> set (projects d')"
    then obtain x where x: "x \<in> set (projects d)" "p_id q = p_id x" "p_active_revision q = p_active_revision x"
      using consumed_rows_in [of q p r "projects d"] by (auto simp: repaired(9))
    have "x = p" if "p_id x = p_id p" by (rule distinct_map_eq [OF pointers_okD(3) [OF ok(1)] x(1) repaired(1) that])
    with x repaired(3,6) show "\<exists>x \<in> set (projects d). p_id q = p_id x \<and>
        p_active_revision q = (if p_id x = p_id p then Some (r_id r) else p_active_revision x)"
      by (intro bexI [of _ x]) auto
  next
    show "recorded_identities d' a = recorded_identities d a" for a
      by (rule recorded_map [where f = "\<lambda>x. x"]) (simp_all add: repaired(9) frame)
    show "scripts d' = scripts d1" by (simp add: repaired(9))
  qed
qed

section \<open>Standing down\<close>

definition stood_down :: "script_project \<Rightarrow> revision \<Rightarrow> db \<Rightarrow> db" where
  "stood_down p r d = d\<lparr>scripts := synchronized (p_id p) (r_id r) [] (scripts d),
     revisions := update_rows (\<lambda>x. r_id x = r_id r) retire (revisions d),
     projects := pointed_rows (p_id p) None (projects d)\<rparr>"

lemma deactivate_tx_run:
  assumes ok: "pointers_ok d" and c: "script_constraints (scripts d)" and p: "project_of d k = Some p"
    and active: "p_active_revision p = Some j"
  shows "\<exists>r. r \<in> set (revisions d) \<and> r_id r = j \<and> r_project r = k \<and> r_status r = ACTIVE \<and>
    deactivate_tx k j d = Inr (stood_down p r d, retire r)"
proof -
  have pin: "p \<in> set (projects d)" "p_id p = k" using project_of_SomeD [OF p] by simp_all
  from pointers_okD(5) [OF ok pin(1) active] obtain r where r: "r \<in> set (revisions d)" "r_id r = j" "r_project r = p_id p"
      "r_status r = ACTIVE" "truthy (r_digest r)" by blast
  have found: "revision_or_vanished j (Some (p_id p)) d = Inr r"
  proof -
    have "List.find (\<lambda>x. r_id x = j \<and> (Some (p_id p) \<noteq> None \<longrightarrow> Some (r_project x) = Some (p_id p))) (revisions d) = Some r"
    proof (rule find_unique [OF r(1)])
      fix y assume "y \<in> set (revisions d)" "r_id y = j \<and> (Some (p_id p) \<noteq> None \<longrightarrow> Some (r_project y) = Some (p_id p))"
      then show "y = r" by (intro distinct_map_eq [OF pointers_okD(4) [OF ok] _ r(1)]) (simp_all add: r(2))
    qed (use r in simp)
    then show ?thesis by (simp add: revision_or_vanished_def)
  qed
  obtain outcome where sync: "synchronize_scripts (p_id p) (r_id r) [] d =
      Inr (d\<lparr>scripts := synchronized (p_id p) (r_id r) [] (scripts d)\<rparr>, outcome)"
    using synchronize_scripts_run(2) [OF c, of "[]" "p_id p" "r_id r"] by auto
  define d1 where "d1 = d\<lparr>scripts := synchronized (p_id p) (r_id r) [] (scripts d)\<rparr>"
  have rows: "revisions d1 = revisions d" "projects d1 = projects d" by (simp_all add: d1_def)
  have con: "revision_constraints (update_rows (\<lambda>x. r_id x = r_id r) retire (revisions d))"
  proof (rule revision_constraints_update [OF pointers_okD(2) [OF ok]])
    fix x assume "x \<in> set (revisions d)" "r_id x = r_id r"
    then have "x = r" by (rule distinct_map_eq [OF pointers_okD(4) [OF ok] _ r(1)])
    then show "r_id (retire x) = r_id x \<and> r_project (retire x) = r_project x \<and> r_digest (retire x) = r_digest x \<and>
        r_script_file_digest (retire x) = r_script_file_digest x \<and> (r_status (retire x) = INVALID \<or> r_digest x \<noteq> None)"
      using r(5) by (simp add: truthy_def)
  qed simp
  have "save_revision False (Some [''status'', ''last_updated'']) (retire r) d1 =
      write_revisions d1 (update_rows (\<lambda>x. r_id x = r_id (retire r)) (copy_revision (Some [''status'', ''last_updated'']) (retire r)) (revisions d1))"
    by (rule save_revision_columns [of _ r]) (simp_all add: rows r(1) pointers_okD(4) [OF ok])
  then have save: "save_revision False (Some [''status'', ''last_updated'']) (retire r) d1 =
      Inr (d1\<lparr>revisions := update_rows (\<lambda>x. r_id x = r_id r) retire (revisions d)\<rparr>)"
    using con by (simp add: copy_columns write_revisions_def rows)
  define d2 where "d2 = d1\<lparr>revisions := update_rows (\<lambda>x. r_id x = r_id r) retire (revisions d)\<rparr>"
  have d2p: "projects d2 = projects d" by (simp add: d2_def rows)
  have row: "project_of d2 (p_id p) = Some p" using p pin(2) by (simp add: project_of_def d2_def rows)
  have pcon: "project_constraints (pointed_rows (p_id p) None (projects d))"
    unfolding pointed_rows_def by (rule project_constraints_update [OF pointers_okD(1) [OF ok]]) simp
  have mem: "p_id p \<in> set (map p_id (projects d2))" using pin by (simp add: d2_def rows rev_image_eqI)
  have point: "save_project False (Some [''active_revision'', ''last_updated'']) None (\<lambda>_. None)
      (p\<lparr>p_active_revision := None\<rparr>) d2 = Inr (d2\<lparr>projects := pointed_rows (p_id p) None (projects d2)\<rparr>)"
    using pcon mem d2p by (simp add: save_project_def Let_def row active_revision_error_def save_row_def write_projects_def
        pointed_rows_def copy_columns)
  have "deactivate_tx k j d = Inr (stood_down p r d, retire r)"
    using sync save point active
    by (simp add: deactivate_tx_def project_or_vanished_def p found r(2) d1_def [symmetric] d2_def [symmetric])
      (simp add: stood_down_def d2_def d1_def r(2))
  with r pin(2) show ?thesis by blast
qed

lemma stood_down_pointers:
  assumes ok: "pointers_ok d" and p: "p \<in> set (projects d)" "p_active_revision p = Some (r_id r)"
    and r: "r \<in> set (revisions d)" "r_project r = p_id p" "truthy (r_digest r)"
  shows "pointers_ok (stood_down p r d)"
proof -
  have rs: "revisions (stood_down p r d) = update_rows (\<lambda>x. r_id x = r_id r) retire (revisions d)"
    and ps: "projects (stood_down p r d) = pointed_rows (p_id p) None (projects d)" by (simp_all add: stood_down_def)
  have only: "x = r" if "x \<in> set (revisions d)" "r_id x = r_id r" for x
    by (rule distinct_map_eq [OF pointers_okD(4) [OF ok] that(1) r(1) that(2)])
  have rcon: "revision_constraints (revisions (stood_down p r d))"
    unfolding rs by (rule revision_constraints_update [OF pointers_okD(2) [OF ok]])
      (use only r(3) in \<open>auto simp: truthy_def\<close>)
  have pcon: "project_constraints (projects (stood_down p r d))"
    unfolding ps pointed_rows_def by (rule project_constraints_update [OF pointers_okD(1) [OF ok]]) simp
  have "\<exists>s \<in> set (revisions (stood_down p r d)). r_id s = k \<and> r_project s = p_id q \<and> r_status s = ACTIVE \<and> truthy (r_digest s)"
    if q: "q \<in> set (projects (stood_down p r d))" "p_active_revision q = Some k" for q k
  proof -
    from q(1) obtain y where y: "y \<in> set (projects d)" "q = (if p_id y = p_id p then y\<lparr>p_active_revision := None\<rparr> else y)"
      unfolding ps pointed_rows_in by blast
    have "p_id y \<noteq> p_id p" using q(2) y(2) by auto
    with y obtain x where x: "x \<in> set (projects d)" "q = x" "p_id x \<noteq> p_id p" by simp
    from pointers_okD(5) [OF ok x(1)] q(2) x(2) obtain s where s: "s \<in> set (revisions d)" "r_id s = k" "r_project s = p_id q"
        "r_status s = ACTIVE" "truthy (r_digest s)" by blast
    have "r_id s \<noteq> r_id r" using only [OF s(1)] s(3) r(2) x(2,3) by auto
    with s(1) have "s \<in> set (revisions (stood_down p r d))" unfolding rs update_rows_in by (intro bexI [of _ s]) simp_all
    with s show ?thesis by blast
  qed
  moreover have "\<exists>q \<in> set (projects (stood_down p r d)). p_id q = r_project s \<and> p_active_revision q = Some (r_id s)"
    if s: "s \<in> set (revisions (stood_down p r d))" "r_status s = ACTIVE" for s
  proof -
    from s(1) obtain y where y: "y \<in> set (revisions d)" "s = (if r_id y = r_id r then retire y else y)"
      unfolding rs update_rows_in by blast
    have "r_id y \<noteq> r_id r" using s(2) y(2) by auto
    with y have sd: "s \<in> set (revisions d)" "r_id s \<noteq> r_id r" by simp_all
    from pointers_okD(6) [OF ok sd(1) s(2)] obtain q where q: "q \<in> set (projects d)" "p_id q = r_project s"
        "p_active_revision q = Some (r_id s)" by blast
    have "p_id q \<noteq> p_id p" using distinct_map_eq [OF pointers_okD(3) [OF ok] q(1) p(1)] q(3) p(2) sd(2) by auto
    with q(1) have "q \<in> set (projects (stood_down p r d))" unfolding ps pointed_rows_in by (intro bexI [of _ q]) simp_all
    with q show ?thesis by blast
  qed
  ultimately show ?thesis using rcon pcon by (simp add: pointers_ok_def)
qed

lemma stood_down_publication:
  assumes "publication_ok d"
  shows "publication_ok (stood_down p r d)"
proof -
  have c: "script_constraints (scripts d)" using assms by (simp add: publication_ok_def)
  have rec: "recorded_identities (stood_down p r d) a = recorded_identities d a" for a
    by (rule recorded_map [where f = "\<lambda>x. if r_id x = r_id r then retire x else x"]) (simp_all add: stood_down_def update_rows_def)
  have live: "live_identities q (stood_down p r d) = (if q = p_id p then {} else live_identities q d)" for q
    using live_synchronized [of "[]" "stood_down p r d" "p_id p" "r_id r" d q] by (simp add: stood_down_def)
  have "live_identities (p_id q) (stood_down p r d) = recorded_identities (stood_down p r d) (p_active_revision q)"
    if "q \<in> set (projects (stood_down p r d))" for q
  proof -
    from that obtain x where x: "x \<in> set (projects d)" "q = (if p_id x = p_id p then x\<lparr>p_active_revision := None\<rparr> else x)"
      unfolding stood_down_def by (auto simp: pointed_rows_in)
    show ?thesis
      using assms x by (cases "p_id x = p_id p") (simp_all add: live rec publication_ok_def, simp add: recorded_identities_def)
  qed
  then show ?thesis
    using synchronize_scripts_run(1) [OF c, of "[]" "p_id p" "r_id r"] by (simp add: publication_ok_def stood_down_def)
qed

text \<open>Standing down, as a run from any state that keeps the invariants.\<close>

lemma deactivate_tx_keeps:
  assumes "pointers_ok d" "publication_ok d" and run: "deactivate_tx project k d = Inr (d', r)"
  shows "pointers_ok d' \<and> publication_ok d' \<and> r_id r = k \<and> r_status r = RETIRED \<and> live_identities project d' = {} \<and>
    (\<forall>q \<in> set (projects d'). p_id q = project \<longrightarrow> p_active_revision q = None) \<and>
    (\<exists>p x. d' = stood_down p x d)"
proof -
  from run obtain p where p: "project_of d project = Some p" and active: "p_active_revision p = Some k"
    by (auto simp: deactivate_tx_def result_simps project_or_vanished_def revision_or_vanished_def
        split: option.splits if_splits dest!: find_SomeD)
  have c: "script_constraints (scripts d)" using assms(2) by (simp add: publication_ok_def)
  from deactivate_tx_run [OF assms(1) c p active] run obtain x where x: "x \<in> set (revisions d)" "r_id x = k"
      "r_project x = project" "d' = stood_down p x d" "r = retire x" "r_status x = ACTIVE" by auto
  have pin: "p \<in> set (projects d)" "p_id p = project" using project_of_SomeD [OF p] by simp_all
  have "truthy (r_digest x)"
  proof -
    from pointers_okD(5) [OF assms(1) pin(1) active] obtain y where y: "y \<in> set (revisions d)" "r_id y = k" "truthy (r_digest y)"
      by blast
    have "y = x" by (rule distinct_map_eq [OF pointers_okD(4) [OF assms(1)] y(1) x(1)]) (simp add: y(2) x(2))
    with y(3) show ?thesis by simp
  qed
  then have "pointers_ok d'"
    unfolding x(4) by (intro stood_down_pointers [OF assms(1) pin(1) _ x(1)]) (simp_all add: active x pin)
  moreover have "publication_ok d'" unfolding x(4) by (rule stood_down_publication [OF assms(2)])
  moreover have none: "p_active_revision q = None" if "q \<in> set (projects d')" "p_id q = project" for q
  proof -
    from that(1) obtain y where y: "q = (if p_id y = p_id p then y\<lparr>p_active_revision := None\<rparr> else y)"
      unfolding x(4) stood_down_def by (auto simp: pointed_rows_in)
    show ?thesis using that(2) pin(2) unfolding y by (simp split: if_splits)
  qed
  moreover have "live_identities project d' = {}"
    using live_synchronized [of "[]" d' "p_id p" "r_id x" d project] pin(2) by (simp add: x(4) stood_down_def)
  moreover have "\<exists>p x. d' = stood_down p x d" using x(4) by blast
  ultimately show ?thesis using x(2,5) by simp
qed

section \<open>The properties of this theory\<close>

text \<open>
  C28. Synchronization implements its specification: for records with distinct identities it succeeds;
  afterwards every record is published by exactly the row of its identity, every other row of the
  project is retired, no row is lost and none changes its key, its identity or what an administrator
  set, and no other project is touched.
\<close>

theorem synchronize_scripts_exact:
  assumes "script_constraints (scripts d)" and "distinct (map record_identity records)"
  shows "\<exists>d' outcome. synchronize_scripts p k records d = Inr (d', outcome) \<and> d' = d\<lparr>scripts := scripts d'\<rparr> \<and>
    sync_published outcome = length records \<and> script_constraints (scripts d') \<and>
    (\<forall>v \<in> set records. \<exists>!s. s \<in> set (scripts d') \<and> s_project s = p \<and> script_identity s = record_identity v \<and> publishes p k v s) \<and>
    (\<forall>s \<in> set (scripts d'). s_project s = p \<and> script_identity s \<notin> record_identity ` set records \<longrightarrow> s_is_retired s) \<and>
    (\<forall>s \<in> set (scripts d). \<exists>t \<in> set (scripts d'). same_script s t) \<and>
    (\<forall>s. s_project s \<noteq> p \<longrightarrow> s \<in> set (scripts d') \<longleftrightarrow> s \<in> set (scripts d))"
proof -
  define rows where "rows = synchronized p k records (scripts d)"
  obtain outcome where run: "synchronize_scripts p k records d = Inr (d\<lparr>scripts := rows\<rparr>, outcome)" "sync_published outcome = length records"
    using synchronize_scripts_run(2) [OF assms] by (fastforce simp: rows_def)
  have con: "script_constraints rows" unfolding rows_def by (rule synchronize_scripts_run(1) [OF assms])
  have "\<exists>!s. s \<in> set rows \<and> s_project s = p \<and> script_identity s = record_identity v \<and> publishes p k v s"
    if v: "v \<in> set records" for v
  proof -
    obtain s where s: "s \<in> set rows" "publishes p k v s" unfolding rows_def using synchronized_published [OF assms(2) v] by blast
    show ?thesis
    proof (rule ex1I [of _ s])
      show "s \<in> set rows \<and> s_project s = p \<and> script_identity s = record_identity v \<and> publishes p k v s"
        using s by (simp add: publishes_def)
      fix t assume "t \<in> set rows \<and> s_project t = p \<and> script_identity t = record_identity v \<and> publishes p k v t"
      then show "t = s" using script_rows_unique(2) [OF con, of t s] s by (simp add: publishes_def)
    qed
  qed
  moreover have "s_is_retired s" if "s \<in> set rows" "s_project s = p" "script_identity s \<notin> record_identity ` set records" for s
    using that unfolding rows_def by (rule synchronized_mine)
  moreover have "\<exists>t \<in> set rows. same_script s t" if "s \<in> set (scripts d)" for s
    unfolding rows_def by (rule synchronized_keeps [OF that])
  moreover have "s \<in> set rows \<longleftrightarrow> s \<in> set (scripts d)" if "s_project s \<noteq> p" for s
    unfolding rows_def by (rule synchronized_other [OF that])
  ultimately show ?thesis using run con by (intro exI [of _ "d\<lparr>scripts := rows\<rparr>"] exI [of _ outcome]) auto
qed

definition example_record :: "pystr \<Rightarrow> json" where
  "example_record name = described_record (example_discovered\<lparr>d_name := name\<rparr>) 3 (lit ''deploy.py'') 0 JNull (lit ''always'')"

definition example_published :: db where
  "example_published = empty_db\<lparr>scripts := [(example_script 1 (lit ''A''))\<lparr>s_module_path := lit ''deploy''\<rparr>, example_script 2 (lit ''Gone'')]\<rparr>"

theorem synchronize_scripts_exact_witness:
  "\<exists>d' outcome. synchronize_scripts 1 6 [example_record (lit ''A''), example_record (lit ''B'')] example_published = Inr (d', outcome) \<and>
     sync_published outcome = 2 \<and> (\<exists>t \<in> set (scripts d'). s_id t = 2 \<and> s_is_retired t)"
proof -
  let ?records = "[example_record (lit ''A''), example_record (lit ''B'')]"
  have c: "script_constraints (scripts example_published)" "distinct (map record_identity ?records)" by code_simp+
  obtain d' outcome where run: "synchronize_scripts 1 6 ?records example_published = Inr (d', outcome)"
      "sync_published outcome = length ?records"
    and gone: "\<forall>s \<in> set (scripts d'). s_project s = 1 \<and> script_identity s \<notin> record_identity ` set ?records \<longrightarrow> s_is_retired s"
    and kept: "\<forall>s \<in> set (scripts example_published). \<exists>t \<in> set (scripts d'). same_script s t"
    using synchronize_scripts_exact [OF c, of 1 6] by blast
  have two: "example_script 2 (lit ''Gone'') \<in> set (scripts example_published)" by (simp add: example_published_def)
  then obtain t where t: "t \<in> set (scripts d')" "same_script (example_script 2 (lit ''Gone'')) t" using kept by blast
  have "script_identity (example_script 2 (lit ''Gone'')) \<notin> set (map record_identity ?records)" by code_simp
  moreover have ks: "s_project (example_script 2 (lit ''Gone'')) = 1" "s_id (example_script 2 (lit ''Gone'')) = 2"
    by (simp_all add: example_script_def)
  have keys: "script_identity t = script_identity (example_script 2 (lit ''Gone''))" "s_project t = 1" "s_id t = 2"
    using t(2) unfolding same_script_def ks by metis+
  ultimately have "script_identity t \<notin> record_identity ` set ?records" by simp
  with gone t(1) keys(2) have "s_is_retired t" by blast
  with t(1) keys(3) run show ?thesis by auto
qed

text \<open>
  What a project serves is what its active revision recorded: committing an activation, first
  time, repeated or declined, or standing a project down keeps, for every project, the unretired
  scripts equal to the records of the active revision, and keeps the pointer invariant.
\<close>

theorem activation_keeps_publication_exact:
  assumes "pointers_ok d" and "publication_ok d"
  shows "(case promote_tx E snapshot k (publish_on_promote N repair) automatic now d of
      Inl _ \<Rightarrow> True | Inr (d', _) \<Rightarrow> pointers_ok d' \<and> publication_ok d') \<and>
    (case deactivate_tx project k d of
      Inl _ \<Rightarrow> True
    | Inr (d', r) \<Rightarrow> pointers_ok d' \<and> publication_ok d' \<and> r_id r = k \<and> r_status r = RETIRED \<and>
        live_identities project d' = {} \<and> (\<forall>q \<in> set (projects d'). p_id q = project \<longrightarrow> p_active_revision q = None))"
proof -
  have "pointers_ok d' \<and> publication_ok d'"
    if "promote_tx E snapshot k (publish_on_promote N repair) automatic now d = Inr (d', res)" for d' res
    using promote_tx_invariant [OF assms(1) publish_on_promote_derives that] activation_keeps_publication [OF assms that] by blast
  moreover have "pointers_ok d' \<and> publication_ok d' \<and> r_id r = k \<and> r_status r = RETIRED \<and> live_identities project d' = {} \<and>
      (\<forall>q \<in> set (projects d'). p_id q = project \<longrightarrow> p_active_revision q = None)"
    if "deactivate_tx project k d = Inr (d', r)" for d' r
    using deactivate_tx_keeps [OF assms that] by blast
  ultimately show ?thesis by (auto split: sum.splits)
qed

lemma example_running_published: "publication_ok example_running"
proof -
  have "script_constraints (scripts example_running)" by code_simp
  then show ?thesis
    by (auto simp: publication_ok_def live_identities_def recorded_identities_def example_running_def revision_of_def
        example_project_def example_revision_def empty_db_def)
qed

theorem activation_keeps_publication_exact_witness:
  "\<exists>d' a d'' r. promote_tx ascii_python example_candidate 6 (publish_on_promote example_core False) False 9 example_running = Inr (d', Some a) \<and>
     pointers_ok d' \<and> publication_ok d' \<and> deactivate_tx 1 5 example_running = Inr (d'', r) \<and> r_status r = RETIRED \<and> publication_ok d''"
proof -
  let ?up = "promote_tx ascii_python example_candidate 6 (publish_on_promote example_core False) False 9 example_running"
  let ?down = "deactivate_tx 1 5 example_running"
  have "case ?up of Inr (d', Some a) \<Rightarrow> True | _ \<Rightarrow> False" "is_ok ?down" by code_simp+
  then obtain d' a d'' r where run: "?up = Inr (d', Some a)" "?down = Inr (d'', r)"
    by (auto simp: is_ok_iff split: sum.splits prod.splits option.splits)
  from activation_keeps_publication_exact [OF example_running_ok example_running_published,
      of ascii_python example_candidate 6 example_core False False 9 1]
    activation_keeps_publication_exact [OF example_running_ok example_running_published,
      of ascii_python example_candidate 5 example_core False False 9 1] run
  show ?thesis by auto
qed

end
