(* ===== verification/Staging.thy ===== *)
theory Staging
  imports Promotion
begin

text \<open>
  What staging guarantees: clean content on an honest backend is stored, settled and accepted;
  rejected content leaves the store and the accepted source alone; and whatever other connections do
  meanwhile, a row staging returns has left its write window.
\<close>

declare claim_window.simps [simp del]

section \<open>The canonical source\<close>

definition canonical_path :: "python \<Rightarrow> pystr \<Rightarrow> pystr" where
  "canonical_path E p = (case normalize_source_path E p of Inr c \<Rightarrow> c | Inl _ \<Rightarrow> p)"

lemma canonical_source_run:
  assumes "\<forall>f \<in> set files. is_ok (normalize_source_path E (fst f))"
    and "distinct (map fst acc @ map (canonical_path E \<circ> fst) files)"
  shows "canonical_source E files acc = Inr (acc @ map (\<lambda>f. (canonical_path E (fst f), snd f)) files)"
  using assms
proof (induction files arbitrary: acc)
  case (Cons f files)
  obtain p c where f: "f = (p, c)" by (cases f)
  obtain q where q: "normalize_source_path E p = Inr q" using Cons.prems(1) by (auto simp: f is_ok_iff)
  have can: "canonical_path E p = q" by (simp add: canonical_path_def q)
  have new: "map_of acc q = None" using Cons.prems(2) by (auto simp: f can map_of_eq_None_iff)
  have "canonical_source E files (acc @ [(q, c)]) = Inr ((acc @ [(q, c)]) @ map (\<lambda>f. (canonical_path E (fst f), snd f)) files)"
    using Cons.prems by (intro Cons.IH) (auto simp: f can)
  then show ?case by (simp add: f q new can)
qed simp

text \<open>The source of a clean build holds, under each canonical path, the content its entry describes.\<close>

lemma clean_source:
  assumes "lower_laws E" and b: "build_manifest E files limits = Inr (entries, [])"
  shows "\<exists>canon. canonical_source E files [] = Inr canon \<and>
    (\<forall>e \<in> set entries. \<exists>c. map_of canon (e_path e) = Some c \<and> matches E e c)"
proof -
  obtain es where es: "entries = sort_key e_path es" "list_all2 (accepts E limits) (sort_key fst files) es"
    using build_manifest_clean(1) [OF assms] by blast
  have len: "length (sort_key fst files) = length es" using es(2) by (rule list_all2_lengthD)
  have acc: "accepts E limits (sort_key fst files ! i) (es ! i)" if "i < length es" for i
    using es(2) that len by (simp add: list_all2_conv_all_nth)
  have can: "canonical_path E (fst (sort_key fst files ! i)) = e_path (es ! i)" if "i < length es" for i
    using acc [OF that] by (simp add: accepts_def canonical_path_def)
  have "map (canonical_path E \<circ> fst) (sort_key fst files) = map e_path es"
    by (rule nth_equalityI) (simp_all add: len [simplified] can)
  moreover have "mset (map (canonical_path E \<circ> fst) (sort_key fst files)) = mset (map (canonical_path E \<circ> fst) files)"
    by simp
  ultimately have ms: "mset (map (canonical_path E \<circ> fst) files) = mset (map e_path es)" by metis
  have "distinct (map e_path entries)" using build_manifest_shape [OF assms] by blast
  then have "distinct (map e_path es)"
    using es(1) mset_eq_imp_distinct_iff [of "map e_path entries" "map e_path es"] by simp
  then have dist: "distinct (map (canonical_path E \<circ> fst) files)" using mset_eq_imp_distinct_iff [OF ms] by simp
  have ok: "is_ok (normalize_source_path E (fst f))" if "f \<in> set files" for f
  proof -
    have "f \<in> set (sort_key fst files)" using that by simp
    then obtain i where "i < length (sort_key fst files)" "f = sort_key fst files ! i" by (metis in_set_conv_nth)
    with acc [of i] len show ?thesis by (simp add: accepts_def)
  qed
  have run: "canonical_source E files [] = Inr (map (\<lambda>f. (canonical_path E (fst f), snd f)) files)"
    using canonical_source_run [of files E "[]"] ok dist by simp
  have "\<exists>c. map_of (map (\<lambda>f. (canonical_path E (fst f), snd f)) files) (e_path e) = Some c \<and> matches E e c"
    if "e \<in> set entries" for e
  proof -
    from that es(1) obtain i where i: "i < length es" "e = es ! i" by (auto simp: in_set_conv_nth)
    define f where "f = sort_key fst files ! i"
    have f: "f \<in> set files" "accepts E limits f e"
      using i len acc [OF i(1)] nth_mem [of i "sort_key fst files"] by (simp_all add: f_def)
    have "canonical_path E (fst f) = e_path e" using can [OF i(1)] i(2) by (simp add: f_def)
    then have "(e_path e, snd f) \<in> set (map (\<lambda>f. (canonical_path E (fst f), snd f)) files)" using f(1) by force
    then have "map_of (map (\<lambda>f. (canonical_path E (fst f), snd f)) files) (e_path e) = Some (snd f)"
      using dist by (intro map_of_is_SomeI) (simp_all add: comp_def)
    moreover have "matches E e (snd f)" using f(2) by (simp add: accepts_def matches_def)
    ultimately show ?thesis by blast
  qed
  with run show ?thesis by blast
qed

section \<open>One staging without interference\<close>

lemma revision_constraints_append:
  assumes "revision_constraints rs" "r_id r \<notin> r_id ` set rs" "r_status r \<noteq> ACTIVE" "r_status r = INVALID \<or> r_digest r \<noteq> None"
    and "\<And>x. x \<in> set rs \<Longrightarrow> r_digest r \<noteq> None \<Longrightarrow>
      (r_project x, r_digest x, r_script_file_digest x) \<noteq> (r_project r, r_digest r, r_script_file_digest r)"
  shows "revision_constraints (rs @ [r])"
proof -
  define t where "t x = (r_project x, r_digest x, r_script_file_digest x)" for x :: revision
  have "t r \<notin> t ` set (filter (\<lambda>x. r_digest x \<noteq> None) rs)" if "r_digest r \<noteq> None"
  proof
    assume "t r \<in> t ` set (filter (\<lambda>x. r_digest x \<noteq> None) rs)"
    then obtain x where "x \<in> set rs" "t x = t r" by auto
    with assms(5) [OF this(1) that] show False by (simp add: t_def)
  qed
  then have "distinct (map t (filter (\<lambda>x. r_digest x \<noteq> None) (rs @ [r])))"
    using assms(1) by (simp add: revision_constraints_def t_def [abs_def, symmetric])
  then show ?thesis using assms(1-4) by (simp add: revision_constraints_def t_def [abs_def])
qed

lemma update_where_hit:
  assumes "revision_constraints (update_rows (\<lambda>x. r_id x = k \<and> r_status x \<in> set statuses) f (revisions d))"
    and "r \<in> set (revisions d)" "r_id r = k" "r_status r \<in> set statuses"
  shows "update_where k statuses f d =
    Inr (d\<lparr>revisions := update_rows (\<lambda>x. r_id x = k \<and> r_status x \<in> set statuses) f (revisions d)\<rparr>, True)"
  using assms by (auto simp: update_where_def Let_def write_revisions_def list_ex_iff)

text \<open>A change of state of the last row that is neither to nor from ACTIVE.\<close>

lemma update_last:
  assumes "revision_constraints (rs @ [r])" "P r" "\<And>x. x \<in> set rs \<Longrightarrow> \<not> P x"
    and "r_id (f r) = r_id r" "r_project (f r) = r_project r" "r_digest (f r) = r_digest r"
      "r_script_file_digest (f r) = r_script_file_digest r" "r_status (f r) \<noteq> ACTIVE" "r_digest r \<noteq> None"
  shows "update_rows P f (rs @ [r]) = rs @ [f r]" "revision_constraints (rs @ [f r])"
proof -
  have "map (\<lambda>x. if P x then f x else x) rs = rs" by (rule map_idI) (use assms(3) in auto)
  then show e: "update_rows P f (rs @ [r]) = rs @ [f r]" using assms(2) by (simp add: update_rows_def)
  have "revision_constraints (update_rows P f (rs @ [r]))"
    by (rule revision_constraints_update [OF assms(1)]) (use assms in auto)
  then show "revision_constraints (rs @ [f r])" by (simp only: e)
qed

text \<open>The three statements of a write window that nobody else touches.\<close>

lemma write_window_run:
  fixes w :: "'b world"
  assumes quiet: "w_others w = []" and ok: "revision_constraints (revisions (w_db w))"
    and p: "project_of (w_db w) project = Some p" and none: "find_identity project (Some dg) (snd frozen) (w_db w) = None"
    and dg: "dg = compute_digest E (map entry_json entries)"
    and manifest: "validate_manifest E (manifest_json entries) (Some dg) = Inr ()"
    and wrote: "write_revision E be (p_storage_key p) (Some dg) source (manifest_json entries) (w_store w) = (s', Inr pre)"
  shows "\<exists>r. stage_accepted E be project (p_storage_key p) source entries frozen w =
      (w\<lparr>w_db := (w_db w)\<lparr>revisions := revisions (w_db w) @ [r]\<rparr>, w_store := s'\<rparr>, Inr (r, True)) \<and>
    r = new_revision (w_db w) (w_now w) project (Some dg) MATERIALIZED (manifest_json entries) (length entries)
      (sum_list (map e_size entries)) [] (fst frozen) (snd frozen) \<and>
    revision_constraints (revisions (w_db w) @ [r])"
proof -
  define rs where "rs = revisions (w_db w)"
  define row where "row st = new_revision (w_db w) (w_now w) project (Some dg) st (manifest_json entries) (length entries)
      (sum_list (map e_size entries)) [] (fst frozen) (snd frozen)" for st
  have row: "r_id (row st) = fresh (map r_id rs)" "r_project (row st) = project" "r_digest (row st) = Some dg"
    "r_status (row st) = st" "r_script_file_digest (row st) = snd frozen" "r_manifest (row st) = manifest_json entries"
    "r_file_count (row st) = length entries" "r_total_size (row st) = sum_list (map e_size entries)" for st
    by (simp_all add: row_def new_revision_def rs_def)
  have upd: "reenter (row STAGING) = row STAGING" "write_settled (row STAGING) = row MATERIALIZED"
    by (simp_all add: reenter_def write_settled_def row_def new_revision_def)
  have new: "fresh (map r_id rs) \<notin> r_id ` set rs" using fresh_notin [of "map r_id rs"] by simp
  have cs: "revision_constraints (rs @ [row STAGING])"
  proof (rule revision_constraints_append)
    fix x assume x: "x \<in> set rs"
    have "\<not> (r_project x = project \<and> r_digest x = Some dg \<and> r_script_file_digest x = snd frozen)"
      using none x by (auto simp: find_identity_def find_None_iff rs_def)
    then show "(r_project x, r_digest x, r_script_file_digest x) \<noteq>
        (r_project (row STAGING), r_digest (row STAGING), r_script_file_digest (row STAGING))" by (simp add: row)
  qed (use ok new in \<open>simp_all add: row rs_def\<close>)
  define at where "at st = w\<lparr>w_db := (w_db w)\<lparr>revisions := rs @ [row st]\<rparr>\<rparr>" for st
  have quiet': "w_others (at st) = []" "w_store (at st) = w_store w" "revisions (w_db (at st)) = rs @ [row st]" for st
    by (simp_all add: at_def quiet)
  have retryable: "STAGING \<in> set RETRYABLE_REVISION_STATUSES" by (simp add: status_groups)
  have others: "r_id x \<noteq> fresh (map r_id rs)" if "x \<in> set rs" for x
  proof
    assume "r_id x = fresh (map r_id rs)"
    with that have "fresh (map r_id rs) \<in> r_id ` set rs" by (metis imageI)
    with new show False by contradiction
  qed
  have get: "get_or_create project (Some dg) (snd frozen) (\<lambda>d. new_revision d (w_now w) project (Some dg) STAGING
      (manifest_json entries) (length entries) (sum_list (map e_size entries)) [] (fst frozen) (snd frozen)) w =
      (at STAGING, Inr (row STAGING, True))"
    using cs none p by (simp add: get_or_create_def sbind_def select_def statement_def Let_def quiet insert_revision_def
        row_def [symmetric] row rs_def [symmetric] write_revisions_def at_def ret_def)
  have reup: "update_where (fresh (map r_id rs)) RETRYABLE_REVISION_STATUSES reenter (w_db (at STAGING)) = Inr (w_db (at STAGING), True)"
  proof -
    have e: "update_rows (\<lambda>x. r_id x = fresh (map r_id rs) \<and> r_status x \<in> set RETRYABLE_REVISION_STATUSES) reenter (rs @ [row STAGING]) =
        rs @ [reenter (row STAGING)]"
      by (rule update_last(1) [OF cs]) (use others in \<open>simp_all add: row upd status_groups\<close>)
    have "update_where (fresh (map r_id rs)) RETRYABLE_REVISION_STATUSES reenter (w_db (at STAGING)) =
        Inr ((w_db (at STAGING))\<lparr>revisions := update_rows (\<lambda>x. r_id x = fresh (map r_id rs) \<and> r_status x \<in> set RETRYABLE_REVISION_STATUSES)
          reenter (revisions (w_db (at STAGING)))\<rparr>, True)"
      by (rule update_where_hit [where r = "row STAGING"]) (use cs retryable in \<open>simp_all add: quiet' e upd row\<close>)
    also have "(w_db (at STAGING))\<lparr>revisions := update_rows (\<lambda>x. r_id x = fresh (map r_id rs) \<and> r_status x \<in> set RETRYABLE_REVISION_STATUSES)
          reenter (revisions (w_db (at STAGING)))\<rparr> = w_db (at STAGING)"
      unfolding quiet' e upd by (simp add: at_def)
    finally show ?thesis .
  qed
  have claim: "claim_window verify (row STAGING) (at STAGING) = (at STAGING, Inr (row STAGING, True))" for verify
  proof -
    have "statement (update_where (r_id (row STAGING)) RETRYABLE_REVISION_STATUSES reenter) (at STAGING) = (at STAGING, Inr True)"
      by (simp add: statement_def Let_def quiet' row reup)
    then show ?thesis by (subst claim_window.simps) (simp add: row status_groups)
  qed
  have vm: "validated_manifest E (row STAGING) = Inr (manifest_json entries)"
    by (simp add: validated_manifest_def row manifest)
  define fin where "fin = (at MATERIALIZED)\<lparr>w_store := s'\<rparr>"
  have settle: "update_where (fresh (map r_id rs)) [STAGING] write_settled (w_db (at STAGING)) = Inr (w_db (at MATERIALIZED), True)"
    and cm: "revision_constraints (rs @ [row MATERIALIZED])"
  proof -
    have e: "update_rows (\<lambda>x. r_id x = fresh (map r_id rs) \<and> r_status x \<in> set [STAGING]) write_settled (rs @ [row STAGING]) =
        rs @ [write_settled (row STAGING)]"
      and cc: "revision_constraints (rs @ [write_settled (row STAGING)])"
      by (rule update_last [OF cs, where P = "\<lambda>x. r_id x = fresh (map r_id rs) \<and> r_status x \<in> set [STAGING]"];
          use others in \<open>simp add: row upd\<close>)+
    then show "revision_constraints (rs @ [row MATERIALIZED])" by (simp add: upd)
    have "update_where (fresh (map r_id rs)) [STAGING] write_settled (w_db (at STAGING)) =
        Inr ((w_db (at STAGING))\<lparr>revisions := update_rows (\<lambda>x. r_id x = fresh (map r_id rs) \<and> r_status x \<in> set [STAGING])
          write_settled (revisions (w_db (at STAGING)))\<rparr>, True)"
      by (rule update_where_hit [where r = "row STAGING"]) (use cc in \<open>simp_all add: quiet' e [simplified] row\<close>)
    then show "update_where (fresh (map r_id rs)) [STAGING] write_settled (w_db (at STAGING)) = Inr (w_db (at MATERIALIZED), True)"
      using e by (simp add: quiet' upd) (simp add: at_def)
  qed
  have refresh: "refresh_surviving (fresh (map r_id rs)) (w_db (at MATERIALIZED)) = Inr (row MATERIALIZED)"
  proof -
    have "revision_of (w_db (at MATERIALIZED)) (r_id (row MATERIALIZED)) = Some (row MATERIALIZED)"
      by (rule revision_of_member) (use cm in \<open>simp_all add: quiet' revision_constraints_def\<close>)
    then show ?thesis by (simp add: refresh_surviving_def row)
  qed
  have last: "(at STAGING)\<lparr>w_store := s', w_db := w_db (at MATERIALIZED)\<rparr> = fin" by (simp add: fin_def at_def)
  have still: "w_others fin = []" "w_db fin = w_db (at MATERIALIZED)" by (simp_all add: fin_def quiet')
  have "stage_accepted E be project (p_storage_key p) source entries frozen w = (fin, Inr (row MATERIALIZED, True))"
    using wrote
    by (simp add: stage_accepted_def Let_def dg [symmetric] sbind_def get claim vm on_storage_failure_def on_store_def
        statement_def select_def quiet' row settle last still refresh ret_def)
  then show ?thesis
    using cm by (intro exI [of _ "row MATERIALIZED"]) (simp add: fin_def at_def row_def rs_def)
qed

lemma accept_run:
  assumes quiet: "w_others w = []" and ps: "project_constraints (projects (w_db w))" and p: "project_of (w_db w) (r_project r) = Some p"
    and r: "revision_of (w_db w) (r_id r) \<noteq> None" "truthy (r_digest r)" "r_status r = MATERIALIZED"
  shows "\<exists>q. accept_source r once w = (w\<lparr>w_db := (w_db w)\<lparr>projects := update_rows (\<lambda>x. p_id x = r_project r)
      (\<lambda>x. x\<lparr>p_source_revision := Some (r_id r), p_source_activation_pending := q\<rparr>) (projects (w_db w))\<rparr>\<rparr>, Inr ()) \<and>
    (q \<longleftrightarrow> once \<or> p_source_revision p = Some (r_id r) \<and> p_source_activation_pending p)"
proof -
  have con: "project_constraints (update_rows (\<lambda>x. p_id x = r_project r)
      (\<lambda>x. x\<lparr>p_source_revision := Some (r_id r), p_source_activation_pending := q\<rparr>) (projects (w_db w)))" for q
    by (rule project_constraints_update [OF ps]) simp
  show ?thesis
    using r p con
    by (intro exI [of _ "once \<or> p_source_revision p = Some (r_id r) \<and> p_source_activation_pending p"])
      (simp add: accept_source_def sbind_def select_def statement_def Let_def quiet status_groups write_projects_def)
qed

lemma digest_nonempty: "sha_laws E \<Longrightarrow> compute_digest E entries \<noteq> []"
  by (auto simp: sha_laws_def is_hex_digest_def compute_digest_def json_sha256_def)
     (metis list.size(3) zero_neq_numeral)

section \<open>Staging under interference\<close>

text \<open>
  The rely condition of the project lock: no other connection puts a row into its write window or
  moves a row inside it.
\<close>

definition leaves_window :: "(db \<Rightarrow> db) \<Rightarrow> bool" where
  "leaves_window f \<longleftrightarrow> (\<forall>d k r. revision_of (f d) k = Some r \<and> r_status r \<in> set RETRYABLE_REVISION_STATUSES \<longrightarrow>
     (\<exists>s. revision_of d k = Some s \<and> r_status s = r_status r))"

definition relies :: "'b world \<Rightarrow> bool" where
  "relies w \<longleftrightarrow> (\<forall>f \<in> set (w_others w). leaves_window f)"

text \<open>The status of a row inside its write window is stable under interference.\<close>

definition window_status :: "db \<Rightarrow> pk \<Rightarrow> revision_status option" where
  "window_status d k = (case revision_of d k of None \<Rightarrow> None
     | Some r \<Rightarrow> if r_status r \<in> set RETRYABLE_REVISION_STATUSES then Some (r_status r) else None)"

lemma interfere_window:
  assumes "relies w"
  shows "relies (interfere w)" and "window_status (w_db (interfere w)) k \<in> {None, window_status (w_db w) k}"
proof -
  show "relies (interfere w)" using assms by (simp add: relies_def interfere_def split: list.split)
  show "window_status (w_db (interfere w)) k \<in> {None, window_status (w_db w) k}"
  proof (cases "w_others w")
    case Nil
    then show ?thesis by simp
  next
    case (Cons f fs)
    then have "leaves_window f" using assms by (simp add: relies_def)
    then have "\<exists>s. revision_of (w_db w) k = Some s \<and> r_status s = r_status r"
      if "revision_of (f (w_db w)) k = Some r" "r_status r \<in> set RETRYABLE_REVISION_STATUSES" for r
      using that unfolding leaves_window_def by blast
    then show ?thesis
      by (fastforce simp: window_status_def interfere_def Cons split: option.splits if_splits)
  qed
qed

lemma select_window:
  assumes "select f w = (w', r)" "relies w"
  shows "relies w' \<and> window_status (w_db w') k \<in> {None, window_status (w_db w) k} \<and> w_store w' = w_store w"
  using interfere_window [OF assms(2)] assms(1) by (auto simp: select_def Let_def)

lemma statement_relies:
  assumes "statement f w = (w', r)" "relies w"
  shows "relies w' \<and> w_store w' = w_store w"
  using interfere_window [OF assms(2)] assms(1) by (auto simp: statement_def Let_def relies_def split: sum.splits)

lemma update_where_window:
  assumes "update_where k statuses f d = Inr (d', hit)" "\<And>r. r_id (f r) = r_id r"
  shows "revision_of d' k = map_option (\<lambda>r. if r_status r \<in> set statuses then f r else r) (revision_of d k)"
proof -
  have rows: "revisions d' = update_rows (\<lambda>r. r_id r = k \<and> r_status r \<in> set statuses) f (revisions d)"
    using assms(1) by (auto simp: update_where_def Let_def result_simps)
  show ?thesis
    unfolding revision_of_def rows find_update_rows [where f = r_id and g = f, OF assms(2)]
    by (rule map_option_cong) (auto dest: find_SomeD)
qed

lemma update_where_hit_status:
  assumes "update_where k statuses f d = Inr (d', True)" "\<And>r. r_id (f r) = r_id r"
  shows "\<exists>r. revision_of d k = Some r \<and> r_status r \<in> set statuses \<and> revision_of d' k = Some (f r)"
proof -
  obtain r where r: "r \<in> set (revisions d)" "r_id r = k" "r_status r \<in> set statuses"
    and con: "revision_constraints (revisions d')"
    and rows: "revisions d' = update_rows (\<lambda>r. r_id r = k \<and> r_status r \<in> set statuses) f (revisions d)"
    using assms(1) by (auto simp: update_where_def Let_def result_simps list_ex_iff)
  have "map r_id (revisions d') = map r_id (revisions d)" unfolding rows by (simp add: map_update_rows assms(2))
  then have "distinct (map r_id (revisions d))" using con by (simp add: revision_constraints_def)
  then have "revision_of d k = Some r" using revision_of_member [of d r] r by simp
  with update_where_window [OF assms] r(3) show ?thesis by simp
qed

lemma claim_window_result:
  "claim_window verify r w = (w', Inr (r', claimed)) \<Longrightarrow> relies w \<Longrightarrow> (\<And>r w w' res. verify r w = (w', res) \<Longrightarrow> w_others w' = w_others w) \<Longrightarrow>
    relies w' \<and> (if claimed then window_status (w_db w') (r_id r') = Some STAGING
      else r_status r' \<notin> set RETRYABLE_REVISION_STATUSES)"
proof (induction verify r w rule: claim_window.induct)
  case (1 verify r w)
  show ?case
  proof (cases "r_status r \<in> set STORED_REVISION_STATUSES")
    case True
    from "1.prems"(1) have run: "sbind (verify r) (\<lambda>_. ret (r, False)) w = (w', Inr (r', claimed))"
      by (subst (asm) claim_window.simps) (simp add: True)
    then obtain u where u: "verify r w = (w', Inr u)" "r' = r" "\<not> claimed"
      by (auto simp: sbind_def ret_def split: prod.splits sum.splits)
    have "relies w'" using "1.prems"(2) "1.prems"(3) [OF u(1)] by (simp add: relies_def)
    with u True show ?thesis by (auto simp: status_groups)
  next
    case stored: False
    show ?thesis
    proof (cases "r_status r \<in> set RETRYABLE_REVISION_STATUSES")
      case False
      from "1.prems"(1) have "w' = w \<and> r' = r \<and> \<not> claimed"
        by (subst (asm) claim_window.simps) (auto simp: stored False)
      with "1.prems"(2) False show ?thesis by simp
    next
      case True
      define st where "st = statement (update_where (r_id r) RETRYABLE_REVISION_STATUSES reenter) w"
      obtain w1 res where w1: "st = (w1, res)" by (cases st)
      have rel1: "relies w1" using statement_relies [OF w1 [unfolded st_def] "1.prems"(2)] by simp
      show ?thesis
      proof (cases res)
        case (Inl e)
        with "1.prems"(1) show ?thesis
          by (subst (asm) claim_window.simps) (simp add: stored True st_def [symmetric] w1)
      next
        case (Inr hit)
        show ?thesis
        proof (cases hit)
          case hit: True
          from "1.prems"(1) have eq: "w' = w1" "r' = r" "claimed"
            by (subst (asm) claim_window.simps, simp add: stored True st_def [symmetric] w1 Inr hit)+
          from w1 Inr hit obtain d where "update_where (r_id r) RETRYABLE_REVISION_STATUSES reenter d = Inr (w_db w1, True)"
            by (auto simp: st_def statement_def Let_def split: sum.splits)
          from update_where_hit_status [OF this] obtain x where "revision_of (w_db w1) (r_id r) = Some (reenter x)"
            by (auto simp: reenter_def)
          with rel1 eq show ?thesis by (simp add: window_status_def reenter_def status_groups)
        next
          case miss: False
          define rd where "rd = select (refresh_surviving (r_id r)) w1"
          obtain w2 res2 where w2: "rd = (w2, res2)" by (cases rd)
          have rel2: "relies w2" using select_window [OF w2 [unfolded rd_def] rel1] by simp
          show ?thesis
          proof (cases res2)
            case (Inl e)
            with "1.prems"(1) show ?thesis
              by (subst (asm) claim_window.simps) (simp add: stored True st_def [symmetric] w1 Inr miss rd_def [symmetric] w2)
          next
            case r2: (Inr r2)
            from "1.prems"(1) have "claim_window verify r2 w2 = (w', Inr (r', claimed))"
              by (subst (asm) claim_window.simps) (simp add: stored True st_def [symmetric] w1 Inr miss rd_def [symmetric] w2 r2)
            from "1.IH" [OF stored _ w1 [unfolded st_def, symmetric] Inr _ w2 [unfolded rd_def, symmetric] r2 this rel2 "1.prems"(3)] True miss
            show ?thesis by simp
          qed
        qed
      qed
    qed
  qed
qed

lemma sbind_Inr:
  "sbind m f w = (w', Inr y) \<longleftrightarrow> (\<exists>w1 x. m w = (w1, Inr x) \<and> f x w1 = (w', Inr y))"
  by (auto simp: sbind_def split: prod.splits sum.splits)

lemma get_or_create_relies:
  assumes "get_or_create project dg sd row w = (w', Inr x)" "relies w"
  shows "relies w'"
proof -
  define found where "found = select (\<lambda>d. Inr (find_identity project dg sd d)) w"
  obtain w1 r1 where w1: "found = (w1, r1)" by (cases found)
  have rel1: "relies w1" using select_window [OF w1 [unfolded found_def] assms(2)] by simp
  show ?thesis
  proof (cases r1)
    case (Inl e)
    with assms(1) w1 show ?thesis by (simp add: get_or_create_def sbind_def found_def)
  next
    case (Inr o1)
    show ?thesis
    proof (cases o1)
      case (Some r)
      with assms(1) w1 Inr rel1 show ?thesis by (simp add: get_or_create_def sbind_def found_def ret_def)
    next
      case None
      obtain w2 r2 where w2: "statement (insert_revision row) w1 = (w2, r2)" by fastforce
      have rel2: "relies w2" using statement_relies [OF w2 rel1] by simp
      show ?thesis
      proof (cases r2)
        case (Inr r)
        with assms(1) w1 \<open>r1 = Inr o1\<close> None w2 rel2 show ?thesis by (simp add: get_or_create_def sbind_def found_def)
      next
        case (Inl e)
        define again where "again = select (\<lambda>d. case find_identity project dg sd d of None \<Rightarrow> Inl IntegrityError | Some r \<Rightarrow> Inr r) w2"
        obtain w3 r3 where w3: "again = (w3, r3)" by (cases again)
        have rel3: "relies w3" using select_window [OF w3 [unfolded again_def] rel2] by simp
        show ?thesis
        proof (cases "e = IntegrityError")
          case True
          with assms(1) w1 \<open>r1 = Inr o1\<close> None w2 Inl w3 have "w' = w3"
            by (auto simp: get_or_create_def sbind_def found_def again_def ret_def split: sum.splits)
          with rel3 show ?thesis by simp
        next
          case False
          with assms(1) w1 \<open>r1 = Inr o1\<close> None w2 Inl show ?thesis
            by (cases e) (simp_all add: get_or_create_def sbind_def found_def)
        qed
      qed
    qed
  qed
qed

lemma stage_accepted_settles:
  assumes run: "stage_accepted E be project storage_key source entries frozen w = (w', Inr (r, created))" and rel: "relies w"
  shows "r_status r \<notin> set RETRYABLE_REVISION_STATUSES"
proof -
  define verify :: "revision \<Rightarrow> ('a world, unit) io" where "verify = (\<lambda>r. case validated_manifest E r of
     Inl e \<Rightarrow> fail e
   | Inr m \<Rightarrow> on_store (lift (\<lambda>s. rbind (verify_revision_tree E be storage_key (r_digest r) m s) (\<lambda>_. Inr ()))))"
  have quiet: "w_others w2 = w_others w1" if "verify r w1 = (w2, res)" for r w1 w2 res
    using that by (auto simp: verify_def fail_def on_store_def lift_def split: sum.splits prod.splits)
  from run obtain w1 r1 w2 r2 claimed where
      g: "get_or_create project (Some (compute_digest E (map entry_json entries))) (snd frozen) (\<lambda>d. new_revision d (w_now w) project
        (Some (compute_digest E (map entry_json entries))) STAGING (manifest_json entries) (length entries)
        (sum_list (map e_size entries)) [] (fst frozen) (snd frozen)) w = (w1, Inr (r1, created))"
    and c: "claim_window verify r1 w1 = (w2, Inr (r2, claimed))"
    and rest: "(if \<not> claimed then ret (r2, created) else
        sbind (on_storage_failure (case validated_manifest E r2 of Inl e \<Rightarrow> fail e
              | Inr m \<Rightarrow> on_store (write_revision E be storage_key (r_digest r2) source m))
            (sbind (statement (update_where (r_id r2) [STAGING] write_failed)) (\<lambda>_. ret ())))
          (\<lambda>_. sbind (statement (update_where (r_id r2) [STAGING] write_settled)) (\<lambda>_.
            sbind (select (refresh_surviving (r_id r2))) (\<lambda>r. ret (r, created))))) w2 = (w', Inr (r, created))"
    unfolding stage_accepted_def Let_def verify_def [symmetric]
    by (auto simp: sbind_Inr ret_def split: prod.splits if_splits)
  have rel1: "relies w1" by (rule get_or_create_relies [OF g rel])
  from claim_window_result [OF c rel1 quiet] have rel2: "relies w2"
    and window: "if claimed then window_status (w_db w2) (r_id r2) = Some STAGING
      else r_status r2 \<notin> set RETRYABLE_REVISION_STATUSES" by auto
  show ?thesis
  proof (cases claimed)
    case False
    with rest window show ?thesis by (simp add: ret_def)
  next
    case True
    from rest True obtain w3 u w4 hit w5 where
        io: "on_storage_failure (case validated_manifest E r2 of Inl e \<Rightarrow> fail e
              | Inr m \<Rightarrow> on_store (write_revision E be storage_key (r_digest r2) source m))
            (sbind (statement (update_where (r_id r2) [STAGING] write_failed)) (\<lambda>_. ret ())) w2 = (w3, Inr u)"
      and set: "statement (update_where (r_id r2) [STAGING] write_settled) w3 = (w4, Inr hit)"
      and ref: "select (refresh_surviving (r_id r2)) w4 = (w5, Inr r)"
      by (auto simp: sbind_Inr ret_def)
    have io': "(case validated_manifest E r2 of Inl e \<Rightarrow> fail e
              | Inr m \<Rightarrow> on_store (write_revision E be storage_key (r_digest r2) source m)) w2 = (w3, Inr u)"
      using io by (auto simp: on_storage_failure_def split: prod.splits sum.splits if_splits)
    then have same: "w_db w3 = w_db w2" "w_others w3 = w_others w2"
      by (auto simp: fail_def on_store_def split: sum.splits prod.splits)
    then have rel3: "relies w3" using rel2 by (simp add: relies_def)
    define d where "d = w_db (interfere w3)"
    have ws: "window_status d (r_id r2) \<in> {None, Some STAGING}"
      using interfere_window(2) [OF rel3, of "r_id r2"] window True same(1) by (simp add: d_def)
    from set have upd: "update_where (r_id r2) [STAGING] write_settled d = Inr (w_db w4, hit)"
      by (auto simp: statement_def Let_def d_def split: sum.splits)
    have "window_status (w_db w4) (r_id r2) = None"
      using ws update_where_window [OF upd] by (auto simp: window_status_def write_settled_def status_groups split: option.splits if_splits)
    moreover have rel4: "relies w4" using statement_relies [OF set rel3] by simp
    ultimately have "window_status (w_db w5) (r_id r2) = None" using select_window [OF ref rel4, of "r_id r2"] by simp
    moreover have "revision_of (w_db w5) (r_id r2) = Some r"
      using ref by (auto simp: select_def Let_def refresh_surviving_def split: option.splits)
    ultimately show ?thesis by (simp add: window_status_def split: if_splits)
  qed
qed

section \<open>The properties of this theory\<close>

text \<open>
  Staging goes through: on an honest backend, when no other connection interferes, content that
  builds a manifest without errors and is new to the project becomes a MATERIALIZED revision with
  that manifest and the current declarations frozen in it, every file intact in the store, and is the
  project's accepted source with the activation request the caller made.
\<close>

theorem stage_revision_completes:
  assumes quiet: "w_others w = []" and dep: "require_safe_routing dep = Inr ()" "get_storage dep = Inr be"
      "get_storage_limits dep = Inr limits" and honest: "lawful be content"
    and laws: "nfc_laws E" "lower_laws E" "sha_laws E"
    and files: "frozen_source files = Inr source" "build_manifest E source limits = Inr (entries, [])"
      "\<forall>e \<in> set entries. strip (e_path e) = e_path e \<and> windows_drive (e_path e) = []"
    and rows: "pointers_ok (w_db w)" "project_of (w_db w) project = Some p"
    and dg: "dg = compute_digest E (map entry_json entries)" and pre: "revision_prefix E (p_storage_key p) (Some dg) = Inr pre"
    and frozen: "frozen = build_script_file_snapshot E (filter f_enabled (project_files project (w_db w)))"
    and fresh: "find_identity project (Some dg) (snd frozen) (w_db w) = None"
  shows "\<exists>r w'. stage_revision E dep DEFAULT_DB_ALIAS project files once w = (w', Inr (r, True)) \<and>
    revisions (w_db w') = revisions (w_db w) @ [r] \<and> r_status r = MATERIALIZED \<and> r_project r = project \<and>
    r_digest r = Some dg \<and> r_manifest r = manifest_json entries \<and> r_script_file_snapshot r = fst frozen \<and> w_others w' = [] \<and>
    (\<forall>e \<in> set entries. intact E (content (w_store w')) pre e) \<and>
    (\<exists>q. project_of (w_db w') project = Some q \<and> p_source_revision q = Some (r_id r) \<and> (once \<longrightarrow> p_source_activation_pending q) \<and>
      p_active_revision q = p_active_revision p)"
proof -
  have manifest: "validate_manifest E (manifest_json entries) (Some dg) = Inr ()"
    unfolding dg by (rule built_manifest_validates [OF laws files(2,3)])
  obtain canon where canon: "canonical_source E source [] = Inr canon"
      "\<forall>e \<in> set entries. \<exists>c. map_of canon (e_path e) = Some c \<and> matches E e c"
    using clean_source [OF laws(2) files(2)] by blast
  have hyp: "\<forall>e \<in> set (manifest_entries (manifest_json entries)). \<exists>c. map_of canon (e_path e) = Some c \<and> matches E e c"
    using canon(2) by simp
  obtain s' where wrote: "write_revision E be (p_storage_key p) (Some dg) source (manifest_json entries) (w_store w) = (s', Inr pre)"
      and stored: "\<forall>e \<in> set entries. intact E (content s') pre e"
    using write_revision_honest [OF honest manifest pre canon(1) hyp, where s = "w_store w"] by auto
  obtain r where staged: "stage_accepted E be project (p_storage_key p) source entries frozen w =
      (w\<lparr>w_db := (w_db w)\<lparr>revisions := revisions (w_db w) @ [r]\<rparr>, w_store := s'\<rparr>, Inr (r, True))"
    and r: "r = new_revision (w_db w) (w_now w) project (Some dg) MATERIALIZED (manifest_json entries) (length entries)
      (sum_list (map e_size entries)) [] (fst frozen) (snd frozen)" "revision_constraints (revisions (w_db w) @ [r])"
    using write_window_run [OF quiet pointers_okD(2) [OF rows(1)] rows(2) fresh dg manifest wrote] by blast
  define w1 where "w1 = w\<lparr>w_db := (w_db w)\<lparr>revisions := revisions (w_db w) @ [r]\<rparr>, w_store := s'\<rparr>"
  have w1: "w_others w1 = []" "projects (w_db w1) = projects (w_db w)" "w_store w1 = s'" "revisions (w_db w1) = revisions (w_db w) @ [r]"
    by (simp_all add: w1_def quiet)
  have rf: "r_project r = project" "r_digest r = Some dg" "r_status r = MATERIALIZED" "r_manifest r = manifest_json entries"
    "r_script_file_snapshot r = fst frozen" by (simp_all add: r(1) new_revision_def)
  have locked: "stage_revision_locked E dep DEFAULT_DB_ALIAS project files w = (w1, Inr (r, True))"
    using staged dep files(1,2) rows(2)
    by (simp add: stage_revision_locked_def sbind_def lift_def require_default_database_def select_def quiet
        frozen [symmetric] project_or_vanished_def w1_def)
  have p1: "project_of (w_db w1) (r_project r) = Some p" using rows(2) by (simp add: project_of_def w1(2) rf(1))
  have pc: "project_constraints (projects (w_db w1))" using pointers_okD(1) [OF rows(1)] by (simp add: w1(2))
  have "revision_of (w_db w1) (r_id r) \<noteq> None"
    unfolding revision_of_def w1(4) find_None_iff by auto
  moreover have "truthy (r_digest r)"
    using digest_nonempty [OF laws(3), of "map entry_json entries"] by (simp add: rf(2) truthy_def dg)
  ultimately obtain q where acc: "accept_source r once w1 = (w1\<lparr>w_db := (w_db w1)\<lparr>projects := update_rows (\<lambda>x. p_id x = r_project r)
      (\<lambda>x. x\<lparr>p_source_revision := Some (r_id r), p_source_activation_pending := q\<rparr>) (projects (w_db w1))\<rparr>\<rparr>, Inr ())"
    and q: "q \<longleftrightarrow> once \<or> p_source_revision p = Some (r_id r) \<and> p_source_activation_pending p"
    using accept_run [OF w1(1) pc p1 _ _ rf(3), of once] by blast
  define w2 where "w2 = w1\<lparr>w_db := (w_db w1)\<lparr>projects := update_rows (\<lambda>x. p_id x = r_project r)
      (\<lambda>x. x\<lparr>p_source_revision := Some (r_id r), p_source_activation_pending := q\<rparr>) (projects (w_db w1))\<rparr>\<rparr>"
  have run: "stage_revision E dep DEFAULT_DB_ALIAS project files once w = (w2, Inr (r, True))"
    using acc locked dep(1) rows(2)
    by (simp add: stage_revision_def sbind_def lift_def require_default_database_def select_def quiet project_or_vanished_def
        ret_def w2_def)
  have "project_of (w_db w2) project = Some (p\<lparr>p_source_revision := Some (r_id r), p_source_activation_pending := q\<rparr>)"
    using rows(2) project_of_SomeD [OF rows(2)] unfolding project_of_def by (simp add: w2_def w1(2) find_update_rows rf(1))
  then show ?thesis
    using run rf stored q by (intro exI [of _ r] exI [of _ w2]) (simp add: w2_def w1)
qed


definition example_upload :: "pystr \<Rightarrow> (pyvalue \<times> pyvalue) list" where
  "example_upload path = [(PyStr path, PyBytes [1, 2])]"


definition example_idle :: "memory world" where
  "example_idle = \<lparr>w_db = empty_db\<lparr>projects := [(example_project 1)\<lparr>p_storage_key := lit ''k''\<rparr>]\<rparr>, w_store = [], w_others = [], w_now = 9\<rparr>"

theorem stage_revision_completes_witness:
  "\<exists>r w'. stage_revision ascii_python example_service DEFAULT_DB_ALIAS 1 (example_upload (lit ''b.py'')) True example_idle = (w', Inr (r, True)) \<and>
     r_status r = MATERIALIZED"
proof -
  let ?source = "[(lit ''b.py'', [1, 2])] :: (pystr \<times> bytes) list"
  let ?e = "\<lparr>e_path = lit ''b.py'', e_size = 2, e_sha = sha256 ascii_python [1, 2]\<rparr>"
  let ?dg = "compute_digest ascii_python (map entry_json [?e])"
  let ?frozen = "build_script_file_snapshot ascii_python (filter f_enabled (project_files 1 (w_db example_idle)))"
  have c: "require_safe_routing example_service = Inr ()" "get_storage example_service = Inr memory_backend"
    by (simp_all add: example_service_def require_safe_routing_def unsafe_routing_reason_def get_storage_def)
  obtain limits where l: "get_storage_limits example_service = Inr limits"
    by (simp add: get_storage_limits_def resolve_positive_integer_def example_service_def DEFAULT_MAX_FILE_SIZE_def
        DEFAULT_MAX_PROJECT_SIZE_def DEFAULT_MAX_FILE_COUNT_def)
  have f: "frozen_source (example_upload (lit ''b.py'')) = Inr ?source" by (simp add: frozen_source_def example_upload_def)
  have "rbind (get_storage_limits example_service) (build_manifest ascii_python ?source) = Inr ([?e], [])" by code_simp
  then have b: "build_manifest ascii_python ?source limits = Inr ([?e], [])" by (simp add: l)
  have canon: "\<forall>e \<in> set [?e]. strip (e_path e) = e_path e \<and> windows_drive (e_path e) = []"
  proof -
    have "strip (lit ''b.py'') = lit ''b.py'' \<and> windows_drive (lit ''b.py'') = []" by code_simp
    then show ?thesis by simp
  qed
  have w: "w_others example_idle = []" "pointers_ok (w_db example_idle)"
  proof -
    have "project_constraints (projects (w_db example_idle))" by code_simp
    then show "pointers_ok (w_db example_idle)" by (simp add: pointers_ok_def example_idle_def example_project_def empty_db_def revision_constraints_def)
  qed (simp add: example_idle_def)
  define p where "p = (example_project 1)\<lparr>p_storage_key := lit ''k''\<rparr>"
  have p: "project_of (w_db example_idle) 1 = Some p" "p_storage_key p = lit ''k''"
    by (simp_all add: p_def example_idle_def project_of_def example_project_def)
  have "is_ok (revision_prefix ascii_python (lit ''k'') (Some ?dg))" by code_simp
  then obtain pre where pre: "revision_prefix ascii_python (p_storage_key p) (Some ?dg) = Inr pre" by (auto simp: p is_ok_iff)
  have "find_identity 1 (Some ?dg) (snd ?frozen) (w_db example_idle) = None"
    by (simp add: find_identity_def example_idle_def empty_db_def)
  from stage_revision_completes [OF w(1) c l memory_lawful ascii_nfc_laws ascii_lower_laws ascii_sha_laws f b canon w(2) p(1)
      refl pre refl this, of True]
  show ?thesis by blast
qed

end
