(* ===== verification/Cleanup.thy ===== *)
theory Cleanup
  imports Service
begin

text \<open>
  Reclaiming stored content: signals.py, which records a cleanup Job inside the transaction that deletes
  a revision, and the storage jobs of jobs.py, the cleanup that removes what its Job names and the sweep
  that reports what unfinished cleanups left behind.
\<close>

section \<open>State\<close>

text \<open>
  A Job row of a cleanup.  Queued stands for the states of core's ENQUEUED_STATE_CHOICES; the payload
  is the JSON object \<open>enqueue_cleanup\<close> saves, of which the sweep tolerates missing fields.
\<close>

datatype job_status = Queued | Completed | Errored | Failed

record cleanup_job =
  j_id :: pk
  j_created :: time
  j_status :: job_status
  j_storage_key :: "pystr option"
  j_digest :: "pystr option"
  j_paths :: "pystr list option"

record 'b site =
  i_db :: db
  i_store :: 'b
  i_jobs :: "cleanup_job list"

definition STALLED_CLEANUP_GRACE_SECONDS :: nat where "STALLED_CLEANUP_GRACE_SECONDS = 60 * 60"

section \<open>Deleting revisions\<close>

text \<open>
  The rows a DELETE of one revision touches: the row itself, and the foreign keys declared SET_NULL.
\<close>

definition without :: "pk list \<Rightarrow> pk option \<Rightarrow> pk option" where
  "without ks v = (case v of Some k \<Rightarrow> if k \<in> set ks then None else v | None \<Rightarrow> None)"

definition delete_rows :: "pk list \<Rightarrow> db \<Rightarrow> db" where
  "delete_rows ks d = d\<lparr>revisions := filter (\<lambda>r. r_id r \<notin> set ks) (revisions d),
     projects := map (\<lambda>p. p\<lparr>p_active_revision := without ks (p_active_revision p),
       p_source_revision := without ks (p_source_revision p)\<rparr>) (projects d),
     script_files := map (\<lambda>f. f\<lparr>f_last_discovered_revision := without ks (f_last_discovered_revision f)\<rparr>) (script_files d),
     scripts := map (\<lambda>s. s\<lparr>s_last_seen_revision := without ks (s_last_seen_revision s)\<rparr>) (scripts d)\<rparr>"

definition storage_key_of :: "db \<Rightarrow> revision \<Rightarrow> pystr option" where
  "storage_key_of d r = map_option p_storage_key (project_of d (r_project r))"

text \<open>\<open>filter(project__storage_key=storage_key, digest=digest).exists()\<close>.\<close>

definition referenced :: "db \<Rightarrow> pystr \<Rightarrow> pystr \<Rightarrow> bool" where
  "referenced d storage_key digest =
     list_ex (\<lambda>r. storage_key_of d r = Some storage_key \<and> r_digest r = Some digest) (revisions d)"

definition capture_revision_storage :: "db \<Rightarrow> pk \<Rightarrow> (pystr option \<times> pystr \<times> json) option" where
  "capture_revision_storage d k =
     (case revision_of d k of
        None \<Rightarrow> None
      | Some r \<Rightarrow> map_option (\<lambda>key. (r_digest r, key, r_manifest r)) (storage_key_of d r))"

text \<open>
  The receiver after the deletion: what to enqueue, nothing, or the error that aborts the transaction.
\<close>

definition cleanup_revision_storage ::
    "python \<Rightarrow> 'be deployment \<Rightarrow> string \<Rightarrow> (pystr option \<times> pystr \<times> json) option \<Rightarrow> db \<Rightarrow>
     (pystr \<times> pystr \<times> pystr list) option result" where
  "cleanup_revision_storage E dep using_alias captured d =
     (case captured of
        None \<Rightarrow> Inr None
      | Some (digest, storage_key, manifest) \<Rightarrow>
          if \<not> truthy digest then Inr None
          else rbind (validate_manifest E manifest digest) (\<lambda>_.
            let paths = map e_path (manifest_entries manifest)
            in if paths = [] then Inr None
               else if unsafe_routing_reason dep \<noteq> None then Inr None
               else if using_alias \<noteq> DEFAULT_DB_ALIAS then Inl ImproperlyConfigured
               else if referenced d storage_key (the digest) then Inr None
               else Inr (Some (storage_key, the digest, paths))))"

definition enqueue_cleanup :: "time \<Rightarrow> pystr \<times> pystr \<times> pystr list \<Rightarrow> 'b site \<Rightarrow> 'b site" where
  "enqueue_cleanup now payload i = (case payload of (storage_key, digest, paths) \<Rightarrow>
     i\<lparr>i_jobs := i_jobs i @ [\<lparr>j_id = fresh (map j_id (i_jobs i)), j_created = now, j_status = Queued,
       j_storage_key = Some storage_key, j_digest = Some digest, j_paths = Some paths\<rparr>]\<rparr>)"

text \<open>
  The transaction of a deletion, one revision or every revision a cascade collected: all pre_delete
  receivers, the rows, then the post_delete receivers in turn.  The first error rolls everything back.
\<close>

fun record_cleanups ::
    "python \<Rightarrow> 'be deployment \<Rightarrow> string \<Rightarrow> time \<Rightarrow> (pystr option \<times> pystr \<times> json) option list \<Rightarrow> 'b site \<Rightarrow> 'b site result" where
  "record_cleanups E dep using_alias now [] i = Inr i"
| "record_cleanups E dep using_alias now (captured # rest) i =
     rbind (cleanup_revision_storage E dep using_alias captured (i_db i)) (\<lambda>payload.
       record_cleanups E dep using_alias now rest
         (case payload of None \<Rightarrow> i | Some p \<Rightarrow> enqueue_cleanup now p i))"

definition delete_revisions :: "python \<Rightarrow> 'be deployment \<Rightarrow> string \<Rightarrow> time \<Rightarrow> pk list \<Rightarrow> 'b site \<Rightarrow> 'b site result" where
  "delete_revisions E dep using_alias now ks i =
     record_cleanups E dep using_alias now (map (capture_revision_storage (i_db i)) ks)
       (i\<lparr>i_db := delete_rows ks (i_db i)\<rparr>)"

section \<open>The cleanup Job\<close>

text \<open>True when the run succeeded, False for JobFailed; the project lock covers the recheck and the removal.\<close>

definition cleanup_run ::
    "python \<Rightarrow> ('b, 'h) service_env \<Rightarrow> pystr \<Rightarrow> pystr \<Rightarrow> pystr list \<Rightarrow> 'b site \<Rightarrow> 'b site \<times> bool result" where
  "cleanup_run E dep storage_key digest paths i =
     (if unsafe_routing_reason dep \<noteq> None then (i, Inr False)
      else if referenced (i_db i) storage_key digest then (i, Inr True)
      else (case get_storage dep of
          Inl e \<Rightarrow> (i, if is_storage_error e \<or> is_os_error e then Inr False else Inl e)
        | Inr be \<Rightarrow> (case delete_revision E be storage_key (Some digest) paths (i_store i) of
              (s, Inr u) \<Rightarrow> (i\<lparr>i_store := s\<rparr>, Inr True)
            | (s, Inl e) \<Rightarrow> (i\<lparr>i_store := s\<rparr>, if is_storage_error e \<or> is_os_error e then Inr False else Inl e))))"

text \<open>The runner of core around it: the Job ends completed, failed or errored.\<close>

definition finish_job :: "pk \<Rightarrow> bool result \<Rightarrow> 'b site \<Rightarrow> 'b site" where
  "finish_job k outcome i = i\<lparr>i_jobs := update_rows (\<lambda>j. j_id j = k)
     (\<lambda>j. j\<lparr>j_status := (case outcome of Inr True \<Rightarrow> Completed | Inr False \<Rightarrow> Failed | Inl _ \<Rightarrow> Errored)\<rparr>) (i_jobs i)\<rparr>"

definition run_cleanup_job :: "python \<Rightarrow> ('b, 'h) service_env \<Rightarrow> cleanup_job \<Rightarrow> 'b site \<Rightarrow> 'b site" where
  "run_cleanup_job E dep j i =
     (case (j_storage_key j, j_digest j, j_paths j) of
        (Some storage_key, Some digest, Some paths) \<Rightarrow>
          (case cleanup_run E dep storage_key digest paths i of (i', outcome) \<Rightarrow> finish_job (j_id j) outcome i')
      | _ \<Rightarrow> i)"

section \<open>The sweep\<close>

record swept =
  w_jobs :: "pk list"
  w_storage_key :: pystr
  w_digest :: pystr
  w_paths :: "pystr list"

record sweep_report =
  stranded :: "swept list"
  reclaimed :: "swept list"
  back_referenced :: "swept list"
  unreadable :: "pk list"

definition stalled_cleanups :: "time \<Rightarrow> cleanup_job list \<Rightarrow> cleanup_job list" where
  "stalled_cleanups now js = sort_key j_created (filter (\<lambda>j.
     (j_status j = Queued \<and> j_created j + STALLED_CLEANUP_GRACE_SECONDS < now) \<or> j_status j \<in> {Errored, Failed}) js)"

text \<open>The group a Job joins, by insertion order of the groups, and the Jobs without a usable payload.\<close>

definition job_payload :: "cleanup_job \<Rightarrow> ((pystr \<times> pystr) \<times> pystr list) option" where
  "job_payload j =
     (case (j_storage_key j, j_digest j, j_paths j) of
        (Some key, Some digest, Some paths) \<Rightarrow> if key = [] \<or> digest = [] \<or> paths = [] then None else Some ((key, digest), paths)
      | _ \<Rightarrow> None)"

fun sweep_candidates ::
    "cleanup_job list \<Rightarrow> ((pystr \<times> pystr) \<times> pk list \<times> pystr list) list \<Rightarrow> pk list \<Rightarrow>
     ((pystr \<times> pystr) \<times> pk list \<times> pystr list) list \<times> pk list" where
  "sweep_candidates [] grouped bad = (grouped, bad)"
| "sweep_candidates (j # js) grouped bad =
     (case job_payload j of
        None \<Rightarrow> sweep_candidates js grouped (bad @ [j_id j])
      | Some (content, paths) \<Rightarrow>
          let (ids, known) = (case map_of grouped content of None \<Rightarrow> ([], []) | Some c \<Rightarrow> c)
          in sweep_candidates js (AList.update content (ids @ [j_id j], List.union known paths) grouped) bad)"

definition classify_candidate ::
    "python \<Rightarrow> ('b, 'h) service_env \<Rightarrow> 'b site \<Rightarrow> (pystr \<times> pystr) \<times> pk list \<times> pystr list \<Rightarrow> sweep_report \<Rightarrow> sweep_report result" where
  "classify_candidate E dep i candidate report = (case candidate of ((storage_key, digest), jobs, paths) \<Rightarrow>
     let entry = \<lparr>w_jobs = sort jobs, w_storage_key = storage_key, w_digest = digest, w_paths = []\<rparr>
     in if referenced (i_db i) storage_key digest
        then Inr (report\<lparr>back_referenced := back_referenced report @ [entry]\<rparr>)
        else (case rbind (get_storage dep) (\<lambda>be. present_keys E be storage_key (Some digest) paths (i_store i)) of
            Inl e \<Rightarrow> if is_storage_error e \<or> is_os_error e then Inr (report\<lparr>unreadable := unreadable report @ sort jobs\<rparr>) else Inl e
          | Inr present \<Rightarrow> Inr (if present \<noteq> [] then report\<lparr>stranded := stranded report @ [entry\<lparr>w_paths := present\<rparr>]\<rparr>
              else report\<lparr>reclaimed := reclaimed report @ [entry]\<rparr>)))"

fun classify_all ::
    "python \<Rightarrow> ('b, 'h) service_env \<Rightarrow> 'b site \<Rightarrow> ((pystr \<times> pystr) \<times> pk list \<times> pystr list) list \<Rightarrow> sweep_report \<Rightarrow> sweep_report result" where
  "classify_all E dep i [] report = Inr report"
| "classify_all E dep i (c # cs) report = rbind (classify_candidate E dep i c report) (classify_all E dep i cs)"

definition sweep_run :: "python \<Rightarrow> ('b, 'h) service_env \<Rightarrow> time \<Rightarrow> 'b site \<Rightarrow> sweep_report result" where
  "sweep_run E dep now i =
     (let (grouped, bad) = sweep_candidates (stalled_cleanups now (i_jobs i)) [] []
      in classify_all E dep i grouped \<lparr>stranded = [], reclaimed = [], back_referenced = [], unreadable = bad\<rparr>)"

end
