(* ===== verification/Loader.thy ===== *)
theory Loader
  imports Introspection Service
begin

text \<open>
  runtime/loader.py: importing script files of a stored revision below the private namespace, the
  failure boundary around project code, and unloading.

  The state is that of one worker process: \<open>h_modules\<close> is \<open>sys.modules\<close>, \<open>h_local\<close> the local file
  system, \<open>h_world\<close> what it shares with others.  Running project code is a parameter, the two calls of
  the import system: such code may change the whole state.  The locks of the module serialize the
  threads of the process on one namespace and change no state.
\<close>

section \<open>The process\<close>

text \<open>A module object with the attributes the loader binds on it.\<close>

record loaded =
  l_module :: pymodule
  l_attrs :: "pystr list"

record ('b, 'c) host =
  h_world :: "'b world"
  h_local :: 'c
  h_modules :: "(pystr \<times> loaded) list"

text \<open>
  \<open>materialize_revision\<close> on the local file system, the execution of a root \<open>__init__.py\<close>, and
  \<open>importlib.import_module\<close>.
\<close>

record ('b, 'c) runtime =
  rt_materialize :: "pystr \<Rightarrow> pystr \<Rightarrow> json \<Rightarrow> 'b \<Rightarrow> 'c \<Rightarrow> 'c \<times> pystr result"
  rt_exec_root :: "pystr \<Rightarrow> pystr \<Rightarrow> ('b, 'c) host \<Rightarrow> ('b, 'c) host \<times> (raised + unit)"
  rt_import :: "pystr \<Rightarrow> ('b, 'c) host \<Rightarrow> ('b, 'c) host \<times> (raised + pymodule)"

text \<open>The texts of messages: translations of gettext, filled in with the values a message names.\<close>

record texts =
  t_path :: "string \<Rightarrow> pystr \<Rightarrow> pystr"
  t_not_in_manifest :: "pystr \<Rightarrow> pystr"
  t_import_failed :: "pystr \<Rightarrow> pystr"
  t_discovery :: "string \<Rightarrow> pymodule \<Rightarrow> pystr"
  t_metadata :: "string \<Rightarrow> discovered_script \<Rightarrow> pystr"
  t_duplicate :: "pystr \<Rightarrow> pystr \<Rightarrow> pystr"
  t_zero :: "zero_reason \<Rightarrow> pystr"
  t_error :: "py_error \<Rightarrow> pystr \<times> pystr"

section \<open>Modules\<close>

definition in_namespace :: "pystr \<Rightarrow> pystr \<Rightarrow> bool" where
  "in_namespace revision_name name \<longleftrightarrow> name = revision_name \<or> startswith name (revision_name @ [dot])"

definition loaded_names :: "pystr \<Rightarrow> (pystr \<times> loaded) list \<Rightarrow> pystr list" where
  "loaded_names revision_name modules = filter (in_namespace revision_name) (map fst modules)"

text \<open>\<open>name.rsplit('.', 1)[1]\<close> of a dotted name.\<close>

definition binding_name :: "pystr \<Rightarrow> pystr" where
  "binding_name name = last (split_on dot name)"

definition set_attribute :: "pystr \<Rightarrow> pystr \<Rightarrow> (pystr \<times> loaded) list \<Rightarrow> (pystr \<times> loaded) list" where
  "set_attribute owner attr modules = AList.map_entry owner (\<lambda>m. m\<lparr>l_attrs := List.insert attr (l_attrs m)\<rparr>) modules"

text \<open>\<open>if module is not None and hasattr(module, attribute): delattr(module, attribute)\<close>\<close>

definition del_attribute :: "pystr \<Rightarrow> pystr \<Rightarrow> (pystr \<times> loaded) list \<Rightarrow> (pystr \<times> loaded) list" where
  "del_attribute owner attr modules = AList.map_entry owner (\<lambda>m. m\<lparr>l_attrs := removeAll attr (l_attrs m)\<rparr>) modules"

definition synthetic :: "pystr \<Rightarrow> loaded" where
  "synthetic name = \<lparr>l_module = \<lparr>m_name = name, m_vars = [], m_script_order = Unset\<rparr>, l_attrs = []\<rparr>"

definition register_container :: "pystr \<Rightarrow> pystr option \<Rightarrow> (pystr \<times> loaded) list \<Rightarrow> (pystr \<times> loaded) list" where
  "register_container name parent modules =
     (let registered = (if map_of modules name = None then modules @ [(name, synthetic name)] else modules)
      in case parent of None \<Rightarrow> registered | Some p \<Rightarrow> set_attribute p (binding_name name) registered)"

definition ensure_parent_packages :: "pystr \<Rightarrow> (pystr \<times> loaded) list \<Rightarrow> (pystr \<times> loaded) list" where
  "ensure_parent_packages project_name modules =
     register_container project_name (Some PRIVATE_ROOT) (register_container PRIVATE_ROOT None modules)"

definition remove_modules :: "pystr list \<Rightarrow> (pystr \<times> loaded) list \<Rightarrow> (pystr \<times> loaded) list" where
  "remove_modules names modules = filter (\<lambda>(name, m). name \<notin> set names) modules"

section \<open>Importing\<close>

record import_detail =
  det_path :: pystr
  det_code :: string
  det_message :: pystr
  det_exception_type :: "pystr option"
  det_traceback :: "pystr option"

text \<open>
  How an import fails: InvalidModulePathError, another error of a checked call, ScriptFileImportError
  with its cause, or an exception that escapes unwrapped.
\<close>

datatype import_failure =
    NotImportable pystr string
  | Checked py_error
  | ImportFailed import_detail "raised option"
  | Unwrapped raised

definition failure_detail :: "pystr \<Rightarrow> raised \<Rightarrow> pystr \<Rightarrow> import_detail" where
  "failure_detail path error revision_dir =
     (let local = filter (\<lambda>(file, text). startswith file revision_dir) (x_frames error)
      in \<lparr>det_path = path, det_code = ''script_file_import_failed'', det_message = x_text error,
          det_exception_type = Some (x_type error),
          det_traceback = Some (concat (map snd (if local \<noteq> [] then local else x_frames error)))\<rparr>)"

definition refused_detail :: "texts \<Rightarrow> pystr \<Rightarrow> import_detail" where
  "refused_detail T path = \<lparr>det_path = path, det_code = ''script_file_not_in_manifest'',
     det_message = t_not_in_manifest T path, det_exception_type = None, det_traceback = None\<rparr>"

definition register_revision_package ::
    "('b, 'c) runtime \<Rightarrow> pystr \<Rightarrow> pystr \<Rightarrow> pystr \<Rightarrow> bool \<Rightarrow> ('b, 'c) host \<Rightarrow> ('b, 'c) host \<times> (raised + unit)" where
  "register_revision_package rt project_name revision_name revision_dir has_root_init h =
     (let h1 = h\<lparr>h_modules := set_attribute project_name (binding_name revision_name)
            (AList.update revision_name (synthetic revision_name) (h_modules h))\<rparr>
      in if has_root_init then rt_exec_root rt revision_name revision_dir h1 else (h1, Inr ()))"

definition sweep_added :: "pystr \<Rightarrow> pystr \<Rightarrow> pystr list \<Rightarrow> (pystr \<times> loaded) list \<Rightarrow> (pystr \<times> loaded) list" where
  "sweep_added project_name revision_name earlier modules =
     (let kept = remove_modules (filter (\<lambda>n. n \<notin> set earlier) (loaded_names revision_name modules)) modules
      in if revision_name \<notin> set earlier then del_attribute project_name (binding_name revision_name) kept else kept)"

text \<open>The failure boundary: register the package, import the name, sweep and wrap what is raised.\<close>

definition run_boundary ::
    "('b, 'c) runtime \<Rightarrow> exc_class list \<Rightarrow> pystr \<Rightarrow> pystr \<Rightarrow> pystr \<Rightarrow> bool \<Rightarrow> pystr \<Rightarrow> pystr \<Rightarrow> ('b, 'c) host \<Rightarrow>
     ('b, 'c) host \<times> (import_failure + pymodule)" where
  "run_boundary rt passthrough project_name revision_name revision_dir has_root_init path dotted h =
     (let earlier = loaded_names revision_name (h_modules h);
          (h1, registered) = (if map_of (h_modules h) revision_name = None
            then register_revision_package rt project_name revision_name revision_dir has_root_init h else (h, Inr ()));
          (h2, outcome) = (case registered of Inl x \<Rightarrow> (h1, Inl x)
            | Inr u \<Rightarrow> rt_import rt (revision_name @ dot # dotted) h1)
      in case outcome of
           Inr m \<Rightarrow> (h2, Inr m)
         | Inl x \<Rightarrow>
             (h2\<lparr>h_modules := sweep_added project_name revision_name earlier (h_modules h2)\<rparr>,
              Inl (if is_instance x (passthrough @ [KeyboardInterruptC, GeneratorExitC]) then Unwrapped x
                   else ImportFailed (failure_detail path x revision_dir) (Some x))))"

definition import_script_file ::
    "python \<Rightarrow> texts \<Rightarrow> ('b, 'c) runtime \<Rightarrow> exc_class list \<Rightarrow> pystr \<Rightarrow> pystr \<Rightarrow> json \<Rightarrow> pystr \<Rightarrow> ('b, 'c) host \<Rightarrow>
     ('b, 'c) host \<times> (import_failure + pymodule)" where
  "import_script_file E T rt passthrough storage_key digest manifest path h =
     (case script_file_dotted_name E path of
        Inl (UnsafePath p code) \<Rightarrow> (h, Inl (NotImportable p code))
      | Inl e \<Rightarrow> (h, Inl (Checked e))
      | Inr dotted \<Rightarrow> (case validate_manifest E manifest (Some digest) of
          Inl e \<Rightarrow> (h, Inl (Checked e))
        | Inr u \<Rightarrow>
            let paths = map e_path (manifest_entries manifest)
            in if path \<notin> set paths then (h, Inl (ImportFailed (refused_detail T path) None))
               else (case project_module_name E storage_key of
                 Inl e \<Rightarrow> (h, Inl (Checked e))
               | Inr project_name \<Rightarrow>
                   let revision_name = project_name @ lit ''.r_'' @ digest;
                       h1 = h\<lparr>h_modules := ensure_parent_packages project_name (h_modules h)\<rparr>
                   in (case rt_materialize rt storage_key digest manifest (w_store (h_world h1)) (h_local h1) of
                        (c, Inl e) \<Rightarrow> (h1\<lparr>h_local := c\<rparr>, Inl (Checked e))
                      | (c, Inr dir) \<Rightarrow> run_boundary rt passthrough project_name revision_name dir
                            (lit ''__init__.py'' \<in> set paths) path dotted (h1\<lparr>h_local := c\<rparr>)))))"

section \<open>Unloading\<close>

definition unload_revision ::
    "python \<Rightarrow> pystr \<Rightarrow> pystr \<Rightarrow> (pystr \<times> loaded) list \<Rightarrow> ((pystr \<times> loaded) list \<times> pystr list) result" where
  "unload_revision E storage_key digest modules =
     rbind (project_module_name E storage_key) (\<lambda>project_name.
       rbind (revision_module_name E storage_key digest) (\<lambda>revision_name.
         let removed = sort (loaded_names revision_name modules)
         in Inr (del_attribute project_name (binding_name revision_name) (remove_modules removed modules), removed)))"

section \<open>Namespaces\<close>

lemma in_namespace_iff: "in_namespace rn n \<longleftrightarrow> n = rn \<or> (\<exists>t. n = rn @ dot # t)"
  by (auto simp: in_namespace_def startswith_iff)

lemma split_on_prefix:
  "c \<notin> set d \<Longrightarrow> n = d \<or> (\<exists>t. n = d @ c # t) \<Longrightarrow> hd (split_on c n) = d"
  by (auto simp: split_on_no_sep split_on_append_sep)

text \<open>One name lies in the namespace of at most one revision.\<close>

lemma namespaces_disjoint:
  assumes "revision_module_name E k d = Inr rn" "revision_module_name E k' d' = Inr rn'"
    and "is_hex_digest d" "is_hex_digest d'" and "in_namespace rn n" "in_namespace rn' n"
  shows "rn = rn' \<and> d = d' \<and> uuid_parse E k = uuid_parse E k'"
proof -
  obtain w w' where w: "uuid_parse E k = Some w" "uuid_parse E k' = Some w'"
    and rn: "rn = PRIVATE_ROOT @ lit ''.p_'' @ uuid_hex w @ lit ''.r_'' @ d" "rn' = PRIVATE_ROOT @ lit ''.p_'' @ uuid_hex w' @ lit ''.r_'' @ d'"
    using assms(1,2) by (auto simp: revision_module_name_def project_module_name_def result_simps split: option.splits)
  have len: "length (uuid_hex w) = length (uuid_hex w')" "length d = length d'"
    using assms(3,4) by (simp_all add: uuid_hex_def length_hex_fixed is_hex_digest_def)
  obtain s where s: "n = rn @ s" using assms(5) by (auto simp: in_namespace_iff)
  obtain s' where s': "n = rn' @ s'" using assms(6) by (auto simp: in_namespace_iff)
  have eq: "uuid_hex w @ lit ''.r_'' @ d @ s = uuid_hex w' @ lit ''.r_'' @ d' @ s'" using rn s s' by simp
  then have h: "uuid_hex w = uuid_hex w'" "d = d'" using len by auto
  have "unat w < 16 ^ 32" "unat w' < 16 ^ 32" using unsigned_less [of w, where 'a = nat] unsigned_less [of w', where 'a = nat] by simp_all
  then have "unat w = unat w'" using h(1) unfolding uuid_hex_def by (metis hex_fixed_inj)
  then have "w = w'" by (rule unsigned_word_eqI)
  then show ?thesis using w rn h by simp
qed


lemma revision_name_eq:
  "project_module_name E k = Inr pn \<Longrightarrow> revision_module_name E k d = Inr (pn @ lit ''.r_'' @ d)"
  by (simp add: revision_module_name_def)

text \<open>The containers lie outside every revision namespace.\<close>

lemma project_outside:
  assumes "project_module_name E k = Inr pn" "revision_module_name E k' d = Inr rn"
  shows "\<not> in_namespace rn pn" "\<not> in_namespace rn PRIVATE_ROOT"
proof -
  have "length pn = length PRIVATE_ROOT + 35" "length PRIVATE_ROOT + 38 \<le> length rn"
    using assms by (auto simp: project_module_name_def revision_module_name_def result_simps uuid_hex_def length_hex_fixed
        split: option.splits)
  then show "\<not> in_namespace rn pn" "\<not> in_namespace rn PRIVATE_ROOT"
    by (auto simp: in_namespace_iff dest: arg_cong [where f = length])
qed

section \<open>Module tables\<close>

lemma names_map_entry [simp]: "map fst (AList.map_entry k f ms) = map fst ms"
  by (induction ms) auto

lemma loaded_attribute [simp]:
  "loaded_names rn (set_attribute p a ms) = loaded_names rn ms"
  "loaded_names rn (del_attribute p a ms) = loaded_names rn ms"
  by (simp_all add: loaded_names_def set_attribute_def del_attribute_def)

lemma loaded_remove: "loaded_names rn (remove_modules names ms) = filter (\<lambda>n. n \<notin> set names) (loaded_names rn ms)"
  by (induction ms) (auto simp: loaded_names_def remove_modules_def)

lemma loaded_container:
  "\<not> in_namespace rn name \<Longrightarrow> loaded_names rn (register_container name parent ms) = loaded_names rn ms"
  by (cases parent) (simp_all add: register_container_def Let_def, simp_all add: loaded_names_def)

lemma loaded_parents:
  assumes "project_module_name E k = Inr pn" "revision_module_name E k' d = Inr rn"
  shows "loaded_names rn (ensure_parent_packages pn ms) = loaded_names rn ms"
  using project_outside [OF assms] by (simp add: ensure_parent_packages_def loaded_container)

lemma map_of_del_attribute:
  "map_of (del_attribute p a ms) n = (if n = p then map_option (\<lambda>m. m\<lparr>l_attrs := removeAll a (l_attrs m)\<rparr>) (map_of ms n)
     else map_of ms n)"
  by (simp add: del_attribute_def map_of_map_entry split: option.split)

lemma map_of_remove: "map_of (remove_modules names ms) n = (if n \<in> set names then None else map_of ms n)"
  by (induction ms) (auto simp: remove_modules_def)

lemma sweep_loaded:
  "set (loaded_names rn (sweep_added pn rn earlier ms)) = set (loaded_names rn ms) \<inter> set earlier"
  by (auto simp: sweep_added_def Let_def loaded_remove)

lemma sweep_other:
  assumes "\<not> in_namespace rn n" "n \<noteq> pn"
  shows "map_of (sweep_added pn rn earlier ms) n = map_of ms n"
  using assms by (auto simp: sweep_added_def Let_def map_of_del_attribute map_of_remove loaded_names_def)

lemma sweep_unbound:
  assumes "rn \<notin> set earlier" "map_of (sweep_added pn rn earlier ms) pn = Some m"
  shows "binding_name rn \<notin> set (l_attrs m)"
  using assms by (auto simp: sweep_added_def Let_def map_of_del_attribute split: if_splits)

lemma run_boundary_failed:
  assumes "run_boundary rt passthrough pn rn dir init path dotted h = (h', Inl f)"
  shows "\<exists>h2. h' = h2\<lparr>h_modules := sweep_added pn rn (loaded_names rn (h_modules h)) (h_modules h2)\<rparr> \<and>
    (\<exists>x. f = Unwrapped x \<or> f = ImportFailed (failure_detail path x dir) (Some x))"
  using assms by (auto simp: run_boundary_def Let_def split: prod.splits sum.splits if_splits)


section \<open>The properties of this theory\<close>

text \<open>
  C34. A failed import leaves nothing behind in its revision's namespace: whatever project code
  registered before it raised, only modules that were loaded before remain, a package that was new is no
  longer bound on its container.
\<close>

theorem failed_import_swept:
  assumes "import_script_file E T rt passthrough key digest manifest path h = (h', Inl failure)"
    and "revision_module_name E key digest = Inr rn" and "project_module_name E key = Inr pn"
  shows "set (loaded_names rn (h_modules h')) \<subseteq> set (loaded_names rn (h_modules h)) \<and>
    (\<forall>x. (failure = Unwrapped x \<or> (\<exists>detail. failure = ImportFailed detail (Some x))) \<and> rn \<notin> set (loaded_names rn (h_modules h)) \<longrightarrow>
      (\<forall>m. map_of (h_modules h') pn = Some m \<longrightarrow> binding_name rn \<notin> set (l_attrs m)))"
proof -
  have rn: "rn = pn @ lit ''.r_'' @ digest" using assms(2,3) revision_name_eq by fastforce
  have same: "loaded_names rn (ensure_parent_packages pn ms) = loaded_names rn ms" for ms
    by (rule loaded_parents [OF assms(3,2)])
  have boundary: ?thesis if run: "run_boundary rt passthrough pn rn dir init path dotted
      (h\<lparr>h_modules := ensure_parent_packages pn (h_modules h), h_local := c\<rparr>) = (h', Inl failure)" for dir init dotted c
  proof -
    obtain ms where "h_modules h' = sweep_added pn rn (loaded_names rn (ensure_parent_packages pn (h_modules h))) ms"
      using run_boundary_failed [OF run] by fastforce
    then show ?thesis unfolding same using sweep_loaded [of rn pn] sweep_unbound [of rn] by auto
  qed
  show ?thesis
    using assms(1,3) boundary
    by (auto simp: import_script_file_def Let_def rn [symmetric] same split: sum.splits py_error.splits if_splits prod.splits)
qed

text \<open>A module whose body registers a helper and then raises.\<close>

definition example_failing :: "(memory, unit) runtime" where
  "example_failing = \<lparr>rt_materialize = (\<lambda>key digest manifest store c. (c, Inr (lit ''/c''))),
     rt_exec_root = (\<lambda>n dir h. (h, Inr ())),
     rt_import = (\<lambda>n h. (h\<lparr>h_modules := h_modules h @ [(n, synthetic n)]\<rparr>,
       Inl \<lparr>x_classes = [ExceptionC, SyntaxErrorC], x_type = lit ''SyntaxError'', x_text = [], x_name = None,
         x_detail_message = None, x_frames = []\<rparr>))\<rparr>"

definition example_process :: "(memory, unit) host" where
  "example_process = \<lparr>h_world = \<lparr>w_db = \<lparr>projects = [], revisions = [], script_files = [], scripts = []\<rparr>, w_store = [],
     w_others = [], w_now = 9\<rparr>, h_local = (), h_modules = []\<rparr>"

definition example_texts :: texts where
  "example_texts = \<lparr>t_path = (\<lambda>c p. p), t_not_in_manifest = (\<lambda>p. p), t_import_failed = (\<lambda>p. p), t_discovery = (\<lambda>c m. []),
     t_metadata = (\<lambda>c d. []), t_duplicate = (\<lambda>m n. []), t_zero = (\<lambda>z. []), t_error = (\<lambda>e. ([], []))\<rparr>"

theorem failed_import_swept_witness:
  "\<exists>h' failure rn. import_script_file ascii_python example_texts example_failing [] (lit ''k'') (the stored_digest) stored_example
       (lit ''a.py'') example_process = (h', Inl failure) \<and>
     revision_module_name ascii_python (lit ''k'') (the stored_digest) = Inr rn \<and> loaded_names rn (h_modules h') = []"
proof -
  let ?run = "import_script_file ascii_python example_texts example_failing [] (lit ''k'') (the stored_digest) stored_example
    (lit ''a.py'') example_process"
  have "isl (snd ?run)" by code_simp
  then obtain h' failure where run: "?run = (h', Inl failure)" by (metis isl_def prod.collapse)
  have "is_ok (project_module_name ascii_python (lit ''k''))" by code_simp
  then obtain pn where pn: "project_module_name ascii_python (lit ''k'') = Inr pn" by (auto simp: is_ok_iff)
  note rn = revision_name_eq [OF pn, of "the stored_digest"]
  have "set (loaded_names (pn @ lit ''.r_'' @ the stored_digest) (h_modules h')) \<subseteq> {}"
    using failed_import_swept [OF run rn pn] by (simp add: example_process_def loaded_names_def)
  with run rn show ?thesis by auto
qed

text \<open>Unloading removes one revision's modules, all of them, and none of any other revision's.\<close>

lemma unload_exact:
  assumes "unload_revision E key digest ms = Inr (ms', removed)" and "revision_module_name E key digest = Inr rn"
    and "is_hex_digest digest"
  shows "loaded_names rn ms' = [] \<and> sorted removed \<and> set removed = set (loaded_names rn ms) \<and>
    (\<forall>key' digest' rn'. revision_module_name E key' digest' = Inr rn' \<and> is_hex_digest digest' \<and> rn' \<noteq> rn \<longrightarrow>
      loaded_names rn' ms' = loaded_names rn' ms)"
proof -
  obtain pn where pn: "ms' = del_attribute pn (binding_name rn) (remove_modules removed ms)" "removed = sort (loaded_names rn ms)"
    using assms(1,2) by (auto simp: unload_revision_def Let_def result_simps)
  have "filter (\<lambda>n. n \<notin> set removed) (loaded_names rn' ms) = loaded_names rn' ms"
    if other: "revision_module_name E key' digest' = Inr rn'" "is_hex_digest digest'" "rn' \<noteq> rn" for key' digest' rn'
  proof (rule filter_True, rule ballI)
    fix n assume "n \<in> set (loaded_names rn' ms)"
    then have "in_namespace rn' n" by (simp add: loaded_names_def)
    then have "\<not> in_namespace rn n" using namespaces_disjoint [OF other(1) assms(2) other(2) assms(3)] other(3) by blast
    then show "n \<notin> set removed" by (simp add: pn(2) loaded_names_def)
  qed
  then show ?thesis by (auto simp: pn loaded_remove filter_empty_conv)
qed

end
