(* ===== verification/Sanitizer.thy ===== *)
theory Sanitizer
  imports Introspection "HOL-Library.Sublist"
begin

text \<open>
  \<open>build_error_sanitizer\<close> of validation.py, which strips a revision's runtime identities out of text
  before it is stored or logged, and \<open>local_revision_dir\<close> of runtime/cache.py, whose directory name is
  one of them.  \<open>str.replace\<close> is modelled as the left-to-right scan it is.
\<close>

section \<open>Replacing\<close>

fun scan_replace :: "pystr \<Rightarrow> pystr \<Rightarrow> pystr \<Rightarrow> pystr" where
  "scan_replace old new [] = []"
| "scan_replace old new (c # s) =
     (if old \<noteq> [] \<and> startswith (c # s) old then new @ scan_replace old new (drop (length old - 1) s)
      else c # scan_replace old new s)"

text \<open>Python inserts \<open>new\<close> around every character when \<open>old\<close> is empty.\<close>

definition py_replace :: "pystr \<Rightarrow> pystr \<Rightarrow> pystr \<Rightarrow> pystr" where
  "py_replace old new s = (if old = [] then new @ concat (map (\<lambda>c. c # new) s) else scan_replace old new s)"

section \<open>The private directory\<close>

text \<open>\<open>str(Path(root) / name)\<close> for a root that is not the current directory.\<close>

definition path_join :: "pystr \<Rightarrow> pystr \<Rightarrow> pystr" where
  "path_join root name = (if root = [dot] then name else if endswith root [slash] then root @ name else root @ slash # name)"

definition local_revision_dir :: "python \<Rightarrow> pystr \<Rightarrow> pystr \<Rightarrow> pystr option \<Rightarrow> pystr result" where
  "local_revision_dir E root storage_key digest =
     rbind (storage_key_component E storage_key) (\<lambda>k.
       rbind (digest_component digest) (\<lambda>d. Inr (path_join (path_join root k) d)))"

section \<open>The sanitizer\<close>

definition build_error_sanitizer :: "python \<Rightarrow> pystr \<Rightarrow> pystr \<Rightarrow> pystr \<Rightarrow> (pystr \<times> pystr) list result" where
  "build_error_sanitizer E root storage_key digest =
     rbind (revision_module_name E storage_key digest) (\<lambda>revision_prefix.
       rbind (project_module_name E storage_key) (\<lambda>project_name.
         rbind (local_revision_dir E root storage_key (Some digest)) (\<lambda>cache_dir.
           case uuid_parse E storage_key of None \<Rightarrow> Inl ValueError | Some w \<Rightarrow> Inr
             [(cache_dir @ [slash], []), (cache_dir, lit ''<revision>''),
              (revision_prefix @ [dot], []), (revision_prefix, lit ''<revision>''),
              (project_name @ [dot], []), (project_name, lit ''<project>''),
              (PRIVATE_ROOT, lit ''<runtime>''), (storage_key, lit ''<storage>''),
              (uuid_hex w, lit ''<storage>''), (digest, lit ''<digest>'')])))"

definition sanitize :: "(pystr \<times> pystr) list \<Rightarrow> pystr \<Rightarrow> pystr" where
  "sanitize replacements text = fold (\<lambda>(private, public). py_replace private public) replacements text"

section \<open>Occurrences\<close>

lemma startswith_prefix: "startswith s p \<longleftrightarrow> prefix p s"
  by (auto simp: startswith_iff prefix_def)

lemma scan_replace_absent: "\<not> sublist old s \<Longrightarrow> scan_replace old new s = s"
  by (induction old new s rule: scan_replace.induct) (auto simp: startswith_prefix sublist_Cons_right)

lemma sublist_shift:
  assumes "sublist t (a @ c # b)" "c \<notin> set t"
  shows "sublist t a \<or> sublist t b"
  using assms
proof (induction a)
  case Nil
  then show ?case by (cases t) (auto simp: sublist_Cons_right)
next
  case (Cons x a)
  show ?case
  proof (cases "prefix t ((x # a) @ c # b)")
    case True
    have "prefix t (x # a)"
    proof (rule ccontr)
      assume "\<not> prefix t (x # a)"
      with True obtain u where u: "t = (x # a) @ u" "prefix u (c # b)" using prefix_append [of t "x # a"] by blast
      have "u \<noteq> []" using \<open>\<not> prefix t (x # a)\<close> u(1) by (intro notI) simp
      with u have "c \<in> set t" by (cases u) auto
      with Cons.prems(2) show False by simp
    qed
    then show ?thesis by blast
  next
    case False
    then have "sublist t (a @ c # b)" using Cons.prems(1) unfolding append_Cons sublist_Cons_right by blast
    then show ?thesis using Cons.IH Cons.prems(2) unfolding sublist_Cons_right by blast
  qed
qed

text \<open>A bracketed placeholder can neither complete nor hide a text without brackets.\<close>

lemma prefix_scan_replace:
  "prefix t (scan_replace old (l # w) s) \<Longrightarrow> l \<notin> set t \<Longrightarrow> prefix t s"
proof (induction old "l # w" s arbitrary: t rule: scan_replace.induct)
  case (2 old c s)
  show ?case
  proof (cases "old \<noteq> [] \<and> startswith (c # s) old")
    case True
    then show ?thesis using "2.prems" by (cases t) auto
  next
    case False
    then show ?thesis using "2.prems" "2.hyps"(2) by (cases t) auto
  qed
qed simp

lemma sublist_scan_replace:
  assumes "sublist t (scan_replace old (l # w @ [g]) s)" "t \<noteq> []" "l \<notin> set t" "g \<notin> set t" "\<not> sublist t w"
  shows "sublist t s"
  using assms(1)
proof (induction s rule: length_induct)
  case (1 s)
  show ?case
  proof (cases s)
    case Nil
    then show ?thesis using "1.prems" assms(2) by simp
  next
    case (Cons c s')
    show ?thesis
    proof (cases "old \<noteq> [] \<and> startswith (c # s') old")
      case True
      then have "sublist t ([] @ l # w @ g # scan_replace old (l # w @ [g]) (drop (length old - 1) s'))"
        using "1.prems" Cons by simp
      then have "sublist t (w @ g # scan_replace old (l # w @ [g]) (drop (length old - 1) s'))"
        using sublist_shift [of t "[]" l] assms(2,3) by simp
      then have "sublist t (scan_replace old (l # w @ [g]) (drop (length old - 1) s'))"
        using sublist_shift [of t w g] assms(4,5) by blast
      then have "sublist t (drop (length old - 1) s')" using "1.IH" Cons by simp
      then have "sublist t s'" by (rule sublist_order.order_trans) (rule sublist_drop)
      then show ?thesis unfolding Cons sublist_Cons_right by blast
    next
      case False
      then have step: "scan_replace old (l # w @ [g]) s = c # scan_replace old (l # w @ [g]) s'"
        unfolding Cons scan_replace.simps by (rule if_not_P)
      then have "sublist t (c # scan_replace old (l # w @ [g]) s')" using "1.prems" by (simp only: step)
      then consider "prefix t (c # scan_replace old (l # w @ [g]) s')" | "sublist t (scan_replace old (l # w @ [g]) s')"
        unfolding sublist_Cons_right by blast
      then show ?thesis
      proof cases
        case 1
        then have "prefix t (scan_replace old (l # w @ [g]) s)" by (simp only: step)
        then have "prefix t s" using assms(3) by (rule prefix_scan_replace)
        then show ?thesis by blast
      next
        case 2
        then have "sublist t s'" using "1.IH" Cons by simp
        then show ?thesis unfolding Cons sublist_Cons_right by blast
      qed
    qed
  qed
qed

lemma scan_replace_removes:
  assumes "old \<noteq> []" "l \<notin> set old" "g \<notin> set old" "\<not> sublist old w"
  shows "\<not> sublist old (scan_replace old (l # w @ [g]) s)"
proof (induction s rule: length_induct)
  case (1 s)
  show ?case
  proof (cases s)
    case Nil
    then show ?thesis using assms(1) by simp
  next
    case (Cons c s')
    show ?thesis
    proof (cases "startswith (c # s') old")
      case True
      have "\<not> sublist old (scan_replace old (l # w @ [g]) (drop (length old - 1) s'))" using 1 Cons by simp
      then have "\<not> sublist old (w @ g # scan_replace old (l # w @ [g]) (drop (length old - 1) s'))"
        using sublist_shift [of old w g] assms(3,4) by blast
      then have "\<not> sublist old ([] @ l # w @ g # scan_replace old (l # w @ [g]) (drop (length old - 1) s'))"
        using sublist_shift [of old "[]" l] assms(1,2) by auto
      then show ?thesis using Cons True assms(1) by simp
    next
      case False
      then have "\<not> (old \<noteq> [] \<and> startswith (c # s') old)" by blast
      then have step: "scan_replace old (l # w @ [g]) s = c # scan_replace old (l # w @ [g]) s'"
        unfolding Cons scan_replace.simps by (rule if_not_P)
      have "\<not> prefix old s" using False by (simp add: Cons startswith_prefix)
      then have "\<not> prefix old (c # scan_replace old (l # w @ [g]) s')"
        using prefix_scan_replace [of old old l "w @ [g]" s] assms(2) by (metis step)
      moreover have "\<not> sublist old (scan_replace old (l # w @ [g]) s')" using 1 Cons by simp
      ultimately show ?thesis unfolding step sublist_Cons_right by blast
    qed
  qed
qed


lemma py_replace_absent: "old \<noteq> [] \<Longrightarrow> \<not> sublist old s \<Longrightarrow> py_replace old new s = s"
  by (simp add: py_replace_def scan_replace_absent)

text \<open>The placeholders.\<close>

definition placeholder :: "pystr \<Rightarrow> string \<Rightarrow> bool" where
  "placeholder public w \<longleftrightarrow> public = 60 # lit w @ [62]"

lemma placeholders [simp]:
  "placeholder (lit ''<runtime>'') ''runtime''" "placeholder (lit ''<storage>'') ''storage''"
  "placeholder (lit ''<digest>'') ''digest''"
  by (simp_all add: placeholder_def str_simps)

text \<open>A token that no placeholder can contain: long enough and without angle brackets.\<close>

definition token :: "pystr \<Rightarrow> bool" where
  "token t \<longleftrightarrow> 60 \<notin> set t \<and> 62 \<notin> set t \<and> 8 \<le> length t"

lemma token_not_sublist: "token t \<Longrightarrow> length w < 8 \<Longrightarrow> \<not> sublist t (lit w)"
  using sublist_length_le [of t "lit w"] by (auto simp: token_def)

lemma py_replace_removes:
  assumes "token t" "placeholder public w" "length w < 8"
  shows "\<not> sublist t (py_replace t public s)"
  using scan_replace_removes [of t 60 62 "lit w" s] assms token_not_sublist [OF assms(1,3)]
  by (auto simp: py_replace_def placeholder_def token_def)

lemma py_replace_keeps:
  assumes "token t" "placeholder public w" "length w < 8" "old \<noteq> []" "\<not> sublist t s"
  shows "\<not> sublist t (py_replace old public s)"
  using sublist_scan_replace [of t old 60 "lit w" 62 s] assms token_not_sublist [OF assms(1,3)]
  by (auto simp: py_replace_def placeholder_def token_def)

lemma hexdigit_chars: "d < 16 \<Longrightarrow> hexdigit d \<noteq> 60 \<and> hexdigit d \<noteq> 62"
  by (simp add: hexdigit_def)

lemma hex_fixed_chars: "c \<in> set (hex_fixed k v) \<Longrightarrow> c \<noteq> 60 \<and> c \<noteq> 62"
  by (induction k arbitrary: v) (auto simp: hexdigit_chars)

lemma token_hex [simp]: "token (uuid_hex w)"
  using hex_fixed_chars by (auto simp: token_def uuid_hex_def length_hex_fixed)

lemma token_digest: "is_hex_digest d \<Longrightarrow> token d"
  by (auto simp: token_def is_hex_digest_def list_all_iff)

lemma token_root [simp]: "token PRIVATE_ROOT"
  by (simp add: token_def PRIVATE_ROOT_def str_simps)


lemma token_uuid [simp]: "token (uuid_str w)"
proof -
  have "set (uuid_str w) \<subseteq> insert 45 (set (hex_fixed 32 (unat w)))"
    unfolding uuid_str_def Let_def by (auto dest: in_set_takeD in_set_dropD)
  then show ?thesis using hex_fixed_chars by (fastforce simp: token_def)
qed

text \<open>What the sanitizer is to hide.\<close>

definition private_tokens :: "python \<Rightarrow> pystr \<Rightarrow> pystr \<Rightarrow> pystr list" where
  "private_tokens E storage_key digest =
     [PRIVATE_ROOT, storage_key, uuid_hex (the (uuid_parse E storage_key)), digest]"

lemma suffix_path_join: "suffix name (path_join root name)"
  unfolding path_join_def suffix_def by (metis append.assoc append_Cons append_Nil)

lemma sanitizer_Inr:
  assumes "build_error_sanitizer E root key digest = Inr reps" "storage_key_component E key = Inr key"
  obtains w dir where "uuid_parse E key = Some w" "key = uuid_str w" "is_hex_digest digest" "sublist key dir"
    "reps = [(dir @ [slash], []), (dir, lit ''<revision>''),
      ((PRIVATE_ROOT @ lit ''.p_'' @ uuid_hex w @ lit ''.r_'' @ digest) @ [dot], []),
      (PRIVATE_ROOT @ lit ''.p_'' @ uuid_hex w @ lit ''.r_'' @ digest, lit ''<revision>''),
      ((PRIVATE_ROOT @ lit ''.p_'' @ uuid_hex w) @ [dot], []), (PRIVATE_ROOT @ lit ''.p_'' @ uuid_hex w, lit ''<project>''),
      (PRIVATE_ROOT, lit ''<runtime>''), (key, lit ''<storage>''), (uuid_hex w, lit ''<storage>''), (digest, lit ''<digest>'')]"
proof -
  obtain w where w: "uuid_parse E key = Some w" "key = uuid_str w"
    using assms(2) by (auto simp: storage_key_component_def split: option.splits)
  obtain dir where dir: "local_revision_dir E root key (Some digest) = Inr dir"
    and reps: "reps = [(dir @ [slash], []), (dir, lit ''<revision>''),
      ((PRIVATE_ROOT @ lit ''.p_'' @ uuid_hex w @ lit ''.r_'' @ digest) @ [dot], []),
      (PRIVATE_ROOT @ lit ''.p_'' @ uuid_hex w @ lit ''.r_'' @ digest, lit ''<revision>''),
      ((PRIVATE_ROOT @ lit ''.p_'' @ uuid_hex w) @ [dot], []), (PRIVATE_ROOT @ lit ''.p_'' @ uuid_hex w, lit ''<project>''),
      (PRIVATE_ROOT, lit ''<runtime>''), (key, lit ''<storage>''), (uuid_hex w, lit ''<storage>''), (digest, lit ''<digest>'')]"
    using assms(1) w(1) by (auto simp: build_error_sanitizer_def revision_module_name_def project_module_name_def result_simps)
  have dir': "dir = path_join (path_join root key) digest" and "is_hex_digest digest"
    using dir assms(2) by (auto simp: local_revision_dir_def digest_component_def result_simps split: if_splits)
  moreover have "path_join root key \<noteq> [dot]"
    using suffix_length_le [OF suffix_path_join [of key root]] w(2) by (auto simp: length_uuid_str)
  then have "sublist (path_join root key) (path_join (path_join root key) digest)"
    by (auto simp: path_join_def)
  with suffix_imp_sublist [OF suffix_path_join] have "sublist key dir" unfolding dir' by (rule sublist_order.order_trans)
  ultimately show thesis using that w reps by blast
qed

lemma sanitize_snoc: "sanitize (reps @ [(p, q)]) text = py_replace p q (sanitize reps text)"
  by (simp add: sanitize_def)

lemma sanitize_absent:
  "list_all (\<lambda>(p, q). p \<noteq> [] \<and> \<not> sublist p text) reps \<Longrightarrow> sanitize reps text = text"
  unfolding sanitize_def by (induction reps) (auto simp: py_replace_absent)

text \<open>The last four replacements decide: each removes its token and none brings an earlier one back.\<close>

lemma last_four:
  assumes "token a" "token b" "token c" "token d"
  defines "s1 \<equiv> \<lambda>text. py_replace a (lit ''<runtime>'') text"
  defines "s2 \<equiv> \<lambda>text. py_replace b (lit ''<storage>'') (s1 text)"
  defines "s3 \<equiv> \<lambda>text. py_replace c (lit ''<storage>'') (s2 text)"
  defines "s4 \<equiv> \<lambda>text. py_replace d (lit ''<digest>'') (s3 text)"
  shows "\<not> sublist a (s4 text) \<and> \<not> sublist b (s4 text) \<and> \<not> sublist c (s4 text) \<and> \<not> sublist d (s4 text)"
proof -
  have ne: "b \<noteq> []" "c \<noteq> []" "d \<noteq> []" using assms(2-4) by (auto simp: token_def)
  have a: "\<not> sublist a (s1 text)" unfolding s1_def by (rule py_replace_removes [OF assms(1) placeholders(1)]) simp
  have ab: "\<not> sublist a (s2 text)" unfolding s2_def by (rule py_replace_keeps [OF assms(1) placeholders(2) _ ne(1) a]) simp
  have b: "\<not> sublist b (s2 text)" unfolding s2_def by (rule py_replace_removes [OF assms(2) placeholders(2)]) simp
  have abc: "\<not> sublist a (s3 text)" unfolding s3_def by (rule py_replace_keeps [OF assms(1) placeholders(2) _ ne(2) ab]) simp
  have bc: "\<not> sublist b (s3 text)" unfolding s3_def by (rule py_replace_keeps [OF assms(2) placeholders(2) _ ne(2) b]) simp
  have c: "\<not> sublist c (s3 text)" unfolding s3_def by (rule py_replace_removes [OF assms(3) placeholders(2)]) simp
  have d: "\<not> sublist d (s4 text)" unfolding s4_def by (rule py_replace_removes [OF assms(4) placeholders(3)]) simp
  have "\<not> sublist x (s4 text)" if "token x" "\<not> sublist x (s3 text)" for x
    unfolding s4_def by (rule py_replace_keeps [OF that(1) placeholders(3) _ ne(3) that(2)]) simp
  then show ?thesis using assms(1-3) abc bc c d by blast
qed

section \<open>The property of this theory\<close>

lemma sanitized_text:
  assumes "build_error_sanitizer E root storage_key digest = Inr replacements"
    and "storage_key_component E storage_key = Inr storage_key"
  shows "(\<forall>t \<in> set (private_tokens E storage_key digest). \<not> sublist t (sanitize replacements text)) \<and>
    ((\<forall>t \<in> set (private_tokens E storage_key digest). \<not> sublist t text) \<longrightarrow> sanitize replacements text = text)"
proof -
  from assms obtain w dir where w: "uuid_parse E storage_key = Some w" "storage_key = uuid_str w" "is_hex_digest digest"
      "sublist storage_key dir"
    and reps: "replacements = [(dir @ [slash], []), (dir, lit ''<revision>''),
      ((PRIVATE_ROOT @ lit ''.p_'' @ uuid_hex w @ lit ''.r_'' @ digest) @ [dot], []),
      (PRIVATE_ROOT @ lit ''.p_'' @ uuid_hex w @ lit ''.r_'' @ digest, lit ''<revision>''),
      ((PRIVATE_ROOT @ lit ''.p_'' @ uuid_hex w) @ [dot], []), (PRIVATE_ROOT @ lit ''.p_'' @ uuid_hex w, lit ''<project>''),
      (PRIVATE_ROOT, lit ''<runtime>''), (storage_key, lit ''<storage>''), (uuid_hex w, lit ''<storage>''),
      (digest, lit ''<digest>'')]"
    by (rule sanitizer_Inr)
  have toks: "private_tokens E storage_key digest = [PRIVATE_ROOT, uuid_str w, uuid_hex w, digest]"
    using w(1,2) by (simp add: private_tokens_def)
  define s0 where "s0 = sanitize (take 6 replacements) text"
  have "sanitize replacements text = py_replace digest (lit ''<digest>'') (py_replace (uuid_hex w) (lit ''<storage>'')
      (py_replace (uuid_str w) (lit ''<storage>'') (py_replace PRIVATE_ROOT (lit ''<runtime>'') s0)))"
    using w(2) by (simp add: s0_def reps sanitize_def)
  then have hidden: "\<forall>t \<in> set (private_tokens E storage_key digest). \<not> sublist t (sanitize replacements text)"
    using last_four [OF token_root token_uuid [of w] token_hex [of w] token_digest [OF w(3)], of s0] unfolding toks by simp
  have "sanitize replacements text = text" if "\<forall>t \<in> set (private_tokens E storage_key digest). \<not> sublist t text"
  proof (rule sanitize_absent)
    have "\<not> sublist (dir @ x) text" for x
      using that w(2,4) unfolding toks by (meson list.set_intros sublist_append_leftI sublist_appendI sublist_order.order_trans sublist_append_rightI)
    moreover have "\<not> sublist (PRIVATE_ROOT @ x) text" for x
      using that unfolding toks by (meson list.set_intros sublist_append_rightI sublist_order.order_trans)
    ultimately show "list_all (\<lambda>(p, q). p \<noteq> [] \<and> \<not> sublist p text) replacements"
      using that w(2) token_digest [OF w(3)] token_hex [of w] token_uuid [of w] token_root w(4)
      unfolding reps toks by (auto simp: token_def)
  qed
  with hidden show ?thesis by blast
qed

text \<open>
  C30. Nothing that is stored or logged identifies the runtime: sanitized text contains neither the
  private namespace nor the project's storage key, in either spelling, nor the digest, wherever and
  however often they occurred, and text that names none of them is passed on unchanged.
\<close>

theorem sanitizer_hides:
  assumes "build_error_sanitizer E root storage_key digest = Inr replacements"
    and "storage_key_component E storage_key = Inr storage_key"
  shows "(\<forall>t \<in> set (private_tokens E storage_key digest). \<not> sublist t (sanitize replacements text)) \<and>
    ((\<forall>t \<in> set (private_tokens E storage_key digest). \<not> sublist t text) \<longrightarrow> sanitize replacements text = text)"
  by (rule sanitized_text [OF assms])


theorem sanitizer_hides_witness:
  "\<exists>replacements. build_error_sanitizer ascii_python (lit ''/c'') (uuid_str 36) (replicate 64 48) = Inr replacements \<and>
     \<not> sublist (uuid_str 36) (sanitize replacements (lit ''in '' @ uuid_str 36)) \<and> sanitize replacements (lit ''in'') = lit ''in''"
proof -
  have key: "storage_key_component ascii_python (uuid_str 36) = Inr (uuid_str 36)"
    using length_uuid_str [of 36] by (auto simp: storage_key_component_def ascii_python_def simp del: length_uuid_str)
  have "is_ok (build_error_sanitizer ascii_python (lit ''/c'') (uuid_str 36) (replicate 64 48))" by code_simp
  then obtain reps where reps: "build_error_sanitizer ascii_python (lit ''/c'') (uuid_str 36) (replicate 64 48) = Inr reps"
    by (auto simp: is_ok_iff)
  have short: "\<not> sublist t (lit ''in'')" if "t \<in> set (private_tokens ascii_python (uuid_str 36) (replicate 64 48))" for t
    using that token_not_sublist [OF token_root] token_not_sublist [OF token_uuid] token_not_sublist [OF token_hex]
      token_not_sublist [OF token_digest [of "replicate 64 48"]]
    by (auto simp: private_tokens_def is_hex_digest_def list_all_iff)
  show ?thesis
    using reps sanitizer_hides [OF reps key, of "lit ''in '' @ uuid_str 36"] sanitizer_hides [OF reps key, of "lit ''in''"] short
    by (auto simp: private_tokens_def)
qed

end
