(* ===== verification/Validation.thy ===== *)
theory Validation
  imports Loader Sanitizer Script_Files
begin

text \<open>
  validation.py: the lifecycle step between MATERIALIZED and a verdict.  A run claims its revision as a
  lease, imports every script file the frozen snapshot names, collects what they publish, and commits
  VALID or INVALID under the fence of its ownership; environment failures give the claim back.
\<close>

section \<open>What a run is given\<close>

text \<open>\<open>find_spec\<close> locates a top-level module for this interpreter; it may raise.\<close>

record ('b, 'h, 'c) validation_env =
  v_python :: python
  v_core :: netbox_core
  v_texts :: texts
  v_service :: "('b, 'h) service_env"
  v_cache_root :: pystr
  v_runtime :: "('b, 'h) backend \<Rightarrow> ('b, 'c) runtime"
  v_find_spec :: "pystr \<Rightarrow> raised + bool"

definition on_world :: "('b world, 'a) io \<Rightarrow> (('b, 'c) host, 'a) io" where
  "on_world m h = (case m (h_world h) of (w, r) \<Rightarrow> (h\<lparr>h_world := w\<rparr>, r))"

section \<open>Ownership\<close>

definition claimable :: "time \<Rightarrow> revision \<Rightarrow> bool" where
  "claimable now r \<longleftrightarrow> r_status r = MATERIALIZED \<or> (r_status r = VALIDATING \<and>
     (case r_validation_started r of None \<Rightarrow> False | Some t \<Rightarrow> t + VALIDATION_LEASE_SECONDS < now))"

definition update_rows_where :: "(revision \<Rightarrow> bool) \<Rightarrow> (revision \<Rightarrow> revision) \<Rightarrow> db \<Rightarrow> (db \<times> bool) result" where
  "update_rows_where hit f d =
     rbind (write_revisions d (update_rows hit f (revisions d))) (\<lambda>d'. Inr (d', list_ex hit (revisions d)))"

definition claimed_by :: "pk \<Rightarrow> time \<Rightarrow> revision \<Rightarrow> revision" where
  "claimed_by job now r = r\<lparr>r_status := VALIDATING, r_validation_job := Some job, r_validation_started := Some now,
     r_last_validation_failure := []\<rparr>"

definition claim_revision :: "pk \<Rightarrow> pk \<Rightarrow> time \<Rightarrow> db \<Rightarrow> (db \<times> bool) result" where
  "claim_revision k job now = update_rows_where (\<lambda>r. r_id r = k \<and> claimable now r) (claimed_by job now)"

text \<open>The fence of every final transition.\<close>

definition owned :: "pk \<Rightarrow> pk \<Rightarrow> revision \<Rightarrow> bool" where
  "owned k job r \<longleftrightarrow> r_id r = k \<and> r_status r = VALIDATING \<and> r_validation_job r = Some job"

definition with_verdict :: "revision_status \<Rightarrow> problem list \<Rightarrow> json list \<Rightarrow> revision \<Rightarrow> revision" where
  "with_verdict status errors published r =
     r\<lparr>r_status := status, r_validation_errors := errors, r_discovered_scripts := JList published\<rparr>"

definition finalize :: "pk \<Rightarrow> pk \<Rightarrow> revision_status \<Rightarrow> problem list \<Rightarrow> json list \<Rightarrow> db \<Rightarrow> (db \<times> bool) result" where
  "finalize k job status errors published = update_rows_where (owned k job) (with_verdict status errors published)"

definition given_back :: "pystr \<Rightarrow> revision \<Rightarrow> revision" where
  "given_back reason r = r\<lparr>r_status := MATERIALIZED, r_validation_job := None, r_validation_started := None,
     r_last_validation_failure := take MAX_VALIDATION_FAILURE_LENGTH reason\<rparr>"

definition revert_to_materialized :: "pk \<Rightarrow> pk \<Rightarrow> pystr \<Rightarrow> db \<Rightarrow> (db \<times> bool) result" where
  "revert_to_materialized k job reason = update_rows_where (owned k job) (given_back reason)"

section \<open>Judging an import failure\<close>

definition host_resolves :: "(pystr \<Rightarrow> raised + bool) \<Rightarrow> pystr \<Rightarrow> raised + bool" where
  "host_resolves find_spec name =
     (case find_spec name of
        Inr found \<Rightarrow> Inr found
      | Inl x \<Rightarrow> if is_instance x [ImportErrorC, ValueErrorC] then Inr False else Inl x)"

text \<open>Whether the failure is a statement about content; an exception of \<open>find_spec\<close> passes through.\<close>

definition classify_script_file_error ::
    "(pystr \<Rightarrow> raised + bool) \<Rightarrow> raised option \<Rightarrow> pystr \<Rightarrow> pystr list \<Rightarrow> raised + bool" where
  "classify_script_file_error find_spec cause own_name revision_modules =
     (case cause of
        None \<Rightarrow> Inr True
      | Some x \<Rightarrow>
          if is_instance x [SyntaxErrorC] then Inr True
          else if is_instance x [ImportErrorC] then
            (if \<not> is_instance x [ModuleNotFoundErrorC] then Inr True
             else let name = (case x_name x of None \<Rightarrow> [] | Some n \<Rightarrow> n)
                  in if name = own_name \<or> startswith name (own_name @ [dot]) then Inr True
                     else let top = hd (split_on dot name)
                          in if top \<in> set revision_modules then Inr True
                             else (case host_resolves find_spec top of Inl y \<Rightarrow> Inl y | Inr found \<Rightarrow> Inr (\<not> found)))
          else if is_instance x [StorageErrorC, OSErrorC] then Inr False
          else Inr True)"

definition top_level_module_names :: "python \<Rightarrow> json \<Rightarrow> pystr list" where
  "top_level_module_names E manifest = concat (map (\<lambda>e.
     case source_path_to_dotted_name E (e_path e) of
       Inr dotted \<Rightarrow> if dotted \<noteq> [] then [hd (split_on dot dotted)] else []
     | Inl _ \<Rightarrow> []) (manifest_entries manifest))"

section \<open>Collecting\<close>

text \<open>What a session accumulates: the failures, the identity map, the records, the outcomes and notes.\<close>

record progress =
  pr_failures :: "problem list"
  pr_identities :: "((pystr \<times> pystr) \<times> pyclass) list"
  pr_records :: "json list"
  pr_outcomes :: "(pystr \<times> discovery_status) list"
  pr_notes :: "(pystr \<times> pystr) list"

definition nothing_yet :: progress where
  "nothing_yet = \<lparr>pr_failures = [], pr_identities = [], pr_records = [], pr_outcomes = [], pr_notes = []\<rparr>"

definition add_failure :: "problem \<Rightarrow> progress \<Rightarrow> progress" where
  "add_failure f pr = pr\<lparr>pr_failures := pr_failures pr @ [f]\<rparr>"

definition set_outcome :: "pystr \<Rightarrow> discovery_status \<Rightarrow> progress \<Rightarrow> progress" where
  "set_outcome path outcome pr = pr\<lparr>pr_outcomes := AList.update path outcome (pr_outcomes pr)\<rparr>"

text \<open>The parts of \<open>_content_failure\<close>: the record of an import failure, and of a coded error.\<close>

definition import_problem :: "(pystr \<Rightarrow> pystr) \<Rightarrow> pystr \<Rightarrow> import_detail \<Rightarrow> problem" where
  "import_problem san path detail = ScriptProblem path (det_code detail) (san (det_message detail))
     (det_exception_type detail) (map_option san (det_traceback detail))"

definition coded_problem :: "(pystr \<Rightarrow> pystr) \<Rightarrow> pystr \<Rightarrow> string \<Rightarrow> pystr \<Rightarrow> problem" where
  "coded_problem san path code text = ScriptProblem path code (san text) None None"

definition content_failure :: "pystr \<Rightarrow> problem \<Rightarrow> progress \<Rightarrow> progress" where
  "content_failure path f pr = set_outcome path FAILED (add_failure f pr)"

fun collect_publications ::
    "netbox_core \<Rightarrow> texts \<Rightarrow> exc_class list \<Rightarrow> (pystr \<Rightarrow> pystr) \<Rightarrow> int \<Rightarrow> pystr \<Rightarrow> discovered_script list \<Rightarrow>
     discovery_status \<Rightarrow> progress \<Rightarrow> raised + (progress \<times> discovery_status)" where
  "collect_publications N T passthrough san file_id path [] outcome pr = Inr (pr, outcome)"
| "collect_publications N T passthrough san file_id path (item # found) outcome pr =
     (case map_of (pr_identities pr) (identity_of item) of
        Some existing \<Rightarrow>
          if c_id existing \<noteq> c_id (d_cls item)
          then collect_publications N T passthrough san file_id path found FAILED
                 (add_failure (coded_problem san path ''duplicate_identity''
                    (t_duplicate T (d_logical_module item) (d_name item))) pr)
          else collect_publications N T passthrough san file_id path found outcome pr
      | None \<Rightarrow>
          (case describe_script N passthrough item file_id path (length (pr_records pr)) of
             Escaped x \<Rightarrow> Inl x
           | Refused code \<Rightarrow> collect_publications N T passthrough san file_id path found FAILED
               (add_failure (coded_problem san path code (t_metadata T code item)) pr)
           | Described r \<Rightarrow> collect_publications N T passthrough san file_id path found outcome
               (pr\<lparr>pr_identities := pr_identities pr @ [(identity_of item, d_cls item)],
                   pr_records := pr_records pr @ [r]\<rparr>)))"

section \<open>The import session\<close>

record session =
  se_key :: pystr
  se_digest :: pystr
  se_manifest :: json
  se_prefix :: pystr
  se_modules :: "pystr list"
  se_sanitize :: "pystr \<Rightarrow> pystr"

text \<open>
  What ends a session early: the error that propagates and the text \<open>_failure_reason\<close> makes of it.
\<close>

type_synonym stop = "py_error \<times> pystr"

definition failure_reason :: "pystr \<Rightarrow> pystr \<Rightarrow> pystr option \<Rightarrow> pystr" where
  "failure_reason type_name text inner =
     (if truthy inner then strip (type_name @ lit '': '' @ text @ lit '' '' @ the inner) else type_name @ lit '': '' @ text)"

definition stop_checked :: "texts \<Rightarrow> py_error \<Rightarrow> stop" where
  "stop_checked T e = (e, failure_reason (fst (t_error T e)) (snd (t_error T e)) None)"

definition stop_raised :: "raised \<Rightarrow> stop" where
  "stop_raised x = (ControlException (x_type x), failure_reason (x_type x) (x_text x) (x_detail_message x))"

definition stop_import :: "texts \<Rightarrow> pystr \<Rightarrow> import_detail \<Rightarrow> stop" where
  "stop_import T path detail = (ScriptFileImportError,
     failure_reason (lit ''ScriptFileImportError'') (t_import_failed T path) (Some (det_message detail)))"

text \<open>One entry of the snapshot.\<close>

definition judge_entry ::
    "('b, 'h, 'c) validation_env \<Rightarrow> session \<Rightarrow> exc_class list \<Rightarrow> int \<times> pystr \<Rightarrow> import_failure + pymodule \<Rightarrow>
     progress \<Rightarrow> stop + progress" where
  "judge_entry V se passthrough entry outcome pr =
     (let T = v_texts V; san = se_sanitize se; path = snd entry
      in case outcome of
        Inl (NotImportable p code) \<Rightarrow> Inr (content_failure path (coded_problem san path code (t_path T code p)) pr)
      | Inl (Checked e) \<Rightarrow> Inl (stop_checked T e)
      | Inl (Unwrapped x) \<Rightarrow> Inl (stop_raised x)
      | Inl (ImportFailed detail cause) \<Rightarrow>
          (case classify_script_file_error (v_find_spec V) cause (se_prefix se) (se_modules se) of
             Inl x \<Rightarrow> Inl (stop_raised x)
           | Inr content \<Rightarrow>
               if \<not> content then Inl (stop_import T path detail)
               else Inr (content_failure path (import_problem san path detail) pr))
      | Inr m \<Rightarrow>
          (case discover_scripts m (se_prefix se) of
             Inl (DiscoveryError code) \<Rightarrow>
               Inr (content_failure path (coded_problem san path code (t_discovery T code m)) pr)
           | Inl e \<Rightarrow> Inl (stop_checked T e)
           | Inr [] \<Rightarrow> Inr (set_outcome path NO_SCRIPTS
               (pr\<lparr>pr_notes := AList.update path (san (t_zero T (zero_publication_reason m))) (pr_notes pr)\<rparr>))
           | Inr found \<Rightarrow>
               (case collect_publications (v_core V) T passthrough san (fst entry) path found DISCOVERED pr of
                  Inl x \<Rightarrow> Inl (stop_raised x)
                | Inr (pr', status) \<Rightarrow> Inr (set_outcome path status pr'))))"

fun session_entries ::
    "('b, 'h, 'c) validation_env \<Rightarrow> ('b, 'c) runtime \<Rightarrow> session \<Rightarrow> exc_class list \<Rightarrow> (int \<times> pystr) list \<Rightarrow> progress \<Rightarrow>
     ('b, 'c) host \<Rightarrow> ('b, 'c) host \<times> (stop + progress)" where
  "session_entries V rt se passthrough [] pr h = (h, Inr pr)"
| "session_entries V rt se passthrough (entry # entries) pr h =
     (case import_script_file (v_python V) (v_texts V) rt passthrough (se_key se) (se_digest se) (se_manifest se) (snd entry) h of
        (h', outcome) \<Rightarrow> (case judge_entry V se passthrough entry outcome pr of
            Inl stop \<Rightarrow> (h', Inl stop)
          | Inr pr' \<Rightarrow> session_entries V rt se passthrough entries pr' h'))"

text \<open>The session, the unloading in its \<open>finally\<close> clause, and the storage the entries are read from.\<close>

definition run_session ::
    "('b, 'h, 'c) validation_env \<Rightarrow> session \<Rightarrow> exc_class list \<Rightarrow> (int \<times> pystr) list \<Rightarrow> ('b, 'c) host \<Rightarrow>
     ('b, 'c) host \<times> (stop + progress)" where
  "run_session V se passthrough entries h =
     (case get_storage (v_service V) of
        Inl e \<Rightarrow> (h, Inl (stop_checked (v_texts V) e))
      | Inr be \<Rightarrow> (case session_entries V (v_runtime V be) se passthrough entries nothing_yet h of
          (h', outcome) \<Rightarrow> (case unload_revision (v_python V) (se_key se) (se_digest se) (h_modules h') of
              Inl e \<Rightarrow> (h', Inl (stop_checked (v_texts V) e))
            | Inr (modules, removed) \<Rightarrow> (h'\<lparr>h_modules := modules\<rparr>, outcome))))"

section \<open>The verdict\<close>

definition no_scripts_published :: "(int \<times> pystr) list \<Rightarrow> progress \<Rightarrow> problem list" where
  "no_scripts_published entries pr = map (\<lambda>(file_id, path). ScriptProblem path ''no_scripts_published''
     (case map_of (pr_notes pr) path of None \<Rightarrow> [] | Some note \<Rightarrow> note) None None) entries"

text \<open>The failures the verdict carries.\<close>

definition verdict_failures :: "(int \<times> pystr) list \<Rightarrow> progress \<Rightarrow> problem list" where
  "verdict_failures entries pr =
     (if pr_failures pr = [] \<and> pr_records pr = [] then no_scripts_published entries pr else pr_failures pr)"

section \<open>Reporting on the script files\<close>

definition first_messages :: "problem list \<Rightarrow> pystr \<Rightarrow> pystr" where
  "first_messages failures path =
     (case List.find (\<lambda>f. case f of ScriptProblem p code message exc tb \<Rightarrow> p = path | _ \<Rightarrow> False) failures of
        Some f \<Rightarrow> problem_message f | None \<Rightarrow> [])"

definition file_message :: "discovery_status \<Rightarrow> problem list \<Rightarrow> progress \<Rightarrow> pystr \<Rightarrow> pystr" where
  "file_message outcome failures pr path =
     (case outcome of
        FAILED \<Rightarrow> first_messages failures path
      | NO_SCRIPTS \<Rightarrow> (case map_of (pr_notes pr) path of None \<Rightarrow> [] | Some note \<Rightarrow> note)
      | _ \<Rightarrow> [])"

text \<open>
  The filter: unchanged identity, and no outcome of a newer run.  The join on the last revision yields
  no row where that revision is gone or has no start, and a missing start of this run is refused.
\<close>

definition refreshable :: "db \<Rightarrow> revision \<Rightarrow> time \<Rightarrow> int \<times> pystr \<Rightarrow> script_file \<Rightarrow> bool" where
  "refreshable d r started entry f \<longleftrightarrow> int (f_id f) = fst entry \<and> f_project f = r_project r \<and> f_source_path f = snd entry \<and>
     (case f_last_discovered_revision f of
        None \<Rightarrow> True
      | Some k \<Rightarrow> k = r_id r \<or> (case Option.bind (revision_of d k) r_validation_started of
            None \<Rightarrow> False | Some t \<Rightarrow> t < started))"

definition persist_result ::
    "revision \<Rightarrow> int \<times> pystr \<Rightarrow> discovery_status \<Rightarrow> pystr \<Rightarrow> db \<Rightarrow> (db \<times> unit) result" where
  "persist_result r entry outcome message d =
     (case r_validation_started r of
        None \<Rightarrow> Inl ValueError
      | Some started \<Rightarrow>
          let hit = refreshable d r started entry
          in if list_ex hit (script_files d) \<and> revision_of d (r_id r) = None then Inl IntegrityError
             else rbind (write_script_files d (update_rows hit (\<lambda>f. f\<lparr>f_discovery_status := outcome,
                 f_discovery_error := message, f_last_discovered_revision := Some (r_id r)\<rparr>) (script_files d)))
               (\<lambda>d'. Inr (d', ())))"

fun persist_script_file_results ::
    "revision \<Rightarrow> (int \<times> pystr) list \<Rightarrow> problem list \<Rightarrow> progress \<Rightarrow> ('b world, unit) io" where
  "persist_script_file_results r [] failures pr = ret ()"
| "persist_script_file_results r (entry # entries) failures pr =
     (case map_of (pr_outcomes pr) (snd entry) of
        None \<Rightarrow> persist_script_file_results r entries failures pr
      | Some outcome \<Rightarrow>
          sbind (statement (persist_result r entry outcome (file_message outcome failures pr (snd entry))))
            (\<lambda>_. persist_script_file_results r entries failures pr))"

section \<open>Validation\<close>

definition refresh_from_db :: "pk \<Rightarrow> db \<Rightarrow> revision result" where
  "refresh_from_db k d = (case revision_of d k of None \<Rightarrow> Inl DoesNotExist | Some r \<Rightarrow> Inr r)"

definition open_session :: "('b, 'h, 'c) validation_env \<Rightarrow> script_project \<Rightarrow> revision \<Rightarrow> session result" where
  "open_session V p r =
     (let E = v_python V; key = p_storage_key p;
          digest = (case r_digest r of None \<Rightarrow> lit ''None'' | Some x \<Rightarrow> x)
      in rbind (revision_module_name E key digest) (\<lambda>own_name.
           rbind (build_error_sanitizer E (v_cache_root V) key digest) (\<lambda>replacements.
             Inr \<lparr>se_key = key, se_digest = digest, se_manifest = r_manifest r, se_prefix = own_name,
               se_modules = top_level_module_names E (r_manifest r), se_sanitize = sanitize replacements\<rparr>)))"

definition commit_verdict ::
    "revision \<Rightarrow> pk \<Rightarrow> (int \<times> pystr) list \<Rightarrow> progress \<Rightarrow> ('b world, revision) io" where
  "commit_verdict r job entries pr =
     (let failures = verdict_failures entries pr
      in sbind (statement (finalize (r_id r) job (if failures \<noteq> [] then INVALID else VALID) failures
                  (if failures \<noteq> [] then [] else pr_records pr))) (\<lambda>own.
           sbind (if own then persist_script_file_results r entries failures pr else ret ()) (\<lambda>_.
             select (refresh_from_db (r_id r)))))"

definition validate_content ::
    "('b, 'h, 'c) validation_env \<Rightarrow> revision \<Rightarrow> pk \<Rightarrow> exc_class list \<Rightarrow> (int \<times> pystr) list \<Rightarrow> (('b, 'c) host, revision) io" where
  "validate_content V r job passthrough entries =
     sbind (on_world (select (\<lambda>d. case project_of d (r_project r) of None \<Rightarrow> Inl DoesNotExist | Some p \<Rightarrow> Inr p))) (\<lambda>p.
       sbind (lift (\<lambda>_. open_session V p r)) (\<lambda>se. (\<lambda>h.
         case run_session V se passthrough entries h of
           (h', Inl (e, reason)) \<Rightarrow>
             sbind (on_world (statement (revert_to_materialized (r_id r) job (se_sanitize se reason)))) (\<lambda>_. fail e) h'
         | (h', Inr pr) \<Rightarrow> on_world (commit_verdict r job entries pr) h')))"

text \<open>The run after the claim: the two stored documents first, then the entries they name.\<close>

definition checked_entries :: "('b, 'h, 'c) validation_env \<Rightarrow> revision \<Rightarrow> (int \<times> pystr) list result" where
  "checked_entries V r =
     rbind (validate_script_file_snapshot (v_python V) (r_script_file_snapshot r) (r_script_file_digest r)) (\<lambda>js.
       rbind (validate_manifest (v_python V) (r_manifest r) (r_digest r)) (\<lambda>_. Inr (map read_declaration js)))"

definition judge_claimed ::
    "('b, 'h, 'c) validation_env \<Rightarrow> pk \<Rightarrow> exc_class list \<Rightarrow> revision \<Rightarrow> (('b, 'c) host, revision) io" where
  "judge_claimed V job passthrough r =
     (case checked_entries V r of
        Inl e \<Rightarrow> (case e of
            RevisionCorrupt reasons \<Rightarrow>
              sbind (on_world (statement (revert_to_materialized (r_id r) job []))) (\<lambda>_. fail e)
          | _ \<Rightarrow> fail e)
      | Inr entries \<Rightarrow>
          if entries = []
          then sbind (on_world (statement (finalize (r_id r) job VALID [] []))) (\<lambda>_.
                 on_world (select (refresh_from_db (r_id r))))
          else validate_content V r job passthrough entries)"

definition validate_revision ::
    "('b, 'h, 'c) validation_env \<Rightarrow> string \<Rightarrow> pk \<Rightarrow> pk \<Rightarrow> exc_class list \<Rightarrow> (('b, 'c) host, revision) io" where
  "validate_revision V alias_name k job passthrough = (\<lambda>h.
     let now = w_now (h_world h)
     in sbind (lift (\<lambda>_. rbind (require_safe_routing (v_service V)) (\<lambda>_. require_default_database alias_name))) (\<lambda>_.
       sbind (on_world (statement (claim_revision k job now))) (\<lambda>claimed.
         if \<not> claimed then fail ValidationStateError
         else sbind (on_world (select (refresh_from_db k))) (judge_claimed V job passthrough))) h)"

section \<open>What the records of a session are worth\<close>

lemma validate_entries_snoc:
  assumes "validate_discovered_entries N i vs ids = Inr ()"
    and "validate_discovered_entry N (i + length vs) v (rev (map record_identity vs) @ ids) = Inr ids'"
  shows "validate_discovered_entries N i (vs @ [v]) ids = Inr ()"
  using assms
proof (induction vs arbitrary: i ids)
  case (Cons w vs)
  from Cons.prems(1) obtain ids1 where one: "validate_discovered_entry N i w ids = Inr ids1"
      and rest: "validate_discovered_entries N (Suc i) vs ids1 = Inr ()" by (auto simp: result_simps)
  have "ids1 = record_identity w # ids" using validate_discovered_entry_InrD [OF one] by simp
  then have "validate_discovered_entries N (Suc i) (vs @ [v]) ids1 = Inr ()"
    using Cons.IH [OF rest] Cons.prems(2) by simp
  then show ?case using one by simp
qed simp

definition progress_ok :: "netbox_core \<Rightarrow> progress \<Rightarrow> bool" where
  "progress_ok N pr \<longleftrightarrow> validate_discovered_entries N 0 (pr_records pr) [] = Inr () \<and>
     set (map record_identity (pr_records pr)) = set (map fst (pr_identities pr))"

lemma progress_ok_simps [simp]:
  "progress_ok N nothing_yet" "progress_ok N (add_failure f pr) = progress_ok N pr"
  "progress_ok N (set_outcome path outcome pr) = progress_ok N pr"
  "progress_ok N (content_failure path f pr) = progress_ok N pr"
  "progress_ok N (pr\<lparr>pr_notes := notes\<rparr>) = progress_ok N pr"
  by (simp_all add: progress_ok_def nothing_yet_def add_failure_def set_outcome_def content_failure_def)

lemma progress_ok_record:
  assumes "progress_ok N pr" "describe_script N passthrough item i path (length (pr_records pr)) = Described r" "0 < i"
    and "map_of (pr_identities pr) (identity_of item) = None"
  shows "progress_ok N (pr\<lparr>pr_identities := pr_identities pr @ [(identity_of item, d_cls item)], pr_records := pr_records pr @ [r]\<rparr>)"
proof -
  let ?ids = "rev (map record_identity (pr_records pr))"
  have "identity_of item \<notin> set ?ids"
    using assms(1,4) by (simp add: progress_ok_def map_of_eq_None_iff)
  from described_entry_validates [OF assms(2,3) this]
  have entry: "validate_discovered_entry N (length (pr_records pr)) r ?ids = Inr (identity_of item # ?ids)" .
  have "record_identity r = identity_of item" using validate_discovered_entry_InrD [OF entry] by simp
  moreover have "validate_discovered_entries N 0 (pr_records pr @ [r]) [] = Inr ()"
    by (rule validate_entries_snoc) (use assms(1) entry in \<open>simp_all add: progress_ok_def\<close>)
  ultimately show ?thesis using assms(1) by (simp add: progress_ok_def)
qed

lemma collect_ok:
  "collect_publications N T passthrough san i path found outcome pr = Inr (pr', status) \<Longrightarrow> progress_ok N pr \<Longrightarrow> 0 < i \<Longrightarrow>
     progress_ok N pr'"
proof (induction N T passthrough san i path found outcome pr rule: collect_publications.induct)
  case (2 N T passthrough san i path item found outcome pr)
  show ?case
  proof (cases "map_of (pr_identities pr) (identity_of item)")
    case (Some existing)
    then show ?thesis using 2 by (auto split: if_splits)
  next
    case None
    show ?thesis
    proof (cases "describe_script N passthrough item i path (length (pr_records pr))")
      case (Described r)
      then show ?thesis using 2 None progress_ok_record [OF "2.prems"(2) Described "2.prems"(3) None] by simp
    qed (use 2 None in auto)
  qed
qed simp

declare collect_publications.simps(2) [simp del]

lemma judge_ok:
  assumes "judge_entry V se passthrough entry outcome pr = Inr pr'" "progress_ok (v_core V) pr" "0 < fst entry"
  shows "progress_ok (v_core V) pr'"
  using assms
  by (auto simp: judge_entry_def Let_def split: sum.splits import_failure.splits py_error.splits if_splits list.splits
      dest: collect_ok)

lemma session_ok:
  "session_entries V rt se passthrough entries pr h = (h', Inr pr') \<Longrightarrow> progress_ok (v_core V) pr \<Longrightarrow>
     \<forall>e \<in> set entries. 0 < fst e \<Longrightarrow> progress_ok (v_core V) pr'"
  by (induction entries arbitrary: pr h) (auto split: prod.splits sum.splits dest: judge_ok)

lemma run_session_ok:
  assumes "run_session V se passthrough entries h = (h', Inr pr)" "\<forall>e \<in> set entries. 0 < fst e"
  shows "progress_ok (v_core V) pr"
  using assms session_ok by (fastforce simp: run_session_def split: sum.splits prod.splits)

lemma progress_published:
  "progress_ok N pr \<Longrightarrow> is_ok (validate_discovered_scripts N (JList (if b then [] else pr_records pr)))"
  by (simp add: progress_ok_def validate_discovered_scripts_def)

lemma snapshot_entries_positive:
  assumes "lower_laws E" "validate_script_file_snapshot E snapshot digest = Inr js"
  shows "\<forall>e \<in> set (map read_declaration js). 0 < fst e"
  using assms(2) unfolding validate_snapshot_iff [OF assms(1)] sound_snapshot_def sound_declaration_def
  by (auto dest!: bspec)

end
