(* ===== verification/File_System.thy ===== *)
theory File_System
  imports Store "HOL-Library.Sublist"
begin

text \<open>
  The local file system the runtime cache works on, and the system calls runtime/cache.py makes through
  \<open>pathlib\<close>, \<open>os\<close> and \<open>shutil\<close>.  A state is a table of nodes by absolute path, the root directory being
  the empty path.  What the operating system decides by itself is the record \<open>os\<close>: it may refuse any
  call (permissions, quota, hardware), and another process may act just before a directory is created or
  a name is renamed.
\<close>

unbundle bit_operations_syntax

section \<open>Nodes\<close>

type_synonym path = "pystr list"

text \<open>A \<open>PurePath\<close>: its parts, without the anchor.  Parts keep \<open>..\<close> and hold neither \<open>.\<close> nor empty names.\<close>

datatype pure_path = Absolute path | Relative path

definition path_text :: "pure_path \<Rightarrow> pystr" where
  "path_text p = (case p of
     Absolute ps \<Rightarrow> slash # join_on slash ps
   | Relative ps \<Rightarrow> if ps = [] then [dot] else join_on slash ps)"

datatype kind = Regular bytes | Directory | Link pure_path | Special

record node =
  n_kind :: kind
  n_mode :: "12 word"
  n_uid :: nat

definition is_link :: "node \<Rightarrow> bool" where
  "is_link n \<longleftrightarrow> (case n_kind n of Link _ \<Rightarrow> True | _ \<Rightarrow> False)"

type_synonym fs = "(path \<times> node) list"

datatype syscall =
    Lstat path
  | Readlink path
  | Mkdir path
  | OpenWrite path
  | WriteTo path
  | OpenRead path
  | Rename path path
  | Remove path
  | Chmod path
  | Scan path
  | Lock path
  | Cwd

record os =
  os_uid :: nat
  os_umask :: "12 word"
  os_cwd :: path
  os_uuid :: "nat \<Rightarrow> pystr"
  os_refuses :: "syscall \<Rightarrow> fs \<Rightarrow> bool"
  os_others :: "syscall \<Rightarrow> fs \<Rightarrow> fs"

text \<open>The file system and the number of random names this process has drawn.\<close>

record disk =
  k_fs :: fs
  k_draws :: nat

section \<open>System calls\<close>

text \<open>A path through something that is not a directory is refused by the kernel.\<close>

definition blocked :: "fs \<Rightarrow> path \<Rightarrow> bool" where
  "blocked f p \<longleftrightarrow> list_ex (\<lambda>i. case map_of f (take i p) of Some n \<Rightarrow> n_kind n \<noteq> Directory | None \<Rightarrow> False) [0..<length p]"

definition is_dir :: "fs \<Rightarrow> path \<Rightarrow> bool" where
  "is_dir f p \<longleftrightarrow> (case map_of f p of Some n \<Rightarrow> n_kind n = Directory | None \<Rightarrow> False)"

definition lstat_or_none :: "os \<Rightarrow> path \<Rightarrow> fs \<Rightarrow> node option result" where
  "lstat_or_none H p f = (if os_refuses H (Lstat p) f \<or> blocked f p then Inl OSErrorOther else Inr (map_of f p))"

definition put :: "path \<Rightarrow> node \<Rightarrow> disk \<Rightarrow> disk" where
  "put p n s = s\<lparr>k_fs := AList.update p n (k_fs s)\<rparr>"

definition drop_node :: "path \<Rightarrow> disk \<Rightarrow> disk" where
  "drop_node p s = s\<lparr>k_fs := AList.delete p (k_fs s)\<rparr>"

text \<open>
  \<open>mkdir\<close>.  An existing name is an error unless \<open>exist_ok\<close> holds and it is a directory; through a link
  that depends on what it leads to, which is left to \<open>os_refuses\<close>.
\<close>

definition mkdir :: "os \<Rightarrow> 12 word \<Rightarrow> bool \<Rightarrow> path \<Rightarrow> (disk, unit) io" where
  "mkdir H mode exist_ok p s =
     (let s = s\<lparr>k_fs := os_others H (Mkdir p) (k_fs s)\<rparr>
      in if os_refuses H (Mkdir p) (k_fs s) then (s, Inl OSErrorOther)
         else case map_of (k_fs s) p of
           Some n \<Rightarrow> (s, if exist_ok \<and> (n_kind n = Directory \<or> is_link n) then Inr () else Inl OSErrorOther)
         | None \<Rightarrow> if is_dir (k_fs s) (butlast p)
             then (put p \<lparr>n_kind = Directory, n_mode = mode AND NOT (os_umask H), n_uid = os_uid H\<rparr> s, Inr ())
             else (s, Inl (if blocked (k_fs s) p then OSErrorOther else FileNotFound)))"

text \<open>\<open>mkdir(parents=True, exist_ok=True)\<close>: a missing parent is made first, then the call is repeated.\<close>

function mkdir_parents :: "os \<Rightarrow> path \<Rightarrow> (disk, unit) io" where
  "mkdir_parents H p s =
     (case mkdir H 511 True p s of
        (s', Inl FileNotFound) \<Rightarrow>
          if p = [] then (s', Inl FileNotFound)
          else sbind (mkdir_parents H (butlast p)) (\<lambda>_. mkdir H 511 True p) s'
      | outcome \<Rightarrow> outcome)"
  by pat_completeness auto
termination by (relation "measure (\<lambda>(H, p, s). length p)") auto

declare mkdir_parents.simps [simp del]

definition nodes_below :: "path \<Rightarrow> fs \<Rightarrow> path list" where
  "nodes_below r f = filter (strict_prefix r) (remdups (map fst f))"

text \<open>\<open>rename\<close>: onto nothing, onto an empty directory from a directory, or onto a file from a file.\<close>

definition move :: "path \<Rightarrow> path \<Rightarrow> fs \<Rightarrow> fs" where
  "move p q f = map (\<lambda>(x, n). (q @ drop (length p) x, n)) (filter (\<lambda>x. prefix p (fst x)) f) @
     filter (\<lambda>x. \<not> prefix p (fst x) \<and> fst x \<noteq> q) f"

definition rename :: "os \<Rightarrow> path \<Rightarrow> path \<Rightarrow> (disk, unit) io" where
  "rename H p q s =
     (let s = s\<lparr>k_fs := os_others H (Rename p q) (k_fs s)\<rparr>; f = k_fs s
      in if os_refuses H (Rename p q) f \<or> map_of f p = None \<or> \<not> is_dir f (butlast q) \<or> prefix p q \<or> prefix q p \<or>
            nodes_below q f \<noteq> [] \<or> (map_of f q \<noteq> None \<and> is_dir f p \<noteq> is_dir f q)
         then (s, Inl OSErrorOther) else (s\<lparr>k_fs := move p q f\<rparr>, Inr ()))"

text \<open>\<open>unlink\<close> of a file and \<open>rmdir\<close> of an empty directory.\<close>

definition remove_node :: "os \<Rightarrow> path \<Rightarrow> (disk, unit) io" where
  "remove_node H p s =
     (if os_refuses H (Remove p) (k_fs s) \<or> nodes_below p (k_fs s) \<noteq> [] then (s, Inl OSErrorOther)
      else if map_of (k_fs s) p = None then (s, Inl FileNotFound)
      else (drop_node p s, Inr ()))"

text \<open>Children before their parents: the reverse of the lexicographic order.\<close>

definition bottom_up :: "path list \<Rightarrow> path list" where
  "bottom_up ps = rev (sort ps)"

fun each :: "('a \<Rightarrow> (disk, unit) io) \<Rightarrow> 'a list \<Rightarrow> (disk, unit) io" where
  "each act [] s = (s, Inr ())"
| "each act (x # xs) s = sbind (act x) (\<lambda>_. each act xs) s"

text \<open>\<open>shutil.rmtree\<close>, stopping at the first failure, and with \<open>onexc\<close>, going on after each.\<close>

definition rmtree :: "os \<Rightarrow> path \<Rightarrow> (disk, unit) io" where
  "rmtree H p s = each (remove_node H) (bottom_up (p # nodes_below p (k_fs s))) s"

definition rmtree_logged :: "os \<Rightarrow> path \<Rightarrow> disk \<Rightarrow> disk" where
  "rmtree_logged H p s = fold (\<lambda>q s. fst (remove_node H q s)) (bottom_up (p # nodes_below p (k_fs s))) s"

text \<open>\<open>chmod\<close> of a node that is not a link; through a link it changes a node elsewhere.\<close>

definition chmod :: "os \<Rightarrow> 12 word \<Rightarrow> path \<Rightarrow> (disk, unit) io" where
  "chmod H mode p s =
     (case map_of (k_fs s) p of
        None \<Rightarrow> (s, Inl FileNotFound)
      | Some n \<Rightarrow> if os_refuses H (Chmod p) (k_fs s) then (s, Inl OSErrorOther)
          else (case n_kind n of Link _ \<Rightarrow> (s, Inr ()) | _ \<Rightarrow> (put p (n\<lparr>n_mode := mode\<rparr>) s, Inr ())))"

text \<open>The directories \<open>Path.walk\<close> scans under one root, which must all be readable.\<close>

definition scanned :: "path \<Rightarrow> fs \<Rightarrow> path list" where
  "scanned r f = filter (is_dir f) (r # nodes_below r f)"

definition scan_refused :: "os \<Rightarrow> path \<Rightarrow> fs \<Rightarrow> bool" where
  "scan_refused H r f \<longleftrightarrow> list_ex (\<lambda>d. os_refuses H (Scan d) f) (scanned r f)"

definition children :: "path \<Rightarrow> fs \<Rightarrow> path list" where
  "children d f = filter (\<lambda>p. p \<noteq> [] \<and> butlast p = d) (remdups (map fst f))"

text \<open>An \<open>OSError\<close> a caller turns into its own error.\<close>

definition wrap_os :: "('s, 'a) io \<Rightarrow> ('s, 'a) io" where
  "wrap_os m s = (case m s of
     (s', Inl e) \<Rightarrow> (s', Inl (if is_os_error e then LocalCacheError else e))
   | outcome \<Rightarrow> outcome)"

definition draw :: "os \<Rightarrow> (disk, pystr) io" where
  "draw H s = (s\<lparr>k_draws := Suc (k_draws s)\<rparr>, Inr (os_uuid H (k_draws s)))"

section \<open>Facts\<close>

lemma put_simps [simp]:
  "map_of (k_fs (put p n s)) = (map_of (k_fs s))(p \<mapsto> n)" "map_of (k_fs (drop_node p s)) = (map_of (k_fs s))(p := None)"
  by (simp_all add: put_def drop_node_def update_conv' delete_conv')

lemma nodes_below_iff: "p \<in> set (nodes_below r f) \<longleftrightarrow> strict_prefix r p \<and> map_of f p \<noteq> None"
  by (simp add: nodes_below_def map_of_eq_None_iff conj_commute del: not_None_eq)

lemma nodes_below_Nil: "nodes_below r f = [] \<longleftrightarrow> (\<forall>p. strict_prefix r p \<longrightarrow> map_of f p = None)"
  using nodes_below_iff [of _ r f] by (metis all_not_in_conv empty_set set_empty)

lemma children_iff: "p \<in> set (children d f) \<longleftrightarrow> p \<noteq> [] \<and> butlast p = d \<and> map_of f p \<noteq> None"
  by (simp add: children_def map_of_eq_None_iff conj_ac del: not_None_eq)

lemma bottom_up_set [simp]: "set (bottom_up ps) = set ps"
  by (simp add: bottom_up_def)

text \<open>What lies under a directory, by relative path.\<close>

definition view :: "path \<Rightarrow> fs \<Rightarrow> path \<Rightarrow> node option" where
  "view r f rel = map_of f (r @ rel)"

lemma view_put: "view r (k_fs (put p n s)) = (if prefix r p then (view r (k_fs s))(drop (length r) p \<mapsto> n) else view r (k_fs s))"
  by (cases "prefix r p") (auto simp: fun_eq_iff view_def prefix_def)

lemma view_drop: "\<not> prefix r p \<Longrightarrow> view r (k_fs (drop_node p s)) = view r (k_fs s)"
  by (rule ext) (auto simp: view_def prefix_def)

lemma move_lookup:
  assumes "\<not> prefix p q" "\<not> prefix q p" "nodes_below q f = []"
  shows "map_of (move p q f) x = (if prefix q x then map_of f (p @ drop (length q) x) else if prefix p x then None else map_of f x)"
proof -
  have moved: "map_of (map (\<lambda>(x, n). (q @ drop (length p) x, n)) (filter (\<lambda>x. prefix p (fst x)) g)) x =
      (if prefix q x then map_of g (p @ drop (length q) x) else None)" for g :: fs
  proof (induction g)
    case (Cons e g)
    obtain y n where e: "e = (y, n)" by fastforce
    show ?case
    proof (cases "prefix p y")
      case True
      then obtain z where z: "y = p @ z" by (auto simp: prefix_def)
      have "q @ z = x \<longleftrightarrow> prefix q x \<and> z = drop (length q) x" by (auto simp: prefix_def)
      then show ?thesis using Cons.IH by (auto simp: e z)
    next
      case False
      then have "y \<noteq> p @ drop (length q) x" by (auto simp: prefix_def)
      then show ?thesis using Cons.IH False by (simp add: e)
    qed
  qed simp
  have rest: "map_of (filter (\<lambda>x. \<not> prefix p (fst x) \<and> fst x \<noteq> q) g) x = (if prefix p x \<or> x = q then None else map_of g x)" for g :: fs
    by (induction g) auto
  have "map_of f x = None" if "prefix q x" "x \<noteq> q"
    using assms(3) that by (auto simp: nodes_below_Nil strict_prefix_def)
  moreover have "\<not> (prefix p x \<and> prefix q x)"
    using assms(1,2) by (metis prefix_same_cases)
  ultimately show ?thesis unfolding move_def map_of_append map_add_def moved rest
    by (cases "prefix q x"; cases "x = q") (auto split: option.splits)
qed

lemma rename_InrD:
  assumes "rename H p q s = (s', Inr ())"
  shows "view q (k_fs s') = view p (os_others H (Rename p q) (k_fs s))"
    and "\<not> prefix q x \<Longrightarrow> \<not> prefix p x \<Longrightarrow> map_of (k_fs s') x = map_of (os_others H (Rename p q) (k_fs s)) x"
    and "k_draws s' = k_draws s"
  using assms by (auto simp: rename_def Let_def view_def move_lookup split: if_splits)

end
