(* ===== verification/Cache_Root.thy ===== *)
theory Cache_Root
  imports File_System Sanitizer
begin

text \<open>
  runtime/cache.py, the part that prepares the cache root: the byte budget of the composed paths, and
  the walk that refuses a root somebody else could substitute.  The walk is a loop the file system could
  make endless, so it is a \<open>partial_function\<close> whose value None is not returning, and that it returns is
  a theorem.
\<close>

section \<open>The root\<close>

definition MAX_CACHE_SYMLINKS :: nat where "MAX_CACHE_SYMLINKS = 40"

definition MAX_LOCAL_PATH_BYTES :: nat where "MAX_LOCAL_PATH_BYTES = 3800"

text \<open>\<open>resolve_cache_root\<close>: the setting when it is not empty, a directory of the temporary tree otherwise.\<close>

definition resolve_cache_root :: "pure_path option \<Rightarrow> path \<Rightarrow> pure_path" where
  "resolve_cache_root configured temporary =
     (case configured of Some root \<Rightarrow> root
      | None \<Rightarrow> Absolute (temporary @ [lit ''netbox-scripts'', lit ''runtime-cache'']))"

text \<open>\<open>root.absolute()\<close>, whose current directory may be gone.\<close>

definition absolute_parts :: "os \<Rightarrow> pure_path \<Rightarrow> fs \<Rightarrow> path result" where
  "absolute_parts H root f = (case root of
     Absolute ps \<Rightarrow> Inr ps
   | Relative ps \<Rightarrow> if os_refuses H Cwd f then Inl OSErrorOther else Inr (os_cwd H @ ps))"

text \<open>One entry of the walk, created private to this user when it is missing.\<close>

definition inspect_entry :: "os \<Rightarrow> path \<Rightarrow> (disk, node) io" where
  "inspect_entry H directory s =
     (case lstat_or_none H directory (k_fs s) of
        Inl e \<Rightarrow> (s, Inl e)
      | Inr (Some info) \<Rightarrow> (s, Inr info)
      | Inr None \<Rightarrow> sbind (mkdir H 448 True directory) (\<lambda>_ s'.
          case lstat_or_none H directory (k_fs s') of
            Inl e \<Rightarrow> (s', Inl e)
          | Inr None \<Rightarrow> (s', Inl FileNotFound)
          | Inr (Some info) \<Rightarrow> (s', Inr info)) s)"

definition writable_by_others :: "12 word \<Rightarrow> bool" where
  "writable_by_others mode \<longleftrightarrow> mode AND (16 OR 2) \<noteq> 0 \<and> mode AND 512 = 0"

text \<open>
  The loop, with the components still to visit in the order they are visited.  The directory it ends in
  is the one the kernel reaches by the root's name, since every link is followed on the way.
\<close>

partial_function (option) inspect_root :: "os \<Rightarrow> path \<Rightarrow> path \<Rightarrow> nat \<Rightarrow> disk \<Rightarrow> (disk \<times> path result) option" where
  "inspect_root H directory pending symlinks s =
     (case inspect_entry H directory s of
        (s', Inl e) \<Rightarrow> Some (s', Inl LocalCacheError)
      | (s', Inr info) \<Rightarrow>
          if n_uid info \<noteq> os_uid H \<and> n_uid info \<noteq> 0 then Some (s', Inl LocalCacheError)
          else (case n_kind info of
              Link target \<Rightarrow>
                if symlinks + 1 > MAX_CACHE_SYMLINKS \<or> os_refuses H (Readlink directory) (k_fs s')
                then Some (s', Inl LocalCacheError)
                else (case target of
                    Absolute parts \<Rightarrow> inspect_root H [] (parts @ pending) (symlinks + 1) s'
                  | Relative parts \<Rightarrow> inspect_root H (butlast directory) (parts @ pending) (symlinks + 1) s')
            | Directory \<Rightarrow>
                if writable_by_others (n_mode info) then Some (s', Inl LocalCacheError)
                else (case pending of
                    [] \<Rightarrow> Some (s', Inr directory)
                  | component # rest \<Rightarrow>
                      inspect_root H (if component = lit ''..'' then butlast directory else directory @ [component]) rest symlinks s')
            | _ \<Rightarrow> Some (s', Inl LocalCacheError)))"

declare inspect_root.simps [code]

definition ensure_private_root :: "os \<Rightarrow> pure_path \<Rightarrow> disk \<Rightarrow> (disk \<times> path result) option" where
  "ensure_private_root H root s =
     (case absolute_parts H root (k_fs s) of
        Inl e \<Rightarrow> Some (s, Inl LocalCacheError)
      | Inr parts \<Rightarrow> inspect_root H [] parts 0 s)"

section \<open>The byte budget\<close>

text \<open>\<open>len(text.encode('utf-8'))\<close>, and the longest entry path, 0 without entries.\<close>

definition byte_length :: "pystr \<Rightarrow> nat result" where
  "byte_length s = rbind (utf8_encode s) (\<lambda>b. Inr (length b))"

fun longest_entry :: "entry list \<Rightarrow> nat result" where
  "longest_entry [] = Inr 0"
| "longest_entry (e # es) = rbind (byte_length (e_path e)) (\<lambda>n. rbind (longest_entry es) (\<lambda>m. Inr (max n m)))"

definition staging_name :: "pystr \<Rightarrow> pystr \<Rightarrow> pystr" where
  "staging_name digest random = lit ''.'' @ digest @ lit ''.staging.'' @ random"

definition aside_name :: "pystr \<Rightarrow> pystr \<Rightarrow> pystr" where
  "aside_name digest random = digest @ lit ''.corrupt.'' @ random"

definition guard_path_budget :: "pystr \<Rightarrow> pystr \<Rightarrow> entry list \<Rightarrow> unit result" where
  "guard_path_budget project_dir digest manifest =
     rbind (longest_entry manifest) (\<lambda>longest.
       rbind (byte_length (path_join project_dir (staging_name digest (replicate 32 48)))) (\<lambda>n.
         if n + 1 + longest > MAX_LOCAL_PATH_BYTES then Inl LocalCacheError else Inr ()))"

section \<open>The walk returns\<close>

text \<open>
  A link consumes one of the 40 the walk may follow, any other entry one pending component.
\<close>

lemma walk_induct [case_names visit]:
  assumes "\<And>d pending (n :: nat) s.
      (n < MAX_CACHE_SYMLINKS \<Longrightarrow> (\<And>d' parts s'. P d' (parts @ pending) (n + 1) s')) \<Longrightarrow>
      (\<And>c rest d' s'. pending = c # rest \<Longrightarrow> P d' rest n s') \<Longrightarrow> P d pending n s"
  shows "P d pending n s"
proof (induction "(MAX_CACHE_SYMLINKS - n, length pending)" arbitrary: d pending n s
    rule: wf_induct_rule [OF wf_lex_prod [OF wf_less_than wf_less_than]])
  case 1
  show ?case by (rule assms; rule 1) auto
qed

lemma inspect_root_runs: "\<exists>s' r. inspect_root H directory pending symlinks s = Some (s', r)"
proof (induction directory pending symlinks s rule: walk_induct)
  case (visit d pending n s)
  then show ?case
    by (subst inspect_root.simps)
      (auto simp: not_less_eq split: sum.splits prod.splits kind.splits pure_path.splits list.splits)
qed

lemma ensure_private_root_runs: "\<exists>s' r. ensure_private_root H root s = Some (s', r)"
  by (auto simp: ensure_private_root_def inspect_root_runs split: sum.splits)

section \<open>What the walk accepts\<close>

definition private_dir :: "os \<Rightarrow> fs \<Rightarrow> path \<Rightarrow> bool" where
  "private_dir H f q \<longleftrightarrow> (\<exists>n. map_of f q = Some n \<and> n_kind n = Directory \<and> (n_uid n = os_uid H \<or> n_uid n = 0) \<and>
     \<not> writable_by_others (n_mode n))"

text \<open>
  Other processes may add names where they have write permission, but neither remove nor change what is
  there: the entries on the way are owned by this user or root and not writable by others.
\<close>

definition only_adds :: "os \<Rightarrow> bool" where
  "only_adds H \<longleftrightarrow> (\<forall>c f p n. map_of f p = Some n \<longrightarrow> map_of (os_others H c f) p = Some n)"

definition extends :: "fs \<Rightarrow> fs \<Rightarrow> bool" where
  "extends f g \<longleftrightarrow> (\<forall>p n. map_of f p = Some n \<longrightarrow> map_of g p = Some n)"

lemma extends_refl [simp]: "extends f f"
  by (simp add: extends_def)

lemma extends_trans: "extends f g \<Longrightarrow> extends g h \<Longrightarrow> extends f h"
  by (simp add: extends_def)

lemma private_dir_extends: "private_dir H f q \<Longrightarrow> extends f g \<Longrightarrow> private_dir H g q"
  by (auto simp: private_dir_def extends_def)

lemma mkdir_extends:
  assumes "only_adds H" "mkdir H mode ok p s = (s', r)"
  shows "extends (k_fs s) (k_fs s')"
  using assms
  by (auto simp: mkdir_def Let_def only_adds_def extends_def is_dir_def split: if_splits option.splits)

lemma inspect_entry_InrD:
  assumes "only_adds H" "inspect_entry H d s = (s', Inr info)"
  shows "extends (k_fs s) (k_fs s') \<and> map_of (k_fs s') d = Some info"
  using assms(2) mkdir_extends [OF assms(1)]
  by (auto simp: inspect_entry_def lstat_or_none_def sbind_def split: sum.splits option.splits prod.splits if_splits)

lemma inspect_root_private:
  assumes "only_adds H"
  shows "inspect_root H directory pending symlinks s = Some (s', Inr d) \<Longrightarrow>
    (\<forall>q. strict_prefix q directory \<longrightarrow> private_dir H (k_fs s) q) \<Longrightarrow>
    extends (k_fs s) (k_fs s') \<and> (\<forall>q. prefix q d \<longrightarrow> private_dir H (k_fs s') q)"
proof (induction directory pending symlinks s arbitrary: s' d rule: walk_induct)
  case (visit d0 pending n s)
  obtain s1 info where entry: "inspect_entry H d0 s = (s1, Inr info)"
    and owner: "n_uid info = os_uid H \<or> n_uid info = 0"
    using visit.prems(1) by (subst (asm) inspect_root.simps) (auto split: sum.splits prod.splits if_splits)
  have ext: "extends (k_fs s) (k_fs s1)" and here: "map_of (k_fs s1) d0 = Some info"
    using inspect_entry_InrD [OF assms entry] by blast+
  have above: "\<forall>q. strict_prefix q d0 \<longrightarrow> private_dir H (k_fs s1) q"
    using visit.prems(2) private_dir_extends ext by blast
  have butlast: "strict_prefix q (butlast d0) \<Longrightarrow> strict_prefix q d0" for q
    by (metis append_butlast_last_id butlast.simps(1) prefixI prefix_order.less_le_trans)
  show ?case
  proof (cases "n_kind info")
    case (Link target)
    from visit.prems(1) entry owner Link obtain d1 parts where go: "n < MAX_CACHE_SYMLINKS" "d1 = [] \<or> d1 = butlast d0"
        "inspect_root H d1 (parts @ pending) (n + 1) s1 = Some (s', Inr d)"
      by (subst (asm) inspect_root.simps) (auto split: if_splits pure_path.splits)
    have "\<forall>q. strict_prefix q d1 \<longrightarrow> private_dir H (k_fs s1) q" using go(2) above butlast by auto
    from visit.IH(1) [OF go(1,3) this] show ?thesis using extends_trans [OF ext] by blast
  next
    case Directory
    have mine: "private_dir H (k_fs s1) d0" and go: "case pending of [] \<Rightarrow> s' = s1 \<and> d = d0 | c # rest \<Rightarrow>
        inspect_root H (if c = lit ''..'' then butlast d0 else d0 @ [c]) rest n s1 = Some (s', Inr d)"
      using visit.prems(1) entry owner Directory here
      by (subst (asm) inspect_root.simps, auto simp: private_dir_def split: if_splits list.splits)+
    have upto: "prefix q d0 \<Longrightarrow> private_dir H (k_fs s1) q" for q using above mine by (cases "q = d0") (auto simp: strict_prefix_def)
    show ?thesis
    proof (cases pending)
      case Nil
      then show ?thesis using go ext upto by auto
    next
      case (Cons c rest)
      let ?d = "if c = lit ''..'' then butlast d0 else d0 @ [c]"
      have "\<forall>q. strict_prefix q ?d \<longrightarrow> private_dir H (k_fs s1) q"
        using upto above butlast by (auto simp: strict_prefix_def)
      then show ?thesis using visit.IH(2) [OF Cons, of ?d s1 s' d] go Cons extends_trans [OF ext] by auto
    qed
  qed (use visit.prems(1) entry owner in \<open>subst (asm) inspect_root.simps, simp split: if_splits\<close>)+
qed

section \<open>Byte lengths\<close>

definition octets :: "pystr \<Rightarrow> nat" where
  "octets s = length (concat (map utf8_char s))"

lemma octets_simps [simp]: "octets [] = 0" "octets (a @ b) = octets a + octets b" "octets (c # s) = length (utf8_char c) + octets s"
  by (simp_all add: octets_def)

lemma byte_length_Inr [result_simps]: "byte_length s = Inr n \<longleftrightarrow> (\<forall>c \<in> set s. \<not> is_surrogate c) \<and> n = octets s"
  by (auto simp: byte_length_def octets_def result_simps)

lemma octets_ascii: "\<forall>c \<in> set s. c < 128 \<Longrightarrow> octets s = length s"
  by (simp add: octets_def utf8_ascii)

lemma longest_entry_bound:
  "longest_entry es = Inr n \<Longrightarrow> e \<in> set es \<Longrightarrow> (\<forall>c \<in> set (e_path e). \<not> is_surrogate c) \<and> octets (e_path e) \<le> n"
proof (induction es arbitrary: n)
  case (Cons x es)
  then obtain k m where "byte_length (e_path x) = Inr k" "longest_entry es = Inr m" "n = max k m" by (auto simp: result_simps)
  with Cons.IH [of m] Cons.prems(2) show ?case by (auto simp: result_simps)
qed simp

definition hex_text :: "pystr \<Rightarrow> bool" where
  "hex_text s \<longleftrightarrow> list_all (\<lambda>c. (48 \<le> c \<and> c \<le> 57) \<or> (97 \<le> c \<and> c \<le> 102)) s"

lemma hex_text_ascii: "hex_text s \<Longrightarrow> (\<forall>c \<in> set s. c < 128 \<and> \<not> is_surrogate c \<and> c \<noteq> slash \<and> c \<noteq> dot)"
  by (auto simp: hex_text_def list_all_iff is_surrogate_def)

text \<open>The three names a revision's tree can have, each shorter than the one the guard composes.\<close>

lemma slot_names:
  assumes "is_hex_digest digest" "hex_text random" "length random = 32" "name \<in> {digest, staging_name digest random, aside_name digest random}"
  shows "(\<forall>c \<in> set name. c < 128 \<and> \<not> is_surrogate c \<and> c \<noteq> slash)" "name \<noteq> [dot]" "name \<noteq> []"
    "length name \<le> length (staging_name digest (replicate 32 48))"
proof -
  have d: "hex_text digest" "length digest = 64" using assms(1) by (simp_all add: is_hex_digest_def hex_text_def)
  let ?plain = "list_all (\<lambda>c. c < 128 \<and> \<not> is_surrogate c \<and> c \<noteq> slash)"
  have hex: "?plain s" if "hex_text s" for s using hex_text_ascii [OF that] by (simp add: list_all_iff)
  have "?plain (lit ''.staging.'')" "?plain (lit ''.corrupt.'')" "?plain (lit ''.'')" by code_simp+
  then have "?plain name" using assms(4) hex [OF d(1)] hex [OF assms(2)]
    by (elim insertE emptyE) (simp_all only: staging_name_def aside_name_def list_all_append simp_thms)
  then show "(\<forall>c \<in> set name. c < 128 \<and> \<not> is_surrogate c \<and> c \<noteq> slash)" by (simp add: list_all_iff)
  have "64 \<le> length name \<and> length name \<le> 106" using assms(3,4) d(2) by (auto simp: staging_name_def aside_name_def lit_def)
  moreover have "length (staging_name digest (replicate 32 48)) = 106" using d(2) by (simp add: staging_name_def lit_def)
  ultimately show "name \<noteq> [dot]" "name \<noteq> []" "length name \<le> length (staging_name digest (replicate 32 48))" by auto
qed

lemma path_join_name:
  assumes "name \<noteq> [dot]" "name \<noteq> []" "slash \<notin> set name"
  shows "path_join (path_join root name) entry = path_join root name @ slash # entry"
proof -
  have "\<exists>b. path_join root name = b @ name" by (cases "root = [dot]") (auto simp: path_join_def)
  then obtain b where b: "path_join root name = b @ name" ..
  have "path_join root name \<noteq> [dot]"
    using assms(1,2) by (auto simp: path_join_def endswith_iff append_eq_Cons_conv)
  moreover have "last (path_join root name) \<noteq> slash" unfolding b using assms(2,3) by (metis last_appendR last_in_set)
  moreover from this have "\<not> endswith (path_join root name) [slash]" by (auto simp: endswith_iff)
  ultimately show ?thesis by (simp add: path_join_def [of "path_join root name"])
qed

section \<open>The properties of this theory\<close>

text \<open>
  C35. The walk over the cache root returns, whatever the file system holds: a cycle of links, a link
  that another process keeps replacing and an endless chain of \<open>..\<close> all end in an answer or an error.
\<close>

theorem ensure_private_root_returns: "\<exists>s' r. ensure_private_root H root s = Some (s', r)"
  by (rule ensure_private_root_runs)

text \<open>
  C36. The root the walk accepts is private: the directory it reaches and every directory above it is
  a real directory of this user or of root, and others can write to it only when it is sticky, whatever
  links its name goes through and whatever others add meanwhile; nothing that was there is changed.
\<close>

theorem ensure_private_root_private:
  assumes "only_adds H" and "ensure_private_root H root s = Some (s', Inr d)"
  shows "(\<forall>q. prefix q d \<longrightarrow> private_dir H (k_fs s') q) \<and> extends (k_fs s) (k_fs s')"
  using assms(2) inspect_root_private [OF assms(1), of "[]"]
  by (auto simp: ensure_private_root_def split: sum.splits)

definition example_os :: os where
  "example_os = \<lparr>os_uid = 7, os_umask = 18, os_cwd = [lit ''home''], os_uuid = (\<lambda>n. replicate 32 (97 + n)),
     os_refuses = (\<lambda>c f. False), os_others = (\<lambda>c f. f)\<rparr>"

text \<open>A sticky temporary directory, and a link of this user that leads there from its home.\<close>

definition example_disk :: disk where
  "example_disk = \<lparr>k_fs = [([], \<lparr>n_kind = Directory, n_mode = 493, n_uid = 0\<rparr>),
     ([lit ''tmp''], \<lparr>n_kind = Directory, n_mode = 1023, n_uid = 0\<rparr>),
     ([lit ''home''], \<lparr>n_kind = Directory, n_mode = 493, n_uid = 7\<rparr>),
     ([lit ''home'', lit ''cache''], \<lparr>n_kind = Link (Relative [lit ''..'', lit ''tmp'']), n_mode = 511, n_uid = 7\<rparr>)], k_draws = 0\<rparr>"

lemma example_os_adds: "only_adds example_os"
  by (simp add: only_adds_def example_os_def)

theorem ensure_private_root_private_witness:
  "\<exists>s' d. ensure_private_root example_os (Relative [lit ''cache'', lit ''run'']) example_disk = Some (s', Inr d) \<and>
     d = [lit ''tmp'', lit ''run''] \<and> private_dir example_os (k_fs s') [lit ''tmp'']"
proof -
  let ?run = "ensure_private_root example_os (Relative [lit ''cache'', lit ''run'']) example_disk"
  have "(case ?run of Some (s', Inr d) \<Rightarrow> d = [lit ''tmp'', lit ''run''] | _ \<Rightarrow> False)" by code_simp
  then obtain s' where run: "?run = Some (s', Inr [lit ''tmp'', lit ''run''])" by (auto split: option.split_asm prod.split_asm sum.split_asm)
  from ensure_private_root_private [OF example_os_adds run] run show ?thesis by (auto simp: prefix_def)
qed

text \<open>
  C37. When the guard passes, no path composed for the revision exceeds 3800 bytes: each entry of the
  manifest fits under the slot, under every staging tree beside it and under every name a failed tree is
  set aside under.
\<close>

theorem guard_path_budget_bounds:
  assumes "guard_path_budget project_dir digest manifest = Inr ()" and "e \<in> set manifest" and "is_hex_digest digest"
    and "hex_text random" and "length random = 32"
    and "name \<in> {digest, staging_name digest random, aside_name digest random}"
  shows "\<exists>n \<le> MAX_LOCAL_PATH_BYTES. byte_length (path_join (path_join project_dir name) (e_path e)) = Inr n"
proof -
  let ?guarded = "staging_name digest (replicate 32 48)"
  have zeros: "hex_text (replicate 32 48)" by code_simp
  note names = slot_names [OF assms(3-6)] and guarded = slot_names [OF assms(3) zeros _, of ?guarded, simplified]
  from assms(1) obtain longest where ok: "longest_entry manifest = Inr longest"
      "\<forall>c \<in> set (path_join project_dir ?guarded). \<not> is_surrogate c"
      "octets (path_join project_dir ?guarded) + 1 + longest \<le> MAX_LOCAL_PATH_BYTES"
    by (auto simp: guard_path_budget_def result_simps split: if_splits)
  note entry = longest_entry_bound [OF ok(1) assms(2)]
  have "octets name \<le> octets ?guarded" using names(1,4) guarded(1) by (simp add: octets_ascii)
  then have "octets (path_join project_dir name) \<le> octets (path_join project_dir ?guarded)"
    by (simp add: path_join_def)
  moreover have "path_join (path_join project_dir name) (e_path e) = path_join project_dir name @ slash # e_path e"
    using names by (intro path_join_name) auto
  moreover have "\<forall>c \<in> set (path_join project_dir name). \<not> is_surrogate c"
    using ok(2) names(1) by (auto simp: path_join_def is_surrogate_def split: if_splits)
  ultimately show ?thesis using entry ok(3)
    by (auto simp: result_simps is_surrogate_def utf8_char_def)
qed

theorem guard_path_budget_bounds_witness:
  "guard_path_budget (lit ''/tmp'') (replicate 64 48) [\<lparr>e_path = lit ''a.py'', e_size = 2, e_sha = replicate 64 48\<rparr>] = Inr () \<and>
   (\<exists>n \<le> MAX_LOCAL_PATH_BYTES. byte_length (path_join (path_join (lit ''/tmp'') (aside_name (replicate 64 48) (replicate 32 97))) (lit ''a.py'')) = Inr n)"
proof -
  have run: "guard_path_budget (lit ''/tmp'') (replicate 64 48) [\<lparr>e_path = lit ''a.py'', e_size = 2, e_sha = replicate 64 48\<rparr>] = Inr ()"
    by code_simp
  moreover have "is_hex_digest (replicate 64 48)" "hex_text (replicate 32 97)" by code_simp+
  ultimately show ?thesis
    using guard_path_budget_bounds [OF run, of _ "replicate 32 97" "aside_name (replicate 64 48) (replicate 32 97)"] by simp
qed

end
