(* ===== verification/Cache.thy ===== *)
theory Cache
  imports Cache_Root
begin

text \<open>
  runtime/cache.py, the part that settles one slot of the cache: purging compiled files, verifying a
  local tree, setting a failed one aside, staging a fresh one through verified reads, publishing it with
  one rename and write-protecting it.
\<close>

section \<open>Verifying a tree\<close>

definition relative_text :: "path \<Rightarrow> path \<Rightarrow> pystr" where
  "relative_text root p = join_on slash (drop (length root) p)"

text \<open>\<open>_scan_tree\<close>: every node under the root with its \<open>lstat\<close>, which the kernel may refuse.\<close>

definition scan_tree :: "os \<Rightarrow> path \<Rightarrow> fs \<Rightarrow> (pystr \<times> node) list result" where
  "scan_tree H root f =
     (if scan_refused H root f \<or> list_ex (\<lambda>p. os_refuses H (Lstat p) f) (nodes_below root f) then Inl OSErrorOther
      else Inr (map (\<lambda>p. (relative_text root p, the (map_of f p))) (nodes_below root f)))"

definition entry_parents :: "pystr \<Rightarrow> pystr list" where
  "entry_parents p = (let segments = split_on slash p in map (\<lambda>i. join_on slash (take i segments)) [1..<length segments])"

text \<open>The reason a scanned node fails the tree for, and the loop of \<open>_measure_file\<close>.\<close>

definition entry_problem :: "(pystr \<times> entry) list \<Rightarrow> pystr list \<Rightarrow> pystr \<times> node \<Rightarrow> reason option" where
  "entry_problem expected expected_dirs e = (case e of (relative, info) \<Rightarrow>
     (case n_kind info of
        Link _ \<Rightarrow> Some (ReasonText ''symlink'' relative)
      | Directory \<Rightarrow> if relative \<in> set expected_dirs then None else Some (ReasonText ''unexpected_entry'' relative)
      | Special \<Rightarrow> Some (ReasonText ''unexpected_entry'' relative)
      | Regular _ \<Rightarrow> if map_of expected relative \<noteq> None then None else Some (ReasonText ''unexpected_entry'' relative)))"

function measure_chunks :: "nat \<Rightarrow> bytes \<Rightarrow> bytes \<Rightarrow> bytes" where
  "measure_chunks remaining content hashed =
     (if remaining = 0 then hashed
      else let chunk = take (min HASH_CHUNK remaining) content
           in if chunk = [] then hashed
              else measure_chunks (remaining - length chunk) (drop (length chunk) content) (hashed @ chunk))"
  by pat_completeness auto
termination by (relation "measure (\<lambda>(remaining, content, hashed). remaining)") (auto simp: HASH_CHUNK_def)

declare measure_chunks.simps [simp del]

definition measure_local :: "python \<Rightarrow> os \<Rightarrow> path \<Rightarrow> nat \<Rightarrow> fs \<Rightarrow> (nat \<times> pystr) result" where
  "measure_local E H p expected_size f =
     (case map_of f p of
        Some n \<Rightarrow> (case n_kind n of
            Regular content \<Rightarrow> if os_refuses H (OpenRead p) f then Inl LocalCacheError
              else let hashed = measure_chunks (expected_size + 1) content [] in Inr (length hashed, sha256 E hashed)
          | _ \<Rightarrow> Inl LocalCacheError)
      | None \<Rightarrow> Inl LocalCacheError)"

text \<open>One round of the loop over the expected entries.\<close>

definition check_expected ::
    "python \<Rightarrow> os \<Rightarrow> path \<Rightarrow> fs \<Rightarrow> pystr list \<Rightarrow> (pystr \<times> node) list \<Rightarrow> entry \<Rightarrow> reason list result" where
  "check_expected E H root f flagged found e =
     (let path = e_path e in
      case map_of found path of
        None \<Rightarrow> Inr (if path \<in> set flagged then [] else [ReasonText ''missing'' path])
      | Some info \<Rightarrow>
          (case n_kind info of
             Regular content \<Rightarrow>
               if length content \<noteq> e_size e then Inr [ReasonText ''size_mismatch'' path]
               else rbind (measure_local E H (root @ split_on slash path) (e_size e) f) (\<lambda>(size, checksum).
                 Inr (if size \<noteq> e_size e then [ReasonText ''size_mismatch'' path]
                      else if checksum \<noteq> e_sha e then [ReasonText ''checksum_mismatch'' path] else []))
           | _ \<Rightarrow> Inr []))"

fun gather :: "('a \<Rightarrow> 'b list result) \<Rightarrow> 'a list \<Rightarrow> 'b list result" where
  "gather check [] = Inr []"
| "gather check (x # xs) = rbind (check x) (\<lambda>found. rbind (gather check xs) (\<lambda>more. Inr (found @ more)))"

definition reason_text :: "reason \<Rightarrow> pystr" where
  "reason_text r = (case r of ReasonText code path \<Rightarrow> lit code @ colon # path | _ \<Rightarrow> [])"

definition is_regular :: "node \<Rightarrow> bool" where
  "is_regular n \<longleftrightarrow> (case n_kind n of Regular _ \<Rightarrow> True | _ \<Rightarrow> False)"

definition verify_local_tree :: "python \<Rightarrow> os \<Rightarrow> path \<Rightarrow> entry list \<Rightarrow> fs \<Rightarrow> unit result" where
  "verify_local_tree E H local_dir manifest f =
     rbind (lstat_or_none H local_dir f) (\<lambda>root.
       if (case root of None \<Rightarrow> True | Some n \<Rightarrow> n_kind n \<noteq> Directory) then Inl (LocalCacheCorrupt [Reason ''missing_root''])
       else let expected = dict_by e_path manifest;
                expected_dirs = concat (map (\<lambda>e. entry_parents (fst e)) expected)
            in (case scan_tree H local_dir f of
                  Inl e \<Rightarrow> Inl (if is_os_error e then LocalCacheError else e)
                | Inr entries \<Rightarrow>
                    let problems = map (\<lambda>e. (fst e, entry_problem expected expected_dirs e)) entries;
                        flagged = map fst (filter (\<lambda>(_, p). p \<noteq> None) problems);
                        found = filter (\<lambda>(relative, n). is_regular n \<and> map_of expected relative \<noteq> None) entries
                    in rbind (gather (check_expected E H local_dir f flagged found) (map snd expected)) (\<lambda>more.
                         let reasons = List.map_filter snd problems @ more
                         in if reasons \<noteq> [] then Inl (LocalCacheCorrupt (sort_key reason_text reasons)) else Inr ())))"

section \<open>Purging and setting aside\<close>

definition compiled_name :: "python \<Rightarrow> pystr \<Rightarrow> bool" where
  "compiled_name E name \<longleftrightarrow> endswith (lower E name) (lit ''.pyc'') \<or> endswith (lower E name) (lit ''.pyo'')"

definition cache_name :: "python \<Rightarrow> pystr \<Rightarrow> bool" where
  "cache_name E name \<longleftrightarrow> lower E name = lit ''__pycache__''"

text \<open>One directory of the walk: its compiled files, then its bytecode directories.\<close>

definition purge_base :: "python \<Rightarrow> os \<Rightarrow> path \<Rightarrow> (disk, unit) io" where
  "purge_base E H base s =
     (let inside = children base (k_fs s);
          directories = filter (is_dir (k_fs s)) inside;
          others = filter (\<lambda>p. \<not> is_dir (k_fs s) p) inside
      in sbind (each (remove_node H) (filter (\<lambda>p. compiled_name E (last p)) others))
           (\<lambda>_. each (rmtree H) (filter (\<lambda>p. cache_name E (last p)) directories)) s)"

definition purge_bytecode :: "python \<Rightarrow> os \<Rightarrow> path \<Rightarrow> (disk, unit) io" where
  "purge_bytecode E H local_dir s =
     (case lstat_or_none H local_dir (k_fs s) of
        Inl e \<Rightarrow> (s, Inl e)
      | Inr None \<Rightarrow> (s, Inr ())
      | Inr (Some info) \<Rightarrow>
          if n_kind info \<noteq> Directory then (s, Inr ())
          else wrap_os (\<lambda>s. if scan_refused H local_dir (k_fs s) then (s, Inl OSErrorOther)
            else each (purge_base E H) (bottom_up (scanned local_dir (k_fs s))) s) s)"

definition set_aside_corrupt :: "os \<Rightarrow> path \<Rightarrow> (disk, unit) io" where
  "set_aside_corrupt H target =
     sbind (draw H) (\<lambda>random.
       sbind (lift (\<lambda>s. lstat_or_none H target (k_fs s))) (\<lambda>info.
         wrap_os (sbind (case info of
             Some n \<Rightarrow> if n_kind n = Directory \<and> n_mode n AND 128 = 0 then chmod H (n_mode n OR 128) target else lift (\<lambda>_. Inr ())
           | None \<Rightarrow> lift (\<lambda>_. Inr ()))
           (\<lambda>_. rename H target (butlast target @ [aside_name (last target) random])))))"

definition existing_tree_verifies :: "python \<Rightarrow> os \<Rightarrow> path \<Rightarrow> entry list \<Rightarrow> (disk, bool) io" where
  "existing_tree_verifies E H target manifest =
     sbind (purge_bytecode E H target) (\<lambda>_.
       sbind (lift (\<lambda>s. lstat_or_none H target (k_fs s))) (\<lambda>info.
         if info = None then lift (\<lambda>_. Inr False)
         else (\<lambda>s. case verify_local_tree E H target manifest (k_fs s) of
                Inr _ \<Rightarrow> (s, Inr True)
              | Inl (LocalCacheCorrupt _) \<Rightarrow> sbind (set_aside_corrupt H target) (\<lambda>_. lift (\<lambda>_. Inr False)) s
              | Inl e \<Rightarrow> (s, Inl e))))"

section \<open>Building a tree\<close>

text \<open>
  \<open>copy_verified\<close> into a file: the destination is opened, hence created or truncated, before the
  backend is asked.  A failed copy leaves the file empty here; the code may leave the part of the
  content it had read, in a staging tree that is never published.
\<close>

definition copy_to :: "python \<Rightarrow> os \<Rightarrow> ('b, 'h) backend \<Rightarrow> 'b \<Rightarrow> pystr \<Rightarrow> entry \<Rightarrow> path \<Rightarrow> (disk, unit) io" where
  "copy_to E H be b key entry destination s =
     (let f = k_fs s; old = map_of f destination;
          made = (case old of Some n \<Rightarrow> n\<lparr>n_kind := Regular []\<rparr>
            | None \<Rightarrow> \<lparr>n_kind = Regular [], n_mode = 438 AND NOT (os_umask H), n_uid = os_uid H\<rparr>)
      in if os_refuses H (OpenWrite destination) f \<or> (case old of Some n \<Rightarrow> \<not> is_regular n | None \<Rightarrow> False) then (s, Inl OSErrorOther)
         else if \<not> is_dir f (butlast destination) then (s, Inl FileNotFound)
         else (case copy_verified E be b key entry (Some (\<lambda>kept chunk.
             if os_refuses H (WriteTo destination) f then Inl OSErrorOther else Inr (kept @ chunk))) of
           Inl e \<Rightarrow> (put destination made s, Inl e)
         | Inr content \<Rightarrow> (put destination (made\<lparr>n_kind := Regular content\<rparr>) s, Inr ())))"

definition fill_entry ::
    "python \<Rightarrow> os \<Rightarrow> ('b, 'h) backend \<Rightarrow> 'b \<Rightarrow> pystr \<Rightarrow> pystr \<Rightarrow> path \<Rightarrow> entry \<Rightarrow> (disk, unit) io" where
  "fill_entry E H be b storage_key digest staging entry =
     (let destination = staging @ split_on slash (e_path entry) in
      sbind (wrap_os (mkdir_parents H (butlast destination))) (\<lambda>_.
        wrap_os (sbind (lift (\<lambda>_. revision_key E storage_key (Some digest) (e_path entry))) (\<lambda>key.
          copy_to E H be b key entry destination))))"

definition fill_staging ::
    "python \<Rightarrow> os \<Rightarrow> ('b, 'h) backend \<Rightarrow> 'b \<Rightarrow> pystr \<Rightarrow> pystr \<Rightarrow> entry list \<Rightarrow> path \<Rightarrow> (disk, unit) io" where
  "fill_staging E H be b storage_key digest manifest staging =
     sbind (wrap_os (mkdir H 511 False staging)) (\<lambda>_.
       each (fill_entry E H be b storage_key digest staging) manifest)"

definition protect_base :: "os \<Rightarrow> path \<Rightarrow> (disk, unit) io" where
  "protect_base H base s =
     (let inside = children base (k_fs s);
          directories = filter (is_dir (k_fs s)) inside;
          others = filter (\<lambda>p. \<not> is_dir (k_fs s) p) inside
      in sbind (each (chmod H 292) others) (\<lambda>_. each (chmod H 365) directories) s)"

definition make_read_only :: "os \<Rightarrow> path \<Rightarrow> (disk, unit) io" where
  "make_read_only H root =
     wrap_os (\<lambda>s. if scan_refused H root (k_fs s) then (s, Inl OSErrorOther)
       else sbind (each (protect_base H) (bottom_up (scanned root (k_fs s)))) (\<lambda>_. chmod H 365 root) s)"

definition publish_tree :: "python \<Rightarrow> os \<Rightarrow> path \<Rightarrow> path \<Rightarrow> entry list \<Rightarrow> (disk, unit) io" where
  "publish_tree E H staging target manifest s =
     (case rename H staging target s of
        (s', Inr u) \<Rightarrow> (s', Inr ())
      | (s', Inl _) \<Rightarrow> (s', case verify_local_tree E H target manifest (k_fs s') of
            Inr _ \<Rightarrow> Inr ()
          | Inl (LocalCacheCorrupt _) \<Rightarrow> Inl LocalCacheError
          | Inl e \<Rightarrow> Inl e))"

section \<open>Settling a slot\<close>

text \<open>The \<open>finally\<close> block, whose own \<open>lstat\<close> may raise and then replaces what was being reported.\<close>

definition discarding :: "os \<Rightarrow> path \<Rightarrow> (disk, 'a) io \<Rightarrow> (disk, 'a) io" where
  "discarding H staging m s =
     (case m s of (s', r) \<Rightarrow> (case lstat_or_none H staging (k_fs s') of
          Inl e \<Rightarrow> (s', Inl e)
        | Inr None \<Rightarrow> (s', r)
        | Inr (Some _) \<Rightarrow> (rmtree_logged H staging s', r)))"

definition publish_verified :: "python \<Rightarrow> os \<Rightarrow> path \<Rightarrow> path \<Rightarrow> entry list \<Rightarrow> (disk, path option) io" where
  "publish_verified E H staging target manifest s =
     (case verify_local_tree E H staging manifest (k_fs s) of
        Inl (LocalCacheCorrupt _) \<Rightarrow> (s, Inr None)
      | Inl e \<Rightarrow> (s, Inl e)
      | Inr _ \<Rightarrow> sbind (publish_tree E H staging target manifest) (\<lambda>_.
          sbind (make_read_only H target) (\<lambda>_. lift (\<lambda>_. Inr (Some target)))) s)"

text \<open>One round of the loop: None is the \<open>continue\<close> after a staging tree that failed verification.\<close>

definition build_attempt ::
    "python \<Rightarrow> os \<Rightarrow> ('b, 'h) backend \<Rightarrow> 'b \<Rightarrow> pystr \<Rightarrow> pystr \<Rightarrow> entry list \<Rightarrow> path \<Rightarrow> (disk, path option) io" where
  "build_attempt E H be b storage_key digest manifest project_dir =
     (let target = project_dir @ [digest] in
      sbind (existing_tree_verifies E H target manifest) (\<lambda>hit.
        if hit then sbind (make_read_only H target) (\<lambda>_. lift (\<lambda>_. Inr (Some target)))
        else sbind (draw H) (\<lambda>random.
          let staging = project_dir @ [staging_name digest random] in
          discarding H staging (sbind (fill_staging E H be b storage_key digest manifest staging)
            (\<lambda>_. publish_verified E H staging target manifest)))))"

definition MAX_MATERIALIZE_ATTEMPTS :: nat where "MAX_MATERIALIZE_ATTEMPTS = 3"

fun build_attempts ::
    "nat \<Rightarrow> python \<Rightarrow> os \<Rightarrow> ('b, 'h) backend \<Rightarrow> 'b \<Rightarrow> pystr \<Rightarrow> pystr \<Rightarrow> entry list \<Rightarrow> path \<Rightarrow> (disk, path) io" where
  "build_attempts 0 E H be b storage_key digest manifest project_dir = lift (\<lambda>_. Inl LocalCacheError)"
| "build_attempts (Suc n) E H be b storage_key digest manifest project_dir =
     sbind (build_attempt E H be b storage_key digest manifest project_dir) (\<lambda>outcome.
       case outcome of
         Some target \<Rightarrow> lift (\<lambda>_. Inr target)
       | None \<Rightarrow> build_attempts n E H be b storage_key digest manifest project_dir)"

text \<open>\<open>_slot_lock\<close>: the lock file is created beside the slot, and one process at a time gets past it.\<close>

definition slot_lock :: "os \<Rightarrow> path \<Rightarrow> (disk, 'a) io \<Rightarrow> (disk, 'a) io" where
  "slot_lock H lock_path m s =
     (let f = k_fs s in
      if os_refuses H (OpenWrite lock_path) f \<or> is_dir f lock_path \<or> \<not> is_dir f (butlast lock_path) then (s, Inl LocalCacheError)
      else let s1 = (if map_of f lock_path = None
             then put lock_path \<lparr>n_kind = Regular [], n_mode = 438 AND NOT (os_umask H), n_uid = os_uid H\<rparr> s else s)
           in if os_refuses H (Lock lock_path) (k_fs s1) then (s1, Inl LocalCacheError) else m s1)"

definition materialize_revision ::
    "python \<Rightarrow> os \<Rightarrow> ('b, 'h) backend \<Rightarrow> pure_path \<Rightarrow> pystr \<Rightarrow> pystr \<Rightarrow> json \<Rightarrow> 'b \<Rightarrow> disk \<Rightarrow> (disk \<times> path result) option" where
  "materialize_revision E H be root storage_key digest manifest b s =
     (let entries = manifest_entries manifest in
      case rbind (validate_manifest E manifest (Some digest)) (\<lambda>_.
             rbind (local_revision_dir E (path_text root) storage_key (Some digest)) (\<lambda>_.
               rbind (storage_key_component E storage_key) (\<lambda>k.
                 rbind (guard_path_budget (path_join (path_text root) k) digest entries) (\<lambda>_. Inr k)))) of
        Inl e \<Rightarrow> Some (s, Inl e)
      | Inr k \<Rightarrow> (case ensure_private_root H root s of
          None \<Rightarrow> None
        | Some (s1, Inl e) \<Rightarrow> Some (s1, Inl e)
        | Some (s1, Inr cache_root) \<Rightarrow>
            let project_dir = cache_root @ [k]
            in Some (sbind (wrap_os (mkdir_parents H project_dir)) (\<lambda>_.
                 slot_lock H (project_dir @ [lit ''.'' @ digest @ lit ''.lock''])
                   (build_attempts MAX_MATERIALIZE_ATTEMPTS E H be b storage_key digest entries project_dir)) s1)))"

end
