(* ===== verification/Cache_Tree.thy ===== *)
theory Cache_Tree
  imports Cache
begin

text \<open>
  What verification of a local tree proves about it, as a specification over the file system.
\<close>

section \<open>The specification\<close>

text \<open>A tree holds exactly the files of a manifest: each with its content, and nothing else beside their directories.\<close>

definition exact_tree :: "python \<Rightarrow> entry list \<Rightarrow> (path \<Rightarrow> kind option) \<Rightarrow> bool" where
  "exact_tree E manifest tree \<longleftrightarrow> tree [] = Some Directory \<and>
     (\<forall>e \<in> set manifest. \<exists>c. tree (split_on slash (e_path e)) = Some (Regular c) \<and> matches E e c) \<and>
     (\<forall>rel k. rel \<noteq> [] \<longrightarrow> tree rel = Some k \<longrightarrow>
        (case k of
           Regular c \<Rightarrow> \<exists>e \<in> set manifest. join_on slash rel = e_path e
         | Directory \<Rightarrow> \<exists>e \<in> set manifest. join_on slash rel \<in> set (entry_parents (e_path e))
         | _ \<Rightarrow> False))"

definition kinds :: "path \<Rightarrow> fs \<Rightarrow> path \<Rightarrow> kind option" where
  "kinds r f rel = map_option n_kind (map_of f (r @ rel))"

section \<open>Lists and reasons\<close>

lemma measure_chunks_take: "measure_chunks remaining content hashed = hashed @ take remaining content"
proof (induction remaining content hashed rule: measure_chunks.induct)
  case (1 remaining content hashed)
  let ?chunk = "take (min HASH_CHUNK remaining) content"
  show ?case
  proof (cases "remaining = 0 \<or> ?chunk = []")
    case True
    then show ?thesis by (subst measure_chunks.simps) (auto simp: HASH_CHUNK_def)
  next
    case False
    then have rem: "remaining \<noteq> 0" "?chunk \<noteq> []" by auto
    have split: "take remaining content = ?chunk @ take (remaining - length ?chunk) (drop (length ?chunk) content)"
    proof -
      have "length ?chunk \<le> remaining" by simp
      then have "take remaining content = take (length ?chunk) content @ take (remaining - length ?chunk) (drop (length ?chunk) content)"
        by (metis add_diff_inverse_nat not_less take_add)
      moreover have "take (length ?chunk) content = ?chunk" by (simp add: min_def)
      ultimately show ?thesis by metis
    qed
    have "measure_chunks remaining content hashed =
        measure_chunks (remaining - length ?chunk) (drop (length ?chunk) content) (hashed @ ?chunk)"
      by (subst measure_chunks.simps) (simp only: Let_def rem if_False simp_thms)
    then show ?thesis unfolding 1 [OF rem(1) refl rem(2)] split by (simp only: append_assoc)
  qed
qed

lemma gather_Inr: "gather check xs = Inr [] \<longleftrightarrow> (\<forall>x \<in> set xs. check x = Inr [])"
proof (induction xs)
  case (Cons x xs)
  then show ?case by (cases "check x"; cases "gather check xs") auto
qed simp

lemma map_filter_Nil: "List.map_filter snd ps = [] \<longleftrightarrow> (\<forall>p \<in> set ps. snd p = None)"
  by (induction ps) (auto simp: List.map_filter_simps split: option.splits)

lemma dict_by_entries:
  fixes es :: "entry list"
  assumes "distinct (map e_path es)"
  shows "set (dict_by e_path es) = (\<lambda>e. (e_path e, e)) ` set es"
  using dict_by_sound [of _ _ e_path es] dict_by_complete [of _ es e_path] assms
  by (auto simp: distinct_map)

lemma dict_by_lookup:
  fixes es :: "entry list"
  assumes "distinct (map e_path es)"
  shows "map_of (dict_by e_path es) p = Some e \<longleftrightarrow> e \<in> set es \<and> e_path e = p"
  using dict_by_entries [OF assms] map_of_eq_Some_iff [OF dict_by_distinct, of e_path es p e] by auto

section \<open>Verification is sound\<close>

lemma measure_local_matches:
  assumes "measure_local E H p (e_size e) f = Inr (e_size e, e_sha e)"
  shows "\<exists>n c. map_of f p = Some n \<and> n_kind n = Regular c \<and> matches E e c"
proof -
  from assms obtain n c where n: "map_of f p = Some n" "n_kind n = Regular c"
      "length (take (e_size e + 1) c) = e_size e" "sha256 E (take (e_size e + 1) c) = e_sha e"
    by (auto simp: measure_local_def measure_chunks_take Let_def split: option.splits kind.splits if_splits)
  then have "take (e_size e + 1) c = c" by (cases "length c \<le> e_size e") auto
  with n show ?thesis by (auto simp: matches_def)
qed

lemma verify_local_tree_InrD:
  assumes "verify_local_tree E H root manifest f = Inr u" and "distinct (map e_path manifest)"
  shows "exact_tree E manifest (kinds root f)"
proof -
  let ?expected = "dict_by e_path manifest"
  let ?dirs = "concat (map (\<lambda>e. entry_parents (fst e)) ?expected)"
  let ?entries = "map (\<lambda>p. (relative_text root p, the (map_of f p))) (nodes_below root f)"
  let ?problems = "map (\<lambda>e. (fst e, entry_problem ?expected ?dirs e)) ?entries"
  let ?flagged = "map fst (filter (\<lambda>(_, p). p \<noteq> None) ?problems)"
  let ?found = "filter (\<lambda>(relative, n). is_regular n \<and> map_of ?expected relative \<noteq> None) ?entries"
  from assms(1) obtain rn where root: "map_of f root = Some rn" "n_kind rn = Directory"
    and more: "gather (check_expected E H root f ?flagged ?found) (map snd ?expected) = Inr []"
    and none: "List.map_filter snd ?problems = []"
    unfolding verify_local_tree_def Let_def
    by (auto simp: result_simps scan_tree_def lstat_or_none_def split: option.splits sum.splits if_splits)
  have quiet: "entry_problem ?expected ?dirs x = None" if "x \<in> set ?entries" for x
    using none that unfolding map_filter_Nil by auto
  have unflagged: "?flagged = []" using quiet by (auto simp: filter_empty_conv)
  have files: "\<exists>c. kinds root f (split_on slash (e_path e)) = Some (Regular c) \<and> matches E e c" if e: "e \<in> set manifest" for e
  proof -
    have "e \<in> snd ` set ?expected" using e by (force simp: dict_by_entries [OF assms(2)])
    then have "check_expected E H root f [] ?found e = Inr []" using more unfolding gather_Inr unflagged by auto
    then have "measure_local E H (root @ split_on slash (e_path e)) (e_size e) f = Inr (e_size e, e_sha e)"
      if "\<exists>i. map_of ?found (e_path e) = Some i \<and> is_regular i"
      using that by (auto simp: check_expected_def is_regular_def Let_def result_simps split: kind.splits if_splits)
    moreover have "\<exists>i. map_of ?found (e_path e) = Some i \<and> is_regular i"
    proof -
      obtain i where i: "map_of ?found (e_path e) = Some i"
        using \<open>check_expected E H root f [] ?found e = Inr []\<close> by (cases "map_of ?found (e_path e)") (auto simp: check_expected_def Let_def)
      from map_of_SomeD [OF this] show ?thesis using i by auto
    qed
    ultimately show ?thesis using measure_local_matches [of E H _ e f] by (fastforce simp: kinds_def)
  qed
  have nodes: "case k of Regular c \<Rightarrow> \<exists>e \<in> set manifest. join_on slash rel = e_path e
      | Directory \<Rightarrow> \<exists>e \<in> set manifest. join_on slash rel \<in> set (entry_parents (e_path e)) | _ \<Rightarrow> False"
    if rel: "rel \<noteq> []" "kinds root f rel = Some k" for rel k
  proof -
    obtain n where n: "map_of f (root @ rel) = Some n" "k = n_kind n" using rel(2) by (auto simp: kinds_def)
    have "root @ rel \<in> set (nodes_below root f)" using rel(1) n(1) by (simp add: nodes_below_iff strict_prefix_def)
    then have "(join_on slash rel, n) \<in> set ?entries" using n(1) by (force simp: relative_text_def)
    from quiet [OF this] show ?thesis
      using dict_by_entries [OF assms(2)] dict_by_lookup [OF assms(2)]
      by (auto simp: entry_problem_def n(2) split: kind.splits if_splits option.splits) (metis fst_conv)+
  qed
  show ?thesis unfolding exact_tree_def using root files nodes by (auto simp: kinds_def)
qed

section \<open>Verification is complete\<close>

text \<open>Names the kernel admits hold no separator.\<close>

definition names_ok :: "fs \<Rightarrow> bool" where
  "names_ok f \<longleftrightarrow> (\<forall>p n. map_of f p = Some n \<longrightarrow> (\<forall>c \<in> set p. slash \<notin> set c))"

lemma relative_text_inject:
  assumes "names_ok f" "map_of f (root @ rel) = Some n" "rel \<noteq> []" "join_on slash rel = p"
  shows "rel = split_on slash p"
  using assms split_join [of rel slash] by (force simp: names_ok_def)

lemma measure_local_honest:
  assumes "map_of f p = Some n" "n_kind n = Regular c" "\<not> os_refuses H (OpenRead p) f" "matches E e c"
  shows "measure_local E H p (e_size e) f = Inr (e_size e, e_sha e)"
  using assms by (simp add: measure_local_def measure_chunks_take matches_def Let_def)

lemma exact_tree_verifies:
  assumes ok: "exact_tree E manifest (kinds root f)" and dist: "distinct (map e_path manifest)"
    and names: "names_ok f" and free: "\<And>c. \<not> os_refuses H c f" "\<not> blocked f root"
  shows "verify_local_tree E H root manifest f = Inr ()"
proof -
  let ?expected = "dict_by e_path manifest"
  let ?dirs = "concat (map (\<lambda>e. entry_parents (fst e)) ?expected)"
  let ?entries = "map (\<lambda>p. (relative_text root p, the (map_of f p))) (nodes_below root f)"
  let ?problems = "map (\<lambda>e. (fst e, entry_problem ?expected ?dirs e)) ?entries"
  let ?flagged = "map fst (filter (\<lambda>(_, p). p \<noteq> None) ?problems)"
  let ?found = "filter (\<lambda>(relative, n). is_regular n \<and> map_of ?expected relative \<noteq> None) ?entries"
  obtain rn where root: "map_of f root = Some rn" "n_kind rn = Directory"
    using ok by (auto simp: exact_tree_def kinds_def)
  have entry: "\<exists>rel n. rel \<noteq> [] \<and> map_of f (root @ rel) = Some n \<and> x = (join_on slash rel, n)" if "x \<in> set ?entries" for x
  proof -
    from that obtain p where p: "p \<in> set (nodes_below root f)" "x = (relative_text root p, the (map_of f p))" by auto
    then obtain rel where "p = root @ rel" "rel \<noteq> []" by (auto simp: nodes_below_iff strict_prefix_def prefix_def)
    then show ?thesis using p by (auto simp: nodes_below_iff relative_text_def)
  qed
  have quiet: "entry_problem ?expected ?dirs x = None" if "x \<in> set ?entries" for x
  proof -
    from entry [OF that] obtain rel n where x: "rel \<noteq> []" "map_of f (root @ rel) = Some n" "x = (join_on slash rel, n)" by blast
    then have "case n_kind n of Regular c \<Rightarrow> \<exists>e \<in> set manifest. join_on slash rel = e_path e
        | Directory \<Rightarrow> \<exists>e \<in> set manifest. join_on slash rel \<in> set (entry_parents (e_path e)) | _ \<Rightarrow> False"
      using ok by (auto simp: exact_tree_def kinds_def)
    then show ?thesis using dict_by_entries [OF dist] dict_by_lookup [OF dist]
      by (auto simp: entry_problem_def x(3) split: kind.splits option.splits)
  qed
  have "check_expected E H root f ?flagged ?found e = Inr []" if e: "e \<in> set manifest" for e
  proof -
    obtain n c where n: "map_of f (root @ split_on slash (e_path e)) = Some n" "n_kind n = Regular c" "matches E e c"
      using ok e by (auto simp: exact_tree_def kinds_def)
    have listed: "map_of ?expected (e_path e) = Some e" using dict_by_lookup [OF dist] e by blast
    have "root @ split_on slash (e_path e) \<in> set (nodes_below root f)" using n(1) by (simp add: nodes_below_iff strict_prefix_def)
    then have "(e_path e, n) \<in> set ?entries" using n(1) by (force simp: relative_text_def)
    then have mem: "(e_path e, n) \<in> set ?found" using n(2) listed by (simp add: is_regular_def)
    have only: "i = n" if i: "(e_path e, i) \<in> set ?found" for i
    proof -
      have "(e_path e, i) \<in> set ?entries" using i by auto
      from entry [OF this] obtain rel where rel: "rel \<noteq> []" "map_of f (root @ rel) = Some i" "join_on slash rel = e_path e" by auto
      from relative_text_inject [OF names rel(2,1,3)] rel(2) n(1) show ?thesis by simp
    qed
    have "map_of ?found (e_path e) = Some n"
    proof -
      obtain i where i: "map_of ?found (e_path e) = Some i" using weak_map_of_SomeI [OF mem] by blast
      then show ?thesis using only [OF map_of_SomeD [OF i]] by simp
    qed
    moreover have "length c = e_size e" using n(3) by (simp add: matches_def)
    ultimately show ?thesis using measure_local_honest [OF n(1,2) free(1) n(3)] n(2) by (simp add: check_expected_def)
  qed
  then have "gather (check_expected E H root f ?flagged ?found) (map snd ?expected) = Inr []"
    unfolding gather_Inr using dict_by_entries [OF dist] by auto
  moreover have "List.map_filter snd ?problems = []" unfolding map_filter_Nil using quiet by auto
  ultimately show ?thesis using root free
    unfolding verify_local_tree_def Let_def
    by (simp add: scan_tree_def lstat_or_none_def scan_refused_def list_ex_iff)
qed

section \<open>The property of this theory\<close>

text \<open>
  C38. Verification of a local tree passes exactly when the directory holds the files of its manifest,
  each with the recorded size and checksum, the directories they lie in, and nothing else: no link, no
  special file, no file or directory the manifest does not name.
\<close>

theorem verify_local_tree_iff:
  assumes "distinct (map e_path manifest)" and "names_ok f" and "\<forall>c. \<not> os_refuses H c f" and "\<not> blocked f root"
  shows "verify_local_tree E H root manifest f = Inr () \<longleftrightarrow> exact_tree E manifest (kinds root f)"
  using verify_local_tree_InrD [OF _ assms(1), of E H root f] exact_tree_verifies [OF _ assms(1,2)] assms(3,4) by blast

definition example_tree :: "string \<Rightarrow> fs" where
  "example_tree extra = [([], \<lparr>n_kind = Directory, n_mode = 493, n_uid = 0\<rparr>),
     ([lit ''r''], \<lparr>n_kind = Directory, n_mode = 365, n_uid = 7\<rparr>),
     ([lit ''r'', lit ''p''], \<lparr>n_kind = Directory, n_mode = 365, n_uid = 7\<rparr>),
     ([lit ''r'', lit ''p'', lit extra], \<lparr>n_kind = Regular [1, 2], n_mode = 292, n_uid = 7\<rparr>)]"

definition example_entries :: "entry list" where
  "example_entries = [\<lparr>e_path = lit ''p/a.py'', e_size = 2, e_sha = replicate 64 48\<rparr>]"

theorem verify_local_tree_iff_witness:
  "exact_tree ascii_python example_entries (kinds [lit ''r''] (example_tree ''a.py'')) \<and>
   \<not> exact_tree ascii_python example_entries (kinds [lit ''r''] (example_tree ''a.pyc''))"
proof -
  have names: "names_ok (example_tree x)" if "slash \<notin> set (lit x)" for x
    using that by (auto simp: names_ok_def example_tree_def lit_def split: if_splits)
  have "distinct (map e_path example_entries)" by code_simp
  moreover have "names_ok (example_tree ''a.py'')" "names_ok (example_tree ''a.pyc'')" by (rule names, code_simp)+
  moreover have "\<forall>c. \<not> os_refuses example_os c f" for f by (simp add: example_os_def)
  moreover have "\<not> blocked (example_tree ''a.py'') [lit ''r'']" "\<not> blocked (example_tree ''a.pyc'') [lit ''r'']"
    "is_ok (verify_local_tree ascii_python example_os [lit ''r''] example_entries (example_tree ''a.py''))"
    "\<not> is_ok (verify_local_tree ascii_python example_os [lit ''r''] example_entries (example_tree ''a.pyc''))" by code_simp+
  ultimately show ?thesis
    using verify_local_tree_iff [of example_entries "example_tree ''a.py''" example_os "[lit ''r'']" ascii_python]
      verify_local_tree_iff [of example_entries "example_tree ''a.pyc''" example_os "[lit ''r'']" ascii_python]
    by (auto simp: is_ok_iff)
qed

end
