(* ===== verification/Cache_Invariants.thy ===== *)
theory Cache_Invariants
  imports Cache_Tree
begin

text \<open>
  Invariants of the file system under every operation of the cache, as an interface: what an invariant
  has to promise for the single changes the system calls make, and that then every operation up to the
  whole build keeps it.  It is interpreted for the shape of the file system and for the confinement of
  the cache to its own directory.
\<close>

section \<open>Keeping an invariant\<close>

definition keeps :: "(fs \<Rightarrow> bool) \<Rightarrow> (disk, 'a) io \<Rightarrow> bool" where
  "keeps I m \<longleftrightarrow> (\<forall>s. I (k_fs s) \<longrightarrow> I (k_fs (fst (m s))))"

definition stable :: "(fs \<Rightarrow> bool) \<Rightarrow> os \<Rightarrow> bool" where
  "stable I H \<longleftrightarrow> (\<forall>c f. I f \<longrightarrow> I (os_others H c f))"

named_theorems keeping

lemma keepsI: "(\<And>s. I (k_fs s) \<Longrightarrow> I (k_fs (fst (m s)))) \<Longrightarrow> keeps I m"
  by (simp add: keeps_def)

lemma keepsD: "keeps I m \<Longrightarrow> m s = (s', r) \<Longrightarrow> I (k_fs s) \<Longrightarrow> I (k_fs s')"
  by (metis fst_conv keeps_def)

lemma keeps_lift [keeping]: "keeps I (lift f)"
  by (simp add: keeps_def lift_def)

lemma keeps_sbind [keeping]: "keeps I m \<Longrightarrow> (\<And>x. keeps I (g x)) \<Longrightarrow> keeps I (sbind m g)"
  unfolding keeps_def sbind_def by (fastforce split: prod.split sum.split)

lemma keeps_wrap [keeping]: "keeps I m \<Longrightarrow> keeps I (wrap_os m)"
  unfolding keeps_def wrap_os_def by (fastforce split: prod.split sum.split)

lemma keeps_each [keeping]: "(\<And>x. x \<in> set xs \<Longrightarrow> keeps I (act x)) \<Longrightarrow> keeps I (each act xs)"
proof (induction xs)
  case Nil
  then show ?case by (simp add: keeps_def)
next
  case (Cons x xs)
  then have "keeps I (sbind (act x) (\<lambda>_. each act xs))" by (intro keeps_sbind) simp_all
  then show ?case by (simp add: keeps_def)
qed

lemma keeps_draw [keeping]: "keeps I (draw H)"
  by (simp add: keeps_def draw_def)

lemma keeps_if [keeping]: "(b \<Longrightarrow> keeps I m) \<Longrightarrow> (\<not> b \<Longrightarrow> keeps I m') \<Longrightarrow> keeps I (if b then m else m')"
  by simp

section \<open>The interface\<close>

locale disk_invariant =
  fixes I :: "fs \<Rightarrow> bool" and inside :: "path \<Rightarrow> bool"
  assumes add: "I f \<Longrightarrow> map_of f p = None \<Longrightarrow> is_dir f (butlast p) \<Longrightarrow> I (AList.update p n f)"
    and change: "I f \<Longrightarrow> inside p \<Longrightarrow> map_of f p = Some n \<Longrightarrow> n_kind n' = Directory \<longleftrightarrow> n_kind n = Directory \<Longrightarrow>
      I (AList.update p n' f)"
    and remove: "I f \<Longrightarrow> inside p \<Longrightarrow> nodes_below p f = [] \<Longrightarrow> I (AList.delete p f)"
    and rename_inv: "I f \<Longrightarrow> inside p \<Longrightarrow> inside q \<Longrightarrow> map_of f p \<noteq> None \<Longrightarrow> is_dir f (butlast q) \<Longrightarrow> \<not> prefix p q \<Longrightarrow>
      \<not> prefix q p \<Longrightarrow> nodes_below q f = [] \<Longrightarrow> I (move p q f)"
    and inside_below: "inside p \<Longrightarrow> prefix p q \<Longrightarrow> inside q"
begin

lemma keeps_mkdir: "stable I H \<Longrightarrow> keeps I (mkdir H mode ok p)"
  by (rule keepsI) (auto simp: mkdir_def Let_def stable_def put_def intro!: add split: option.splits)

lemma keeps_mkdir_parents: "stable I H \<Longrightarrow> keeps I (mkdir_parents H p)"
proof (rule keepsI)
  fix s :: disk assume "stable I H" "I (k_fs s)"
  then show "I (k_fs (fst (mkdir_parents H p s)))"
  proof (induction H p s rule: mkdir_parents.induct)
    case (1 H p s)
    obtain s1 r where m: "mkdir H 511 True p s = (s1, r)" by fastforce
    have s1: "I (k_fs s1)" using keepsD [OF keeps_mkdir [OF 1(2)] m 1(3)] .
    show ?case
    proof (cases "r = Inl FileNotFound \<and> p \<noteq> []")
      case True
      obtain s2 r2 where up: "mkdir_parents H (butlast p) s1 = (s2, r2)" by fastforce
      have "I (k_fs s2)" using 1(1) [OF m [symmetric] _ refl _ 1(2) s1] True up by auto
      then have "I (k_fs (fst (mkdir H 511 True p s2)))" using keeps_mkdir [OF 1(2)] by (simp add: keeps_def)
      with True up \<open>I (k_fs s2)\<close> show ?thesis
        by (subst mkdir_parents.simps) (simp add: m sbind_def split: sum.splits)
    next
      case False
      with s1 show ?thesis by (subst mkdir_parents.simps) (auto simp: m split: sum.splits py_error.splits)
    qed
  qed
qed

lemma keeps_remove: "inside p \<Longrightarrow> keeps I (remove_node H p)"
  by (rule keepsI) (auto simp: remove_node_def drop_node_def intro!: remove)

lemma keeps_rmtree: "inside p \<Longrightarrow> keeps I (rmtree H p)"
proof (rule keepsI)
  fix s :: disk assume p: "inside p" and s: "I (k_fs s)"
  have "keeps I (each (remove_node H) (bottom_up (p # nodes_below p (k_fs s))))"
    using p inside_below by (intro keeps_each keeps_remove) (auto simp: nodes_below_iff strict_prefix_def)
  then show "I (k_fs (fst (rmtree H p s)))" using s by (simp add: rmtree_def keeps_def)
qed

lemma rmtree_logged_inv: "inside p \<Longrightarrow> I (k_fs s) \<Longrightarrow> I (k_fs (rmtree_logged H p s))"
proof -
  assume p: "inside p" and s: "I (k_fs s)"
  have "I (k_fs (fold (\<lambda>q s. fst (remove_node H q s)) qs s))" if "\<forall>q \<in> set qs. inside q" "I (k_fs s)" for qs s
    using that keeps_remove by (induction qs arbitrary: s) (auto simp: keeps_def)
  then show ?thesis unfolding rmtree_logged_def using p s inside_below
    by (auto simp: nodes_below_iff strict_prefix_def)
qed

lemma keeps_chmod: "inside p \<Longrightarrow> keeps I (chmod H mode p)"
  by (rule keepsI) (auto simp: chmod_def put_def intro!: change split: option.splits kind.splits)

lemma keeps_rename: "stable I H \<Longrightarrow> inside p \<Longrightarrow> inside q \<Longrightarrow> keeps I (rename H p q)"
  by (rule keepsI) (auto simp: rename_def Let_def stable_def intro!: rename_inv)

lemma inside_children: "inside base \<Longrightarrow> p \<in> set (children base f) \<Longrightarrow> inside p"
  by (rule inside_below) (auto simp: children_iff intro: prefixI [OF append_butlast_last_id [symmetric]])

lemma keeps_purge_base: "inside base \<Longrightarrow> keeps I (purge_base E H base)"
proof (rule keepsI)
  fix s :: disk assume base: "inside base" and s: "I (k_fs s)"
  let ?dirs = "filter (\<lambda>p. cache_name E (last p)) (filter (is_dir (k_fs s)) (children base (k_fs s)))"
  let ?files = "filter (\<lambda>p. compiled_name E (last p)) (filter (\<lambda>p. \<not> is_dir (k_fs s) p) (children base (k_fs s)))"
  have "keeps I (sbind (each (remove_node H) ?files) (\<lambda>_. each (rmtree H) ?dirs))"
    using base by (intro keeping keeps_remove keeps_rmtree) (auto intro: inside_children)
  then show "I (k_fs (fst (purge_base E H base s)))" using s by (simp add: purge_base_def Let_def keeps_def)
qed

lemma inside_scanned: "inside r \<Longrightarrow> d \<in> set (scanned r f) \<Longrightarrow> inside d"
  using inside_below by (auto simp: scanned_def nodes_below_iff strict_prefix_def split: if_splits)

lemma keeps_walk:
  assumes "\<And>f. keeps I (act f)"
  shows "keeps I (wrap_os (\<lambda>s. if scan_refused H r (k_fs s) then (s, Inl OSErrorOther) else act (k_fs s) s))"
  by (rule keeps_wrap, rule keepsI) (use assms in \<open>auto simp: keeps_def\<close>)

lemma keeps_purge: "inside r \<Longrightarrow> keeps I (purge_bytecode E H r)"
proof (rule keepsI)
  fix s :: disk assume r: "inside r" and s: "I (k_fs s)"
  have "keeps I (each (purge_base E H) (bottom_up (scanned r f)))" for f
    by (intro keeping keeps_purge_base) (use inside_scanned [OF r] in auto)
  from keeps_walk [where act = "\<lambda>f. each (purge_base E H) (bottom_up (scanned r f))" and H = H and r = r, OF this] show "I (k_fs (fst (purge_bytecode E H r s)))" using s
    by (auto simp: purge_bytecode_def keeps_def split: sum.splits option.splits)
qed

lemma keeps_protect_base: "inside base \<Longrightarrow> keeps I (protect_base H base)"
proof (rule keepsI)
  fix s :: disk assume base: "inside base" and s: "I (k_fs s)"
  have "keeps I (sbind (each (chmod H 292) (filter (\<lambda>p. \<not> is_dir (k_fs s) p) (children base (k_fs s))))
      (\<lambda>_. each (chmod H 365) (filter (is_dir (k_fs s)) (children base (k_fs s)))))"
    using base by (intro keeping keeps_chmod) (auto intro: inside_children)
  then show "I (k_fs (fst (protect_base H base s)))" using s by (simp add: protect_base_def Let_def keeps_def)
qed

lemma keeps_make_read_only: "inside r \<Longrightarrow> keeps I (make_read_only H r)"
  unfolding make_read_only_def
  by (rule keeps_walk) (auto intro!: keeping keeps_protect_base keeps_chmod intro: inside_scanned)

lemma keeps_copy_to: "inside p \<Longrightarrow> keeps I (copy_to E H be b key e p)"
proof (rule keepsI)
  fix s :: disk assume p: "inside p" and s: "I (k_fs s)"
  have over: "I (k_fs (put p n s))" if "map_of (k_fs s) p = None" "is_dir (k_fs s) (butlast p)" for n
    using add [OF s that] by (simp add: put_def)
  have again: "I (k_fs (put p (n\<lparr>n_kind := Regular c\<rparr>) s))" if "map_of (k_fs s) p = Some n" "is_regular n" for n c
    using change [OF s p that(1), of "n\<lparr>n_kind := Regular c\<rparr>"] that(2) by (auto simp: put_def is_regular_def split: kind.splits)
  show "I (k_fs (fst (copy_to E H be b key e p s)))"
    using s over again by (auto simp: copy_to_def Let_def split: option.splits sum.splits)
qed

lemma keeps_fill_entry:
  "stable I H \<Longrightarrow> inside staging \<Longrightarrow> keeps I (fill_entry E H be b storage_key digest staging e)"
  unfolding fill_entry_def Let_def
  by (intro keeping keeps_mkdir_parents keeps_copy_to) (auto intro: inside_below)

lemma keeps_fill:
  "stable I H \<Longrightarrow> inside staging \<Longrightarrow> keeps I (fill_staging E H be b storage_key digest manifest staging)"
  unfolding fill_staging_def by (intro keeping keeps_mkdir keeps_fill_entry)

lemma keeps_publish: "stable I H \<Longrightarrow> inside staging \<Longrightarrow> inside target \<Longrightarrow> keeps I (publish_tree E H staging target manifest)"
  using keeps_rename [of H staging target]
  unfolding keeps_def publish_tree_def by (fastforce split: prod.split sum.split)

lemma keeps_set_aside:
  assumes "stable I H" "inside target" "\<And>name. inside (butlast target @ [name])"
  shows "keeps I (set_aside_corrupt H target)"
  unfolding set_aside_corrupt_def
  by (intro keeping; (split option.split)?) (use assms in \<open>auto intro!: keeping keeps_chmod keeps_rename\<close>)

lemma keeps_publish_verified:
  assumes "stable I H" "inside staging" "inside target"
  shows "keeps I (publish_verified E H staging target manifest)"
proof -
  have "keeps I (sbind (publish_tree E H staging target manifest) (\<lambda>_.
      sbind (make_read_only H target) (\<lambda>_. lift (\<lambda>_. Inr (Some target)))))"
    by (intro keeping keeps_publish keeps_make_read_only assms)
  then show ?thesis by (auto simp: keeps_def publish_verified_def split: sum.splits py_error.splits)
qed

lemma keeps_existing:
  assumes "stable I H" "inside target" "\<And>name. inside (butlast target @ [name])"
  shows "keeps I (existing_tree_verifies E H target manifest)"
proof -
  have "keeps I (\<lambda>s. case verify_local_tree E H target manifest (k_fs s) of
      Inr _ \<Rightarrow> (s, Inr True)
    | Inl (LocalCacheCorrupt _) \<Rightarrow> sbind (set_aside_corrupt H target) (\<lambda>_. lift (\<lambda>_. Inr False)) s
    | Inl e \<Rightarrow> (s, Inl e))"
    using keeps_sbind [OF keeps_set_aside [OF assms] keeps_lift [of I "\<lambda>_. Inr False"]]
    by (auto simp: keeps_def split: sum.splits py_error.splits)
  then show ?thesis unfolding existing_tree_verifies_def by (intro keeping keeps_purge assms(2))
qed

lemma keeps_discarding: "inside staging \<Longrightarrow> keeps I m \<Longrightarrow> keeps I (discarding H staging m)"
  using rmtree_logged_inv [of staging]
  unfolding keeps_def discarding_def by (fastforce split: prod.split sum.split option.split)

lemma keeps_attempt:
  assumes "stable I H" "inside project_dir"
  shows "keeps I (build_attempt E H be b storage_key digest manifest project_dir)"
proof -
  have inside: "inside (project_dir @ [name])" for name using assms(2) by (rule inside_below) simp
  show ?thesis unfolding build_attempt_def Let_def
    by (intro keeping keeps_existing keeps_make_read_only keeps_discarding keeps_fill keeps_publish_verified assms(1) inside)
      (simp add: inside)
qed

lemma keeps_attempts:
  assumes "stable I H" "inside project_dir"
  shows "keeps I (build_attempts n E H be b storage_key digest manifest project_dir)"
proof (induction n)
  case (Suc n)
  then show ?case using keeps_attempt [OF assms, of E be b storage_key digest manifest]
    by (auto intro!: keeping split: option.splits)
qed (simp add: keeping)

lemma keeps_slot_lock:
  assumes "keeps I m"
  shows "keeps I (slot_lock H p m)"
proof (rule keepsI)
  fix s :: disk assume s: "I (k_fs s)"
  have m: "I (k_fs t) \<Longrightarrow> I (k_fs (fst (m t)))" for t using assms by (simp add: keeps_def)
  have "I (k_fs (put p n s))" if "map_of (k_fs s) p = None" "is_dir (k_fs s) (butlast p)" for n
    using add [OF s that] by (simp add: put_def)
  then show "I (k_fs (fst (slot_lock H p m s)))" using s m by (simp add: slot_lock_def Let_def)
qed

lemma keeps_inspect_entry: "stable I H \<Longrightarrow> keeps I (inspect_entry H d)"
  using keeps_mkdir [of H 448 True d]
  by (fastforce simp: keeps_def inspect_entry_def sbind_def split: sum.split option.split prod.split)

lemma inspect_root_inv:
  assumes "stable I H"
  shows "inspect_root H d pending symlinks s = Some (s', r) \<Longrightarrow> I (k_fs s) \<Longrightarrow> I (k_fs s')"
proof (induction d pending symlinks s rule: walk_induct)
  case (visit d pending n s)
  obtain s1 x where entry: "inspect_entry H d s = (s1, x)" by fastforce
  have s1: "I (k_fs s1)" using keepsD [OF keeps_inspect_entry [OF assms] entry visit.prems(2)] .
  show ?case using visit.prems(1) visit.IH s1 entry
    by (subst (asm) inspect_root.simps)
      (auto simp: not_less_eq split: sum.splits if_splits kind.splits pure_path.splits list.splits)
qed

lemma ensure_private_root_inv:
  "stable I H \<Longrightarrow> ensure_private_root H root s = Some (s', r) \<Longrightarrow> I (k_fs s) \<Longrightarrow> I (k_fs s')"
  using inspect_root_inv by (auto simp: ensure_private_root_def split: sum.splits)

end

end
