(* ===== verification/Cache_Safety.thy ===== *)
theory Cache_Safety
  imports Cache_Invariants
begin

text \<open>
  What the cache promises its callers: the file system keeps its shape, nothing outside a project's
  cache directory changes, and a directory it returns holds exactly the verified revision, write-protected.
\<close>

section \<open>The shape of the file system\<close>

definition fs_ok :: "fs \<Rightarrow> bool" where
  "fs_ok f \<longleftrightarrow> is_dir f [] \<and> (\<forall>p n. p \<noteq> [] \<longrightarrow> map_of f p = Some n \<longrightarrow> is_dir f (butlast p))"

lemma is_dir_update: "is_dir (AList.update p n f) x \<longleftrightarrow> (if x = p then n_kind n = Directory else is_dir f x)"
  by (simp add: is_dir_def update_conv')

lemma is_dir_delete: "is_dir (AList.delete p f) x \<longleftrightarrow> x \<noteq> p \<and> is_dir f x"
  by (simp add: is_dir_def delete_conv')

lemma butlast_prefix: "prefix q (butlast x) \<Longrightarrow> prefix q x"
  by (metis append_butlast_last_id butlast.simps(1) prefix_order.order_trans prefixI)

lemma fs_ok_move:
  assumes ok: "fs_ok f" and p: "p \<noteq> []" "q \<noteq> []" "map_of f p \<noteq> None" "is_dir f (butlast q)" "\<not> prefix p q" "\<not> prefix q p"
    "nodes_below q f = []"
  shows "fs_ok (move p q f)"
proof -
  note look = move_lookup [OF p(5,6,7)]
  have dir: "is_dir (move p q f) x \<longleftrightarrow> (if prefix q x then is_dir f (p @ drop (length q) x) else \<not> prefix p x \<and> is_dir f x)" for x
    by (simp add: is_dir_def look)
  have "is_dir (move p q f) (butlast x)" if x: "x \<noteq> []" "map_of (move p q f) x = Some n" for x n
  proof (cases "prefix q x")
    case True
    show ?thesis
    proof (cases "x = q")
      case True
      then have "\<not> prefix q (butlast x)" using p(2) by (metis append_butlast_last_id prefix_snocD prefix_order.less_irrefl prefix_order.dual_order.strict_trans1)
      moreover have "\<not> prefix p (butlast x)" using True p(5) butlast_prefix by blast
      ultimately show ?thesis using True p(4) by (simp add: dir)
    next
      case False
      then obtain z where z: "x = q @ z" "z \<noteq> []" using True by (auto simp: prefix_def)
      have "map_of f (p @ z) = Some n" using x(2) z(1) by (simp add: look)
      then have "is_dir f (butlast (p @ z))" using ok z(2) by (auto simp: fs_ok_def)
      then show ?thesis using z by (simp add: dir butlast_append)
    qed
  next
    case False
    then have "\<not> prefix q (butlast x)" "\<not> prefix p x" "map_of f x = Some n"
      using x(2) butlast_prefix by (auto simp: look split: if_splits)
    moreover have "\<not> prefix p (butlast x)" using calculation(2) butlast_prefix by blast
    ultimately show ?thesis using ok x(1) by (auto simp: dir fs_ok_def)
  qed
  moreover have "is_dir (move p q f) []" using ok p(1,2) by (simp add: dir fs_ok_def)
  ultimately show ?thesis by (simp add: fs_ok_def)
qed

interpretation shape: disk_invariant fs_ok "\<lambda>p. p \<noteq> []"
proof unfold_locales
  fix f p and n n' :: node
  assume ok: "fs_ok f"
  show "fs_ok (AList.update p n f)" if "map_of f p = None" "is_dir f (butlast p)"
    using ok that by (auto simp: fs_ok_def is_dir_update update_conv') (auto simp: is_dir_def)
  show "fs_ok (AList.update p n' f)" if "p \<noteq> []" "map_of f p = Some n" "(n_kind n' = Directory) = (n_kind n = Directory)"
    using ok that by (auto simp: fs_ok_def is_dir_update update_conv' split: if_splits) (auto simp: is_dir_def)
  show "fs_ok (AList.delete p f)" if "p \<noteq> []" "nodes_below p f = []"
    using ok that by (auto simp: fs_ok_def is_dir_delete delete_conv' nodes_below_Nil strict_prefix_def)
      (metis append_butlast_last_id option.distinct(1) prefixI)
qed (auto intro: fs_ok_move)

section \<open>Confinement\<close>

definition untouched :: "path \<Rightarrow> fs \<Rightarrow> fs \<Rightarrow> bool" where
  "untouched D before f \<longleftrightarrow> (\<forall>x n. \<not> prefix D x \<longrightarrow> map_of before x = Some n \<longrightarrow> map_of f x = Some n)"

interpretation confined: disk_invariant "untouched D before" "prefix D" for D before
proof unfold_locales
  fix f p q
  assume ok: "untouched D before f" and p: "prefix D p" "prefix D q" "\<not> prefix p q" "\<not> prefix q p" "nodes_below q f = []"
  show "untouched D before (move p q f)"
    using ok p(1,2) prefix_order.order_trans unfolding untouched_def move_lookup [OF p(3-5)] by metis
qed (auto simp: untouched_def update_conv' delete_conv' prefix_order.order_trans)

lemma only_adds_stable: "only_adds H \<Longrightarrow> stable (untouched D before) H"
  by (auto simp: stable_def only_adds_def untouched_def)

section \<open>Write protection\<close>

definition hardens :: "fs \<Rightarrow> fs \<Rightarrow> bool" where
  "hardens f g \<longleftrightarrow> (\<forall>x. map_option n_kind (map_of f x) = map_option n_kind (map_of g x)) \<and>
     (\<forall>x n. map_of f x = Some n \<longrightarrow> n_mode n AND 146 = 0 \<longrightarrow> (\<exists>n'. map_of g x = Some n' \<and> n_mode n' AND 146 = 0))"

definition sealed :: "fs \<Rightarrow> path \<Rightarrow> bool" where
  "sealed f p \<longleftrightarrow> (\<forall>n. map_of f p = Some n \<longrightarrow> is_link n \<or> n_mode n AND 146 = 0)"

lemma hardens_refl [simp]: "hardens f f"
  by (simp add: hardens_def)

lemma hardens_trans: "hardens f g \<Longrightarrow> hardens g h \<Longrightarrow> hardens f h"
  by (simp add: hardens_def) metis

lemma hardens_kind: "hardens f g \<Longrightarrow> map_option n_kind (map_of f x) = map_option n_kind (map_of g x)"
  by (simp add: hardens_def)

lemma sealed_hardens:
  assumes "sealed f p" "hardens f g"
  shows "sealed g p"
  unfolding sealed_def
proof (intro allI impI)
  fix n' assume n': "map_of g p = Some n'"
  then obtain n where n: "map_of f p = Some n" "n_kind n = n_kind n'" using hardens_kind [OF assms(2), of p] by auto
  show "is_link n' \<or> n_mode n' AND 146 = 0"
  proof (cases "is_link n")
    case True
    then show ?thesis using n(2) by (simp add: is_link_def)
  next
    case False
    then have "n_mode n AND 146 = 0" using assms(1) n(1) by (simp add: sealed_def)
    then have "\<exists>n'. map_of g p = Some n' \<and> n_mode n' AND 146 = 0" using assms(2) n(1) unfolding hardens_def by blast
    then show ?thesis using n' by simp
  qed
qed

lemma hardens_dir: "hardens f g \<Longrightarrow> is_dir g x = is_dir f x"
  using hardens_kind [of f g x] by (cases "map_of f x"; cases "map_of g x") (auto simp: is_dir_def)

lemma hardens_defined: "hardens f g \<Longrightarrow> map_of g x = None \<longleftrightarrow> map_of f x = None"
  using hardens_kind [of f g x] by (cases "map_of f x"; cases "map_of g x") auto

lemma each_hardens:
  assumes "each act xs s = (s', Inr ())"
    and "\<And>x s s'. x \<in> set xs \<Longrightarrow> act x s = (s', Inr ()) \<Longrightarrow> hardens (k_fs s) (k_fs s') \<and> Q x (k_fs s')"
    and "\<And>x f g. Q x f \<Longrightarrow> hardens f g \<Longrightarrow> Q x g"
  shows "hardens (k_fs s) (k_fs s') \<and> (\<forall>x \<in> set xs. Q x (k_fs s'))"
  using assms(1,2)
proof (induction xs arbitrary: s)
  case (Cons x xs)
  then obtain s1 where s1: "act x s = (s1, Inr ())" "each act xs s1 = (s', Inr ())"
    by (auto simp: sbind_def split: prod.splits sum.splits)
  have "hardens (k_fs s1) (k_fs s') \<and> (\<forall>x \<in> set xs. Q x (k_fs s'))" using Cons.IH [OF s1(2)] Cons.prems(2) by auto
  moreover have "hardens (k_fs s) (k_fs s1) \<and> Q x (k_fs s1)" using Cons.prems(2) [OF _ s1(1)] by simp
  ultimately show ?case using hardens_trans assms(3) by auto
qed simp

lemma chmod_seals:
  assumes "chmod H mode p s = (s', Inr ())" "mode AND 146 = 0"
  shows "hardens (k_fs s) (k_fs s') \<and> sealed (k_fs s') p"
  using assms
  by (auto simp: chmod_def sealed_def hardens_def is_link_def split: option.splits if_splits kind.splits)

definition children_sealed :: "path \<Rightarrow> fs \<Rightarrow> bool" where
  "children_sealed base f \<longleftrightarrow> (\<forall>p. p \<noteq> [] \<and> butlast p = base \<longrightarrow> sealed f p)"

lemma protect_base_seals:
  assumes "protect_base H base s = (s', Inr ())"
  shows "hardens (k_fs s) (k_fs s') \<and> children_sealed base (k_fs s')"
proof -
  let ?f = "k_fs s"
  obtain s1 where one: "each (chmod H 292) (filter (\<lambda>p. \<not> is_dir ?f p) (children base ?f)) s = (s1, Inr ())"
    and two: "each (chmod H 365) (filter (is_dir ?f) (children base ?f)) s1 = (s', Inr ())"
    using assms by (auto simp: protect_base_def Let_def sbind_def split: prod.splits sum.splits)
  have modes: "(292 :: 12 word) AND 146 = 0" "(365 :: 12 word) AND 146 = 0" by code_simp+
  have one: "hardens ?f (k_fs s1) \<and> (\<forall>p \<in> set (filter (\<lambda>p. \<not> is_dir ?f p) (children base ?f)). sealed (k_fs s1) p)"
    by (rule each_hardens [OF one]) (auto dest: chmod_seals [OF _ modes(1)] intro: sealed_hardens)
  have two: "hardens (k_fs s1) (k_fs s') \<and> (\<forall>p \<in> set (filter (is_dir ?f) (children base ?f)). sealed (k_fs s') p)"
    by (rule each_hardens [OF two]) (auto dest: chmod_seals [OF _ modes(2)] intro: sealed_hardens)
  have h: "hardens ?f (k_fs s')" using one two hardens_trans by blast
  have "sealed (k_fs s') p" if "p \<in> set (children base ?f)" for p
    using one two that sealed_hardens by (cases "is_dir ?f p") auto
  then have "sealed (k_fs s') p" if "p \<noteq> []" "butlast p = base" for p
    using that hardens_defined [OF h, of p] by (cases "map_of ?f p") (auto simp: children_iff sealed_def)
  then show ?thesis using h by (simp add: children_sealed_def)
qed

lemma make_read_only_seals:
  assumes "make_read_only H root s = (s', Inr ())"
  shows "hardens (k_fs s) (k_fs s')" and "fs_ok (k_fs s) \<Longrightarrow> prefix root p \<Longrightarrow> sealed (k_fs s') p"
proof -
  obtain s1 where bases: "each (protect_base H) (bottom_up (scanned root (k_fs s))) s = (s1, Inr ())"
    and top: "chmod H 365 root s1 = (s', Inr ())"
    using assms by (auto simp: make_read_only_def wrap_os_def sbind_def split: prod.splits sum.splits if_splits)
  have stays: "children_sealed base f \<Longrightarrow> hardens f g \<Longrightarrow> children_sealed base g" for base f g
    using sealed_hardens by (auto simp: children_sealed_def)
  have "(365 :: 12 word) AND 146 = 0" by code_simp
  note top = chmod_seals [OF top this]
  have bases: "hardens (k_fs s) (k_fs s1) \<and> (\<forall>b \<in> set (bottom_up (scanned root (k_fs s))). children_sealed b (k_fs s1))"
    by (rule each_hardens [OF bases]) (auto dest: protect_base_seals intro: stays)
  show h: "hardens (k_fs s) (k_fs s')" using bases top hardens_trans by blast
  show "sealed (k_fs s') p" if ok: "fs_ok (k_fs s)" and p: "prefix root p"
  proof (cases "p = root \<or> map_of (k_fs s) p = None")
    case True
    then show ?thesis using top hardens_defined [OF h, of p] by (auto simp: sealed_def)
  next
    case False
    then obtain n where n: "map_of (k_fs s) p = Some n" "p \<noteq> root" "p \<noteq> []" using p by (cases p) auto
    then have dir: "is_dir (k_fs s) (butlast p)" using ok by (auto simp: fs_ok_def)
    have "prefix root (butlast p)" using p n(2,3) by (metis append_butlast_last_id prefix_snoc)
    then have "butlast p \<in> set (scanned root (k_fs s))"
      using dir by (auto simp: scanned_def nodes_below_iff strict_prefix_def is_dir_def split: option.splits)
    then have "children_sealed (butlast p) (k_fs s')" using bases top stays by auto
    then show ?thesis using n(3) by (auto simp: children_sealed_def)
  qed
qed

section \<open>One attempt\<close>

text \<open>
  Other processes leave a staging tree alone: its name carries 128 random bits they do not know.
\<close>

definition no_intrusion :: "os \<Rightarrow> bool" where
  "no_intrusion H \<longleftrightarrow> (\<forall>c f x. (\<exists>digest random. staging_name digest random \<in> set x) \<longrightarrow> map_of (os_others H c f) x = map_of f x)"

definition settled_slot :: "python \<Rightarrow> entry list \<Rightarrow> path \<Rightarrow> fs \<Rightarrow> bool" where
  "settled_slot E manifest t f \<longleftrightarrow> exact_tree E manifest (kinds t f) \<and>
     (\<forall>rel n. map_of f (t @ rel) = Some n \<longrightarrow> n_mode n AND 146 = 0)"

lemma exact_no_link:
  assumes "exact_tree E manifest (kinds t f)" "map_of f (t @ rel) = Some n"
  shows "\<not> is_link n"
proof -
  have "kinds t f rel = Some (n_kind n)" using assms(2) by (simp add: kinds_def)
  then show ?thesis using assms(1) unfolding exact_tree_def is_link_def
    by (cases "rel = []") (fastforce split: kind.splits)+
qed

lemma protected_slot:
  assumes "make_read_only H t s = (s', Inr ())" "fs_ok (k_fs s)" "exact_tree E manifest (kinds t (k_fs s))"
  shows "settled_slot E manifest t (k_fs s')"
proof -
  have "kinds t (k_fs s') = kinds t (k_fs s)"
    using hardens_kind [OF make_read_only_seals(1) [OF assms(1)]] by (auto simp: kinds_def fun_eq_iff)
  then have exact: "exact_tree E manifest (kinds t (k_fs s'))" using assms(3) by simp
  moreover have "n_mode n AND 146 = 0" if "map_of (k_fs s') (t @ rel) = Some n" for rel n
    using make_read_only_seals(2) [OF assms(1,2), of "t @ rel"] exact_no_link [OF exact that] that by (simp add: sealed_def)
  ultimately show ?thesis by (simp add: settled_slot_def)
qed

lemma rmtree_logged_other: "\<not> prefix p x \<Longrightarrow> map_of (k_fs (rmtree_logged H p s)) x = map_of (k_fs s) x"
proof -
  assume x: "\<not> prefix p x"
  have "map_of (k_fs (fold (\<lambda>q s. fst (remove_node H q s)) qs s)) x = map_of (k_fs s) x" if "x \<notin> set qs" for qs s
    using that by (induction qs arbitrary: s) (auto simp: remove_node_def)
  then show ?thesis unfolding rmtree_logged_def using x by (auto simp: nodes_below_iff strict_prefix_def)
qed

lemma discarding_InrD:
  assumes "discarding H p m s = (s', Inr r)"
  shows "\<exists>s1. m s = (s1, Inr r) \<and> (\<forall>x. \<not> prefix p x \<longrightarrow> map_of (k_fs s') x = map_of (k_fs s1) x)"
  using assms rmtree_logged_other by (auto simp: discarding_def split: prod.splits sum.splits option.splits)

lemma sbind_InrD: "sbind m g s = (s', Inr r) \<Longrightarrow> \<exists>s1 x. m s = (s1, Inr x) \<and> g x s1 = (s', Inr r)"
  by (auto simp: sbind_def split: prod.splits sum.splits)

lemma existing_tree_verifiesD:
  assumes "existing_tree_verifies E H target manifest s = (s', Inr True)" "distinct (map e_path manifest)"
  shows "exact_tree E manifest (kinds target (k_fs s'))"
  using assms(1) verify_local_tree_InrD [OF _ assms(2)]
  by (auto simp: existing_tree_verifies_def sbind_def lift_def split: prod.splits sum.splits if_splits py_error.splits)

lemma publish_treeD:
  assumes run: "publish_tree E H staging target manifest s = (s', Inr ())" and dist: "distinct (map e_path manifest)"
    and exact: "exact_tree E manifest (kinds staging (k_fs s))"
    and quiet: "\<And>c f x. prefix staging x \<Longrightarrow> map_of (os_others H c f) x = map_of f x"
  shows "exact_tree E manifest (kinds target (k_fs s'))"
proof (cases "rename H staging target s = (s', Inr ())")
  case True
  have "kinds target (k_fs s') = kinds staging (k_fs s)"
    using rename_InrD(1) [OF True] quiet by (auto simp: kinds_def view_def fun_eq_iff)
  then show ?thesis using exact by simp
next
  case False
  with run have "verify_local_tree E H target manifest (k_fs s') = Inr ()"
    by (auto simp: publish_tree_def split: prod.splits sum.splits py_error.splits)
  then show ?thesis by (rule verify_local_tree_InrD [OF _ dist])
qed

lemma build_attempt_settles:
  assumes quiet: "no_intrusion H" and ok: "fs_ok (k_fs s)" "stable fs_ok H" and dist: "distinct (map e_path manifest)"
    and dir: "project_dir \<noteq> []"
    and run: "build_attempt E H be b storage_key digest manifest project_dir s = (s', Inr (Some t))"
  shows "t = project_dir @ [digest] \<and> settled_slot E manifest t (k_fs s')"
proof -
  let ?target = "project_dir @ [digest]"
  from sbind_InrD [OF run [unfolded build_attempt_def Let_def]] obtain s1 hit where
    hit: "existing_tree_verifies E H ?target manifest s = (s1, Inr hit)" and rest: "(if hit then
        sbind (make_read_only H ?target) (\<lambda>_. lift (\<lambda>_. Inr (Some ?target)))
      else sbind (draw H) (\<lambda>random. discarding H (project_dir @ [staging_name digest random])
        (sbind (fill_staging E H be b storage_key digest manifest (project_dir @ [staging_name digest random]))
          (\<lambda>_. publish_verified E H (project_dir @ [staging_name digest random]) ?target manifest)))) s1 = (s', Inr (Some t))"
    by blast
  have s1: "fs_ok (k_fs s1)"
    using keepsD [OF shape.keeps_existing [OF ok(2), of ?target E manifest] hit ok(1)] by simp
  show ?thesis
  proof (cases hit)
    case True
    then have "make_read_only H ?target s1 = (s', Inr ())" "t = ?target" using rest by (auto simp: lift_def dest!: sbind_InrD)
    then show ?thesis using protected_slot [OF _ s1 existing_tree_verifiesD [OF _ dist]] hit True by auto
  next
    case False
    define random where "random = os_uuid H (k_draws s1)"
    define staging where "staging = project_dir @ [staging_name digest random]"
    define s2 where "s2 = s1\<lparr>k_draws := Suc (k_draws s1)\<rparr>"
    from rest False have "discarding H staging (sbind (fill_staging E H be b storage_key digest manifest staging)
        (\<lambda>_. publish_verified E H staging ?target manifest)) s2 = (s', Inr (Some t))"
      by (simp add: sbind_def [of "draw H"] draw_def s2_def random_def staging_def)
    from discarding_InrD [OF this] obtain s5 where
      body: "sbind (fill_staging E H be b storage_key digest manifest staging)
        (\<lambda>_. publish_verified E H staging ?target manifest) s2 = (s5, Inr (Some t))"
      and same: "\<And>x. \<not> prefix staging x \<Longrightarrow> map_of (k_fs s') x = map_of (k_fs s5) x" by blast
    from sbind_InrD [OF body] obtain s3 where fill: "fill_staging E H be b storage_key digest manifest staging s2 = (s3, Inr ())"
      and more: "publish_verified E H staging ?target manifest s3 = (s5, Inr (Some t))" by auto
    from more obtain s4 where verified: "verify_local_tree E H staging manifest (k_fs s3) = Inr ()"
      and pub: "publish_tree E H staging ?target manifest s3 = (s4, Inr ())"
      and ro: "make_read_only H ?target s4 = (s5, Inr ())" and t: "t = ?target"
      by (auto simp: publish_verified_def lift_def split: sum.splits py_error.splits dest!: sbind_InrD)
    have s3: "fs_ok (k_fs s3)"
      using keepsD [OF shape.keeps_fill [OF ok(2), of staging] fill] s1 by (simp add: s2_def staging_def)
    have s4: "fs_ok (k_fs s4)"
      using keepsD [OF shape.keeps_publish [OF ok(2), of staging ?target] pub s3] by (simp add: staging_def)
    have "map_of (os_others H c f) x = map_of f x" if "prefix staging x" for c f x
    proof -
      have "staging_name digest random \<in> set x" using that by (auto simp: staging_def prefix_def)
      then show ?thesis using quiet unfolding no_intrusion_def by blast
    qed
    from publish_treeD [OF pub dist verify_local_tree_InrD [OF verified dist] this]
    have settled: "settled_slot E manifest t (k_fs s5)" using protected_slot [OF ro s4] t by simp
    have "\<not> prefix staging (?target @ rel)" for rel
    proof -
      have "staging_name digest random \<noteq> digest" by (auto simp: staging_name_def dest: arg_cong [where f = length])
      then show ?thesis by (auto simp: staging_def prefix_def)
    qed
    then have "map_of (k_fs s') (t @ rel) = map_of (k_fs s5) (t @ rel)" for rel using same t by blast
    moreover from this have "kinds t (k_fs s') = kinds t (k_fs s5)" by (simp add: kinds_def fun_eq_iff)
    ultimately have "settled_slot E manifest t (k_fs s')" using settled by (simp add: settled_slot_def)
    then show ?thesis using t by simp
  qed
qed

lemma build_attempts_settle:
  assumes quiet: "no_intrusion H" and ok: "stable fs_ok H" and dist: "distinct (map e_path manifest)" and dir: "project_dir \<noteq> []"
  shows "build_attempts n E H be b storage_key digest manifest project_dir s = (s', Inr t) \<Longrightarrow> fs_ok (k_fs s) \<Longrightarrow>
    t = project_dir @ [digest] \<and> settled_slot E manifest t (k_fs s')"
proof (induction n arbitrary: s)
  case (Suc n)
  from Suc.prems(1) obtain s1 x where one: "build_attempt E H be b storage_key digest manifest project_dir s = (s1, Inr x)"
    and rest: "(case x of Some t \<Rightarrow> lift (\<lambda>_. Inr t) | None \<Rightarrow> build_attempts n E H be b storage_key digest manifest project_dir) s1 = (s', Inr t)"
    by (auto dest!: sbind_InrD)
  have "fs_ok (k_fs s1)" using keepsD [OF shape.keeps_attempt [OF ok dir] one Suc.prems(2)] .
  then show ?case
    using Suc.IH [of s1] rest build_attempt_settles [OF quiet Suc.prems(2) ok dist dir, of E be b storage_key digest s1] one
    by (cases x) (auto simp: lift_def)
qed (simp add: lift_def)

section \<open>The whole operation\<close>

lemma materialize_cases:
  assumes "materialize_revision E H be root storage_key digest manifest b s = Some (s', r)"
  obtains (refused) e where "s' = s" "r = Inl e"
  | (unsafe) s1 e where "ensure_private_root H root s = Some (s1, Inl e)" "s' = s1" "r = Inl e"
  | (run) s1 cache_root k where "is_ok (validate_manifest E manifest (Some digest))" "storage_key_component E storage_key = Inr k"
    "guard_path_budget (path_join (path_text root) k) digest (manifest_entries manifest) = Inr ()"
    "ensure_private_root H root s = Some (s1, Inr cache_root)"
    "(s', r) = sbind (wrap_os (mkdir_parents H (cache_root @ [k]))) (\<lambda>_.
       slot_lock H (cache_root @ [k, lit ''.'' @ digest @ lit ''.lock''])
         (build_attempts MAX_MATERIALIZE_ATTEMPTS E H be b storage_key digest (manifest_entries manifest) (cache_root @ [k]))) s1"
  using assms unfolding materialize_revision_def
  by (auto simp: Let_def is_ok_iff result_simps split: sum.splits option.splits prod.splits)

lemma materialize_runs: "\<exists>s' r. materialize_revision E H be root storage_key digest manifest b s = Some (s', r)"
proof -
  obtain s1 x where "ensure_private_root H root s = Some (s1, x)" using ensure_private_root_runs by blast
  then show ?thesis by (cases x) (auto simp: materialize_revision_def Let_def split: sum.split)
qed

lemma slot_lock_InrD:
  "slot_lock H p m s = (s', Inr r) \<Longrightarrow> \<exists>s1. m s1 = (s', Inr r) \<and> (s1 = s \<or> map_of (k_fs s) p = None \<and> is_dir (k_fs s) (butlast p) \<and>
     (\<exists>n. s1 = put p n s))"
  by (auto simp: slot_lock_def Let_def split: if_splits)

section \<open>The properties of this theory\<close>

text \<open>
  C39. Code is only ever imported from a verified tree: whenever materialization returns a directory,
  that directory holds exactly the files of the revision's validated manifest, with their recorded
  content and nothing else, and no node of it can be written, whatever was in the cache before, whatever
  the backend answers and whichever calls the system refuses.
\<close>

theorem materialize_returns_settled:
  assumes "no_intrusion H" and "stable fs_ok H" and "fs_ok (k_fs s)"
    and "materialize_revision E H be root storage_key digest manifest b s = Some (s', Inr t)"
  shows "last t = digest \<and> settled_slot E (manifest_entries manifest) t (k_fs s')"
  using assms(4)
proof (cases rule: materialize_cases)
  case (run s1 cache_root k)
  let ?p = "cache_root @ [k]"
  have s1: "fs_ok (k_fs s1)" by (rule shape.ensure_private_root_inv [OF assms(2) run(4) assms(3)])
  from sbind_InrD [OF run(5) [symmetric]] obtain s2 where up: "wrap_os (mkdir_parents H ?p) s1 = (s2, Inr ())"
    and locked: "slot_lock H (cache_root @ [k, lit ''.'' @ digest @ lit ''.lock''])
      (build_attempts MAX_MATERIALIZE_ATTEMPTS E H be b storage_key digest (manifest_entries manifest) ?p) s2 = (s', Inr t)" by auto
  have s2: "fs_ok (k_fs s2)" using keepsD [OF keeps_wrap [OF shape.keeps_mkdir_parents [OF assms(2)]] up s1] .
  from slot_lock_InrD [OF locked] obtain s3 where
    b: "build_attempts MAX_MATERIALIZE_ATTEMPTS E H be b storage_key digest (manifest_entries manifest) ?p s3 = (s', Inr t)"
    and "s3 = s2 \<or> map_of (k_fs s2) (cache_root @ [k, lit ''.'' @ digest @ lit ''.lock'']) = None \<and>
      is_dir (k_fs s2) (butlast (cache_root @ [k, lit ''.'' @ digest @ lit ''.lock''])) \<and>
      (\<exists>n. s3 = put (cache_root @ [k, lit ''.'' @ digest @ lit ''.lock'']) n s2)" by blast
  then have s3: "fs_ok (k_fs s3)" using s2 shape.add by (auto simp: put_def)
  have "distinct (map e_path (manifest_entries manifest))" using run(1) by (auto simp: is_ok_iff dest: validate_manifest_InrD)
  from build_attempts_settle [OF assms(1,2) this _ b s3] show ?thesis by auto
qed simp_all

definition example_materialize :: "(disk \<times> path result) option" where
  "example_materialize = materialize_revision ascii_python example_os memory_backend (Relative [lit ''cache'', lit ''run''])
     (lit ''k'') (the stored_digest) stored_example [(stored_prefix @ lit ''a.py'', [1, 2])] example_disk"

lemma example_materialize_runs:
  "\<exists>s'. example_materialize = Some (s', Inr [lit ''tmp'', lit ''run'', uuid_str 1, the stored_digest])"
proof -
  have "map_option snd example_materialize = Some (Inr [lit ''tmp'', lit ''run'', uuid_str 1, the stored_digest])" by code_simp
  then show ?thesis by auto
qed

lemma example_os_quiet: "no_intrusion example_os" "stable fs_ok example_os"
  by (simp_all add: no_intrusion_def stable_def example_os_def)

lemma example_disk_ok: "fs_ok (k_fs example_disk)"
  by (auto simp: fs_ok_def example_disk_def is_dir_def split: if_splits)

theorem materialize_returns_settled_witness:
  "\<exists>s' t. example_materialize = Some (s', Inr t) \<and> settled_slot ascii_python (manifest_entries stored_example) t (k_fs s')"
  using example_materialize_runs
    materialize_returns_settled [OF example_os_quiet example_disk_ok, of ascii_python memory_backend
      "Relative [lit ''cache'', lit ''run'']" "lit ''k''" "the stored_digest" stored_example]
  unfolding example_materialize_def by blast




end
