(* ===== verification/Verdicts.thy ===== *)
theory Verdicts
  imports Validation Activation Transitions
begin

text \<open>
  What validation promises: a lease excludes other runs and a stale one commits nothing, whatever a
  verdict publishes can be activated, and a run that nobody disturbs leaves its revision with a verdict
  or gives the claim back.
\<close>

section \<open>Transitions of one row\<close>

lemma update_rows_where_Inr [result_simps]:
  "update_rows_where hit f d = Inr (d', b) \<longleftrightarrow> revision_constraints (update_rows hit f (revisions d)) \<and>
     d' = d\<lparr>revisions := update_rows hit f (revisions d)\<rparr> \<and> (b \<longleftrightarrow> list_ex hit (revisions d))"
  by (auto simp: update_rows_where_def result_simps)

lemma update_rows_none: "\<forall>r \<in> set rows. \<not> hit r \<Longrightarrow> update_rows hit f rows = rows"
  unfolding update_rows_def by (intro map_idI) simp

lemma update_rows_where_miss:
  "revision_constraints (revisions d) \<Longrightarrow> \<forall>r \<in> set (revisions d). \<not> hit r \<Longrightarrow> update_rows_where hit f d = Inr (d, False)"
  by (auto simp: update_rows_where_def update_rows_none write_revisions_def list_ex_iff)

text \<open>A row is not under the lease of a job.\<close>

definition not_owner :: "pk \<Rightarrow> pk \<Rightarrow> db \<Rightarrow> bool" where
  "not_owner k job d \<longleftrightarrow> revision_constraints (revisions d) \<and> (\<forall>r \<in> set (revisions d). \<not> owned k job r)"

text \<open>
  What may happen to the database while a job that lost its lease is still running: other jobs claim,
  finalize and give back, and other transactions commit that put no row under that job's lease.
\<close>

inductive other_commit :: "pk \<Rightarrow> pk \<Rightarrow> db \<Rightarrow> db \<Rightarrow> bool" for k job where
  claims: "job' \<noteq> job \<Longrightarrow> claim_revision k' job' now d = Inr (d', b) \<Longrightarrow> other_commit k job d d'"
| finalizes: "finalize k' job' status errors published d = Inr (d', b) \<Longrightarrow> status \<noteq> VALIDATING \<Longrightarrow> other_commit k job d d'"
| gives_back: "revert_to_materialized k' job' reason d = Inr (d', b) \<Longrightarrow> other_commit k job d d'"
| writes: "revision_constraints (revisions d') \<Longrightarrow>
    \<forall>r \<in> set (revisions d'). owned k job r \<longrightarrow> (\<exists>q \<in> set (revisions d). owned k job q) \<Longrightarrow> other_commit k job d d'"

lemma owned_claimed: "owned k job (claimed_by job' now r) \<longleftrightarrow> r_id r = k \<and> job' = job"
  by (auto simp: owned_def claimed_by_def)

lemma not_owned_after [simp]:
  "status \<noteq> VALIDATING \<Longrightarrow> \<not> owned k job (with_verdict status errors published r)" "\<not> owned k job (given_back reason r)"
  by (simp_all add: owned_def with_verdict_def given_back_def)

lemma other_commit_not_owner: "other_commit k job d d' \<Longrightarrow> not_owner k job d \<Longrightarrow> not_owner k job d'"
proof (induction rule: other_commit.induct)
  case (claims job' k' now d d' b)
  then show ?case
    by (auto simp: not_owner_def claim_revision_def result_simps set_update_rows owned_claimed split: if_splits)
next
  case (finalizes k' job' status errors published d d' b)
  then show ?case by (auto simp: not_owner_def finalize_def result_simps set_update_rows split: if_splits)
next
  case (gives_back k' job' reason d d' b)
  then show ?case by (auto simp: not_owner_def revert_to_materialized_def result_simps set_update_rows split: if_splits)
qed (auto simp: not_owner_def)

text \<open>A lease once lost stays lost, as long as its job claims nothing.\<close>

interpretation lease: invariant "not_owner k job" "other_commit k job" "not_owner k job" for k job
  by unfold_locales (assumption | erule (1) other_commit_not_owner)+

lemma not_owner_commits_nothing:
  assumes "not_owner k job d"
  shows "finalize k job status errors published d = Inr (d, False)" "revert_to_materialized k job reason d = Inr (d, False)"
  using assms by (auto simp: not_owner_def finalize_def revert_to_materialized_def intro!: update_rows_where_miss)

lemma claimed_row:
  assumes "claim_revision k job now d = Inr (d1, True)"
  shows "revision_constraints (revisions d1) \<and> (\<forall>r \<in> set (revisions d1). r_id r = k \<longrightarrow>
    r_status r = VALIDATING \<and> r_validation_job r = Some job \<and> r_validation_started r = Some now)"
proof -
  have d1: "revision_constraints (revisions d1)"
    "revisions d1 = update_rows (\<lambda>r. r_id r = k \<and> claimable now r) (claimed_by job now) (revisions d)" and ids: "distinct (map r_id (revisions d1))"
    using assms by (auto simp: claim_revision_def result_simps revision_constraints_def)
  obtain q where q: "q \<in> set (revisions d)" "r_id q = k" "claimable now q"
    using assms by (auto simp: claim_revision_def result_simps list_ex_iff)
  have "map r_id (revisions d1) = map r_id (revisions d)" unfolding d1(2) by (rule map_update_rows) (simp add: claimed_by_def)
  then have "inj_on r_id (set (revisions d))" using ids by (simp add: distinct_map)
  then have only: "x = q" if "x \<in> set (revisions d)" "r_id x = k" for x using that q(1,2) by (auto dest: inj_onD)
  have "r = claimed_by job now q" if r: "r \<in> set (revisions d1)" "r_id r = k" for r
  proof -
    obtain x where x: "x \<in> set (revisions d)" "r = (if r_id x = k \<and> claimable now x then claimed_by job now x else x)"
      using r(1) unfolding d1(2) set_update_rows by blast
    then have "r_id x = k" using r(2) by (simp add: claimed_by_def split: if_splits)
    with x only q(2,3) show ?thesis by simp
  qed
  then have "\<forall>r \<in> set (revisions d1). r_id r = k \<longrightarrow> r = claimed_by job now q" by blast
  moreover have "r_status (claimed_by job now q) = VALIDATING \<and> r_validation_job (claimed_by job now q) = Some job \<and>
    r_validation_started (claimed_by job now q) = Some now" by (simp add: claimed_by_def)
  ultimately show ?thesis using d1(1) by metis
qed

lemma claim_takes_over:
  assumes "claim_revision k job now d = Inr (d1, True)" "job' \<noteq> job"
  shows "not_owner k job' d1"
  using claimed_row [OF assms(1)] assms(2) by (auto simp: not_owner_def owned_def)

lemma claim_excludes:
  assumes "claim_revision k job now d = Inr (d1, True)" "now' \<le> now + VALIDATION_LEASE_SECONDS"
  shows "claim_revision k job' now' d1 = Inr (d1, False)"
  unfolding claim_revision_def
  by (rule update_rows_where_miss) (use claimed_row [OF assms(1)] assms(2) in \<open>auto simp: claimable_def\<close>)

section \<open>What revisions publish\<close>

definition published_ok :: "netbox_core \<Rightarrow> db \<Rightarrow> bool" where
  "published_ok N d \<longleftrightarrow> (\<forall>r \<in> set (revisions d). is_ok (validate_discovered_scripts N (r_discovered_scripts r)))"

definition world_ok :: "netbox_core \<Rightarrow> 'b world \<Rightarrow> bool" where
  "world_ok N w \<longleftrightarrow> published_ok N (w_db w) \<and> (\<forall>f \<in> set (w_others w). \<forall>d. published_ok N d \<longrightarrow> published_ok N (f d))"

definition host_ok :: "netbox_core \<Rightarrow> ('b, 'c) host \<Rightarrow> bool" where
  "host_ok N h \<longleftrightarrow> world_ok N (h_world h)"

lemma interfere_ok: "world_ok N w \<Longrightarrow> world_ok N (interfere w)"
  by (auto simp: world_ok_def interfere_def split: list.splits)

lemma select_ok: "world_ok N w \<Longrightarrow> world_ok N (fst (select f w))"
  by (simp add: select_def Let_def interfere_ok)

lemma statement_ok:
  assumes "world_ok N w" "\<And>d d' x. f d = Inr (d', x) \<Longrightarrow> published_ok N d \<Longrightarrow> published_ok N d'"
  shows "world_ok N (fst (statement f w))"
  using interfere_ok [OF assms(1)] assms(2)
  by (auto simp: statement_def Let_def world_ok_def split: sum.splits prod.splits)

lemma on_world_ok: "host_ok N h \<Longrightarrow> (\<And>w. world_ok N w \<Longrightarrow> world_ok N (fst (m w))) \<Longrightarrow> host_ok N (fst (on_world m h))"
  by (auto simp: host_ok_def on_world_def split: prod.splits) (metis fst_conv)

lemma sbind_ok:
  assumes "P (fst (m s))" "\<And>x s'. m s = (s', Inr x) \<Longrightarrow> P s' \<Longrightarrow> P (fst (f x s'))"
  shows "P (fst (sbind m f s))"
  using assms by (auto simp: sbind_def split: prod.splits sum.splits)

lemma update_published:
  assumes "update_rows_where hit f d = Inr (d', b)" "published_ok N d"
    and "\<And>r. is_ok (validate_discovered_scripts N (r_discovered_scripts r)) \<Longrightarrow>
      is_ok (validate_discovered_scripts N (r_discovered_scripts (f r)))"
  shows "published_ok N d'"
  using assms by (auto simp: result_simps published_ok_def set_update_rows)

lemma transitions_published:
  "claim_revision k job now d = Inr (d', b) \<Longrightarrow> published_ok N d \<Longrightarrow> published_ok N d'"
  "revert_to_materialized k job reason d = Inr (d', b) \<Longrightarrow> published_ok N d \<Longrightarrow> published_ok N d'"
  "finalize k job status errors published d = Inr (d', b) \<Longrightarrow> is_ok (validate_discovered_scripts N (JList published)) \<Longrightarrow>
     published_ok N d \<Longrightarrow> published_ok N d'"
  unfolding claim_revision_def revert_to_materialized_def finalize_def
  by (erule update_published; simp add: claimed_by_def given_back_def with_verdict_def)+

lemma persist_published: "persist_result r entry outcome message d = Inr (d', u) \<Longrightarrow> published_ok N d \<Longrightarrow> published_ok N d'"
  by (auto simp: persist_result_def Let_def result_simps published_ok_def split: option.splits if_splits)

lemma persist_results_ok: "world_ok N w \<Longrightarrow> world_ok N (fst (persist_script_file_results r entries failures pr w))"
proof (induction entries arbitrary: w)
  case (Cons entry entries)
  show ?case
  proof (cases "map_of (pr_outcomes pr) (snd entry)")
    case (Some outcome)
    show ?thesis unfolding persist_script_file_results.simps Some option.case
      by (rule sbind_ok) (use Cons in \<open>auto intro!: statement_ok dest: persist_published\<close>)
  qed (use Cons in simp)
qed (simp add: ret_def)

lemma commit_ok:
  assumes "world_ok N w" "progress_ok N pr"
  shows "world_ok N (fst (commit_verdict r job entries pr w))"
proof -
  have fin: "world_ok N (fst (statement (finalize (r_id r) job status errors (if b then [] else pr_records pr)) w))" for status errors b
    by (rule statement_ok [OF assms(1)]) (rule transitions_published(3) [OF _ progress_published [OF assms(2)]])
  show ?thesis unfolding commit_verdict_def Let_def
  proof (rule sbind_ok [where P = "world_ok N"], rule fin)
    fix own and w' :: "'a world" assume "world_ok N w'"
    then have "world_ok N (fst ((if own then persist_script_file_results r entries (verdict_failures entries pr) pr else ret ()) w'))"
      by (simp add: persist_results_ok ret_def)
    then show "world_ok N (fst (sbind (if own then persist_script_file_results r entries (verdict_failures entries pr) pr else ret ())
        (\<lambda>_. select (refresh_from_db (r_id r))) w'))"
      by (rule sbind_ok [where P = "world_ok N"]) (rule select_ok)
  qed
qed


text \<open>Project code may write the database as any other session may.\<close>

definition imports_keep :: "netbox_core \<Rightarrow> ('b, 'c) runtime \<Rightarrow> bool" where
  "imports_keep N rt \<longleftrightarrow> (\<forall>n dir h. host_ok N h \<longrightarrow> host_ok N (fst (rt_exec_root rt n dir h))) \<and>
     (\<forall>n h. host_ok N h \<longrightarrow> host_ok N (fst (rt_import rt n h)))"

lemma host_ok_simps [simp]:
  "host_ok N (h\<lparr>h_modules := m\<rparr>) = host_ok N h" "host_ok N (h\<lparr>h_local := c\<rparr>) = host_ok N h"
  by (simp_all add: host_ok_def)

lemma boundary_host_ok:
  assumes "imports_keep N rt" "host_ok N h"
  shows "host_ok N (fst (run_boundary rt passthrough pn rn dir init path dotted h))"
proof -
  have reg: "host_ok N (fst (register_revision_package rt pn rn dir init h))"
    using assms by (simp add: register_revision_package_def Let_def imports_keep_def)
  define first where "first = (if map_of (h_modules h) rn = None then register_revision_package rt pn rn dir init h else (h, Inr ()))"
  have f: "host_ok N (fst first)" using reg assms(2) by (simp add: first_def)
  obtain h1 outcome where first: "first = (h1, outcome)" by (cases first)
  define second where "second = (case outcome of Inl x \<Rightarrow> (h1, Inl x) | Inr u \<Rightarrow> rt_import rt (rn @ dot # dotted) h1)"
  have "host_ok N (fst second)" using f assms(1) by (simp add: second_def first imports_keep_def split: sum.split)
  moreover obtain h2 o2 where second: "second = (h2, o2)" by (cases second)
  ultimately show ?thesis
    unfolding run_boundary_def Let_def first_def [symmetric] first prod.case second_def [symmetric] second
    by (simp split: sum.split)
qed

lemma import_host_ok:
  assumes "imports_keep N rt" "host_ok N h"
  shows "host_ok N (fst (import_script_file E T rt passthrough key digest manifest path h))"
  using assms boundary_host_ok [OF assms(1)]
  by (auto simp: import_script_file_def Let_def split: sum.split py_error.split prod.split)

lemma entries_host_ok:
  assumes "imports_keep N rt" "host_ok N h"
  shows "host_ok N (fst (session_entries V rt se passthrough entries pr h))"
  using assms(2)
proof (induction entries arbitrary: pr h)
  case (Cons entry entries)
  obtain h' outcome where step: "import_script_file (v_python V) (v_texts V) rt passthrough (se_key se) (se_digest se)
      (se_manifest se) (snd entry) h = (h', outcome)" by fastforce
  have "host_ok N h'" using import_host_ok [OF assms(1) Cons.prems] by (metis step fst_conv)
  then show ?case using Cons.IH by (simp add: step split: sum.split)
qed simp

lemma session_host_ok:
  assumes "\<And>be. imports_keep N (v_runtime V be)" "host_ok N h"
  shows "host_ok N (fst (run_session V se passthrough entries h))"
proof (cases "get_storage (v_service V)")
  case (Inr be)
  obtain h' outcome where step: "session_entries V (v_runtime V be) se passthrough entries nothing_yet h = (h', outcome)" by fastforce
  have "host_ok N h'" using entries_host_ok [OF assms] by (metis step fst_conv)
  then show ?thesis by (simp add: run_session_def Inr step split: sum.split prod.split)
qed (simp add: run_session_def assms(2))

lemma revert_host_ok: "host_ok N h \<Longrightarrow> host_ok N (fst (on_world (statement (revert_to_materialized k job reason)) h))"
  by (rule on_world_ok) (auto intro: statement_ok dest: transitions_published)

lemma select_host_ok: "host_ok N h \<Longrightarrow> host_ok N (fst (on_world (select f) h))"
  by (rule on_world_ok) (auto intro: select_ok)

lemma sbind_host_ok:
  "host_ok N (fst (m h)) \<Longrightarrow> (\<And>x h'. m h = (h', Inr x) \<Longrightarrow> host_ok N h' \<Longrightarrow> host_ok N (fst (f x h'))) \<Longrightarrow>
     host_ok N (fst (sbind m f h))"
  by (rule sbind_ok [where P = "host_ok N"])

lemma content_host_ok:
  fixes V :: "('b, 'h, 'c) validation_env"
  assumes "\<And>be. imports_keep (v_core V) (v_runtime V be)" "host_ok (v_core V) h" "\<forall>e \<in> set entries. 0 < fst e"
  shows "host_ok (v_core V) (fst (validate_content V r job passthrough entries h))"
  unfolding validate_content_def
proof (rule sbind_host_ok, rule select_host_ok, rule assms(2), rule sbind_host_ok)
  fix p and h0 :: "('b, 'c) host" assume h0: "host_ok (v_core V) h0"
  show "host_ok (v_core V) (fst (lift (\<lambda>_. open_session V p r) h0))" using h0 by (simp add: lift_def)
  fix se and h1 :: "('b, 'c) host" assume h1: "host_ok (v_core V) h1"
  obtain h2 outcome where run: "run_session V se passthrough entries h1 = (h2, outcome)" by fastforce
  have h2: "host_ok (v_core V) h2" using session_host_ok [OF assms(1) h1] by (metis run fst_conv)
  show "host_ok (v_core V) (fst (case run_session V se passthrough entries h1 of
      (h', Inl (e, reason)) \<Rightarrow> sbind (on_world (statement (revert_to_materialized (r_id r) job (se_sanitize se reason)))) (\<lambda>_. fail e) h'
    | (h', Inr pr) \<Rightarrow> on_world (commit_verdict r job entries pr) h'))"
  proof (cases outcome)
    case (Inl stop)
    then show ?thesis using h2
      by (auto simp: run fail_def intro!: sbind_host_ok revert_host_ok split: prod.split)
  next
    case (Inr pr)
    have "progress_ok (v_core V) pr" using run_session_ok assms(3) run Inr by blast
    then have "host_ok (v_core V) (fst (on_world (commit_verdict r job entries pr) h2))"
      by (intro on_world_ok [OF h2] commit_ok)
    then show ?thesis by (simp add: run Inr)
  qed
qed


lemma claimed_host_ok:
  fixes V :: "('b, 'h, 'c) validation_env"
  assumes "\<And>be. imports_keep (v_core V) (v_runtime V be)" "host_ok (v_core V) h" "lower_laws (v_python V)"
  shows "host_ok (v_core V) (fst (judge_claimed V job passthrough r h))"
proof (cases "checked_entries V r")
  case (Inl e)
  have "host_ok (v_core V) (fst (sbind (on_world (statement (revert_to_materialized (r_id r) job []))) 
      (\<lambda>_. fail x :: (('b, 'c) host, revision) io) h))" for x
    by (rule sbind_host_ok, rule revert_host_ok, rule assms(2)) (simp add: fail_def)
  then show ?thesis using assms(2) by (simp add: judge_claimed_def Inl split: py_error.split) (simp add: fail_def)
next
  case (Inr entries)
  have "\<forall>e \<in> set entries. 0 < fst e"
    using Inr snapshot_entries_positive [OF assms(3)] by (auto simp: checked_entries_def result_simps simp del: set_map)
  then have content: "host_ok (v_core V) (fst (validate_content V r job passthrough entries h))"
    by (rule content_host_ok [OF assms(1,2)])
  have "is_ok (validate_discovered_scripts (v_core V) (JList []))" by (simp add: validate_discovered_scripts_def)
  then have "host_ok (v_core V) (fst (on_world (statement (finalize (r_id r) job VALID [] [])) h))"
    by (intro on_world_ok [OF assms(2)] statement_ok) (auto dest: transitions_published(3))
  then have "host_ok (v_core V) (fst (sbind (on_world (statement (finalize (r_id r) job VALID [] [])))
      (\<lambda>_. on_world (select (refresh_from_db (r_id r)))) h))"
    by (rule sbind_host_ok) (rule select_host_ok)
  with content show ?thesis by (simp add: judge_claimed_def Inr)
qed

lemma validate_host_ok:
  fixes V :: "('b, 'h, 'c) validation_env"
  assumes "\<And>be. imports_keep (v_core V) (v_runtime V be)" "host_ok (v_core V) h" "lower_laws (v_python V)"
  shows "host_ok (v_core V) (fst (validate_revision V alias_name k job passthrough h))"
  unfolding validate_revision_def Let_def
proof (rule sbind_host_ok)
  show "host_ok (v_core V) (fst (lift (\<lambda>_. rbind (require_safe_routing (v_service V)) (\<lambda>_. require_default_database alias_name)) h))"
    using assms(2) by (simp add: lift_def)
next
  fix u and h0 :: "('b, 'c) host" assume h0: "host_ok (v_core V) h0"
  show "host_ok (v_core V) (fst (sbind (on_world (statement (claim_revision k job (w_now (h_world h))))) (\<lambda>claimed.
      if \<not> claimed then fail ValidationStateError
      else sbind (on_world (select (refresh_from_db k))) (judge_claimed V job passthrough)) h0))"
  proof (rule sbind_host_ok)
    show "host_ok (v_core V) (fst (on_world (statement (claim_revision k job (w_now (h_world h)))) h0))"
      by (rule on_world_ok [OF h0]) (auto intro: statement_ok dest: transitions_published)
  next
    fix claimed and h1 :: "('b, 'c) host" assume h1: "host_ok (v_core V) h1"
    have "host_ok (v_core V) (fst (sbind (on_world (select (refresh_from_db k))) (judge_claimed V job passthrough) h1))"
      by (rule sbind_host_ok, rule select_host_ok, rule h1) (rule claimed_host_ok [OF assms(1) _ assms(3)])
    then show "host_ok (v_core V) (fst ((if \<not> claimed then fail ValidationStateError
        else sbind (on_world (select (refresh_from_db k))) (judge_claimed V job passthrough)) h1))"
      using h1 by (simp add: fail_def)
  qed
qed


section \<open>Runs that nobody disturbs\<close>

lemma on_world_statement_quiet:
  assumes "w_others (h_world h) = []" "f (w_db (h_world h)) = Inr (d, x)"
  shows "on_world (statement f) h = (h\<lparr>h_world := (h_world h)\<lparr>w_db := d\<rparr>\<rparr>, Inr x)"
  using assms by (simp add: on_world_def statement_def)

lemma on_world_select_quiet:
  "w_others (h_world h) = [] \<Longrightarrow> on_world (select f) h = (h, f (w_db (h_world h)))"
  by (simp add: on_world_def select_def Let_def)

text \<open>One row changes, to a state that is not ACTIVE.\<close>

definition keeps_content :: "(revision \<Rightarrow> revision) \<Rightarrow> bool" where
  "keeps_content f \<longleftrightarrow> (\<forall>r. r_id (f r) = r_id r \<and> r_project (f r) = r_project r \<and> r_digest (f r) = r_digest r \<and>
     r_script_file_digest (f r) = r_script_file_digest r \<and> r_manifest (f r) = r_manifest r \<and>
     r_script_file_snapshot (f r) = r_script_file_snapshot r)"

lemma keeps_content_simps [simp]:
  "keeps_content (claimed_by job now)" "keeps_content (given_back reason)" "keeps_content (with_verdict status errors published)"
  by (simp_all add: keeps_content_def claimed_by_def given_back_def with_verdict_def)

lemma with_verdict_status [simp]: "r_status (with_verdict status errors published r) = status"
  by (simp add: with_verdict_def)

lemma row_step:
  assumes c: "revision_constraints (revisions d)" and row: "revision_of d k = Some r"
    and hit: "hit r" "\<And>x. hit x \<Longrightarrow> r_id x = k" and f: "keeps_content f" "r_status (f r) \<noteq> ACTIVE" "r_digest r \<noteq> None"
  shows "\<exists>d'. update_rows_where hit f d = Inr (d', True) \<and> revision_constraints (revisions d') \<and> revision_of d' k = Some (f r) \<and>
    projects d' = projects d \<and> script_files d' = script_files d"
proof -
  note r = revision_of_SomeD [OF row]
  have only: "x = r" if "x \<in> set (revisions d)" "hit x" for x
    using revision_of_member [OF _ that(1)] c hit(2) [OF that(2)] row by (simp add: revision_constraints_def)
  have "revision_constraints (update_rows hit f (revisions d))"
  proof (rule revision_constraints_update [OF c])
    fix x assume "x \<in> set (revisions d)" "hit x"
    then have "x = r" by (rule only)
    then show "r_id (f x) = r_id x \<and> r_project (f x) = r_project x \<and> r_digest (f x) = r_digest x \<and>
        r_script_file_digest (f x) = r_script_file_digest x \<and> (r_status (f x) = INVALID \<or> r_digest x \<noteq> None)"
      using f by (simp add: keeps_content_def)
  next
    fix x y assume "x \<in> set (revisions d)" "hit x" "r_status (f x) = ACTIVE"
    then show "y = x" using only f(2) by blast
  qed
  moreover have "revision_of (d\<lparr>revisions := update_rows hit f (revisions d)\<rparr>) k = Some (f r)"
    using row hit(1) f(1) unfolding revision_of_def by (simp add: find_update_rows keeps_content_def)
  ultimately show ?thesis using r hit(1) by (auto simp: result_simps list_ex_iff)
qed

definition leaves_world :: "('b, 'c) runtime \<Rightarrow> bool" where
  "leaves_world rt \<longleftrightarrow> (\<forall>n dir h. h_world (fst (rt_exec_root rt n dir h)) = h_world h) \<and>
     (\<forall>n h. h_world (fst (rt_import rt n h)) = h_world h)"

lemma boundary_world:
  assumes "leaves_world rt"
  shows "h_world (fst (run_boundary rt passthrough pn rn dir init path dotted h)) = h_world h"
proof -
  define first where "first = (if map_of (h_modules h) rn = None then register_revision_package rt pn rn dir init h else (h, Inr ()))"
  have f: "h_world (fst first) = h_world h"
    using assms by (simp add: first_def register_revision_package_def Let_def leaves_world_def)
  obtain h1 outcome where first: "first = (h1, outcome)" by (cases first)
  define second where "second = (case outcome of Inl x \<Rightarrow> (h1, Inl x) | Inr u \<Rightarrow> rt_import rt (rn @ dot # dotted) h1)"
  have "h_world (fst second) = h_world h" using f assms by (simp add: second_def first leaves_world_def split: sum.split)
  moreover obtain h2 o2 where second: "second = (h2, o2)" by (cases second)
  ultimately show ?thesis
    unfolding run_boundary_def Let_def first_def [symmetric] first prod.case second_def [symmetric] second
    by (simp split: sum.split)
qed

lemma session_world:
  assumes "\<And>be. leaves_world (v_runtime V be)"
  shows "h_world (fst (run_session V se passthrough entries h)) = h_world h"
proof (cases "get_storage (v_service V)")
  case (Inr be)
  have one: "h_world (fst (import_script_file E T (v_runtime V be) passthrough key digest manifest path h)) = h_world h"
    for E T key digest manifest path and h
    using boundary_world [OF assms]
    by (auto simp: import_script_file_def Let_def split: sum.split py_error.split prod.split)
  have all: "h_world (fst (session_entries V (v_runtime V be) se passthrough entries pr h)) = h_world h" for pr h
  proof (induction entries arbitrary: pr h)
    case (Cons entry entries)
    obtain h' outcome where step: "import_script_file (v_python V) (v_texts V) (v_runtime V be) passthrough (se_key se)
        (se_digest se) (se_manifest se) (snd entry) h = (h', outcome)" by fastforce
    have "h_world h' = h_world h" using one by (metis step fst_conv)
    then show ?case using Cons.IH by (simp add: step split: sum.split)
  qed simp
  obtain h' outcome where step: "session_entries V (v_runtime V be) se passthrough entries nothing_yet h = (h', outcome)" by fastforce
  have "h_world h' = h_world h" using all by (metis step fst_conv)
  then show ?thesis by (simp add: run_session_def Inr step split: sum.split prod.split)
qed (simp add: run_session_def)

lemma persist_quiet:
  assumes "w_others w = []" "script_file_constraints (script_files (w_db w))" "revision_of (w_db w) (r_id r) \<noteq> None"
    and "r_validation_started r \<noteq> None"
  shows "\<exists>w'. persist_script_file_results r entries failures pr w = (w', Inr ()) \<and> w_others w' = [] \<and>
    revisions (w_db w') = revisions (w_db w)"
  using assms
proof (induction entries arbitrary: w)
  case (Cons entry entries)
  obtain started where st: "r_validation_started r = Some started" using Cons.prems(4) by blast
  show ?case
  proof (cases "map_of (pr_outcomes pr) (snd entry)")
    case (Some outcome)
    define hit where "hit = refreshable (w_db w) r started entry"
    define f where "f = (\<lambda>f. f\<lparr>f_discovery_status := outcome,
        f_discovery_error := file_message outcome failures pr (snd entry), f_last_discovered_revision := Some (r_id r)\<rparr> :: script_file)"
    have sfc: "script_file_constraints (update_rows hit f (script_files (w_db w)))"
      using Cons.prems(2) by (simp add: script_file_constraints_def map_update_rows f_def)
    have step: "statement (persist_result r entry outcome (file_message outcome failures pr (snd entry))) w =
        (w\<lparr>w_db := (w_db w)\<lparr>script_files := update_rows hit f (script_files (w_db w))\<rparr>\<rparr>, Inr ())"
      using Cons.prems(1,3) sfc unfolding hit_def f_def
      by (simp add: statement_def persist_result_def st Let_def write_script_files_def)
    have "\<exists>w'. persist_script_file_results r entries failures pr
        (w\<lparr>w_db := (w_db w)\<lparr>script_files := update_rows hit f (script_files (w_db w))\<rparr>\<rparr>) = (w', Inr ()) \<and>
        w_others w' = [] \<and> revisions (w_db w') = revisions (w_db w)"
      using Cons.IH [of "w\<lparr>w_db := (w_db w)\<lparr>script_files := update_rows hit f (script_files (w_db w))\<rparr>\<rparr>"] Cons.prems sfc
      by (simp add: revision_of_def)
    then show ?thesis by (simp add: Some sbind_def step)
  next
    case None
    then show ?thesis using Cons by simp
  qed
qed (simp add: ret_def)


text \<open>Where a run leaves its row: a verdict it returns, or the claim given back.\<close>

definition settled :: "(int \<times> pystr) list result \<Rightarrow> revision \<Rightarrow> db \<Rightarrow> revision result \<Rightarrow> bool" where
  "settled entries r d outcome \<longleftrightarrow> (\<exists>r'. revision_of d (r_id r) = Some r' \<and> r_digest r' = r_digest r \<and>
     r_manifest r' = r_manifest r \<and> r_script_file_snapshot r' = r_script_file_snapshot r \<and>
     (case outcome of
        Inl e \<Rightarrow> r_status r' = MATERIALIZED \<and> r_validation_job r' = None \<and> r_validation_started r' = None
      | Inr q \<Rightarrow> q = r' \<and>
          (r_status r' = INVALID \<and> r_validation_errors r' \<noteq> [] \<and> r_discovered_scripts r' = JList [] \<or>
           r_status r' = VALID \<and> r_validation_errors r' = [] \<and> (entries \<noteq> Inr [] \<longrightarrow> r_discovered_scripts r' \<noteq> JList []))))"

lemma settled_cong: "keeps_content f \<Longrightarrow> settled entries (f r) d outcome \<Longrightarrow> settled entries r d outcome"
  by (simp add: settled_def keeps_content_def)

lemma give_back_settles:
  assumes "w_others (h_world h) = []" "revision_constraints (revisions (w_db (h_world h)))"
    and "revision_of (w_db (h_world h)) (r_id r) = Some r" "owned (r_id r) job r" "r_digest r \<noteq> None"
    and run: "sbind (on_world (statement (revert_to_materialized (r_id r) job reason))) (\<lambda>_. fail e) h = (h', outcome)"
  shows "settled entries r (w_db (h_world h')) outcome"
proof -
  obtain d where d: "revert_to_materialized (r_id r) job reason (w_db (h_world h)) = Inr (d, True)"
      "revision_of d (r_id r) = Some (given_back reason r)"
    using row_step [where hit = "owned (r_id r) job" and f = "given_back reason", OF assms(2,3,4) _ _ _ assms(5)]
    unfolding revert_to_materialized_def by (auto simp: owned_def given_back_def)
  show ?thesis
    using run d(2)
    by (auto simp: sbind_def on_world_statement_quiet [where f = "revert_to_materialized (r_id r) job reason", OF assms(1) d(1)]
        fail_def settled_def given_back_def)
qed

lemma commit_settles:
  assumes w: "w_others w = []" "revision_constraints (revisions (w_db w))" "script_file_constraints (script_files (w_db w))"
    and r: "revision_of (w_db w) (r_id r) = Some r" "owned (r_id r) job r" "r_digest r \<noteq> None" "r_validation_started r \<noteq> None"
    and e: "es \<noteq> []"
  shows "\<exists>w' q. commit_verdict r job es pr w = (w', Inr q) \<and> settled entries r (w_db w') (Inr q)"
proof -
  define failures where "failures = verdict_failures es pr"
  define status where "status = (if failures \<noteq> [] then INVALID else VALID)"
  define published where "published = (if failures \<noteq> [] then [] else pr_records pr)"
  have ns: "status \<noteq> ACTIVE" by (simp add: status_def)
  obtain d where d: "finalize (r_id r) job status failures published (w_db w) = Inr (d, True)"
      "revision_of d (r_id r) = Some (with_verdict status failures published r)" "script_files d = script_files (w_db w)"
    using row_step [where hit = "owned (r_id r) job" and f = "with_verdict status failures published", OF w(2) r(1,2) _ _ _ r(3)]
    using ns by (auto simp: finalize_def owned_def)
  have fin: "statement (finalize (r_id r) job status failures published) w = (w\<lparr>w_db := d\<rparr>, Inr True)"
    using w(1) d(1) by (simp add: statement_def)
  obtain w' where w': "persist_script_file_results r es failures pr (w\<lparr>w_db := d\<rparr>) = (w', Inr ())" "w_others w' = []"
      "revisions (w_db w') = revisions d"
    using persist_quiet [of "w\<lparr>w_db := d\<rparr>" r es failures pr] w(1,3) d(2,3) r(4) by auto
  have row: "revision_of (w_db w') (r_id r) = Some (with_verdict status failures published r)"
    using d(2) w'(3) by (simp add: revision_of_def)
  have run: "commit_verdict r job es pr w = (w', Inr (with_verdict status failures published r))"
    unfolding commit_verdict_def Let_def failures_def [symmetric] status_def [symmetric] published_def [symmetric]
    using w'(1,2) row by (simp add: sbind_def fin select_def Let_def refresh_from_db_def)
  have "failures = [] \<Longrightarrow> pr_records pr \<noteq> []"
    using e by (auto simp: failures_def verdict_failures_def no_scripts_published_def split: if_splits)
  then have "settled entries r (w_db w') (Inr (with_verdict status failures published r))"
    using row by (auto simp: settled_def with_verdict_def status_def published_def)
  with run show ?thesis by blast
qed


lemma judge_settles:
  fixes V :: "('b, 'h, 'c) validation_env"
  assumes w: "w_others (h_world h) = []" "revision_constraints (revisions (w_db (h_world h)))"
      "script_file_constraints (script_files (w_db (h_world h)))" "project_of (w_db (h_world h)) (r_project r) = Some p"
    and r: "revision_of (w_db (h_world h)) (r_id r) = Some r" "owned (r_id r) job r" "r_digest r \<noteq> None" "r_validation_started r \<noteq> None"
    and V: "\<And>be. leaves_world (v_runtime V be)" "is_ok (open_session V p r)"
    and checked: "\<And>e. checked_entries V r = Inl e \<Longrightarrow> \<exists>reasons. e = RevisionCorrupt reasons"
  shows "\<exists>h' outcome. judge_claimed V job passthrough r h = (h', outcome) \<and>
    settled (checked_entries V r) r (w_db (h_world h')) outcome"
proof (cases "checked_entries V r")
  case (Inl e)
  then obtain reasons where e: "e = RevisionCorrupt reasons" using checked by blast
  have "judge_claimed V job passthrough r h = sbind (on_world (statement (revert_to_materialized (r_id r) job []))) (\<lambda>_. fail e) h"
    by (simp add: judge_claimed_def Inl e)
  then show ?thesis using give_back_settles [OF w(1,2) r(1-3)] by (metis prod.exhaust)
next
  case (Inr entries)
  show ?thesis
  proof (cases "entries = []")
    case True
    obtain d where d: "finalize (r_id r) job VALID [] [] (w_db (h_world h)) = Inr (d, True)"
        "revision_of d (r_id r) = Some (with_verdict VALID [] [] r)"
      using row_step [where hit = "owned (r_id r) job" and f = "with_verdict VALID [] []", OF w(2) r(1,2) _ _ _ r(3)]
      by (auto simp: finalize_def owned_def)
    have "judge_claimed V job passthrough r h = (h\<lparr>h_world := (h_world h)\<lparr>w_db := d\<rparr>\<rparr>, Inr (with_verdict VALID [] [] r))"
      by (simp add: judge_claimed_def Inr True sbind_def on_world_statement_quiet [where f = "finalize (r_id r) job VALID [] []", OF w(1) d(1)]
          on_world_select_quiet w(1) refresh_from_db_def d(2))
    moreover have "settled (Inr []) r d (Inr (with_verdict VALID [] [] r))" using d(2) by (simp add: settled_def with_verdict_def)
    ultimately show ?thesis by (simp add: Inr True)
  next
    case False
    obtain se where se: "open_session V p r = Inr se" using V(2) by (auto simp: is_ok_iff)
    obtain h1 run where run: "run_session V se passthrough entries h = (h1, run)" by fastforce
    have same: "h_world h1 = h_world h" using session_world [OF V(1)] by (metis run fst_conv)
    have judged: "judge_claimed V job passthrough r h = (case run of
        Inl (e, reason) \<Rightarrow> sbind (on_world (statement (revert_to_materialized (r_id r) job (se_sanitize se reason)))) (\<lambda>_. fail e) h1
      | Inr pr \<Rightarrow> on_world (commit_verdict r job entries pr) h1)"
      by (simp add: judge_claimed_def Inr False validate_content_def sbind_def [of "on_world (select f)" for f] on_world_select_quiet w(1)
          w(4) sbind_def [of "lift f" for f] lift_def se run split: sum.split)
    show ?thesis
    proof (cases run)
      case (Inl stop)
      obtain e reason where stop: "stop = (e, reason)" by (cases stop)
      show ?thesis
        using give_back_settles [where h = h1 and e = e and reason = "se_sanitize se reason", of r job] w r(1-3)
        by (metis (no_types, lifting) judged Inl stop same prod.exhaust sum.case(1) old.prod.case)
    next
      case (Inr pr)
      obtain w' q where c: "commit_verdict r job entries pr (h_world h1) = (w', Inr q)"
          "settled (checked_entries V r) r (w_db w') (Inr q)"
        using commit_settles [of "h_world h1" r job entries pr] w r False same by metis
      then show ?thesis by (simp add: judged Inr on_world_def)
    qed
  qed
qed


lemma claimed_same:
  "checked_entries V (claimed_by job now r) = checked_entries V r" "open_session V p (claimed_by job now r) = open_session V p r"
  "r_id (claimed_by job now r) = r_id r" "r_project (claimed_by job now r) = r_project r" "r_digest (claimed_by job now r) = r_digest r"
  "r_validation_started (claimed_by job now r) = Some now" "owned (r_id r) job (claimed_by job now r)"
  by (simp_all add: checked_entries_def open_session_def claimed_by_def owned_def)

section \<open>The properties of this theory\<close>

text \<open>
  C31. A claim is a lease.  Until it expires nobody else, and not the same job either, can claim the
  revision; and once another job holds the claim, whatever commits in the meantime, a run of a job that
  lost it can neither record a verdict nor give the claim back.
\<close>

theorem validation_lease:
  assumes "claim_revision k job now d = Inr (d1, True)"
  shows "(\<forall>job' now'. now' \<le> now + VALIDATION_LEASE_SECONDS \<longrightarrow> claim_revision k job' now' d1 = Inr (d1, False)) \<and>
    (\<forall>job' d2 status errors published reason. job' \<noteq> job \<and> (other_commit k job')\<^sup>*\<^sup>* d1 d2 \<longrightarrow>
      finalize k job' status errors published d2 = Inr (d2, False) \<and> revert_to_materialized k job' reason d2 = Inr (d2, False))"
  using claim_excludes [OF assms] lease.run_inv claim_takes_over [OF assms] not_owner_commits_nothing by blast

text \<open>
  C32. A verdict publishes only what activation accepts.  If every stored discovery snapshot passes the
  check activation applies, and the other sessions and the imported project code keep it so, then after
  a validation, however it ends, every snapshot still passes it.
\<close>

theorem validate_revision_publishes:
  assumes "validate_revision V alias_name k job passthrough h = (h', outcome)" and "lower_laws (v_python V)"
    and "\<And>be. imports_keep (v_core V) (v_runtime V be)" and "host_ok (v_core V) h"
    and "r \<in> set (revisions (w_db (h_world h')))"
  shows "\<exists>records. validated_records (v_core V) r = Inr records \<and> r_discovered_scripts r = JList records"
proof -
  have "host_ok (v_core V) h'" using validate_host_ok [OF assms(3,4,2)] assms(1) by (metis fst_conv)
  then obtain records where "validate_discovered_scripts (v_core V) (r_discovered_scripts r) = Inr records"
    using assms(5) by (auto simp: host_ok_def world_ok_def published_ok_def is_ok_iff)
  then show ?thesis
    by (auto simp: validated_records_def validate_discovered_scripts_def result_simps split: json.splits)
qed



text \<open>A worker whose imports bind one script class and change nothing else.\<close>

definition example_runtime :: "(memory, unit) runtime" where
  "example_runtime = \<lparr>rt_materialize = (\<lambda>key digest manifest store c. (c, Inr (lit ''/c''))),
     rt_exec_root = (\<lambda>n dir h. (h, Inr ())),
     rt_import = (\<lambda>n h. (h, Inr \<lparr>m_name = n, m_vars = [(lit ''A'', ClassObject (example_class 1 n (lit ''A'')))],
       m_script_order = Unset\<rparr>))\<rparr>"

definition example_env :: "(memory, bytes, unit) validation_env" where
  "example_env = \<lparr>v_python = ascii_python, v_core = example_core, v_texts = example_texts, v_service = example_service,
     v_cache_root = lit ''/c'', v_runtime = (\<lambda>be. example_runtime), v_find_spec = (\<lambda>n. Inr False)\<rparr>"

lemma example_env_simps [simp]:
  "v_python example_env = ascii_python" "v_core example_env = example_core" "v_service example_env = example_service"
  "v_runtime example_env be = example_runtime"
  by (simp_all add: example_env_def)

lemma example_runtime_laws: "imports_keep N example_runtime" "leaves_world example_runtime"
  by (simp_all add: imports_keep_def leaves_world_def example_runtime_def)

definition example_snapshot :: "json \<times> pystr" where
  "example_snapshot = build_script_file_snapshot ascii_python [example_row 3 (lit ''a.py'')]"

definition example_stored :: revision where
  "example_stored = (example_revision 6 MATERIALIZED)\<lparr>r_digest := stored_digest, r_manifest := stored_example,
     r_script_file_snapshot := fst example_snapshot, r_script_file_digest := snd example_snapshot\<rparr>"

definition example_host :: "(memory, unit) host" where
  "example_host = \<lparr>h_world = \<lparr>w_db = empty_db\<lparr>projects := [(example_project 1)\<lparr>p_storage_key := lit ''k''\<rparr>],
     revisions := [example_stored], script_files := [example_row 3 (lit ''a.py'')]\<rparr>, w_store = [], w_others = [], w_now = 9\<rparr>,
     h_local = (), h_modules = []\<rparr>"

text \<open>The same row with no declarations: vacuously valid.\<close>

definition example_vacuous :: "(memory, unit) host" where
  "example_vacuous = example_host\<lparr>h_world := (h_world example_host)\<lparr>w_db := (w_db (h_world example_host))\<lparr>revisions :=
     [example_stored\<lparr>r_script_file_snapshot := JList [], r_script_file_digest := snd (build_script_file_snapshot ascii_python [])\<rparr>]\<rparr>\<rparr>\<rparr>"

theorem validation_lease_witness:
  "\<exists>d1. claim_revision 6 7 9 (w_db (h_world example_host)) = Inr (d1, True) \<and>
     claim_revision 6 8 1809 d1 = Inr (d1, False) \<and> finalize 6 8 VALID [] [] d1 = Inr (d1, False)"
proof -
  have "case claim_revision 6 7 9 (w_db (h_world example_host)) of Inr (d, b) \<Rightarrow> b | _ \<Rightarrow> False" by code_simp
  then obtain d1 where d1: "claim_revision 6 7 9 (w_db (h_world example_host)) = Inr (d1, True)" by (auto split: sum.splits)
  have "(other_commit 6 8)\<^sup>*\<^sup>* d1 d1" by simp
  with validation_lease [OF d1] d1 show ?thesis by (simp add: VALIDATION_LEASE_SECONDS_def)
qed

theorem validate_revision_publishes_witness:
  "\<exists>h' q r records. validate_revision example_env DEFAULT_DB_ALIAS 6 7 [] example_vacuous = (h', Inr q) \<and>
     r \<in> set (revisions (w_db (h_world h'))) \<and> r_status r = VALID \<and>
     validated_records example_core r = Inr records \<and> r_discovered_scripts r = JList records"
proof -
  let ?run = "validate_revision example_env DEFAULT_DB_ALIAS 6 7 [] example_vacuous"
  have "case ?run of (h', Inr q) \<Rightarrow> (case revisions (w_db (h_world h')) of [r] \<Rightarrow> r_status r = VALID | _ \<Rightarrow> False) | _ \<Rightarrow> False"
    by code_simp
  then obtain h' q r where run: "?run = (h', Inr q)" and r: "revisions (w_db (h_world h')) = [r]" "r_status r = VALID"
    by (cases ?run) (auto split: sum.splits list.splits)
  then have mem: "r \<in> set (revisions (w_db (h_world h')))" by simp
  have ok: "host_ok (v_core example_env) example_vacuous" "lower_laws (v_python example_env)"
    by (simp_all add: host_ok_def world_ok_def published_ok_def example_vacuous_def example_host_def example_stored_def example_revision_def
        validate_discovered_scripts_def)
  have "\<exists>records. validated_records (v_core example_env) r = Inr records \<and> r_discovered_scripts r = JList records"
    by (rule validate_revision_publishes [OF run ok(2) _ ok(1) mem]) (simp add: example_runtime_laws)
  with run mem r(2) show ?thesis by auto
qed


end
