(* ===== verification/Lifecycle.thy ===== *)
theory Lifecycle
  imports Verdicts Staging
begin

text \<open>
  The transactions the modelled components commit, as one state machine on the database, and the
  invariant that holds in every state it reaches: the active pointers, the published scripts and the
  recorded snapshots agree, whatever the order in which staging, validation, activation and ordinary
  edits commit.
\<close>

section \<open>The machine\<close>

text \<open>
  Each step is the committed effect of one statement or transaction of the components, or an edit of a
  row through its model's \<open>save\<close>.  A new project gets a primary key no row refers to.
\<close>

inductive lifecycle :: "python \<Rightarrow> netbox_core \<Rightarrow> db \<Rightarrow> db \<Rightarrow> bool" for E N where
  inserts: "insert_revision (\<lambda>d. new_revision d now project digest status manifest files octets errors snapshot snapshot_digest) d = Inr (d', r) \<Longrightarrow>
    status \<in> {STAGING, MATERIALIZED, INVALID} \<Longrightarrow> lifecycle E N d d'"
| writes: "update_where k statuses f d = Inr (d', b) \<Longrightarrow>
    (statuses, f) \<in> {(RETRYABLE_REVISION_STATUSES, reenter), (RETRYABLE_REVISION_STATUSES, write_settled),
      ([STAGING], write_settled), ([STAGING], write_failed)} \<Longrightarrow> lifecycle E N d d'"
| accepts: "write_projects d (update_rows (\<lambda>p. p_id p = k) (\<lambda>p. p\<lparr>p_source_revision := Some j,
    p_source_activation_pending := b\<rparr>) (projects d)) = Inr d' \<Longrightarrow> lifecycle E N d d'"
| claims: "claim_revision k job now d = Inr (d', b) \<Longrightarrow> lifecycle E N d d'"
| gives_back: "revert_to_materialized k job reason d = Inr (d', b) \<Longrightarrow> lifecycle E N d d'"
| judges: "progress_ok N pr \<Longrightarrow> failures = verdict_failures entries pr \<Longrightarrow>
    finalize k job (if failures \<noteq> [] then INVALID else VALID) failures (if failures \<noteq> [] then [] else pr_records pr) d = Inr (d', b) \<Longrightarrow>
    lifecycle E N d d'"
| reports: "persist_result r entry outcome message d = Inr (d', u) \<Longrightarrow> lifecycle E N d d'"
| promotes: "promote_tx E snapshot k (publish_on_promote N repair) automatic now d = Inr (d', result) \<Longrightarrow> lifecycle E N d d'"
| stands_down: "deactivate_tx project k d = Inr (d', r) \<Longrightarrow> lifecycle E N d d'"
| declares: "save_declaration E adding names f d = Inr d' \<Longrightarrow> lifecycle E N d d'"
| edits_script: "save_script False None s d = Inr d' \<Longrightarrow> script_of d (s_id s) = Some row \<Longrightarrow> s_project s = s_project row \<Longrightarrow>
    script_identity s = script_identity row \<Longrightarrow> lifecycle E N d d'"
| edits_project: "save_project False None authorized assigned p d = Inr d' \<Longrightarrow> project_of d (p_id p) \<noteq> None \<Longrightarrow> lifecycle E N d d'"
| creates_project: "save_project True None authorized assigned p d = Inr d' \<Longrightarrow> p_active_revision p = None \<Longrightarrow>
    \<forall>s \<in> set (scripts d). s_project s \<noteq> p_id p \<Longrightarrow> \<forall>r \<in> set (revisions d). r_project r \<noteq> p_id p \<Longrightarrow> lifecycle E N d d'"

definition lifecycle_ok :: "netbox_core \<Rightarrow> db \<Rightarrow> bool" where
  "lifecycle_ok N d \<longleftrightarrow> pointers_ok d \<and> publication_ok d \<and> published_ok N d"

section \<open>Changes outside the active revisions\<close>

lemma active_pointed:
  assumes "pointers_ok d" "p \<in> set (projects d)" "p_active_revision p = Some k" "revision_of d k = Some r"
  shows "r_status r = ACTIVE \<and> r_project r = p_id p"
proof -
  from pointers_okD(5) [OF assms(1-3)] obtain q where q: "q \<in> set (revisions d)" "r_id q = k" "r_project q = p_id p" "r_status q = ACTIVE"
    by blast
  have "q = r" by (rule distinct_map_eq [OF pointers_okD(4) [OF assms(1)] q(1)]) (use revision_of_SomeD [OF assms(4)] q(2) in auto)
  with q show ?thesis by simp
qed

lemma recorded_cong:
  assumes "\<And>k. active = Some k \<Longrightarrow> revision_of d' k = revision_of d k"
  shows "recorded_identities d' active = recorded_identities d active"
  using assms by (cases active) (simp_all add: recorded_identities_def)

text \<open>Updates of rows that are not and do not become ACTIVE.\<close>

lemma inactive_rows_ok:
  assumes ok: "pointers_ok d" "publication_ok d"
    and d': "d' = d\<lparr>revisions := update_rows hit f (revisions d)\<rparr>" "revision_constraints (update_rows hit f (revisions d))"
    and hit: "\<And>r. hit r \<Longrightarrow> r_status r \<noteq> ACTIVE" and f: "\<And>r. hit r \<Longrightarrow> r_status (f r) \<noteq> ACTIVE" "\<And>r. r_id (f r) = r_id r"
  shows "pointers_ok d' \<and> publication_ok d'"
proof -
  have sets: "set (revisions d') = (\<lambda>r. if hit r then f r else r) ` set (revisions d)" "projects d' = projects d" "scripts d' = scripts d"
    by (simp_all add: d'(1) set_update_rows)
  have keep: "r \<in> set (revisions d')" if "r \<in> set (revisions d)" "r_status r = ACTIVE" for r
    using that hit unfolding sets(1) by force
  have kept_before: "r \<in> set (revisions d)" if "r \<in> set (revisions d')" "r_status r = ACTIVE" for r
    using that f(1) unfolding sets(1) by (auto split: if_splits)
  have "pointers_ok d'"
    unfolding pointers_ok_def sets(2) using pointers_okD [OF ok(1)] d' keep kept_before by (simp, meson)
  moreover have "publication_ok d'"
  proof -
    have "recorded_identities d' (p_active_revision p) = recorded_identities d (p_active_revision p)" if p: "p \<in> set (projects d)" for p
    proof (rule recorded_cong)
      fix k assume k: "p_active_revision p = Some k"
      from pointers_okD(5) [OF ok(1) p k] obtain r where r: "r \<in> set (revisions d)" "r_id r = k" "r_status r = ACTIVE" by blast
      have old: "revision_of d k = Some r" using revision_of_member [OF pointers_okD(4) [OF ok(1)] r(1)] r(2) by simp
      moreover have "revision_of d' k = map_option (\<lambda>x. if hit x then f x else x) (revision_of d k)"
        by (rule revision_of_map) (simp_all add: d'(1) update_rows_def f(2))
      ultimately show "revision_of d' k = revision_of d k" using hit r(3) by auto
    qed
    then show ?thesis using ok(2) by (simp add: publication_ok_def sets(2,3) live_identities_def)
  qed
  ultimately show ?thesis by simp
qed

lemma inactive_update_ok:
  assumes "lifecycle_ok N d" "update_rows_where hit f d = Inr (d', b)"
    and "\<And>r. hit r \<Longrightarrow> r_status r \<noteq> ACTIVE" "\<And>r. hit r \<Longrightarrow> r_status (f r) \<noteq> ACTIVE" "\<And>r. r_id (f r) = r_id r"
    and "\<And>r. is_ok (validate_discovered_scripts N (r_discovered_scripts r)) \<Longrightarrow> is_ok (validate_discovered_scripts N (r_discovered_scripts (f r)))"
  shows "lifecycle_ok N d'"
  using inactive_rows_ok [of d d' hit f] update_published [OF assms(2) _ assms(6)] assms
  by (auto simp: lifecycle_ok_def result_simps)

lemma update_where_rows: "update_where k statuses f d = update_rows_where (\<lambda>r. r_id r = k \<and> r_status r \<in> set statuses) f d"
  by (simp add: update_where_def update_rows_where_def Let_def)

text \<open>Updates of project rows that leave the pointer alone.\<close>

lemma project_rows_ok:
  assumes ok: "lifecycle_ok N d" and d': "d' = d\<lparr>projects := ps\<rparr>" "project_constraints ps"
    and f: "\<And>p. p \<in> set (projects d) \<Longrightarrow> p_id (f p) = p_id p \<and> p_active_revision (f p) = p_active_revision p" "ps = map f (projects d)"
  shows "lifecycle_ok N d'"
proof -
  have same: "revisions d' = revisions d" "scripts d' = scripts d" "set (projects d') = f ` set (projects d)"
    by (simp_all add: d'(1) f(2))
  have rec: "recorded_identities d' a = recorded_identities d a" for a
    by (rule recorded_cong) (simp add: revision_of_def same)
  have "pointers_ok d'"
  proof -
    have pd: "pointers_ok d" using ok by (simp add: lifecycle_ok_def)
    have "\<exists>r \<in> set (revisions d'). r_id r = k \<and> r_project r = p_id q \<and> r_status r = ACTIVE \<and> truthy (r_digest r)"
      if q: "q \<in> set (projects d')" "p_active_revision q = Some k" for q k
    proof -
      from q(1) obtain p where p: "p \<in> set (projects d)" "q = f p" unfolding same(3) by blast
      show ?thesis using pointers_okD(5) [OF pd p(1), of k] f(1) [OF p(1)] p(2) q(2) by (simp add: same(1))
    qed
    moreover have "\<exists>q \<in> set (projects d'). p_id q = r_project r \<and> p_active_revision q = Some (r_id r)"
      if r: "r \<in> set (revisions d')" "r_status r = ACTIVE" for r
    proof -
      from pointers_okD(6) [OF pd, of r] r obtain p where p: "p \<in> set (projects d)" "p_id p = r_project r"
          "p_active_revision p = Some (r_id r)" by (auto simp: same(1))
      then show ?thesis unfolding same(3) using f(1) [OF p(1)] by (intro bexI [of _ "f p"]) simp_all
    qed
    ultimately show ?thesis using d' pointers_okD(2) [OF pd] by (simp add: pointers_ok_def same(1))
  qed
  then show ?thesis
    using ok f(1) by (auto simp: lifecycle_ok_def publication_ok_def published_ok_def same rec live_identities_def)
qed

lemma other_tables_ok:
  assumes "lifecycle_ok N d" "projects d' = projects d" "revisions d' = revisions d" "scripts d' = scripts d"
  shows "lifecycle_ok N d'"
proof -
  have "revision_of d' = revision_of d" by (rule ext) (simp add: revision_of_def assms(3))
  then show ?thesis using assms
    by (simp add: lifecycle_ok_def pointers_ok_def publication_ok_def published_ok_def live_identities_def recorded_identities_def)
qed

section \<open>Every step keeps the invariant\<close>

lemma insert_ok:
  assumes ok: "lifecycle_ok N d" and run: "insert_revision row d = Inr (d', r)"
    and row: "r_status (row d) \<noteq> ACTIVE" "r_discovered_scripts (row d) = JList []"
  shows "lifecycle_ok N d'"
proof -
  have d': "d' = d\<lparr>revisions := revisions d @ [row d]\<rparr>" "revision_constraints (revisions d @ [row d])"
    using run by (auto simp: insert_revision_def result_simps split: if_splits)
  have pd: "pointers_ok d" "publication_ok d" using ok by (simp_all add: lifecycle_ok_def)
  have "pointers_ok d'"
    using pd(1) d' row(1) by (auto simp: pointers_ok_def)
  moreover have "recorded_identities d' (p_active_revision p) = recorded_identities d (p_active_revision p)" if "p \<in> set (projects d)" for p
  proof (rule recorded_cong)
    fix k assume "p_active_revision p = Some k"
    from pointers_okD(5) [OF pd(1) that this] obtain r where r: "r \<in> set (revisions d)" "r_id r = k" by blast
    have "revision_of d k = Some r" using revision_of_member [OF pointers_okD(4) [OF pd(1)] r(1)] r(2) by simp
    moreover have "revision_of d' k = Some r"
      using revision_of_member [of d' r] d' r by (simp add: revision_constraints_def)
    ultimately show "revision_of d' k = revision_of d k" by simp
  qed
  ultimately show ?thesis
    using ok row(2) by (auto simp: lifecycle_ok_def publication_ok_def published_ok_def d'(1) live_identities_def validate_discovered_scripts_def)
qed

lemma promote_ok:
  assumes ok: "lifecycle_ok N d"
    and run: "promote_tx E snapshot k (publish_on_promote N repair) automatic now d = Inr (d', result)"
  shows "lifecycle_ok N d'"
proof -
  have pd: "pointers_ok d" "publication_ok d" "published_ok N d" using ok by (simp_all add: lifecycle_ok_def)
  have "published_ok N d'"
    using pd(1) publish_on_promote_derives run
  proof (cases rule: promote_tx_InrD)
    case refused
    then show ?thesis using pd(3) by simp
  next
    case (promoted p r d1)
    then have "revisions d1 = revisions d" using publish_on_promote_derives by (auto simp: derives_only_def)
    then show ?thesis using pd(3) promoted(10) by (auto simp: published_ok_def promoted_revisions)
  next
    case (repaired p r d1)
    then have "revisions d' = revisions d" using publish_on_promote_derives by (auto simp: derives_only_def)
    then show ?thesis using pd(3) by (simp add: published_ok_def)
  qed
  then show ?thesis
    using promote_tx_invariant [OF pd(1) publish_on_promote_derives run] activation_keeps_publication [OF pd(1,2) run]
    by (simp add: lifecycle_ok_def)
qed

lemma stand_down_ok:
  assumes ok: "lifecycle_ok N d" and run: "deactivate_tx project k d = Inr (d', r)"
  shows "lifecycle_ok N d'"
proof -
  have pd: "pointers_ok d" "publication_ok d" "published_ok N d" using ok by (simp_all add: lifecycle_ok_def)
  from deactivate_tx_keeps [OF pd(1,2) run] obtain p x where "d' = stood_down p x d" by blast
  then have "published_ok N d'" using pd(3) by (auto simp: published_ok_def stood_down_def set_update_rows)
  then show ?thesis using deactivate_tx_keeps [OF pd(1,2) run] by (simp add: lifecycle_ok_def)
qed

lemma script_edit_ok:
  assumes ok: "lifecycle_ok N d" and run: "save_script False None s d = Inr d'"
    and row: "script_of d (s_id s) = Some row" "s_project s = s_project row" "script_identity s = script_identity row"
  shows "lifecycle_ok N d'"
proof -
  define s' where "s' = s\<lparr>s_description := s_description row, s_display_name := s_display_name row,
    s_is_retired := s_is_retired row, s_last_seen_revision := s_last_seen_revision row, s_metadata := s_metadata row\<rparr>"
  have mem: "s_id s \<in> set (map s_id (scripts d))" using find_SomeD [OF row(1) [unfolded script_of_def]] by (metis imageI set_map)
  have d': "d' = d\<lparr>scripts := update_rows (\<lambda>x. s_id x = s_id s) (copy_script None s') (scripts d)\<rparr>"
    "script_constraints (update_rows (\<lambda>x. s_id x = s_id s) (copy_script None s') (scripts d))"
    using run mem by (auto simp: save_script_def row(1) s'_def [symmetric] save_row_def result_simps) (auto simp: s'_def)
  have dist: "distinct (map s_id (scripts d))" using ok by (simp add: lifecycle_ok_def publication_ok_def script_constraints_def)
  have copy: "s_project (copy_script None s' x) = s_project x \<and> script_identity (copy_script None s' x) = script_identity x \<and>
      s_is_retired (copy_script None s' x) = s_is_retired x" if "x \<in> set (scripts d)" "s_id x = s_id s" for x
  proof -
    have "row = x" using find_distinct [OF dist that(1)] row(1) that(2) by (simp add: script_of_def)
    then show ?thesis using row(2,3) by (simp add: copy_script_def writes_def s'_def script_identity_def)
  qed
  have live: "live_identities p d' = live_identities p d" for p
  proof -
    define g where "g = (\<lambda>x. if s_id x = s_id s then copy_script None s' x else x)"
    have keeps: "s_project (g x) = s_project x \<and> script_identity (g x) = script_identity x \<and> s_is_retired (g x) = s_is_retired x"
      if "x \<in> set (scripts d)" for x using copy [OF that] by (simp add: g_def)
    have "set (scripts d') = g ` set (scripts d)" by (simp add: d'(1) set_update_rows g_def)
    then have "{x \<in> set (scripts d'). s_project x = p \<and> \<not> s_is_retired x} =
        g ` {x \<in> set (scripts d). s_project x = p \<and> \<not> s_is_retired x}"
      using keeps by auto
    then show ?thesis unfolding live_identities_def using keeps by (auto simp: image_image intro!: image_cong)
  qed
  have "revision_of d' = revision_of d" by (rule ext) (simp add: revision_of_def d'(1))
  then show ?thesis
    using ok d'(2) live by (auto simp: lifecycle_ok_def pointers_ok_def publication_ok_def published_ok_def recorded_identities_def d'(1))
qed

lemma project_edit_ok:
  assumes ok: "lifecycle_ok N d" and run: "save_project False None authorized assigned p d = Inr d'"
    and row: "project_of d (p_id p) \<noteq> None"
  shows "lifecycle_ok N d'"
proof -
  obtain q where q: "project_of d (p_id p) = Some q" using row by blast
  from run obtain self where self: "p_id self = p_id p" "save_row p_id copy_project False None self (projects d) = Inr (projects d')"
      "project_constraints (projects d')" "d' = d\<lparr>projects := projects d'\<rparr>" "p_active_revision self = p_active_revision q"
    by (rule save_project_InrD) (simp add: q)
  have "p_id self \<in> set (map p_id (projects d))" using project_of_SomeD [OF q] self(1) by (metis imageI set_map)
  then have rows: "projects d' = map (\<lambda>x. if p_id x = p_id self then copy_project None self x else x) (projects d)"
    using self(2) by (simp add: save_row_def update_rows_def)
  have dist: "distinct (map p_id (projects d))" using ok by (simp add: lifecycle_ok_def pointers_ok_def project_constraints_def)
  have same: "x = q" if "x \<in> set (projects d)" "p_id x = p_id self" for x
    using find_distinct [OF dist that(1)] q that(2) self(1) by (simp add: project_of_def)
  show ?thesis
    by (rule project_rows_ok [OF ok self(4,3) _ rows]) (use same self(5) in \<open>auto simp: copy_project_def writes_def\<close>)
qed

lemma save_project_created:
  assumes "save_project True None authorized assigned p d = Inr d'"
  shows "d' = d\<lparr>projects := projects d @ [p]\<rparr>" "project_constraints (projects d @ [p])"
  using assms by (auto simp: save_project_def Let_def save_row_def result_simps split: if_splits)

lemma project_create_ok:
  assumes ok: "lifecycle_ok N d" and run: "save_project True None authorized assigned p d = Inr d'"
    and fresh: "p_active_revision p = None" "\<forall>s \<in> set (scripts d). s_project s \<noteq> p_id p"
  shows "lifecycle_ok N d'"
proof -
  note d' = save_project_created [OF run]
  have "revision_of d' = revision_of d" by (rule ext) (simp add: revision_of_def d'(1))
  then have "recorded_identities d' = recorded_identities d" by (intro ext) (simp add: recorded_identities_def)
  moreover have "live_identities (p_id p) d' = {}" "recorded_identities d None = {}"
    using fresh(2) by (auto simp: live_identities_def d'(1) recorded_identities_def)
  moreover have "pointers_ok d'" using ok d' fresh(1) by (auto simp: lifecycle_ok_def pointers_ok_def)
  ultimately show ?thesis
    using ok fresh(1) by (auto simp: lifecycle_ok_def publication_ok_def published_ok_def d'(1) live_identities_def)
qed


lemma lifecycle_step: "lifecycle E N d d' \<Longrightarrow> lifecycle_ok N d \<Longrightarrow> lifecycle_ok N d'"
proof (induction rule: lifecycle.induct)
  case (inserts now project digest status manifest files octets errors snapshot snapshot_digest d d' r)
  then show ?case by (intro insert_ok [OF _ inserts(1)]) (auto simp: new_revision_def)
next
  case (writes k statuses f d d' b)
  show ?case
    by (rule inactive_update_ok [OF writes(3) writes(1) [unfolded update_where_rows]])
      (use writes(2) in \<open>auto simp: reenter_def write_failed_def write_settled_def status_groups\<close>)
next
  case (accepts d k b j d')
  then have d': "d' = d\<lparr>projects := update_rows (\<lambda>p. p_id p = k) (\<lambda>p. p\<lparr>p_source_revision := Some j,
      p_source_activation_pending := b\<rparr>) (projects d)\<rparr>" and c: "project_constraints (projects d')"
    by (auto simp: result_simps)
  have rows: "projects d' = map (\<lambda>p. if p_id p = k then p\<lparr>p_source_revision := Some j, p_source_activation_pending := b\<rparr> else p) (projects d)"
    by (simp add: d' update_rows_def)
  show ?case by (rule project_rows_ok [OF accepts(2) _ c _ rows]) (simp_all add: d')
next
  case (claims k job now d d' b)
  show ?case
    by (rule inactive_update_ok [OF claims(2) claims(1) [unfolded claim_revision_def]]) (auto simp: claimable_def claimed_by_def)
next
  case (gives_back k job reason d d' b)
  show ?case
    by (rule inactive_update_ok [OF gives_back(2) gives_back(1) [unfolded revert_to_materialized_def]]) (auto simp: owned_def given_back_def)
next
  case (judges pr failures entries k job d d' b)
  show ?case
    by (rule inactive_update_ok [OF judges(4) judges(3) [unfolded finalize_def]])
      (use progress_published [OF judges(1), of "failures \<noteq> []"] in \<open>auto simp: owned_def with_verdict_def\<close>)
next
  case (reports r entry outcome message d d' u)
  show ?case
    by (rule other_tables_ok [OF reports(2)])
      (use reports(1) in \<open>auto simp: persist_result_def Let_def result_simps split: option.splits if_splits\<close>)
next
  case (declares adding names f d d')
  then show ?case by (elim save_declaration_InrD) (rule other_tables_ok, assumption, (metis db.select_convs db.surjective db.update_convs(3))+)
next
  case (creates_project authorized assigned p d d')
  show ?case by (rule project_create_ok [OF creates_project(5,1,2,3)])
next
  case (promotes snapshot k repair automatic now d d' result)
  show ?case by (rule promote_ok [OF promotes(2,1)])
next
  case (stands_down project k d d' r)
  show ?case by (rule stand_down_ok [OF stands_down(2,1)])
next
  case (edits_script s d d' row)
  show ?case by (rule script_edit_ok [OF edits_script(5,1-4)])
next
  case (edits_project authorized assigned p d d')
  show ?case by (rule project_edit_ok [OF edits_project(3,1,2)])
qed

interpretation installation: invariant "\<lambda>d. d = empty_db" "lifecycle E N" "lifecycle_ok N" for E N
proof unfold_locales
  show "lifecycle_ok N d" if "d = empty_db" for d
    by (simp add: that lifecycle_ok_def pointers_ok_def publication_ok_def published_ok_def empty_db_def project_constraints_def
        revision_constraints_def script_constraints_def)
qed (rule lifecycle_step)

section \<open>The property of this theory\<close>

text \<open>
  C6. In every state an installation can reach by staging, validating, activating, standing down and
  editing, in any order: a project's active pointer names its one ACTIVE revision, and a project without
  one has none; the scripts it offers are exactly those its active revision recorded, none without one;
  and every revision's recorded scripts pass the check of activation.
\<close>

theorem lifecycle_reachable:
  assumes "reachable (\<lambda>d. d = empty_db) (lifecycle E N) d" and "p \<in> set (projects d)"
  shows "(case p_active_revision p of
      None \<Rightarrow> (\<forall>r \<in> set (revisions d). r_project r = p_id p \<longrightarrow> r_status r \<noteq> ACTIVE) \<and> live_identities (p_id p) d = {}
    | Some k \<Rightarrow> (\<exists>a \<in> set (revisions d). r_id a = k \<and> r_project a = p_id p \<and> r_status a = ACTIVE \<and>
        (\<forall>r \<in> set (revisions d). r_project r = p_id p \<and> r_status r = ACTIVE \<longrightarrow> r = a) \<and>
        (\<exists>records. r_discovered_scripts a = JList records \<and> live_identities (p_id p) d = record_identity ` set records))) \<and>
    (\<forall>r \<in> set (revisions d). is_ok (validated_records N r))"
proof -
  have ok: "pointers_ok d" "publication_ok d" "published_ok N d"
    using installation.reachable_inv [OF assms(1)] by (simp_all add: lifecycle_ok_def)
  have live: "live_identities (p_id p) d = recorded_identities d (p_active_revision p)"
    using ok(2) assms(2) by (simp add: publication_ok_def)
  have mine: "p_active_revision p = Some (r_id r)" if "r \<in> set (revisions d)" "r_project r = p_id p" "r_status r = ACTIVE" for r
    using pointers_okD(6) [OF ok(1) that(1,3)] that(2) distinct_map_eq [OF pointers_okD(3) [OF ok(1)] _ assms(2)] by metis
  have records: "is_ok (validated_records N r)" if "r \<in> set (revisions d)" for r
    using ok(3) that by (auto simp: published_ok_def validated_records_def is_ok_iff)
  show ?thesis
  proof (cases "p_active_revision p")
    case None
    then show ?thesis using mine live records by (auto simp: recorded_identities_def)
  next
    case (Some k)
    from pointers_okD(5) [OF ok(1) assms(2) Some] obtain a where a: "a \<in> set (revisions d)" "r_id a = k" "r_project a = p_id p"
        "r_status a = ACTIVE" by blast
    have only: "r = a" if "r \<in> set (revisions d)" "r_project r = p_id p \<and> r_status r = ACTIVE" for r
    proof (rule distinct_map_eq [OF pointers_okD(4) [OF ok(1)] that(1) a(1)])
      show "r_id r = r_id a" using mine [OF that(1)] that(2) Some a(2) by simp
    qed
    obtain rs where rs: "r_discovered_scripts a = JList rs"
      using bspec [OF ok(3) [unfolded published_ok_def] a(1)] by (auto simp: is_ok_iff validate_discovered_scripts_def split: json.splits)
    have "revision_of d k = Some a" using revision_of_member [OF pointers_okD(4) [OF ok(1)] a(1)] a(2) by simp
    then have "live_identities (p_id p) d = record_identity ` set rs" using live by (simp add: Some recorded_identities_def rs)
    with a only rs records show ?thesis unfolding Some option.case by blast
  qed
qed

text \<open>
  An installation that creates a project, stages a revision of it, claims, validates and activates it.
\<close>

definition committed :: "(db \<times> 'a) result \<Rightarrow> db" where
  "committed r = (case r of Inr (d, _) \<Rightarrow> d | Inl _ \<Rightarrow> empty_db)"

lemma committedI: "is_ok r \<Longrightarrow> \<exists>x. r = Inr (committed r, x)"
  by (auto simp: is_ok_iff committed_def)

definition example_life :: "nat \<Rightarrow> db" where
  "example_life n = foldl (\<lambda>d step. step d) empty_db (take n
     [\<lambda>d. d\<lparr>projects := [(example_project 1)\<lparr>p_storage_key := lit ''k''\<rparr>]\<rparr>,
      \<lambda>d. committed (insert_revision (\<lambda>d. new_revision d 2 1 stored_digest MATERIALIZED stored_example 1 2 [] (JList [])
        (snd (build_script_file_snapshot ascii_python []))) d),
      \<lambda>d. committed (claim_revision 1 7 3 d),
      \<lambda>d. committed (finalize 1 7 VALID [] [example_record (lit ''A'')] d),
      \<lambda>d. committed (promote_tx ascii_python (the (revision_of d 1)) 1 (publish_on_promote example_core False) False 9 d)])"

lemma example_life_steps:
  "lifecycle ascii_python example_core (example_life 0) (example_life 1)"
  "lifecycle ascii_python example_core (example_life 1) (example_life 2)"
  "lifecycle ascii_python example_core (example_life 2) (example_life 3)"
  "lifecycle ascii_python example_core (example_life 3) (example_life 4)"
  "lifecycle ascii_python example_core (example_life 4) (example_life 5)"
proof -
  let ?P = "(example_project 1)\<lparr>p_storage_key := lit ''k''\<rparr>" and ?d = example_life
  have "is_ok (save_project True None None (\<lambda>_. None) ?P empty_db)" by code_simp
  then have made: "save_project True None None (\<lambda>_. None) ?P (?d 0) = Inr (?d 1)"
    using save_project_created(1) [of None "\<lambda>_. None" ?P empty_db] by (auto simp: is_ok_iff example_life_def empty_db_def)
  moreover have "?d 0 = empty_db" by (simp add: example_life_def)
  moreover have "p_active_revision ?P = None" by (simp add: example_project_def)
  ultimately show "lifecycle ascii_python example_core (?d 0) (?d 1)"
    by (intro creates_project [OF made]) (simp_all add: empty_db_def)
  let ?run = "insert_revision (\<lambda>d. new_revision d 2 1 stored_digest MATERIALIZED stored_example 1 2 [] (JList [])
      (snd (build_script_file_snapshot ascii_python []))) (?d 1)"
  have "is_ok ?run" by code_simp
  then obtain x where "?run = Inr (?d 2, x)" using committedI [of ?run] by (auto simp: example_life_def numeral_eq_Suc)
  then show "lifecycle ascii_python example_core (?d 1) (?d 2)" by (rule inserts) simp
  let ?run = "claim_revision 1 7 3 (?d 2)"
  have "is_ok ?run" by code_simp
  then obtain x where "?run = Inr (?d 3, x)" using committedI [of ?run] by (auto simp: example_life_def numeral_eq_Suc)
  then show "lifecycle ascii_python example_core (?d 2) (?d 3)" by (rule claims)
  let ?pr = "nothing_yet\<lparr>pr_records := [example_record (lit ''A'')],
    pr_identities := [(record_identity (example_record (lit ''A'')), d_cls example_discovered)]\<rparr>"
  let ?run = "finalize 1 7 VALID [] [example_record (lit ''A'')] (?d 3)"
  have "is_ok ?run" by code_simp
  then obtain x where run: "?run = Inr (?d 4, x)" using committedI [of ?run] by (auto simp: example_life_def numeral_eq_Suc)
  have "validate_discovered_entries example_core 0 [example_record (lit ''A'')] [] = Inr ()" by code_simp
  then have "progress_ok example_core ?pr" "verdict_failures [] ?pr = []"
    by (simp_all add: progress_ok_def nothing_yet_def verdict_failures_def)
  then show "lifecycle ascii_python example_core (?d 3) (?d 4)" using run by (intro judges [of _ ?pr "[]" "[]"]) (simp_all add: nothing_yet_def)
  let ?run = "promote_tx ascii_python (the (revision_of (?d 4) 1)) 1 (publish_on_promote example_core False) False 9 (?d 4)"
  have "is_ok ?run" by code_simp
  then obtain x where "?run = Inr (?d 5, x)" using committedI [of ?run] by (auto simp: example_life_def numeral_eq_Suc)
  then show "lifecycle ascii_python example_core (?d 4) (?d 5)" by (rule promotes)
qed

lemma example_life_reachable: "reachable (\<lambda>d. d = empty_db) (lifecycle ascii_python example_core) (example_life 5)"
proof -
  have "reachable (\<lambda>d. d = empty_db) (lifecycle ascii_python example_core) (example_life 0)"
    by (rule start) (simp add: example_life_def)
  note one = further [OF this example_life_steps(1)]
  note three = further [OF further [OF one example_life_steps(2)] example_life_steps(3)]
  show ?thesis by (rule further [OF further [OF three example_life_steps(4)] example_life_steps(5)])
qed

theorem lifecycle_reachable_witness:
  "\<exists>p \<in> set (projects (example_life 5)). p_active_revision p = Some 1 \<and>
     (\<exists>a \<in> set (revisions (example_life 5)). r_id a = 1 \<and> r_status a = ACTIVE \<and>
        (\<exists>records. r_discovered_scripts a = JList records \<and> live_identities (p_id p) (example_life 5) = record_identity ` set records))"
proof -
  have "list_ex (\<lambda>p. p_active_revision p = Some 1) (projects (example_life 5))" by code_simp
  then obtain p where p: "p \<in> set (projects (example_life 5))" "p_active_revision p = Some 1" by (auto simp: list_ex_iff)
  from lifecycle_reachable [OF example_life_reachable p(1)] p(2) show ?thesis by (intro bexI [OF _ p(1)]) auto
qed

end
