(* ===== verification/Retention.thy ===== *)
theory Retention
  imports Cleanup Lifecycle
begin

text \<open>
  Stored content is never taken away from a revision that needs it: the interplay of staging under the
  project lock, deletions with their cleanup Jobs, the Jobs themselves, running at any later time, and
  everything else that writes the database, as one state machine over the database, the store and the
  Job table.
\<close>

section \<open>The machine\<close>

text \<open>
  A staging operation holds the lock of its project's storage key; with the lock go its local variables:
  the row it works on, the digest and the manifest, and whether the content is written.
\<close>

type_synonym staging_locks = "pystr \<Rightarrow> (pk \<times> pystr \<times> json \<times> bool) option"

definition holds_content :: "revision \<Rightarrow> bool" where
  "holds_content r \<longleftrightarrow> r_digest r \<noteq> None \<and> r_status r \<notin> set UNSTORED_REVISION_STATUSES"

definition canonical_key :: "python \<Rightarrow> pystr \<Rightarrow> bool" where
  "canonical_key E key \<longleftrightarrow> map_option uuid_str (uuid_parse E key) = Some key"

text \<open>
  What every other transaction does to the rows: none changes the identity or the content of a row, or
  marks content stored that was not.
\<close>

definition carries :: "python \<Rightarrow> db \<Rightarrow> db \<Rightarrow> bool" where
  "carries E d d' \<longleftrightarrow> distinct (map r_id (revisions d')) \<and> (\<forall>p \<in> set (projects d'). canonical_key E (p_storage_key p)) \<and>
     (\<forall>r' \<in> set (revisions d'). \<exists>r \<in> set (revisions d). r_id r' = r_id r \<and> storage_key_of d' r' = storage_key_of d r \<and>
        r_digest r' = r_digest r \<and> r_manifest r' = r_manifest r \<and> (holds_content r' \<longrightarrow> holds_content r))"

text \<open>A sequence never hands out the id of a row a staging operation still remembers.\<close>

definition unremembered :: "staging_locks \<Rightarrow> pk \<Rightarrow> bool" where
  "unremembered busy k \<longleftrightarrow> (\<forall>key v. busy key = Some v \<longrightarrow> fst v \<noteq> k)"

inductive storage_step :: "python \<Rightarrow> ('b, 'h) service_env \<Rightarrow> json set \<Rightarrow> 'b site \<times> staging_locks \<Rightarrow> 'b site \<times> staging_locks \<Rightarrow> bool"
  for E dep M where
  begins: "insert_revision (\<lambda>d. new_revision d now project (Some h) STAGING m files octets [] snapshot snapshot_digest) (i_db i) = Inr (d', r) \<Longrightarrow>
    busy key = None \<Longrightarrow> storage_key_of d' r = Some key \<Longrightarrow> m \<in> M \<Longrightarrow> validate_manifest E m (Some h) = Inr () \<Longrightarrow> unremembered busy (r_id r) \<Longrightarrow>
    storage_step E dep M (i, busy) (i\<lparr>i_db := d'\<rparr>, busy(key \<mapsto> (r_id r, h, m, False)))"
| resumes: "update_where k RETRYABLE_REVISION_STATUSES reenter (i_db i) = Inr (d', True) \<Longrightarrow> busy key = None \<Longrightarrow>
    revision_of (i_db i) k = Some r \<Longrightarrow> storage_key_of (i_db i) r = Some key \<Longrightarrow> r_digest r = Some h \<Longrightarrow>
    storage_step E dep M (i, busy) (i\<lparr>i_db := d'\<rparr>, busy(key \<mapsto> (k, h, r_manifest r, False)))"
| writes: "write_revision E be key (Some h) source m (i_store i) = (s', outcome) \<Longrightarrow> busy key = Some (k, h, m, w) \<Longrightarrow>
    get_storage dep = Inr be \<Longrightarrow> canonical_source E source [] = Inr content_by_path \<Longrightarrow>
    \<forall>e \<in> set (manifest_entries m). \<exists>c. map_of content_by_path (e_path e) = Some c \<and> matches E e c \<Longrightarrow>
    storage_step E dep M (i, busy) (i\<lparr>i_store := s'\<rparr>, busy(key \<mapsto> (k, h, m, is_ok outcome)))"
| settles: "update_where k [STAGING] write_settled (i_db i) = Inr (d', b) \<Longrightarrow> busy key = Some (k, h, m, True) \<Longrightarrow>
    storage_step E dep M (i, busy) (i\<lparr>i_db := d'\<rparr>, busy(key := None))"
| gives_up: "update_where (fst v) [STAGING] write_failed (i_db i) = Inr (d', b) \<Longrightarrow> busy key = Some v \<Longrightarrow>
    storage_step E dep M (i, busy) (i\<lparr>i_db := d'\<rparr>, busy(key := None))"
| dies: "storage_step E dep M (i, busy) (i, busy(key := None))"
| refreshes: "verify_revision_tree E be key (Some h) m (i_store i) = Inr pre \<Longrightarrow> busy key = None \<Longrightarrow> get_storage dep = Inr be \<Longrightarrow>
    insert_revision (\<lambda>d. new_revision d now project (Some h) MATERIALIZED m files octets [] snapshot snapshot_digest) (i_db i) = Inr (d', r) \<Longrightarrow>
    storage_key_of d' r = Some key \<Longrightarrow> m \<in> M \<Longrightarrow> unremembered busy (r_id r) \<Longrightarrow>
    storage_step E dep M (i, busy) (i\<lparr>i_db := d'\<rparr>, busy)"
| other: "carries E (i_db i) d' \<Longrightarrow> storage_step E dep M (i, busy) (i\<lparr>i_db := d'\<rparr>, busy)"
| deletes: "delete_revisions E dep using_alias now ks i = Inr i' \<Longrightarrow> storage_step E dep M (i, busy) (i', busy)"
| cleans: "j \<in> set (i_jobs i) \<Longrightarrow> \<forall>key. j_storage_key j = Some key \<longrightarrow> busy key = None \<Longrightarrow>
    storage_step E dep M (i, busy) (run_cleanup_job E dep j i, busy)"

section \<open>Content\<close>

definition tree_at :: "python \<Rightarrow> (pystr \<Rightarrow> bytes option) \<Rightarrow> pystr \<Rightarrow> pystr \<Rightarrow> json \<Rightarrow> bool" where
  "tree_at E store key h m \<longleftrightarrow> (\<exists>pre. revision_prefix E key (Some h) = Inr pre \<and> (\<forall>e \<in> set (manifest_entries m). intact E store pre e))"

text \<open>SHA-256 tells the manifests an installation sees apart.\<close>

definition collision_free :: "python \<Rightarrow> json set \<Rightarrow> bool" where
  "collision_free E M \<longleftrightarrow> (\<forall>m \<in> M. \<forall>m' \<in> M. \<forall>h. validate_manifest E m (Some h) = Inr () \<longrightarrow> validate_manifest E m' (Some h) = Inr () \<longrightarrow>
     set (manifest_entries m) = set (manifest_entries m'))"

lemma canonical_key_inject: "canonical_key E a \<Longrightarrow> canonical_key E b \<Longrightarrow> uuid_parse E a = uuid_parse E b \<Longrightarrow> a = b"
  by (auto simp: canonical_key_def)

lemma validated_key:
  assumes "validate_manifest E m d = Inr ()" "e \<in> set (manifest_entries m)" "revision_prefix E key digest = Inr pre"
  shows "revision_key E key digest (e_path e) = Inr (pre @ e_path e)"
proof -
  from assms(1) obtain js where js: "m = JList js" "list_all (sound_json E) js" by (rule validate_manifest_InrD)
  then have "sound_entry E e" using assms(2) by (auto simp: manifest_entries_def list_all_iff sound_json_def)
  then show ?thesis using assms(3) by (simp add: revision_key_def sound_entry_def)
qed

text \<open>An operation on the keys of one revision leaves the tree of every other revision alone.\<close>

lemma tree_at_elsewhere:
  assumes tree: "tree_at E store key' h' m'" and valid: "validate_manifest E m' (Some h') = Inr ()"
    and keys: "canonical_key E key" "canonical_key E key'" "key' \<noteq> key \<or> h' \<noteq> h"
    and same: "\<And>k. (\<And>path. revision_key E key (Some h) path \<noteq> Inr k) \<Longrightarrow> store' k = store k"
  shows "tree_at E store' key' h' m'"
proof -
  obtain pre where pre: "revision_prefix E key' (Some h') = Inr pre" "\<forall>e \<in> set (manifest_entries m'). intact E store pre e"
    using tree by (auto simp: tree_at_def)
  have "intact E store' pre e" if e: "e \<in> set (manifest_entries m')" for e
  proof -
    have "revision_key E key (Some h) path \<noteq> Inr (pre @ e_path e)" for path
      using revision_key_inject [OF validated_key [OF valid e pre(1)], of key "Some h" path] canonical_key_inject [OF keys(2,1)] keys(3)
      by blast
    then have "store' (pre @ e_path e) = store (pre @ e_path e)" by (rule same)
    then show ?thesis using pre(2) e by (simp add: intact_def)
  qed
  then show ?thesis using pre(1) by (auto simp: tree_at_def)
qed

lemma written_tree:
  assumes lawful: "lawful be content" and valid: "validate_manifest E m (Some h) = Inr ()" and m: "m \<in> M" "collision_free E M"
    and files: "canonical_source E files [] = Inr source" "\<forall>e \<in> set (manifest_entries m). \<exists>c. map_of source (e_path e) = Some c \<and> matches E e c"
    and run: "write_revision E be key (Some h) files m s = (s', outcome)" and key: "canonical_key E key" and pre: "revision_prefix E key (Some h) = Inr pre"
  shows "tree_at E (content s') key h m"
    and "tree_at E (content s) key' h' m' \<Longrightarrow> validate_manifest E m' (Some h') = Inr () \<Longrightarrow> m' \<in> M \<Longrightarrow> canonical_key E key' \<Longrightarrow>
      tree_at E (content s') key' h' m'"
proof -
  from write_revision_honest [OF lawful valid pre files, of s] run have stored: "\<forall>e \<in> set (manifest_entries m). intact E (content s') pre e"
    and rest: "\<forall>k. k \<notin> (\<lambda>e. pre @ e_path e) ` set (manifest_entries m) \<longrightarrow> content s' k = content s k" by auto
  show own: "tree_at E (content s') key h m" using pre stored by (auto simp: tree_at_def)
  assume other: "tree_at E (content s) key' h' m'" "validate_manifest E m' (Some h') = Inr ()" "m' \<in> M" "canonical_key E key'"
  show "tree_at E (content s') key' h' m'"
  proof (cases "key' = key \<and> h' = h")
    case True
    then have "set (manifest_entries m') = set (manifest_entries m)" using m other(2,3) valid unfolding collision_free_def by blast
    then show ?thesis using own True by (simp add: tree_at_def)
  next
    case False
    show ?thesis
    proof (rule tree_at_elsewhere [OF other(1,2) key other(4)])
      show "content s' k = content s k" if foreign: "\<And>path. revision_key E key (Some h) path \<noteq> Inr k" for k
      proof -
        have "k \<notin> (\<lambda>e. pre @ e_path e) ` set (manifest_entries m)"
        proof
          assume "k \<in> (\<lambda>e. pre @ e_path e) ` set (manifest_entries m)"
          then obtain e where "e \<in> set (manifest_entries m)" "k = pre @ e_path e" by blast
          then show False using validated_key [OF valid _ pre] foreign by blast
        qed
        then show ?thesis using rest by blast
      qed
    qed (use False in blast)
  qed
qed

lemma cleaned_tree:
  assumes lawful: "lawful be content" and tree: "tree_at E (content s) key' h' m'" and valid: "validate_manifest E m' (Some h') = Inr ()"
    and keys: "canonical_key E key" "canonical_key E key'" "key' \<noteq> key \<or> h' \<noteq> h"
    and run: "delete_revision E be key (Some h) paths s = (s', r)"
  shows "tree_at E (content s') key' h' m'"
proof (rule tree_at_elsewhere [OF tree valid keys])
  from delete_paths_honest [OF lawful, of E key "Some h" "sort paths" s] run
  have "content s' = (\<lambda>k. if \<exists>path \<in> set (sort paths). revision_key E key (Some h) path = Inr k then None else content s k)"
    by (auto simp: delete_revision_def)
  then show "content s' k = content s k" if "\<And>path. revision_key E key (Some h) path \<noteq> Inr k" for k using that by simp
qed

section \<open>The invariant\<close>

definition row_retained :: "python \<Rightarrow> json set \<Rightarrow> (pystr \<Rightarrow> bytes option) \<Rightarrow> db \<Rightarrow> revision \<Rightarrow> bool" where
  "row_retained E M store d r \<longleftrightarrow> (\<forall>h. r_digest r = Some h \<longrightarrow> r_manifest r \<in> M \<and> validate_manifest E (r_manifest r) (Some h) = Inr () \<and>
     (\<exists>key. storage_key_of d r = Some key \<and> canonical_key E key \<and> (holds_content r \<longrightarrow> tree_at E store key h (r_manifest r))))"

definition lock_retained :: "python \<Rightarrow> json set \<Rightarrow> (pystr \<Rightarrow> bytes option) \<Rightarrow> db \<Rightarrow> pystr \<Rightarrow> pk \<times> pystr \<times> json \<times> bool \<Rightarrow> bool" where
  "lock_retained E M store d key v = (case v of (k, h, m, w) \<Rightarrow>
     canonical_key E key \<and> m \<in> M \<and> validate_manifest E m (Some h) = Inr () \<and> (w \<longrightarrow> tree_at E store key h m) \<and>
     (\<forall>r \<in> set (revisions d). r_id r = k \<longrightarrow> storage_key_of d r = Some key \<and> r_digest r = Some h \<and> r_manifest r = m))"

definition retained :: "python \<Rightarrow> ('b \<Rightarrow> pystr \<Rightarrow> bytes option) \<Rightarrow> json set \<Rightarrow> 'b site \<times> staging_locks \<Rightarrow> bool" where
  "retained E content M state = (case state of (i, busy) \<Rightarrow>
     distinct (map r_id (revisions (i_db i))) \<and> (\<forall>p \<in> set (projects (i_db i)). canonical_key E (p_storage_key p)) \<and>
     (\<forall>r \<in> set (revisions (i_db i)). row_retained E M (content (i_store i)) (i_db i) r) \<and>
     (\<forall>key v. busy key = Some v \<longrightarrow> lock_retained E M (content (i_store i)) (i_db i) key v) \<and>
     (\<forall>j \<in> set (i_jobs i). \<forall>key. j_storage_key j = Some key \<longrightarrow> canonical_key E key))"

lemma retainedD:
  assumes "retained E content M (i, busy)"
  shows "distinct (map r_id (revisions (i_db i)))" "p \<in> set (projects (i_db i)) \<Longrightarrow> canonical_key E (p_storage_key p)"
    "r \<in> set (revisions (i_db i)) \<Longrightarrow> row_retained E M (content (i_store i)) (i_db i) r"
    "busy key = Some v \<Longrightarrow> lock_retained E M (content (i_store i)) (i_db i) key v"
    "j \<in> set (i_jobs i) \<Longrightarrow> j_storage_key j = Some key' \<Longrightarrow> canonical_key E key'"
  using assms unfolding retained_def prod.case by blast+

lemma retainedI:
  assumes "distinct (map r_id (revisions (i_db i)))" "\<And>p. p \<in> set (projects (i_db i)) \<Longrightarrow> canonical_key E (p_storage_key p)"
    "\<And>r. r \<in> set (revisions (i_db i)) \<Longrightarrow> row_retained E M (content (i_store i)) (i_db i) r"
    "\<And>key v. busy key = Some v \<Longrightarrow> lock_retained E M (content (i_store i)) (i_db i) key v"
    "\<And>j key. j \<in> set (i_jobs i) \<Longrightarrow> j_storage_key j = Some key \<Longrightarrow> canonical_key E key"
  shows "retained E content M (i, busy)"
  using assms unfolding retained_def prod.case by blast

lemma row_retainedE:
  assumes "row_retained E M store d r" "r_digest r = Some h"
  obtains key where "r_manifest r \<in> M" "validate_manifest E (r_manifest r) (Some h) = Inr ()" "storage_key_of d r = Some key"
    "canonical_key E key" "holds_content r \<longrightarrow> tree_at E store key h (r_manifest r)"
  using assms unfolding row_retained_def by blast

lemma storage_key_canonical:
  "\<forall>p \<in> set (projects d). canonical_key E (p_storage_key p) \<Longrightarrow> storage_key_of d r = Some key \<Longrightarrow> canonical_key E key"
  by (auto simp: storage_key_of_def dest: project_of_SomeD)

text \<open>A change of the store that keeps every tree keeps what the rows and the locks rely on.\<close>

lemma retained_store:
  assumes ok: "retained E content M (i, busy)"
    and keeps: "\<And>key h m. canonical_key E key \<Longrightarrow> validate_manifest E m (Some h) = Inr () \<Longrightarrow> m \<in> M \<Longrightarrow>
      tree_at E (content (i_store i)) key h m \<Longrightarrow> referenced (i_db i) key h \<or> busy key \<noteq> None \<Longrightarrow> tree_at E (content s') key h m"
  shows "retained E content M (i\<lparr>i_store := s'\<rparr>, busy)"
proof (rule retainedI)
  fix r assume "r \<in> set (revisions (i_db (i\<lparr>i_store := s'\<rparr>)))"
  then have r: "r \<in> set (revisions (i_db i))" by simp
  have "\<exists>key. storage_key_of (i_db i) r = Some key \<and> canonical_key E key \<and> (holds_content r \<longrightarrow> tree_at E (content s') key h (r_manifest r)) \<and>
      r_manifest r \<in> M \<and> validate_manifest E (r_manifest r) (Some h) = Inr ()" if h: "r_digest r = Some h" for h
  proof -
    from retainedD(3) [OF ok r] h obtain key where key: "r_manifest r \<in> M" "validate_manifest E (r_manifest r) (Some h) = Inr ()"
        "storage_key_of (i_db i) r = Some key" "canonical_key E key" "holds_content r \<longrightarrow> tree_at E (content (i_store i)) key h (r_manifest r)"
      by (rule row_retainedE)
    have "referenced (i_db i) key h" using r h key(3) by (auto simp: referenced_def list_ex_iff)
    then show ?thesis using key keeps [OF key(4,2,1)] by blast
  qed
  then show "row_retained E M (content (i_store (i\<lparr>i_store := s'\<rparr>))) (i_db (i\<lparr>i_store := s'\<rparr>)) r"
    unfolding row_retained_def by auto
next
  fix key v assume b: "busy key = Some v"
  obtain k h m w where v: "v = (k, h, m, w)" by (cases v)
  have "lock_retained E M (content (i_store i)) (i_db i) key v" by (rule retainedD(4) [OF ok b])
  then show "lock_retained E M (content (i_store (i\<lparr>i_store := s'\<rparr>))) (i_db (i\<lparr>i_store := s'\<rparr>)) key v"
    using keeps [of key m h] b by (simp add: lock_retained_def v)
qed (use retainedD [OF ok] in auto)

text \<open>A change of the rows that carries identity and content.\<close>

lemma retained_carries:
  assumes ok: "retained E content M (i, busy)" and c: "carries E (i_db i) d'"
  shows "retained E content M (i\<lparr>i_db := d'\<rparr>, busy)"
proof (rule retainedI)
  have old: "\<exists>r \<in> set (revisions (i_db i)). r_id r' = r_id r \<and> storage_key_of d' r' = storage_key_of (i_db i) r \<and>
      r_digest r' = r_digest r \<and> r_manifest r' = r_manifest r \<and> (holds_content r' \<longrightarrow> holds_content r)" if "r' \<in> set (revisions d')" for r'
    using c that by (simp add: carries_def)
  fix r' assume "r' \<in> set (revisions (i_db (i\<lparr>i_db := d'\<rparr>)))"
  then obtain r where r: "r \<in> set (revisions (i_db i))" "storage_key_of d' r' = storage_key_of (i_db i) r"
      "r_digest r' = r_digest r" "r_manifest r' = r_manifest r" "holds_content r' \<longrightarrow> holds_content r" using old by fastforce
  show "row_retained E M (content (i_store (i\<lparr>i_db := d'\<rparr>))) (i_db (i\<lparr>i_db := d'\<rparr>)) r'"
    using retainedD(3) [OF ok r(1)] r(2-5) by (auto simp: row_retained_def)
next
  have old: "\<exists>r \<in> set (revisions (i_db i)). r_id r' = r_id r \<and> storage_key_of d' r' = storage_key_of (i_db i) r \<and>
      r_digest r' = r_digest r \<and> r_manifest r' = r_manifest r" if "r' \<in> set (revisions d')" for r'
    using c that unfolding carries_def by blast
  fix key v assume b: "busy key = Some v"
  obtain k h m w where v: "v = (k, h, m, w)" by (cases v)
  show "lock_retained E M (content (i_store (i\<lparr>i_db := d'\<rparr>))) (i_db (i\<lparr>i_db := d'\<rparr>)) key v"
    using retainedD(4) [OF ok b] old by (fastforce simp: lock_retained_def v)
qed (use retainedD [OF ok] c in \<open>auto simp: carries_def\<close>)

lemma retained_unlock:
  assumes ok: "retained E content M (i, busy)"
  shows "retained E content M (i, busy(key := None))"
  by (rule retainedI) (use retainedD [OF ok] in \<open>auto split: if_splits\<close>)

lemma retained_lock:
  assumes ok: "retained E content M (i, busy)" and v: "lock_retained E M (content (i_store i)) (i_db i) key v"
  shows "retained E content M (i, busy(key \<mapsto> v))"
  by (rule retainedI) (use retainedD [OF ok] v in \<open>auto split: if_splits\<close>)

section \<open>Every step keeps it\<close>

lemma storage_key_rows [simp]: "storage_key_of (d\<lparr>revisions := rs\<rparr>) = storage_key_of d"
  by (rule ext) (simp add: storage_key_of_def project_of_def)

lemma retained_insert:
  assumes ok: "retained E content M (i, busy)"
    and run: "insert_revision (\<lambda>d. new_revision d now project (Some h) status m files octets [] snapshot snapshot_digest) (i_db i) = Inr (d', r)"
    and row: "storage_key_of d' r = Some key" "m \<in> M" "validate_manifest E m (Some h) = Inr ()" "unremembered busy (r_id r)"
    and content: "status \<notin> set UNSTORED_REVISION_STATUSES \<Longrightarrow> tree_at E (content (i_store i)) key h m"
  shows "retained E content M (i\<lparr>i_db := d'\<rparr>, busy)"
    and "\<And>r'. r' \<in> set (revisions d') \<Longrightarrow> r_id r' = r_id r \<Longrightarrow> r' = r" and "r_digest r = Some h" "r_manifest r = m" "canonical_key E key"
proof -
  have d': "d' = (i_db i)\<lparr>revisions := revisions (i_db i) @ [r]\<rparr>" "revision_constraints (revisions (i_db i) @ [r])"
    and r: "r_digest r = Some h" "r_manifest r = m" "r_status r = status"
    using run by (auto simp: insert_revision_def result_simps new_revision_def split: if_splits)
  have "r_id r \<notin> set (map r_id (revisions (i_db i)))" using d'(2) by (simp add: revision_constraints_def)
  then show same: "\<And>r'. r' \<in> set (revisions d') \<Longrightarrow> r_id r' = r_id r \<Longrightarrow> r' = r"
    unfolding d'(1) by (auto simp: image_iff)
  show "r_digest r = Some h" "r_manifest r = m" using r by simp_all
  show key: "canonical_key E key"
    using storage_key_canonical [of "i_db i" E r key] retainedD(2) [OF ok] row(1) by (simp add: d'(1))
  show "retained E content M (i\<lparr>i_db := d'\<rparr>, busy)"
  proof (rule retainedI)
    fix r' assume "r' \<in> set (revisions (i_db (i\<lparr>i_db := d'\<rparr>)))"
    then consider "r' = r" | "r' \<in> set (revisions (i_db i))" by (auto simp: d'(1))
    then show "row_retained E M (content (i_store (i\<lparr>i_db := d'\<rparr>))) (i_db (i\<lparr>i_db := d'\<rparr>)) r'"
    proof cases
      case 1
      then show ?thesis using r row(1-3) key content by (auto simp: row_retained_def holds_content_def)
    next
      case 2
      then show ?thesis using retainedD(3) [OF ok 2] by (simp add: row_retained_def d'(1))
    qed
  next
    fix key' v assume b: "busy key' = Some v"
    obtain k h' m' w where v: "v = (k, h', m', w)" by (cases v)
    have "fst v \<noteq> r_id r" using row(4) b unfolding unremembered_def by blast
    then have "r_id r \<noteq> k" by (simp add: v)
    then show "lock_retained E M (content (i_store (i\<lparr>i_db := d'\<rparr>))) (i_db (i\<lparr>i_db := d'\<rparr>)) key' v"
      using retainedD(4) [OF ok b] by (auto simp: lock_retained_def v d'(1))
  qed (use retainedD [OF ok] d' in \<open>auto simp: revision_constraints_def\<close>)
qed

text \<open>An update of rows by id and status.\<close>

lemma update_where_InrD:
  assumes "update_where k statuses f d = Inr (d', b)" "\<And>r. r_id (f r) = r_id r"
  shows "d' = d\<lparr>revisions := map (\<lambda>r. if r_id r = k \<and> r_status r \<in> set statuses then f r else r) (revisions d)\<rparr>"
    and "distinct (map r_id (revisions d')) = distinct (map r_id (revisions d))"
proof -
  show d': "d' = d\<lparr>revisions := map (\<lambda>r. if r_id r = k \<and> r_status r \<in> set statuses then f r else r) (revisions d)\<rparr>"
    using assms(1) by (auto simp: update_where_def Let_def result_simps update_rows_def)
  have "map r_id (revisions d') = map r_id (revisions d)" by (simp add: d' comp_def if_distrib assms(2) cong: if_cong)
  then show "distinct (map r_id (revisions d')) = distinct (map r_id (revisions d))" by simp
qed

lemma update_where_carries:
  assumes ok: "retained E content M (i, busy)" and run: "update_where k statuses f (i_db i) = Inr (d', b)"
    and f: "\<And>r. r_id (f r) = r_id r \<and> r_digest (f r) = r_digest r \<and> r_manifest (f r) = r_manifest r \<and> r_project (f r) = r_project r"
      "\<And>r. \<not> holds_content (f r)"
  shows "carries E (i_db i) d'"
  using retainedD(1,2) [OF ok] update_where_InrD [OF run] f
  by (auto simp: carries_def storage_key_of_def project_of_def)

lemma retained_settle:
  assumes ok: "retained E content M (i, busy)" and run: "update_where k [STAGING] write_settled (i_db i) = Inr (d', b)"
    and lock: "busy key = Some (k, h, m, True)"
  shows "retained E content M (i\<lparr>i_db := d'\<rparr>, busy)"
proof -
  have id: "r_id (write_settled r) = r_id r" for r by (simp add: write_settled_def)
  note d' = update_where_InrD [OF run id]
  note held = retainedD(4) [OF ok lock]
  have same: "\<exists>r \<in> set (revisions (i_db i)). r_id r' = r_id r \<and> storage_key_of d' r' = storage_key_of (i_db i) r \<and>
      r_digest r' = r_digest r \<and> r_manifest r' = r_manifest r \<and> (r' = r \<or> r_id r = k)" if "r' \<in> set (revisions d')" for r'
    using that by (auto simp: d'(1) write_settled_def storage_key_of_def project_of_def split: if_splits)
  show ?thesis
  proof (rule retainedI)
    fix r' assume "r' \<in> set (revisions (i_db (i\<lparr>i_db := d'\<rparr>)))"
    then obtain r where r: "r \<in> set (revisions (i_db i))" "storage_key_of d' r' = storage_key_of (i_db i) r"
        "r_digest r' = r_digest r" "r_manifest r' = r_manifest r" "r' = r \<or> r_id r = k" using same by fastforce
    have "row_retained E M (content (i_store i)) (i_db i) r" by (rule retainedD(3) [OF ok r(1)])
    moreover have "tree_at E (content (i_store i)) key h m \<and> storage_key_of (i_db i) r = Some key \<and> r_digest r = Some h \<and> r_manifest r = m"
      if "r_id r = k" using held r(1) that by (auto simp: lock_retained_def)
    ultimately show "row_retained E M (content (i_store (i\<lparr>i_db := d'\<rparr>))) (i_db (i\<lparr>i_db := d'\<rparr>)) r'"
      using r(2-5) by (auto simp: row_retained_def)
  next
    fix key' v assume b: "busy key' = Some v"
    obtain k' h' m' w where v: "v = (k', h', m', w)" by (cases v)
    show "lock_retained E M (content (i_store (i\<lparr>i_db := d'\<rparr>))) (i_db (i\<lparr>i_db := d'\<rparr>)) key' v"
      using retainedD(4) [OF ok b] same by (fastforce simp: lock_retained_def v)
  qed (use retainedD [OF ok] d' in auto)
qed

lemma find_map_same: "(\<And>x. P (f x) = P x) \<Longrightarrow> List.find P (map f xs) = map_option f (List.find P xs)"
  by (induction xs) auto

lemma delete_rows_carries:
  assumes "distinct (map r_id (revisions d))" "\<forall>p \<in> set (projects d). canonical_key E (p_storage_key p)"
  shows "carries E d (delete_rows ks d)"
proof -
  have "storage_key_of (delete_rows ks d) r = storage_key_of d r" for r
    by (simp add: storage_key_of_def project_of_def delete_rows_def find_map_same option.map_comp comp_def)
  then show ?thesis using assms by (auto simp: carries_def delete_rows_def distinct_map inj_on_def)
qed

lemma record_cleanups_InrD:
  assumes "record_cleanups E dep using_alias now captured i = Inr i'"
  shows "i_db i' = i_db i \<and> i_store i' = i_store i \<and> (\<forall>j \<in> set (i_jobs i'). j \<in> set (i_jobs i) \<or>
    (\<exists>digest key m. Some (digest, key, m) \<in> set captured \<and> j_storage_key j = Some key))"
  using assms
proof (induction captured arbitrary: i)
  case (Cons c captured)
  then obtain payload where payload: "cleanup_revision_storage E dep using_alias c (i_db i) = Inr payload"
    and rest: "record_cleanups E dep using_alias now captured (case payload of None \<Rightarrow> i | Some p \<Rightarrow> enqueue_cleanup now p i) = Inr i'"
    by (auto simp: result_simps)
  have "\<exists>digest m. c = Some (digest, key, m)" if "payload = Some (key, h, paths)" for key h paths
    using payload that by (auto simp: cleanup_revision_storage_def Let_def result_simps split: option.splits if_splits)
  show ?case
  proof (cases payload)
    case None
    then show ?thesis using Cons.IH [OF rest] by auto
  next
    case (Some p)
    obtain key h paths where p: "p = (key, h, paths)" by (cases p)
    then obtain digest m where c: "c = Some (digest, key, m)"
      using \<open>\<And>key h paths. payload = Some (key, h, paths) \<Longrightarrow> \<exists>digest m. c = Some (digest, key, m)\<close> Some by blast
    have jobs: "j \<in> set (i_jobs (enqueue_cleanup now p i)) \<Longrightarrow> j \<in> set (i_jobs i) \<or> j_storage_key j = Some key" for j
      by (auto simp: enqueue_cleanup_def p)
    have "i_db (enqueue_cleanup now p i) = i_db i" "i_store (enqueue_cleanup now p i) = i_store i" by (simp_all add: enqueue_cleanup_def p)
    moreover have "\<exists>digest key m. Some (digest, key, m) \<in> set (c # captured) \<and> j_storage_key j = Some key"
      if "j_storage_key j = Some key" for j using c that by auto
    ultimately show ?thesis using Cons.IH [OF rest [unfolded Some option.case]] jobs by fastforce
  qed
qed simp

lemma retained_delete:
  assumes ok: "retained E content M (i, busy)" and run: "delete_revisions E dep using_alias now ks i = Inr i'"
  shows "retained E content M (i', busy)"
proof -
  note rec = record_cleanups_InrD [OF run [unfolded delete_revisions_def], simplified]
  have captured: "canonical_key E key" if "Some (digest, key, m) \<in> capture_revision_storage (i_db i) ` set ks" for digest key m
    using that retainedD(2) [OF ok]
    by (auto simp: capture_revision_storage_def storage_key_of_def map_option_eq_Some [THEN eq_reflection] eq_commute [of "Some _"]
        split: option.splits dest!: project_of_SomeD)
  have "retained E content M (i\<lparr>i_db := delete_rows ks (i_db i)\<rparr>, busy)"
    using retained_carries [OF ok delete_rows_carries] retainedD(1,2) [OF ok] by blast
  note kept = retainedD [OF this, simplified]
  show ?thesis
  proof (rule retainedI)
    show "canonical_key E key" if "j \<in> set (i_jobs i')" "j_storage_key j = Some key" for j key
      using rec that captured kept(5) by (metis option.inject)
  qed (use rec kept in auto)
qed

lemma retained_clean:
  assumes lawful: "\<And>be. get_storage dep = Inr be \<Longrightarrow> lawful be content" and ok: "retained E content M (i, busy)"
    and j: "j \<in> set (i_jobs i)" "\<forall>key. j_storage_key j = Some key \<longrightarrow> busy key = None"
  shows "retained E content M (run_cleanup_job E dep j i, busy)"
proof -
  have finish: "retained E content M (finish_job k outcome i', busy)" if "retained E content M (i', busy)" for k outcome i'
    by (rule retainedI) (use retainedD [OF that] in \<open>auto simp: finish_job_def set_update_rows split: if_splits\<close>)
  have clean: "retained E content M (i', busy)"
    if run: "cleanup_run E dep key h paths i = (i', outcome)" and key: "j_storage_key j = Some key" for key h paths i' outcome
  proof (cases "i' = i")
    case False
    with run obtain be s' r where del: "delete_revision E be key (Some h) paths (i_store i) = (s', r)" "i' = i\<lparr>i_store := s'\<rparr>"
        "get_storage dep = Inr be" and free: "\<not> referenced (i_db i) key h"
      by (auto simp: cleanup_run_def split: if_splits sum.splits prod.splits)
    have canon: "canonical_key E key" by (rule retainedD(5) [OF ok j(1) key])
    show ?thesis unfolding del(2)
    proof (rule retained_store [OF ok])
      fix key' h' m assume other: "canonical_key E key'" "validate_manifest E m (Some h') = Inr ()"
          "tree_at E (content (i_store i)) key' h' m" "referenced (i_db i) key' h' \<or> busy key' \<noteq> None"
      have "key' \<noteq> key \<or> h' \<noteq> h" using other(4) free j(2) key by auto
      then show "tree_at E (content s') key' h' m" by (rule cleaned_tree [OF lawful [OF del(3)] other(3,2) canon other(1) _ del(1)])
    qed
  qed (use ok in simp)
  show ?thesis
    using finish clean ok by (auto simp: run_cleanup_job_def split: option.splits prod.splits)
qed


lemma row_lock:
  assumes ok: "retained E content M (i, busy)"
    and r: "revision_of (i_db i) k = Some r" "storage_key_of (i_db i) r = Some key" "r_digest r = Some h"
  shows "lock_retained E M (content (i_store i)) (i_db i) key (k, h, r_manifest r, False)"
proof -
  have mem: "r \<in> set (revisions (i_db i))" "r_id r = k" using revision_of_SomeD [OF r(1)] by auto
  from retainedD(3) [OF ok mem(1)] r(3) obtain key' where "r_manifest r \<in> M" "validate_manifest E (r_manifest r) (Some h) = Inr ()"
      "storage_key_of (i_db i) r = Some key'" "canonical_key E key'" by (rule row_retainedE)
  moreover have "r' = r" if "r' \<in> set (revisions (i_db i))" "r_id r' = k" for r'
    by (rule distinct_map_eq [OF retainedD(1) [OF ok] that(1) mem(1)]) (simp add: that(2) mem(2))
  ultimately show ?thesis using r(2,3) by (auto simp: lock_retained_def)
qed

lemma retained_begin:
  assumes ok: "retained E content M (i, busy)"
    and run: "insert_revision (\<lambda>d. new_revision d now project (Some h) STAGING m files octets [] snapshot snapshot_digest) (i_db i) = Inr (d', r)"
    and row: "storage_key_of d' r = Some key" "m \<in> M" "validate_manifest E m (Some h) = Inr ()" "unremembered busy (r_id r)"
  shows "retained E content M (i\<lparr>i_db := d'\<rparr>, busy(key \<mapsto> (r_id r, h, m, False)))"
proof -
  note new = retained_insert [OF ok run row]
  have unstored: "STAGING \<in> set UNSTORED_REVISION_STATUSES" by (simp add: status_groups)
  show ?thesis
  proof (rule retained_lock [OF new(1)])
    show "lock_retained E M (content (i_store (i\<lparr>i_db := d'\<rparr>))) (i_db (i\<lparr>i_db := d'\<rparr>)) key (r_id r, h, m, False)"
      using new(2-5) unstored row by (auto simp: lock_retained_def)
  qed (use unstored in blast)
qed

lemma retained_resume:
  assumes ok: "retained E content M (i, busy)"
    and run: "update_where k RETRYABLE_REVISION_STATUSES reenter (i_db i) = Inr (d', b)"
    and row: "revision_of (i_db i) k = Some r" "storage_key_of (i_db i) r = Some key" "r_digest r = Some h"
  shows "retained E content M (i\<lparr>i_db := d'\<rparr>, busy(key \<mapsto> (k, h, r_manifest r, False)))"
proof -
  have "carries E (i_db i) d'"
    by (rule update_where_carries [OF ok run]) (simp_all add: reenter_def holds_content_def status_groups)
  from retained_carries [OF retained_lock [OF ok row_lock [OF ok row]] this] show ?thesis .
qed

lemma retained_write:
  assumes lawful: "lawful be content" and M: "collision_free E M" and ok: "retained E content M (i, busy)"
    and run: "write_revision E be key (Some h) source m (i_store i) = (s', outcome)" and lock: "busy key = Some (k, h, m, w)"
    and files: "canonical_source E source [] = Inr content_by_path"
      "\<forall>e \<in> set (manifest_entries m). \<exists>c. map_of content_by_path (e_path e) = Some c \<and> matches E e c"
  shows "retained E content M (i\<lparr>i_store := s'\<rparr>, busy(key \<mapsto> (k, h, m, is_ok outcome)))"
proof -
  note held = retainedD(4) [OF ok lock]
  then have m: "m \<in> M" "validate_manifest E m (Some h) = Inr ()" "canonical_key E key" by (auto simp: lock_retained_def)
  show ?thesis
  proof (cases "revision_prefix E key (Some h)")
    case (Inl e)
    then have "s' = i_store i" "outcome = Inl e" using run by (auto simp: write_revision_def sbind_def lift_def m(2))
    moreover have "lock_retained E M (content (i_store i)) (i_db i) key (k, h, m, False)"
      using held by (auto simp: lock_retained_def)
    ultimately show ?thesis using retained_lock [OF ok] by simp
  next
    case (Inr pre)
    note tree = written_tree [OF lawful m(2,1) M files run m(3) Inr]
    have kept: "retained E content M (i\<lparr>i_store := s'\<rparr>, busy)" by (rule retained_store [OF ok]) (use tree(2) in blast)
    show ?thesis by (rule retained_lock [OF kept]) (use held tree(1) in \<open>auto simp: lock_retained_def\<close>)
  qed
qed

theorem storage_step_retains:
  assumes "storage_step E dep M state state'" and "\<And>be. get_storage dep = Inr be \<Longrightarrow> lawful be content" and "collision_free E M"
    and "retained E content M state"
  shows "retained E content M state'"
  using assms
proof (induction rule: storage_step.induct)
  case (begins now project h m files octets snapshot snapshot_digest i d' r busy key)
  show ?case by (rule retained_begin [OF begins(9,1,3-6)])
next
  case (resumes k i d' busy r key h)
  show ?case by (rule retained_resume [OF resumes(8,1,3-5)])
next
  case (writes be key h source m i s' outcome busy k w content_by_path)
  show ?case by (rule retained_write [OF writes(6) [OF writes(3)] writes(7,8,1,2,4,5)])
next
  case (settles k i d' b busy key h m)
  show ?case by (rule retained_unlock [OF retained_settle [OF settles(5,1,2)]])
next
  case (gives_up v i d' b busy key)
  have "carries E (i_db i) d'"
    by (rule update_where_carries [OF gives_up(5,1)]) (simp_all add: write_failed_def holds_content_def status_groups)
  then show ?case using retained_unlock [OF retained_carries [OF gives_up(5)]] by blast
next
  case (dies i busy key)
  show ?case by (rule retained_unlock [OF dies(3)])
next
  case (refreshes be key h m i pre busy now project files octets snapshot snapshot_digest d' r)
  have valid: "validate_manifest E m (Some h) = Inr ()" and tree: "verify_tree E be key (Some h) m (i_store i) = Inr pre"
    using refreshes(1) by (auto simp: verify_revision_tree_def result_simps)
  have "tree_at E (content (i_store i)) key h m"
    using tree unfolding verify_tree_honest [OF refreshes(8) [OF refreshes(3)] validated_distinct [OF valid]] by (auto simp: tree_at_def)
  then show ?case using retained_insert(1) [OF refreshes(10,4,5,6) valid refreshes(7)] by blast
next
  case (other i d' busy)
  show ?case by (rule retained_carries [OF other(4,1)])
next
  case (deletes using_alias now ks i i' busy)
  show ?case by (rule retained_delete [OF deletes(4,1)])
next
  case (cleans j i busy)
  show ?case by (rule retained_clean [OF cleans(3,5,1,2)])
qed


section \<open>The transactions of the other components\<close>

lemma carriesI:
  assumes "distinct (map r_id (revisions d))" "\<forall>p \<in> set (projects d). canonical_key E (p_storage_key p)"
    and rows: "revisions d' = map f (revisions d)" "\<And>r. r \<in> set (revisions d) \<Longrightarrow> r_id (f r) = r_id r \<and> r_digest (f r) = r_digest r \<and>
      r_manifest (f r) = r_manifest r \<and> r_project (f r) = r_project r \<and> (holds_content (f r) \<longrightarrow> holds_content r)"
    and projects: "projects d' = map g (projects d)" "\<And>p. p_id (g p) = p_id p \<and> p_storage_key (g p) = p_storage_key p"
  shows "carries E d d'"
proof -
  have "map r_id (revisions d') = map r_id (revisions d)" using rows by simp
  then have ids: "distinct (map r_id (revisions d'))" using assms(1) by simp
  have "storage_key_of d' (f r) = storage_key_of d r" if "r \<in> set (revisions d)" for r
    using rows(2) [OF that] by (simp add: storage_key_of_def project_of_def projects find_map_same option.map_comp comp_def)
  then show ?thesis using assms(2) ids rows projects by (auto simp: carries_def simp del: map_map)
qed

lemma update_rows_map: "update_rows hit f xs = map (\<lambda>r. if hit r then f r else r) xs"
  by (simp add: update_rows_def)

lemma rows_where_carry:
  assumes "distinct (map r_id (revisions d))" "\<forall>p \<in> set (projects d). canonical_key E (p_storage_key p)"
    and run: "update_rows_where hit f d = Inr (d', b)"
    and f: "\<And>r. r_id (f r) = r_id r \<and> r_digest (f r) = r_digest r \<and> r_manifest (f r) = r_manifest r \<and> r_project (f r) = r_project r"
    and hit: "\<And>r. hit r \<Longrightarrow> r_status r \<notin> set UNSTORED_REVISION_STATUSES"
  shows "carries E d d'"
proof -
  have d': "d' = d\<lparr>revisions := update_rows hit f (revisions d)\<rparr>"
    using run by (auto simp: update_rows_where_def result_simps)
  show ?thesis
    by (rule carriesI [OF assms(1,2), where f = "\<lambda>r. if hit r then f r else r" and g = "\<lambda>p. p"])
      (use f hit in \<open>auto simp: d' update_rows_map holds_content_def\<close>)
qed

lemma validation_carries:
  assumes "distinct (map r_id (revisions d))" "\<forall>p \<in> set (projects d). canonical_key E (p_storage_key p)"
  shows "claim_revision k job now d = Inr (d', b) \<Longrightarrow> carries E d d'"
    and "revert_to_materialized k job reason d = Inr (d', b) \<Longrightarrow> carries E d d'"
    and "finalize k job status failures records d = Inr (d', b) \<Longrightarrow> carries E d d'"
  by (auto simp: claim_revision_def revert_to_materialized_def finalize_def claimable_def owned_def claimed_by_def given_back_def
      with_verdict_def status_groups elim!: rows_where_carry [OF assms])

lemma promote_carries:
  assumes ok: "pointers_ok d" and keys: "\<forall>p \<in> set (projects d). canonical_key E (p_storage_key p)" and cb: "derives_only on_promote"
    and run: "promote_tx E' snapshot k on_promote automatic now d = Inr (d', result)"
  shows "carries E d d'"
proof -
  have dist: "distinct (map r_id (revisions d))" by (rule pointers_okD(4) [OF ok])
  show ?thesis using ok cb run
  proof (cases rule: promote_tx_InrD)
    case refused
    then show ?thesis by (intro carriesI [OF dist keys, where f = "\<lambda>r. r" and g = "\<lambda>p. p"]) auto
  next
    case (promoted p r d1)
    have d1: "revisions d1 = revisions d" "projects d1 = projects d" using cb promoted(9) by (auto simp: derives_only_def)
    have same: "x = r" if "x \<in> set (revisions d)" "r_id x = r_id r" for x by (rule distinct_map_eq [OF dist that(1) promoted(3) that(2)])
    have stored: "r_status r \<notin> set UNSTORED_REVISION_STATUSES" using promoted(8) by (auto simp: status_groups)
    have previous: "r_status x = ACTIVE" if "x \<in> set (revisions d)" "p_active_revision p = Some (r_id x)" for x
      using active_pointed [OF ok promoted(2) that(2)] revision_of_member [OF dist that(1)] by blast
    have rows: "revisions d' = map (\<lambda>x. if r_id x = r_id r then activate now (if p_active_revision p = Some (r_id x) then retire x else x)
        else if p_active_revision p = Some (r_id x) then retire x else x) (revisions d)"
      by (auto simp: promoted(10) promoted_def activated_rows_def retired_rows_def update_rows_map d1)
    have ps: "projects d' = map (\<lambda>q. if p_id q = p_id p then (if p_source_revision p = Some (r_id r) then
          q\<lparr>p_source_activation_pending := False\<rparr> else q)\<lparr>p_active_revision := Some (r_id r)\<rparr> else q) (projects d)"
      by (auto simp: promoted(10) promoted_def pointed_rows_def consumed_rows_def update_rows_map d1)
    show ?thesis
      by (rule carriesI [OF dist keys rows _ ps])
        (use same stored previous in \<open>auto simp: holds_content_def status_groups\<close>)
  next
    case (repaired p r d1)
    have d1: "revisions d1 = revisions d" using cb repaired(8) by (auto simp: derives_only_def)
    show ?thesis
      by (rule carriesI [OF dist keys, where f = "\<lambda>r. r" and d' = d',
          OF _ _ repaired(9) [THEN arg_cong [where f = projects], simplified, unfolded consumed_rows_def update_rows_map]])
        (auto simp: repaired(9) d1)
  qed
qed


section \<open>The property of this theory\<close>

definition fresh_site :: "'b site \<times> staging_locks \<Rightarrow> bool" where
  "fresh_site state \<longleftrightarrow> i_db (fst state) = empty_db \<and> i_jobs (fst state) = [] \<and> snd state = (\<lambda>_. None)"

interpretation storage: invariant fresh_site "storage_step E dep M"
  "\<lambda>state. (\<forall>be. get_storage dep = Inr be \<longrightarrow> lawful be content) \<and> collision_free E M \<longrightarrow> retained E content M state"
  for E dep M content
proof unfold_locales
  fix state :: "'a site \<times> staging_locks" assume "fresh_site state"
  then show "(\<forall>be. get_storage dep = Inr be \<longrightarrow> lawful be content) \<and> collision_free E M \<longrightarrow> retained E content M state"
    by (auto simp: fresh_site_def retained_def empty_db_def)
qed (use storage_step_retains in blast)

text \<open>
  C7. In every state staging, deletions, cleanup Jobs run at any later time and all other transactions
  reach, interleaved in any order under the project locks, with staging processes dying anywhere: the
  files of every revision whose row says its content is stored are all in the store, intact.  The store
  is lawful and the manifests in play do not collide under SHA-256.
\<close>

theorem stored_content_retained:
  assumes "reachable fresh_site (storage_step E dep M) (i, busy)" and "get_storage dep = Inr be" and "lawful be content"
    and "collision_free E M" and "r \<in> set (revisions (i_db i))" and "r_status r \<notin> {STAGING, STORAGE_FAILED}" and "r_digest r \<noteq> None"
  shows "\<exists>key pre. storage_key_of (i_db i) r = Some key \<and> verify_revision_tree E be key (r_digest r) (r_manifest r) (i_store i) = Inr pre"
proof -
  have ok: "retained E content M (i, busy)" using storage.reachable_inv [OF assms(1), of content] assms(2-4) by simp
  obtain h where h: "r_digest r = Some h" using assms(7) by blast
  from retainedD(3) [OF ok assms(5)] h obtain key where key: "validate_manifest E (r_manifest r) (Some h) = Inr ()"
      "storage_key_of (i_db i) r = Some key" "holds_content r \<longrightarrow> tree_at E (content (i_store i)) key h (r_manifest r)"
    by (rule row_retainedE)
  moreover have "holds_content r" using assms(6) h by (simp add: holds_content_def status_groups)
  ultimately obtain pre where "revision_prefix E key (Some h) = Inr pre" "\<forall>e \<in> set (manifest_entries (r_manifest r)). intact E (content (i_store i)) pre e"
    by (auto simp: tree_at_def)
  then have "verify_revision_tree E be key (r_digest r) (r_manifest r) (i_store i) = Inr pre"
    using key(1) by (simp add: verify_revision_tree_def h verify_tree_honest [OF assms(3) validated_distinct])
  then show ?thesis using key(2) by blast
qed


text \<open>A project is created, and a revision of it staged, written and settled.\<close>

definition example_key :: pystr where "example_key = uuid_str 36"

definition example_site :: "nat \<Rightarrow> memory site" where
  "example_site n = foldl (\<lambda>i step. step i) \<lparr>i_db = empty_db, i_store = [], i_jobs = []\<rparr> (take n
     [\<lambda>i. i\<lparr>i_db := empty_db\<lparr>projects := [(example_project 1)\<lparr>p_storage_key := example_key\<rparr>]\<rparr>\<rparr>,
      \<lambda>i. i\<lparr>i_db := committed (insert_revision (\<lambda>d. new_revision d 2 1 (Some (the stored_digest)) STAGING stored_example 1 2 []
        (JList []) (snd (build_script_file_snapshot ascii_python []))) (i_db i))\<rparr>,
      \<lambda>i. i\<lparr>i_store := fst (write_revision ascii_python memory_backend example_key (Some (the stored_digest)) [(lit ''a.py'', [1, 2])]
        stored_example (i_store i))\<rparr>,
      \<lambda>i. i\<lparr>i_db := committed (update_where 1 [STAGING] write_settled (i_db i))\<rparr>])"

definition example_lock :: "bool \<Rightarrow> staging_locks" where
  "example_lock w = [example_key \<mapsto> (1, the stored_digest, stored_example, w)]"

abbreviation example_step :: "memory site \<times> staging_locks \<Rightarrow> memory site \<times> staging_locks \<Rightarrow> bool" where
  "example_step \<equiv> storage_step ascii_python example_service {stored_example}"

lemma example_site_created: "example_step (example_site 0, \<lambda>_. None) (example_site 1, \<lambda>_. None)"
proof -
  let ?step = example_step and ?i = example_site
  have "carries ascii_python (i_db (?i 0)) (i_db (?i 1))"
  proof -
    have "canonical_key ascii_python example_key" by code_simp
    then show ?thesis by (simp add: carries_def example_site_def empty_db_def)
  qed
  then have "?step (?i 0, \<lambda>_. None) ((?i 0)\<lparr>i_db := i_db (?i 1)\<rparr>, \<lambda>_. None)" by (rule other)
  moreover have "(?i 0)\<lparr>i_db := i_db (?i 1)\<rparr> = ?i 1" by (simp add: example_site_def)
  ultimately show ?thesis by simp
qed

lemma example_site_begun: "example_step (example_site 1, \<lambda>_. None) (example_site 2, example_lock False)"
proof -
  let ?step = example_step and ?i = example_site
  let ?run = "insert_revision (\<lambda>d. new_revision d 2 1 (Some (the stored_digest)) STAGING stored_example 1 2 [] (JList [])
      (snd (build_script_file_snapshot ascii_python []))) (i_db (?i 1))"
  have "case ?run of Inr (d, r) \<Rightarrow> r_id r = 1 \<and> storage_key_of d r = Some example_key | Inl _ \<Rightarrow> False" by code_simp
  then obtain d r where run: "?run = Inr (d, r)" "r_id r = 1" "storage_key_of d r = Some example_key" by (auto split: sum.splits)
  have valid: "validate_manifest ascii_python stored_example (Some (the stored_digest)) = Inr ()"
    using stored_example_valid by (simp add: stored_digest_def)
  have "?step (?i 1, \<lambda>_. None) ((?i 1)\<lparr>i_db := d\<rparr>, (\<lambda>_. None)(example_key \<mapsto> (r_id r, the stored_digest, stored_example, False)))"
    by (rule begins [OF run(1) _ run(3) _ valid]) (simp_all add: unremembered_def)
  moreover have "(?i 1)\<lparr>i_db := d\<rparr> = ?i 2" using run(1) by (simp add: example_site_def numeral_eq_Suc committed_def)
  ultimately show ?thesis by (simp add: example_lock_def run(2))
qed

lemma example_site_written: "example_step (example_site 2, example_lock False) (example_site 3, example_lock True)"
proof -
  let ?step = example_step and ?i = example_site
  let ?run = "write_revision ascii_python memory_backend example_key (Some (the stored_digest)) [(lit ''a.py'', [1, 2])] stored_example (i_store (?i 2))"
  have "is_ok (snd ?run)" by code_simp
  then obtain s outcome where run: "?run = (s, outcome)" "is_ok outcome" by (cases ?run) auto
  have c: "canonical_source ascii_python [(lit ''a.py'', [1, 2])] [] = Inr [(lit ''a.py'', [1, 2])]" by code_simp
  have "list_all (\<lambda>e. case map_of [(lit ''a.py'', [1, 2])] (e_path e) of None \<Rightarrow> False | Some b \<Rightarrow> matches ascii_python e b)
      (manifest_entries stored_example)" by code_simp
  then have m: "\<forall>e \<in> set (manifest_entries stored_example). \<exists>b. map_of [(lit ''a.py'', [1, 2])] (e_path e) = Some b \<and> matches ascii_python e b"
    by (simp add: list_all_iff case_option_ex)
  have be: "get_storage example_service = Inr memory_backend" by (simp add: example_service_def get_storage_def)
  have "?step (?i 2, example_lock False) ((?i 2)\<lparr>i_store := s\<rparr>, (example_lock False)(example_key \<mapsto> (1, the stored_digest, stored_example, is_ok outcome)))"
    by (rule writes [OF run(1) _ be c m, where w = False]) (simp add: example_lock_def)
  moreover have "(?i 2)\<lparr>i_store := s\<rparr> = ?i 3" using run(1) by (simp add: example_site_def numeral_eq_Suc)
  ultimately show ?thesis using run(2) by (simp add: example_lock_def)
qed

lemma example_site_settled: "example_step (example_site 3, example_lock True) (example_site 4, (example_lock True)(example_key := None))"
proof -
  let ?step = example_step and ?i = example_site
  let ?run = "update_where 1 [STAGING] write_settled (i_db (?i 3))"
  have "is_ok ?run" by code_simp
  then obtain b where run: "?run = Inr (committed ?run, b)" using committedI by blast
  have "?step (?i 3, example_lock True) ((?i 3)\<lparr>i_db := committed ?run\<rparr>, (example_lock True)(example_key := None))"
    by (rule settles [OF run]) (simp add: example_lock_def)
  moreover have "(?i 3)\<lparr>i_db := committed ?run\<rparr> = ?i 4" by (simp add: example_site_def numeral_eq_Suc)
  ultimately show ?thesis by simp
qed

lemma example_site_reachable: "reachable fresh_site example_step (example_site 4, (example_lock True)(example_key := None))"
proof -
  have "reachable fresh_site example_step (example_site 0, \<lambda>_. None)" by (rule start) (simp add: fresh_site_def example_site_def)
  note one = further [OF this example_site_created]
  note two = further [OF one example_site_begun]
  show ?thesis by (rule further [OF further [OF two example_site_written] example_site_settled])
qed

theorem stored_content_retained_witness:
  "\<exists>r \<in> set (revisions (i_db (example_site 4))). r_status r = MATERIALIZED \<and> (\<exists>key pre. storage_key_of (i_db (example_site 4)) r = Some key \<and>
     verify_revision_tree ascii_python memory_backend key (r_digest r) (r_manifest r) (i_store (example_site 4)) = Inr pre)"
proof -
  have "list_ex (\<lambda>r. r_status r = MATERIALIZED \<and> r_digest r \<noteq> None) (revisions (i_db (example_site 4)))" by code_simp
  then obtain r where r: "r \<in> set (revisions (i_db (example_site 4)))" "r_status r = MATERIALIZED" "r_digest r \<noteq> None"
    by (auto simp: list_ex_iff)
  have be: "get_storage example_service = Inr memory_backend" by (simp add: example_service_def get_storage_def)
  have free: "collision_free ascii_python {stored_example}" by (simp add: collision_free_def)
  from stored_content_retained [OF example_site_reachable be memory_lawful free r(1)] r(2,3)
  show ?thesis by (intro bexI [OF _ r(1)]) simp
qed

end
