(* ===== verification/Resolution.thy ===== *)
theory Resolution
  imports Verdicts
begin

text \<open>
  runtime/resolution.py: from the identity a Script row stores back to the live class, through the
  record of the discovery snapshot and the script file that surfaced it.  A record of a session
  resolves to a class of the same identity wherever the import repeats what the session saw.
\<close>

section \<open>Definitions\<close>

text \<open>
  How a resolution fails: ScriptResolutionError with its code and the identity, an error of the check of
  the snapshot, a failure of the import, an error of discovery.
\<close>

datatype resolution_failure =
    Unresolved string pystr
  | BadSnapshot py_error
  | BadImport import_failure
  | BadDiscovery py_error

definition resolve_script_class ::
    "python \<Rightarrow> texts \<Rightarrow> netbox_core \<Rightarrow> ('b, 'c) runtime \<Rightarrow> exc_class list \<Rightarrow> pystr \<Rightarrow> pystr \<Rightarrow> json \<Rightarrow> json \<Rightarrow> pystr \<times> pystr \<Rightarrow>
     ('b, 'c) host \<Rightarrow> ('b, 'c) host \<times> (resolution_failure + pyclass)" where
  "resolve_script_class E T N rt passthrough storage_key digest manifest discovered_scripts identity h =
     (let name = fst identity @ dot # snd identity
      in case validate_discovered_scripts N discovered_scripts of
           Inl e \<Rightarrow> (h, Inl (BadSnapshot e))
         | Inr entries \<Rightarrow>
             (case List.find (\<lambda>entry. record_identity entry = identity) entries of
                None \<Rightarrow> (h, Inl (Unresolved ''not_published'' name))
              | Some rec \<Rightarrow>
                  (case import_script_file E T rt passthrough storage_key digest manifest
                       (json_text (json_field rec ''script_file_path'')) h of
                     (h', Inl failure) \<Rightarrow> (h', Inl (BadImport failure))
                   | (h', Inr m) \<Rightarrow>
                       (case revision_module_name E storage_key digest of
                          Inl e \<Rightarrow> (h', Inl (BadImport (Checked e)))
                        | Inr own_name \<Rightarrow>
                            (case discover_scripts m own_name of
                               Inl e \<Rightarrow> (h', Inl (BadDiscovery e))
                             | Inr found \<Rightarrow>
                                 (case List.find (\<lambda>d. identity_of d = identity) found of
                                    None \<Rightarrow> (h', Inl (Unresolved ''no_longer_published'' name))
                                  | Some d \<Rightarrow> (h', Inr (d_cls d))))))))"

section \<open>What a resolved class is\<close>

lemma resolve_InrD:
  assumes "resolve_script_class E T N rt passthrough key digest manifest discovered identity h = (h', Inr cls)"
  obtains entries rec m own_name found d where "validate_discovered_scripts N discovered = Inr entries" "rec \<in> set entries"
    "record_identity rec = identity" "import_script_file E T rt passthrough key digest manifest (json_text (json_field rec ''script_file_path'')) h = (h', Inr m)"
    "revision_module_name E key digest = Inr own_name" "discover_scripts m own_name = Inr found" "d \<in> set found" "identity_of d = identity" "cls = d_cls d"
  using assms by (auto simp: resolve_script_class_def Let_def split: sum.splits option.splits prod.splits dest!: find_SomeD)

section \<open>What a session records can be resolved\<close>

text \<open>A record stems from a class a script file of the session published.\<close>

definition surfaced ::
    "('b, 'h, 'c) validation_env \<Rightarrow> ('b, 'c) runtime \<Rightarrow> session \<Rightarrow> exc_class list \<Rightarrow> json \<Rightarrow> bool" where
  "surfaced V rt se passthrough rec \<longleftrightarrow> (\<exists>path h h' m found d.
     import_script_file (v_python V) (v_texts V) rt passthrough (se_key se) (se_digest se) (se_manifest se) path h = (h', Inr m) \<and>
     discover_scripts m (se_prefix se) = Inr found \<and> d \<in> set found \<and> identity_of d = record_identity rec \<and>
     json_text (json_field rec ''script_file_path'') = path)"

lemma described_identity:
  assumes "describe_script N passthrough d file_id path position = Described rec"
  shows "record_identity rec = identity_of d" "json_text (json_field rec ''script_file_path'') = path"
  using assms
  by (auto simp: describe_script_def Let_def described_fields json_text_def record_identity_def identity_of_def split: if_splits form_outcome.splits sum.splits)

lemma collect_surfaced:
  "collect_publications N T passthrough san file_id path found outcome pr = Inr (pr', status) \<Longrightarrow>
     rec \<in> set (pr_records pr') \<Longrightarrow>
     rec \<in> set (pr_records pr) \<or> (\<exists>d \<in> set found. identity_of d = record_identity rec \<and> json_text (json_field rec ''script_file_path'') = path)"
proof (induction N T passthrough san file_id path found outcome pr rule: collect_publications.induct)
  case (2 N T passthrough san file_id path item found outcome pr)
  show ?case
  proof (cases "map_of (pr_identities pr) (identity_of item)")
    case (Some existing)
    then show ?thesis using 2 by (auto simp: collect_publications.simps add_failure_def split: if_splits)
  next
    case None
    show ?thesis
    proof (cases "describe_script N passthrough item file_id path (length (pr_records pr))")
      case (Described r)
      then show ?thesis using 2 None described_identity [OF Described] by (auto simp: collect_publications.simps)
    qed (use 2 None in \<open>auto simp: collect_publications.simps add_failure_def\<close>)
  qed
qed simp

lemma judge_surfaced:
  assumes "judge_entry V se passthrough entry outcome pr = Inr pr'" "rec \<in> set (pr_records pr')" "rec \<notin> set (pr_records pr)"
  obtains m found d where "outcome = Inr m" "discover_scripts m (se_prefix se) = Inr found" "d \<in> set found" "identity_of d = record_identity rec"
    "json_text (json_field rec ''script_file_path'') = snd entry"
  using assms
  by (auto simp: judge_entry_def Let_def set_outcome_def content_failure_def add_failure_def
      split: sum.splits import_failure.splits py_error.splits if_splits list.splits dest!: collect_surfaced)

lemma session_surfaced:
  "session_entries V rt se passthrough entries pr h = (h', Inr pr') \<Longrightarrow> rec \<in> set (pr_records pr') \<Longrightarrow> rec \<notin> set (pr_records pr) \<Longrightarrow>
     surfaced V rt se passthrough rec"
proof (induction entries arbitrary: pr h)
  case (Cons entry entries)
  obtain h1 outcome where imp: "import_script_file (v_python V) (v_texts V) rt passthrough (se_key se) (se_digest se) (se_manifest se)
      (snd entry) h = (h1, outcome)" by (cases "import_script_file (v_python V) (v_texts V) rt passthrough (se_key se) (se_digest se)
      (se_manifest se) (snd entry) h") auto
  obtain pr1 where judge: "judge_entry V se passthrough entry outcome pr = Inr pr1"
    and rest: "session_entries V rt se passthrough entries pr1 h1 = (h', Inr pr')"
    using Cons.prems(1) by (auto simp: imp split: sum.splits)
  show ?case
  proof (cases "rec \<in> set (pr_records pr1)")
    case True
    from judge_surfaced [OF judge True Cons.prems(3)] obtain m found d where "outcome = Inr m"
        "discover_scripts m (se_prefix se) = Inr found" "d \<in> set found" "identity_of d = record_identity rec"
        "json_text (json_field rec ''script_file_path'') = snd entry" .
    then show ?thesis using imp unfolding surfaced_def by blast
  next
    case False
    then show ?thesis by (rule Cons.IH [OF rest Cons.prems(2)])
  qed
qed simp

lemma find_keyed: "distinct (map f xs) \<Longrightarrow> x \<in> set xs \<Longrightarrow> List.find (\<lambda>y. f y = f x) xs = Some x"
  by (induction xs) (auto simp: image_iff)

text \<open>
  C15. A Script row can be run as long as its revision imports as it did when it was validated: every
  record a session stores resolves, through the script file it names, to the class discovery finds there
  under the recorded identity.
\<close>

theorem recorded_scripts_resolve:
  assumes session: "session_entries V rt se passthrough entries nothing_yet h0 = (h1, Inr pr)" "\<forall>e \<in> set entries. 0 < fst e"
    and rec: "rec \<in> set (pr_records pr)" and own: "revision_module_name (v_python V) (se_key se) (se_digest se) = Inr (se_prefix se)"
    and again: "import_script_file (v_python V) (v_texts V) rt passthrough' (se_key se) (se_digest se) (se_manifest se)
      (json_text (json_field rec ''script_file_path'')) h = (h', Inr m)"
    and repeats: "\<And>ha hb m0. import_script_file (v_python V) (v_texts V) rt passthrough (se_key se) (se_digest se) (se_manifest se)
      (json_text (json_field rec ''script_file_path'')) ha = (hb, Inr m0) \<Longrightarrow> discover_scripts m (se_prefix se) = discover_scripts m0 (se_prefix se)"
  shows "\<exists>found d. discover_scripts m (se_prefix se) = Inr found \<and> d \<in> set found \<and> identity_of d = record_identity rec \<and>
    resolve_script_class (v_python V) (v_texts V) (v_core V) rt passthrough' (se_key se) (se_digest se) (se_manifest se)
      (JList (pr_records pr)) (record_identity rec) h = (h', Inr (d_cls d))"
proof -
  have ok: "progress_ok (v_core V) pr" by (rule session_ok [OF session(1) _ session(2)]) simp
  then have valid: "validate_discovered_scripts (v_core V) (JList (pr_records pr)) = Inr (pr_records pr)"
    by (simp add: progress_ok_def validate_discovered_scripts_def)
  have dist: "distinct (map record_identity (pr_records pr))"
    using ok validate_discovered_entries_InrD by (auto simp: progress_ok_def)
  have "surfaced V rt se passthrough rec"
    by (rule session_surfaced [OF session(1) rec]) (simp add: nothing_yet_def)
  then obtain ha hb m0 found d where first: "import_script_file (v_python V) (v_texts V) rt passthrough (se_key se) (se_digest se) (se_manifest se)
      (json_text (json_field rec ''script_file_path'')) ha = (hb, Inr m0)"
    and d: "discover_scripts m0 (se_prefix se) = Inr found" "d \<in> set found" "identity_of d = record_identity rec"
    by (auto simp: surfaced_def)
  have found: "discover_scripts m (se_prefix se) = Inr found" using repeats [OF first] d(1) by simp
  have "distinct (map identity_of found)"
    using d(1) by (auto simp: discover_scripts_def Let_def result_simps split: if_splits)
  from find_keyed [OF this d(2)] have "List.find (\<lambda>x. identity_of x = record_identity rec) found = Some d" by (simp add: d(3))
  then have "resolve_script_class (v_python V) (v_texts V) (v_core V) rt passthrough' (se_key se) (se_digest se) (se_manifest se)
      (JList (pr_records pr)) (record_identity rec) h = (h', Inr (d_cls d))"
    by (simp add: resolve_script_class_def valid find_keyed [OF dist rec] again own found)
  with found d(2,3) show ?thesis by blast
qed

text \<open>One session over one script file.\<close>

definition example_session :: session where
  "example_session = \<lparr>se_key = lit ''k'', se_digest = the stored_digest, se_manifest = stored_example,
     se_prefix = PRIVATE_ROOT @ lit ''.p_'' @ uuid_hex 1 @ lit ''.r_'' @ the stored_digest, se_modules = [lit ''a''], se_sanitize = (\<lambda>t. t)\<rparr>"

lemma example_import:
  "import_script_file E T example_runtime passthrough key digest manifest path h = (h', Inr m) \<Longrightarrow>
     m = \<lparr>m_name = PRIVATE_ROOT @ lit ''.p_'' @ uuid_hex (the (uuid_parse E key)) @ lit ''.r_'' @ digest @ dot # projr (script_file_dotted_name E path),
       m_vars = [(lit ''A'', ClassObject (example_class 1 (PRIVATE_ROOT @ lit ''.p_'' @ uuid_hex (the (uuid_parse E key)) @ lit ''.r_'' @ digest @ dot #
         projr (script_file_dotted_name E path)) (lit ''A'')))], m_script_order = Unset\<rparr>"
  by (auto simp: import_script_file_def run_boundary_def register_revision_package_def Let_def example_runtime_def project_module_name_def
      split: sum.splits py_error.splits if_splits option.splits)

lemma example_import_ok:
  "\<exists>h' m. import_script_file ascii_python T example_runtime passthrough (lit ''k'') (the stored_digest) stored_example (lit ''a.py'') h = (h', Inr m)"
proof -
  have name: "script_file_dotted_name ascii_python (lit ''a.py'') = Inr (lit ''a'')" by code_simp
  have valid: "validate_manifest ascii_python stored_example (Some (the stored_digest)) = Inr ()"
    using stored_example_valid by (simp add: stored_digest_def)
  have path: "lit ''a.py'' \<in> set (map e_path (manifest_entries stored_example))" by (simp add: stored_example_def)
  have own: "is_ok (project_module_name ascii_python (lit ''k''))" by (simp add: project_module_name_def ascii_python_def str_simps)
  then obtain name where "project_module_name ascii_python (lit ''k'') = Inr name" by (auto simp: is_ok_iff)
  then show ?thesis
    using name valid path
    by (simp add: import_script_file_def Let_def run_boundary_def register_revision_package_def example_runtime_def split: prod.splits sum.splits)
qed

theorem recorded_scripts_resolve_witness:
  "\<exists>h1 pr rec h' cls. session_entries example_env example_runtime example_session [] [(3, lit ''a.py'')] nothing_yet example_host = (h1, Inr pr) \<and>
     rec \<in> set (pr_records pr) \<and> resolve_script_class ascii_python example_texts example_core example_runtime [] (lit ''k'') (the stored_digest)
       stored_example (JList (pr_records pr)) (record_identity rec) example_host = (h', Inr cls)"
proof -
  let ?run = "session_entries example_env example_runtime example_session [] [(3, lit ''a.py'')] nothing_yet example_host"
  have "case snd ?run of Inr pr \<Rightarrow> map (\<lambda>r. json_text (json_field r ''script_file_path'')) (pr_records pr) = [lit ''a.py''] | _ \<Rightarrow> False" by code_simp
  then obtain h1 pr rec where run: "?run = (h1, Inr pr)" and rec: "rec \<in> set (pr_records pr)" "json_text (json_field rec ''script_file_path'') = lit ''a.py''"
    by (cases ?run) (auto split: sum.splits)
  have own: "revision_module_name (v_python example_env) (se_key example_session) (se_digest example_session) = Inr (se_prefix example_session)"
    by code_simp
  let ?again = "import_script_file ascii_python example_texts example_runtime [] (lit ''k'') (the stored_digest) stored_example (lit ''a.py'') example_host"
  obtain h' m where again: "?again = (h', Inr m)" using example_import_ok by blast
  have same: "m0 = m" if "import_script_file ascii_python example_texts example_runtime [] (lit ''k'') (the stored_digest) stored_example (lit ''a.py'') ha = (hb, Inr m0)"
    for ha hb m0 using example_import [OF that] example_import [OF again] by (rule trans [OF _ sym])
  have fields: "se_key example_session = lit ''k''" "se_digest example_session = the stored_digest" "se_manifest example_session = stored_example"
    "v_texts example_env = example_texts"
    by (simp_all add: example_session_def example_env_def)
  have "\<exists>found d. discover_scripts m (se_prefix example_session) = Inr found \<and> d \<in> set found \<and> identity_of d = record_identity rec \<and>
    resolve_script_class (v_python example_env) (v_texts example_env) (v_core example_env) example_runtime [] (se_key example_session)
      (se_digest example_session) (se_manifest example_session) (JList (pr_records pr)) (record_identity rec) example_host = (h', Inr (d_cls d))"
  proof (rule recorded_scripts_resolve [OF run _ rec(1) own])
    show "discover_scripts m (se_prefix example_session) = discover_scripts m0 (se_prefix example_session)"
      if "import_script_file (v_python example_env) (v_texts example_env) example_runtime [] (se_key example_session) (se_digest example_session)
        (se_manifest example_session) (json_text (json_field rec ''script_file_path'')) ha = (hb, Inr m0)" for ha hb m0
      using same that by (simp only: fields rec(2) example_env_simps)
  qed (use again in \<open>simp_all only: fields rec(2) example_env_simps list.set ball_simps fst_conv\<close>, simp)
  then show ?thesis using run rec(1) unfolding fields example_env_simps by blast
qed

end
