(* ===== verification/Execution.thy ===== *)
theory Execution
  imports Resolution
begin

text \<open>
  execution.py, with the parts of branching.py it stands on: the context one Script run happens inside.
  The class is loaded in a session of its revision, the run happens in transactions on the default
  database and on the one the router sends change-logged writes to, and what the script raises reaches
  its log before it reaches the caller.

  A script is a parameter that may change the whole state, and so are the request processors other
  plugins register, the router and the outcome of a commit.
\<close>

section \<open>State\<close>

datatype probe_problem = ProbeApiUnavailable | ProbeReportFailed | ProbeNotRouted

datatype run_line =
    ScriptLine pystr
  | ProbeWarning probe_problem
  | Stopped raised
  | ExceptionOccurred raised
  | RevertedDryRun
  | RevertedUnfinished

text \<open>
  What a run touches: the content of each database, the branch selected in this context, the current
  request, the events queued for it, the log and the output of the script instance.
\<close>

record ('d, 'q) run_state =
  g_dbs :: "string \<Rightarrow> 'd"
  g_branch :: "pystr option"
  g_request :: "'q option"
  g_events :: "pystr list"
  g_log :: "run_line list"
  g_output :: "json option"

text \<open>
  NetBox Branching and the database as the run meets them: whether \<open>active_branch\<close> and
  \<open>deactivate_branch\<close> can be imported, the alias the router names for a write to the probe model under a
  selected branch, and what a commit of an alias does, given its content before and after.  A connection
  marked for rollback rolls back silently; a deferred constraint makes the commit itself raise.
\<close>

datatype commit_outcome = Committed | RolledBack | CommitFails raised

record 'd run_env =
  n_branching :: branching_api
  n_active_branch_api :: bool
  n_deactivation_api :: bool
  n_route :: "pystr option \<Rightarrow> string"
  n_commit :: "string \<Rightarrow> 'd \<Rightarrow> 'd \<Rightarrow> commit_outcome"
  n_refusal :: "probe_problem \<Rightarrow> pystr \<Rightarrow> pystr"

type_synonym ('d, 'q, 'a) run = "('d, 'q) run_state \<Rightarrow> ('d, 'q) run_state \<times> (raised + 'a)"

section \<open>Branch routing of a run\<close>

definition PROBE_MODEL :: string where "PROBE_MODEL = ''device''"

definition probe_unusable_reason :: "'d run_env \<Rightarrow> string \<Rightarrow> probe_problem option" where
  "probe_unusable_reason H model =
     (case n_branching H of
        NotInstalled \<Rightarrow> None
      | NoInspectionApi \<Rightarrow> Some ProbeApiUnavailable
      | InspectionApi supports \<Rightarrow> (case supports model of
            Inl _ \<Rightarrow> Some ProbeReportFailed
          | Inr True \<Rightarrow> None
          | Inr False \<Rightarrow> Some ProbeNotRouted))"

definition active_branch_name :: "'d run_env \<Rightarrow> ('d, 'q) run_state \<Rightarrow> pystr option" where
  "active_branch_name H s = (if n_branching H = NotInstalled \<or> \<not> n_active_branch_api H then None else g_branch s)"

definition main_schema_only :: "'d run_env \<Rightarrow> ('d, 'q, 'a) run \<Rightarrow> ('d, 'q, 'a) run" where
  "main_schema_only H body s =
     (if n_branching H = NotInstalled \<or> \<not> n_deactivation_api H then body s
      else (case body (s\<lparr>g_branch := None\<rparr>) of (s', r) \<Rightarrow> (s'\<lparr>g_branch := g_branch s\<rparr>, r)))"

section \<open>The transactions\<close>

text \<open>\<open>_DryRunRollback\<close> is an exception nothing outside the module sees.\<close>

datatype escape = Raised raised | DryRunRollback

definition atomic :: "'d run_env \<Rightarrow> string \<Rightarrow> (('d, 'q) run_state \<Rightarrow> ('d, 'q) run_state \<times> (escape + unit)) \<Rightarrow>
    ('d, 'q) run_state \<Rightarrow> ('d, 'q) run_state \<times> (escape + unit)" where
  "atomic H alias_name body s =
     (case body s of (s', r) \<Rightarrow>
        let reverted = s'\<lparr>g_dbs := (g_dbs s')(alias_name := g_dbs s alias_name)\<rparr>
        in case r of
             Inl e \<Rightarrow> (reverted, Inl e)
           | Inr u \<Rightarrow> (case n_commit H alias_name (g_dbs s alias_name) (g_dbs s' alias_name) of
                 Committed \<Rightarrow> (s', Inr u)
               | RolledBack \<Rightarrow> (reverted, Inr u)
               | CommitFails x \<Rightarrow> (reverted, Inl (Raised x))))"

definition call_script :: "(bool \<Rightarrow> ('d, 'q, json) run) \<Rightarrow> bool \<Rightarrow> ('d, 'q) run_state \<Rightarrow> ('d, 'q) run_state \<times> (escape + unit)" where
  "call_script script commit s =
     (case script commit s of
        (s', Inl x) \<Rightarrow> (s', Inl (Raised x))
      | (s', Inr output) \<Rightarrow> (s'\<lparr>g_output := Some output\<rparr>, if \<not> commit then Inl DryRunRollback else Inr ()))"

text \<open>The probe and the two transactions: the inner \<open>try\<close> of \<open>_execute\<close>.\<close>

definition improperly_configured :: "pystr \<Rightarrow> raised" where
  "improperly_configured t = \<lparr>x_classes = [ExceptionC], x_type = lit ''ImproperlyConfigured'', x_text = t, x_name = None,
     x_detail_message = None, x_frames = []\<rparr>"

definition call_in_transactions ::
    "'d run_env \<Rightarrow> (bool \<Rightarrow> ('d, 'q, json) run) \<Rightarrow> bool \<Rightarrow> ('d, 'q) run_state \<Rightarrow> ('d, 'q) run_state \<times> (escape + unit)" where
  "call_in_transactions H script commit s =
     (let proceed = (\<lambda>s. let alias_name = n_route H (g_branch s)
            in atomic H DEFAULT_DB_ALIAS
                 (if alias_name \<noteq> DEFAULT_DB_ALIAS then atomic H alias_name (call_script script commit) else call_script script commit) s)
      in case probe_unusable_reason H PROBE_MODEL of
           None \<Rightarrow> proceed s
         | Some reason \<Rightarrow> (case active_branch_name H s of
               Some branch \<Rightarrow> (s, Inl (Raised (improperly_configured (n_refusal H reason branch))))
             | None \<Rightarrow> proceed (s\<lparr>g_log := g_log s @ [ProbeWarning reason]\<rparr>)))"

section \<open>The run log\<close>

definition ABORT_EXCEPTIONS :: "exc_class list" where
  "ABORT_EXCEPTIONS = [ControlC ''AbortScript'', ControlC ''LegacyAbortScript'']"

definition log_failure :: "raised \<Rightarrow> run_line" where
  "log_failure x = (if is_instance x ABORT_EXCEPTIONS then Stopped x else ExceptionOccurred x)"

definition execute_script :: "'d run_env \<Rightarrow> (bool \<Rightarrow> ('d, 'q, json) run) \<Rightarrow> bool \<Rightarrow> 'q option \<Rightarrow> ('d, 'q, unit) run" where
  "execute_script H script commit request s =
     (case call_in_transactions H script commit s of
        (s', Inr u) \<Rightarrow> (s', Inr u)
      | (s', Inl DryRunRollback) \<Rightarrow> (s'\<lparr>g_log := g_log s' @ [RevertedDryRun]\<rparr>, Inr ())
      | (s', Inl (Raised x)) \<Rightarrow>
          if is_instance x [ExceptionC]
          then (s'\<lparr>g_log := g_log s' @ [log_failure x, RevertedUnfinished],
                 g_events := (if request \<noteq> None then [] else g_events s')\<rparr>, Inl x)
          else (s', Inl x))"

section \<open>The processors\<close>

text \<open>
  A request processor is a context manager of another plugin or of core.  Its exit sees the exception
  that is leaving the block and may replace or swallow it.
\<close>

record ('d, 'q) processor =
  c_event_tracking :: bool
  c_enter :: "'q option \<Rightarrow> ('d, 'q, unit) run"
  c_exit :: "raised option \<Rightarrow> ('d, 'q) run_state \<Rightarrow> ('d, 'q) run_state \<times> raised option"

fun with_processors :: "bool \<Rightarrow> 'q option \<Rightarrow> ('d, 'q) processor list \<Rightarrow> ('d, 'q, unit) run \<Rightarrow> ('d, 'q, unit) run" where
  "with_processors commit request [] body s = body s"
| "with_processors commit request (p # ps) body s =
     (if \<not> commit \<and> c_event_tracking p then with_processors commit request ps body s
      else case c_enter p request s of
          (s1, Inl x) \<Rightarrow> if \<not> is_instance x [ExceptionC] \<or> c_event_tracking p then (s1, Inl x)
            else with_processors commit request ps body s1
        | (s1, Inr _) \<Rightarrow> (case with_processors commit request ps body s1 of (s2, r) \<Rightarrow>
            (case c_exit p (case r of Inl x \<Rightarrow> Some x | Inr _ \<Rightarrow> None) s2 of
               (s3, None) \<Rightarrow> (s3, Inr ())
             | (s3, Some x) \<Rightarrow> (s3, Inl x))))"

definition run_script ::
    "'d run_env \<Rightarrow> ('d, 'q) processor list \<Rightarrow> (bool \<Rightarrow> ('d, 'q, json) run) \<Rightarrow> bool \<Rightarrow> 'q option \<Rightarrow> ('d, 'q, unit) run" where
  "run_script H processors script commit request s =
     (case with_processors commit request processors (main_schema_only H (execute_script H script commit request)) s of
        (s', r) \<Rightarrow> (s'\<lparr>g_request := g_request s\<rparr>, r))"

section \<open>What a run leaves behind\<close>

text \<open>One transaction: on an exception its database is as before, and otherwise the commit decides.\<close>

lemma atomic_other: "atomic H a body s = (s', r) \<Longrightarrow> body s = (s1, r1) \<Longrightarrow> b \<noteq> a \<Longrightarrow> g_dbs s' b = g_dbs s1 b"
  by (auto simp: atomic_def Let_def split: sum.splits commit_outcome.splits)

lemma atomic_rest:
  "atomic H a body s = (s', r) \<Longrightarrow> body s = (s1, r1) \<Longrightarrow>
     g_log s' = g_log s1 \<and> g_output s' = g_output s1 \<and> g_branch s' = g_branch s1 \<and> g_events s' = g_events s1"
  by (auto simp: atomic_def Let_def split: sum.splits commit_outcome.splits)

lemma atomic_InrD:
  assumes "atomic H a body s = (s', Inr u)"
  obtains s1 where "body s = (s1, Inr u)" "n_commit H a (g_dbs s a) (g_dbs s1 a) = Committed" "s' = s1"
    | s1 where "body s = (s1, Inr u)" "n_commit H a (g_dbs s a) (g_dbs s1 a) = RolledBack" "g_dbs s' a = g_dbs s a"
  using assms by (auto simp: atomic_def Let_def split: prod.splits sum.splits commit_outcome.splits)

lemma atomic_InlD:
  assumes "atomic H a body s = (s', Inl e)"
  shows "g_dbs s' a = g_dbs s a"
    and "(\<exists>s1. body s = (s1, Inl e)) \<or> (\<exists>s1 u x. body s = (s1, Inr u) \<and> n_commit H a (g_dbs s a) (g_dbs s1 a) = CommitFails x \<and> e = Raised x)"
  using assms by (auto simp: atomic_def Let_def split: prod.splits sum.splits commit_outcome.splits)

text \<open>The nest: what each of the two databases holds when the run is over.\<close>

definition split_commit :: "'d run_env \<Rightarrow> string \<Rightarrow> (string \<Rightarrow> 'd) \<Rightarrow> (string \<Rightarrow> 'd) \<Rightarrow> bool" where
  "split_commit H a before_run after_run \<longleftrightarrow> a \<noteq> DEFAULT_DB_ALIAS \<and> n_commit H a (before_run a) (after_run a) = Committed \<and>
     (\<exists>x d. n_commit H DEFAULT_DB_ALIAS (before_run DEFAULT_DB_ALIAS) d = CommitFails x)"

lemma nested_reverts:
  assumes "atomic H DEFAULT_DB_ALIAS (if a \<noteq> DEFAULT_DB_ALIAS then atomic H a (call_script script commit) else call_script script commit) s = (s', Inl e)"
  shows "g_dbs s' DEFAULT_DB_ALIAS = g_dbs s DEFAULT_DB_ALIAS \<and> (g_dbs s' a = g_dbs s a \<or> split_commit H a (g_dbs s) (g_dbs s'))"
proof (cases "a = DEFAULT_DB_ALIAS")
  case True
  then show ?thesis using atomic_InlD(1) [OF assms] by simp
next
  case False
  note outer = assms [simplified False, simplified]
  obtain s1 r1 where inner: "atomic H a (call_script script commit) s = (s1, r1)" by (cases "atomic H a (call_script script commit) s")
  have same: "g_dbs s' a = g_dbs s1 a" by (rule atomic_other [OF outer inner False])
  have "g_dbs s1 a = g_dbs s a \<or> split_commit H a (g_dbs s) (g_dbs s')"
  proof (cases r1)
    case (Inl e1)
    then show ?thesis using atomic_InlD(1) inner by blast
  next
    case (Inr u)
    then obtain x where fails: "n_commit H DEFAULT_DB_ALIAS (g_dbs s DEFAULT_DB_ALIAS) (g_dbs s1 DEFAULT_DB_ALIAS) = CommitFails x"
      using atomic_InlD(2) [OF outer] inner by auto
    from inner [unfolded Inr] show ?thesis
      by (cases rule: atomic_InrD) (use fails False same in \<open>auto simp: split_commit_def\<close>)
  qed
  then show ?thesis using atomic_InlD(1) [OF outer] same by simp
qed

lemma call_dry: "\<exists>e. snd (call_script script False s) = Inl e"
  by (cases "script False s") (auto simp: call_script_def split: sum.splits)

lemma atomic_Inl: "snd (body s) = Inl e \<Longrightarrow> snd (atomic H a body s) = Inl e"
  by (cases "body s") (simp add: atomic_def Let_def)

text \<open>The state the script is called in.\<close>

definition called :: "'d run_env \<Rightarrow> ('d, 'q) run_state \<Rightarrow> ('d, 'q) run_state" where
  "called H s = (case probe_unusable_reason H PROBE_MODEL of None \<Rightarrow> s | Some reason \<Rightarrow> s\<lparr>g_log := g_log s @ [ProbeWarning reason]\<rparr>)"

lemma called_simps [simp]: "g_dbs (called H s) = g_dbs s" "g_branch (called H s) = g_branch s"
  by (simp_all add: called_def split: option.split)

lemma call_in_transactions_cases:
  obtains (refused) reason branch where "probe_unusable_reason H PROBE_MODEL = Some reason" "active_branch_name H s = Some branch"
      "call_in_transactions H script commit s = (s, Inl (Raised (improperly_configured (n_refusal H reason branch))))"
    | (proceeds) a where "a = n_route H (g_branch s)" "call_in_transactions H script commit s = atomic H DEFAULT_DB_ALIAS
        (if a \<noteq> DEFAULT_DB_ALIAS then atomic H a (call_script script commit) else call_script script commit) (called H s)"
  by (cases "probe_unusable_reason H PROBE_MODEL"; cases "active_branch_name H s")
    (auto simp: call_in_transactions_def called_def Let_def)

lemma call_reverts:
  assumes "call_in_transactions H script commit s = (s', Inl e)"
  shows "g_dbs s' DEFAULT_DB_ALIAS = g_dbs s DEFAULT_DB_ALIAS \<and>
    (g_dbs s' (n_route H (g_branch s)) = g_dbs s (n_route H (g_branch s)) \<or> split_commit H (n_route H (g_branch s)) (g_dbs s) (g_dbs s'))"
proof (cases rule: call_in_transactions_cases [where H = H and s = s and script = script and commit = commit])
  case (proceeds a)
  show ?thesis using nested_reverts [OF assms [unfolded proceeds(2)]] by (simp add: proceeds(1))
qed (use assms in simp)

lemma call_dry_raises: "\<exists>e. snd (call_in_transactions H script False s) = Inl e"
proof (cases rule: call_in_transactions_cases [where H = H and s = s and script = script and commit = False])
  case (proceeds a)
  obtain e where "snd (call_script script False (called H s)) = Inl e" using call_dry by blast
  then have "snd ((if a \<noteq> DEFAULT_DB_ALIAS then atomic H a (call_script script False) else call_script script False) (called H s)) = Inl e"
    by (simp add: atomic_Inl)
  then show ?thesis unfolding proceeds(2) using atomic_Inl by blast
qed simp

lemma committed_run_no_rollback:
  assumes "call_in_transactions H script True s = (s', r)"
  shows "r \<noteq> Inl DryRunRollback"
proof (cases rule: call_in_transactions_cases [where H = H and s = s and script = script and commit = True])
  case (proceeds a)
  have call: "snd (call_script script True s) \<noteq> Inl DryRunRollback" for s
    by (cases "script True s") (auto simp: call_script_def split: sum.splits)
  have atomic: "snd (atomic H b body s) \<noteq> Inl DryRunRollback" if "\<And>s. snd (body s) \<noteq> Inl DryRunRollback" for b body s
    using that [of s] by (auto simp: atomic_def Let_def split: prod.splits sum.splits commit_outcome.splits)
  have "snd (call_in_transactions H script True s) \<noteq> Inl DryRunRollback"
    unfolding proceeds(2) by (rule atomic) (simp add: atomic call)
  then show ?thesis using assms by simp
qed (use assms in simp)

lemma call_succeeds:
  assumes "call_in_transactions H script commit s = (s', Inr u)"
  obtains s1 out where "script True (called H s) = (s1, Inr out)" "commit" "g_output s' = Some out"
    "\<forall>b \<in> {DEFAULT_DB_ALIAS, n_route H (g_branch s)}. g_dbs s' b = g_dbs s1 b \<or>
       g_dbs s' b = g_dbs s b \<and> n_commit H b (g_dbs s b) (g_dbs s1 b) = RolledBack"
proof (cases rule: call_in_transactions_cases [where H = H and s = s and script = script and commit = commit])
  case (proceeds a)
  have commit: "commit" using call_dry_raises [of H script s] assms by (cases commit) auto
  have done_once: "\<exists>out s0. script True (called H s) = (s0, Inr out) \<and> s1 = s0\<lparr>g_output := Some out\<rparr>"
    if "call_script script commit (called H s) = (s1, Inr v)" for s1 v
    using that commit by (auto simp: call_script_def split: prod.splits sum.splits)
  note run = assms [unfolded proceeds(2)]
  show ?thesis
  proof (cases "a = DEFAULT_DB_ALIAS")
    case True
    note one = run [simplified True, simplified]
    obtain s1 r1 where c: "call_script script commit (called H s) = (s1, r1)" by (cases "call_script script commit (called H s)")
    from one have r1: "r1 = Inr u" by (cases rule: atomic_InrD) (simp_all add: c)
    from done_once [OF c [unfolded r1]] obtain out s0 where s0: "script True (called H s) = (s0, Inr out)" "s1 = s0\<lparr>g_output := Some out\<rparr>" by blast
    have "g_output s' = Some out" using atomic_rest [OF one c] s0 by simp
    moreover have "g_dbs s' a = g_dbs s0 a \<or> g_dbs s' a = g_dbs s a \<and> n_commit H a (g_dbs s a) (g_dbs s0 a) = RolledBack"
      using one by (cases rule: atomic_InrD) (use c s0 True in auto)
    ultimately show ?thesis using that [OF s0(1) commit] proceeds(1) True by simp
  next
    case False
    note outer = run [simplified False, simplified]
    obtain s2 r2 where i: "atomic H a (call_script script commit) (called H s) = (s2, r2)"
      by (cases "atomic H a (call_script script commit) (called H s)")
    from outer have r2: "r2 = Inr u" by (cases rule: atomic_InrD) (simp_all add: i)
    note inner = i [unfolded r2]
    obtain s1 r1 where c: "call_script script commit (called H s) = (s1, r1)" by (cases "call_script script commit (called H s)")
    from inner have r1: "r1 = Inr u" by (cases rule: atomic_InrD) (simp_all add: c)
    from done_once [OF c [unfolded r1]] obtain out s0 where s0: "script True (called H s) = (s0, Inr out)" "s1 = s0\<lparr>g_output := Some out\<rparr>" by blast
    have "g_output s' = Some out" using atomic_rest [OF outer inner] atomic_rest [OF inner c] s0 by simp
    moreover have "g_dbs s' a = g_dbs s0 a \<or> g_dbs s' a = g_dbs s a \<and> n_commit H a (g_dbs s a) (g_dbs s0 a) = RolledBack"
      using inner by (cases rule: atomic_InrD) (use c s0 atomic_other [OF outer inner False] in auto)
    moreover have d: "g_dbs s2 DEFAULT_DB_ALIAS = g_dbs s0 DEFAULT_DB_ALIAS" using atomic_other [OF inner c, of DEFAULT_DB_ALIAS] False s0 by simp
    from outer have "g_dbs s' DEFAULT_DB_ALIAS = g_dbs s0 DEFAULT_DB_ALIAS \<or> g_dbs s' DEFAULT_DB_ALIAS = g_dbs s DEFAULT_DB_ALIAS \<and>
        n_commit H DEFAULT_DB_ALIAS (g_dbs s DEFAULT_DB_ALIAS) (g_dbs s0 DEFAULT_DB_ALIAS) = RolledBack"
      by (cases rule: atomic_InrD) (use inner d in auto)
    ultimately show ?thesis using that [OF s0(1) commit] proceeds(1) by simp
  qed
qed (use assms in simp)

lemma execute_outcome:
  assumes run: "execute_script H script commit request s = (s', r)"
  shows "\<not> commit \<or> r \<noteq> Inr () \<longrightarrow> g_dbs s' DEFAULT_DB_ALIAS = g_dbs s DEFAULT_DB_ALIAS \<and>
      (g_dbs s' (n_route H (g_branch s)) = g_dbs s (n_route H (g_branch s)) \<or> split_commit H (n_route H (g_branch s)) (g_dbs s) (g_dbs s'))"
      (is "_ \<longrightarrow> ?reverted")
    and "commit \<and> r = Inr () \<longrightarrow> (\<exists>s0 s1 out. g_dbs s0 = g_dbs s \<and> script True s0 = (s1, Inr out) \<and> g_output s' = Some out \<and>
      (\<forall>b \<in> {DEFAULT_DB_ALIAS, n_route H (g_branch s)}. g_dbs s' b = g_dbs s1 b \<or>
         g_dbs s' b = g_dbs s b \<and> n_commit H b (g_dbs s b) (g_dbs s1 b) = RolledBack))" (is "_ \<longrightarrow> ?kept")
    and "\<not> commit \<and> r = Inr () \<longrightarrow> (\<exists>lines. g_log s' = lines @ [RevertedDryRun])"
    and "r = Inl x \<and> is_instance x [ExceptionC] \<longrightarrow> (\<exists>lines. g_log s' = lines @ [log_failure x, RevertedUnfinished])"
proof -
  obtain s1 r1 where call: "call_in_transactions H script commit s = (s1, r1)" by (cases "call_in_transactions H script commit s")
  note run' = run [unfolded execute_script_def call]
  have raised: "\<exists>e. r1 = Inl e" if "\<not> commit" using call_dry_raises [of H script s] call that by auto
  have same: "g_dbs s' = g_dbs s1" using run' by (auto split: sum.splits escape.splits if_splits)
  have "?reverted" if bad: "\<not> commit \<or> r \<noteq> Inr ()"
  proof -
    obtain e where "r1 = Inl e" using bad raised run' by (cases r1) auto
    from call_reverts [OF call [unfolded this]] show ?thesis by (simp add: same)
  qed
  then show "\<not> commit \<or> r \<noteq> Inr () \<longrightarrow> ?reverted" by blast
  have "?kept" if ok: "commit \<and> r = Inr ()"
  proof -
    have "r1 \<noteq> Inl DryRunRollback" using committed_run_no_rollback [of H script s s1 r1] call ok by simp
    then have r1: "r1 = Inr ()" "s' = s1" using run' ok by (auto split: sum.splits escape.splits if_splits)
    show ?thesis by (rule call_succeeds [OF call [unfolded r1(1)]]) (use r1(2) called_simps(1) in blast)
  qed
  then show "commit \<and> r = Inr () \<longrightarrow> ?kept" by blast
  show "\<not> commit \<and> r = Inr () \<longrightarrow> (\<exists>lines. g_log s' = lines @ [RevertedDryRun])"
    using run' raised by (auto split: sum.splits escape.splits if_splits)
  show "r = Inl x \<and> is_instance x [ExceptionC] \<longrightarrow> (\<exists>lines. g_log s' = lines @ [log_failure x, RevertedUnfinished])"
    using run' by (auto split: sum.splits escape.splits if_splits)
qed


text \<open>A script that stores one and then aborts, and its dry run without the abort.\<close>

definition example_run_env :: "nat run_env" where
  "example_run_env = \<lparr>n_branching = NotInstalled, n_active_branch_api = False, n_deactivation_api = False, n_route = (\<lambda>b. DEFAULT_DB_ALIAS),
     n_commit = (\<lambda>a d d'. Committed), n_refusal = (\<lambda>p b. [])\<rparr>"

definition example_abort :: raised where
  "example_abort = \<lparr>x_classes = [ExceptionC, ControlC ''AbortScript''], x_type = lit ''AbortScript'', x_text = [], x_name = None,
     x_detail_message = None, x_frames = []\<rparr>"

definition example_script :: "bool \<Rightarrow> (nat, unit, json) run" where
  "example_script commit s = (s\<lparr>g_dbs := (g_dbs s)(DEFAULT_DB_ALIAS := 1), g_log := g_log s @ [ScriptLine (lit ''x'')]\<rparr>,
     if commit then Inl example_abort else Inr JNull)"

definition example_run_state :: "(nat, unit) run_state" where
  "example_run_state = \<lparr>g_dbs = (\<lambda>a. 0), g_branch = None, g_request = None, g_events = [], g_log = [], g_output = None\<rparr>"


end
