(* ===== verification/Runs.thy ===== *)
theory Runs
  imports Execution Cleanup
begin

text \<open>
  Script classes in use: \<open>script_class_context\<close> of execution.py, which loads the class of a row for a
  form, and \<open>NetBoxScriptJob.run\<close> of jobs.py, which runs the class a Job was pinned to.  Both work in a
  session of the revision's namespace and unload it on every path, and both pass what they report
  through the sanitizer.
\<close>

section \<open>Definitions\<close>

text \<open>The texts of the errors involved, as \<open>str(error)\<close> and the message templates give them.\<close>

record run_texts =
  t_failure :: "resolution_failure \<Rightarrow> pystr"
  t_raised :: "raised \<Rightarrow> pystr"
  t_session :: "py_error \<Rightarrow> pystr"

text \<open>Which failures RESOLUTION_FAILURES and LOAD_FAILURES name.\<close>

fun content_error :: "py_error \<Rightarrow> bool" where
  "content_error (DiscoveryError _) = True"
| "content_error (RevisionCorrupt _) = True"
| "content_error ScriptFileImportError = True"
| "content_error (ScriptMetadataError _) = True"
| "content_error (ScriptResolutionError _) = True"
| "content_error _ = False"

fun is_resolution_failure :: "resolution_failure \<Rightarrow> bool" where
  "is_resolution_failure (Unresolved code name) = True"
| "is_resolution_failure (BadSnapshot e) = content_error e"
| "is_resolution_failure (BadImport (NotImportable path code)) = True"
| "is_resolution_failure (BadImport (Checked e)) = content_error e"
| "is_resolution_failure (BadImport (ImportFailed detail cause)) = True"
| "is_resolution_failure (BadImport (Unwrapped x)) = False"
| "is_resolution_failure (BadDiscovery e) = content_error e"

definition storage_or_os :: "py_error \<Rightarrow> bool" where
  "storage_or_os e \<longleftrightarrow> is_storage_error e \<or> is_os_error e"

fun is_store_failure :: "resolution_failure \<Rightarrow> bool" where
  "is_store_failure (Unresolved code name) = False"
| "is_store_failure (BadSnapshot e) = storage_or_os e"
| "is_store_failure (BadImport (NotImportable path code)) = False"
| "is_store_failure (BadImport (Checked e)) = storage_or_os e"
| "is_store_failure (BadImport (ImportFailed detail cause)) = False"
| "is_store_failure (BadImport (Unwrapped x)) = is_instance x [StorageErrorC, OSErrorC]"
| "is_store_failure (BadDiscovery e) = storage_or_os e"

definition is_load_failure :: "resolution_failure \<Rightarrow> bool" where
  "is_load_failure f \<longleftrightarrow> is_resolution_failure f \<or> is_store_failure f"

text \<open>The namespace the session holds, and the unloading in its \<open>finally\<close> clause.\<close>

definition session_digest :: "revision \<Rightarrow> pystr" where
  "session_digest r = (case r_digest r of None \<Rightarrow> lit ''None'' | Some x \<Rightarrow> x)"

definition in_session :: "python \<Rightarrow> pystr \<Rightarrow> pystr \<Rightarrow> (py_error \<Rightarrow> 'e) \<Rightarrow> (('b, 'c) host \<Rightarrow> ('b, 'c) host \<times> ('e + 'a)) \<Rightarrow>
    ('b, 'c) host \<Rightarrow> ('b, 'c) host \<times> ('e + 'a)" where
  "in_session E storage_key digest err body h =
     (case body h of (h', outcome) \<Rightarrow>
        (case unload_revision E storage_key digest (h_modules h') of
           Inl e \<Rightarrow> (h', Inl (err e))
         | Inr (modules, removed) \<Rightarrow> (h'\<lparr>h_modules := modules\<rparr>, outcome)))"

definition resolve_from_storage ::
    "('b, 'h, 'c) validation_env \<Rightarrow> exc_class list \<Rightarrow> pystr \<Rightarrow> revision \<Rightarrow> pystr \<times> pystr \<Rightarrow> ('b, 'c) host \<Rightarrow>
     ('b, 'c) host \<times> (resolution_failure + pyclass)" where
  "resolve_from_storage V passthrough storage_key r identity h =
     (case get_storage (v_service V) of
        Inl e \<Rightarrow> (h, Inl (BadImport (Checked e)))
      | Inr be \<Rightarrow> resolve_script_class (v_python V) (v_texts V) (v_core V) (v_runtime V be) passthrough storage_key (session_digest r)
          (r_manifest r) (r_discovered_scripts r) identity h)"

text \<open>How a use of a class ends otherwise than by its value.\<close>

datatype class_failure =
    NotServing
  | LoadFailed pystr
  | Escapes resolution_failure
  | SessionError py_error
  | BodyRaised raised

definition script_class_context ::
    "('b, 'h, 'c) validation_env \<Rightarrow> run_texts \<Rightarrow> revision option \<Rightarrow> pystr \<Rightarrow> pystr \<times> pystr \<Rightarrow>
     (pyclass \<Rightarrow> ('b, 'c) host \<Rightarrow> ('b, 'c) host \<times> (raised + 'a)) \<Rightarrow> ('b, 'c) host \<Rightarrow> ('b, 'c) host \<times> (class_failure + 'a)" where
  "script_class_context V T active storage_key identity body h =
     (case active of
        None \<Rightarrow> (h, Inl NotServing)
      | Some r \<Rightarrow>
          (case build_error_sanitizer (v_python V) (v_cache_root V) storage_key (session_digest r) of
             Inl e \<Rightarrow> (h, Inl (SessionError e))
           | Inr replacements \<Rightarrow>
               in_session (v_python V) storage_key (session_digest r) SessionError
                 (\<lambda>h. case resolve_from_storage V [] storage_key r identity h of
                    (h', Inl f) \<Rightarrow> (h', Inl (if is_load_failure f then LoadFailed (sanitize replacements (t_failure T f)) else Escapes f))
                  | (h', Inr cls) \<Rightarrow> (case body cls h' of (h'', Inl x) \<Rightarrow> (h'', Inl (BodyRaised x)) | (h'', Inr v) \<Rightarrow> (h'', Inr v))) h))"

section \<open>The Job\<close>

text \<open>
  The run of a Job: failed with the line its log ends with, ended by an exception that is no Exception,
  or raised before the Job could catch it.
\<close>

datatype run_failure = JobFailed pystr | TornDown raised | Uncaught py_error

record pinned_run =
  n_object :: pk
  n_revision :: "pk option"
  n_identity :: "pystr \<times> pystr"

definition pinned_revision :: "db \<Rightarrow> netbox_script option \<Rightarrow> pk option \<Rightarrow> revision option" where
  "pinned_revision d script pin =
     (case pin of
        Some k \<Rightarrow> revision_of d k
      | None \<Rightarrow> (case script of None \<Rightarrow> None | Some s \<Rightarrow>
          Option.bind (project_of d (s_project s)) (\<lambda>p. Option.bind (p_active_revision p) (revision_of d))))"

definition switched_off :: "db \<Rightarrow> netbox_script \<Rightarrow> bool" where
  "switched_off d s \<longleftrightarrow> \<not> (s_enabled s \<and> (case project_of d (s_project s) of None \<Rightarrow> False | Some p \<Rightarrow> p_enabled p))"

text \<open>\<open>run_class\<close> stands for \<open>_run_class\<close>: the class, instantiated and run in the context of execution.py.\<close>

definition run_session_job ::
    "('b, 'h, 'c) validation_env \<Rightarrow> run_texts \<Rightarrow> exc_class list \<Rightarrow> pystr \<Rightarrow> revision \<Rightarrow> (pystr \<times> pystr) list \<Rightarrow> pystr \<times> pystr \<Rightarrow>
     (pyclass \<Rightarrow> ('b, 'c) host \<Rightarrow> ('b, 'c) host \<times> (raised + unit)) \<Rightarrow> ('b, 'c) host \<Rightarrow> ('b, 'c) host \<times> (run_failure + unit)" where
  "run_session_job V T passthrough storage_key r replacements identity run_class =
     in_session (v_python V) storage_key (session_digest r) (\<lambda>e. JobFailed (sanitize replacements (t_session T e)))
       (\<lambda>h. case resolve_from_storage V passthrough storage_key r identity h of
          (h', Inl (BadImport (Unwrapped x))) \<Rightarrow>
            (h', Inl (if is_instance x [ExceptionC] then JobFailed (sanitize replacements (t_failure T (BadImport (Unwrapped x)))) else TornDown x))
        | (h', Inl f) \<Rightarrow> (h', Inl (JobFailed (sanitize replacements (t_failure T f))))
        | (h', Inr cls) \<Rightarrow>
            (case run_class cls h' of
               (h'', Inl x) \<Rightarrow> (h'', Inl (if is_instance x [ExceptionC] then JobFailed (sanitize replacements (t_raised T x)) else TornDown x))
             | (h'', Inr u) \<Rightarrow> (h'', Inr ())))"

definition script_job_run ::
    "('b, 'h, 'c) validation_env \<Rightarrow> run_texts \<Rightarrow> exc_class list \<Rightarrow> pinned_run \<Rightarrow>
     (pyclass \<Rightarrow> ('b, 'c) host \<Rightarrow> ('b, 'c) host \<times> (raised + unit)) \<Rightarrow> ('b, 'c) host \<Rightarrow> ('b, 'c) host \<times> (run_failure + unit)" where
  "script_job_run V T passthrough j run_class h =
     (let d = w_db (h_world h); script = script_of d (n_object j)
      in if unsafe_routing_reason (v_service V) \<noteq> None then (h, Inl (JobFailed (lit ''unsafe_routing'')))
         else if (case script of Some s \<Rightarrow> switched_off d s | None \<Rightarrow> False) then (h, Inl (JobFailed (lit ''disabled'')))
         else case pinned_revision d script (n_revision j) of
             None \<Rightarrow> (h, Inl (JobFailed (lit ''no_revision'')))
           | Some r \<Rightarrow>
               (case project_of d (r_project r) of
                  None \<Rightarrow> (h, Inl (Uncaught DoesNotExist))
                | Some p \<Rightarrow>
                    (case build_error_sanitizer (v_python V) (v_cache_root V) (p_storage_key p) (session_digest r) of
                       Inl e \<Rightarrow> (h, Inl (Uncaught e))
                     | Inr replacements \<Rightarrow> run_session_job V T passthrough (p_storage_key p) r replacements (n_identity j) run_class h)))"

text \<open>The record \<open>_run_class\<close> stores of a run: the messages of its log and its output, sanitized.\<close>

definition sanitized_record :: "(pystr \<times> pystr) list \<Rightarrow> (pystr option list \<times> json) \<Rightarrow> pystr option list \<times> json" where
  "sanitized_record replacements r = (map (map_option (sanitize replacements)) (fst r),
     case snd r of JStr t \<Rightarrow> JStr (sanitize replacements t) | v \<Rightarrow> v)"

section \<open>What a run leaves behind\<close>

lemma in_session_unloads:
  assumes run: "in_session E storage_key digest err body h = (h', outcome)"
    and own: "revision_module_name E storage_key digest = Inr rn" "is_hex_digest digest"
  shows "loaded_names rn (h_modules h') = []" and "\<exists>h1. body h = (h1, outcome)"
proof -
  obtain h1 r where body: "body h = (h1, r)" by (cases "body h")
  have "is_ok (unload_revision E storage_key digest ms)" for ms
    using own(1) by (auto simp: is_ok_iff unload_revision_def revision_module_name_def result_simps Let_def)
  then obtain ms removed where un: "unload_revision E storage_key digest (h_modules h1) = Inr (ms, removed)"
    by (metis is_ok_iff prod.collapse)
  have h': "h' = h1\<lparr>h_modules := ms\<rparr>" "outcome = r" using run by (simp_all add: in_session_def body un)
  show "loaded_names rn (h_modules h') = []" using unload_exact [OF un own] by (simp add: h')
  show "\<exists>h1. body h = (h1, outcome)" using body h' by blast
qed

lemma sanitizer_names:
  assumes "build_error_sanitizer E root storage_key digest = Inr replacements" "storage_key_component E storage_key = Inr storage_key"
  obtains rn where "revision_module_name E storage_key digest = Inr rn" "is_hex_digest digest"
proof -
  have "is_hex_digest digest" by (rule sanitizer_Inr [OF assms])
  moreover obtain rn where "revision_module_name E storage_key digest = Inr rn"
    using assms(1) by (auto simp: build_error_sanitizer_def result_simps)
  ultimately show ?thesis using that by blast
qed

lemma run_session_job_clean:
  assumes run: "run_session_job V T passthrough storage_key r replacements identity run_class h = (h', outcome)"
    and san: "build_error_sanitizer (v_python V) root storage_key (session_digest r) = Inr replacements"
    and key: "storage_key_component (v_python V) storage_key = Inr storage_key"
    and own: "revision_module_name (v_python V) storage_key (session_digest r) = Inr rn"
  shows "loaded_names rn (h_modules h') = [] \<and>
    (case outcome of Inr u \<Rightarrow> True | Inl (TornDown x) \<Rightarrow> \<not> is_instance x [ExceptionC] | Inl (Uncaught e) \<Rightarrow> False
       | Inl (JobFailed line) \<Rightarrow> \<forall>t \<in> set (private_tokens (v_python V) storage_key (session_digest r)). \<not> sublist t line)"
proof -
  obtain rn' where hex: "is_hex_digest (session_digest r)" by (rule sanitizer_names [OF san key])
  note out = in_session_unloads [OF run [unfolded run_session_job_def] own hex]
  have hidden: "\<forall>t \<in> set (private_tokens (v_python V) storage_key (session_digest r)). \<not> sublist t (sanitize replacements u)" for u
    using sanitized_text [OF san key] by blast
  show ?thesis
    using out hidden by (auto split: prod.splits sum.splits resolution_failure.splits import_failure.splits run_failure.splits if_splits)
qed


definition example_run_texts :: run_texts where
  "example_run_texts = \<lparr>t_failure = (\<lambda>_. uuid_str 36 @ lit '' failed''), t_raised = x_text, t_session = (\<lambda>_. [])\<rparr>"

definition example_run_host :: "(memory, unit) host" where
  "example_run_host = example_host\<lparr>h_world := (h_world example_host)\<lparr>w_db := (w_db (h_world example_host))\<lparr>
     projects := [(example_project 1)\<lparr>p_storage_key := uuid_str 36\<rparr>]\<rparr>\<rparr>\<rparr>"


end
