(* ===== verification/Launch.thy ===== *)
theory Launch
  imports Runs
begin

text \<open>
  Requesting a run: \<open>enqueue_run\<close>, \<open>enqueue\<close> and \<open>_run_now\<close> of NetBoxScriptJob in jobs.py.  A one-shot run
  is pinned to the revision its project serves when it is requested; a recurring run is pinned to nothing,
  and every occurrence runs what is served by then.
\<close>

section \<open>Definitions\<close>

text \<open>An input of a run: a file held in memory, one held in a temporary file, or a plain value.\<close>

datatype 'v input = MemoryUpload | TemporaryUpload | Plain 'v

fun is_upload :: "'v input \<Rightarrow> bool" where
  "is_upload (Plain v) = False"
| "is_upload _ = True"

record run_payload =
  y_revision :: "pk option"
  y_digest :: "pystr option"
  y_module_path :: pystr
  y_class_name :: pystr
  y_commit :: bool
  y_event :: json

text \<open>
  The keyword arguments of \<open>enqueue\<close>.  An option is None when the argument is absent; the interval is
  the number of minutes, with 0 for none, and the objects are those NetBox core hands over.
\<close>

record 'v enqueue_call =
  a_immediate :: bool
  a_instance :: "pk option"
  a_schedule_at :: "time option"
  a_interval :: nat
  a_inherited :: "bool option"
  a_notifications :: "pystr option option"
  a_job_timeout :: "json option"
  a_revision :: "pk option"
  a_digest :: "pystr option"
  a_module_path :: "pystr option"
  a_class_name :: "pystr option"
  a_commit :: "bool option"
  a_event :: json
  a_data :: "(pystr \<times> 'v input) list"
  a_files :: "'v input list"

record job_row =
  b_object :: pk
  b_schedule_at :: "time option"
  b_interval :: nat
  b_notifications :: "pystr option"
  b_timeout :: json
  b_data :: run_payload

datatype launch_failure = Refuses py_error | NotExecutable string

definition given :: "'a option \<Rightarrow> 'a \<Rightarrow> 'a" where
  "given v dflt = (case v of None \<Rightarrow> dflt | Some x \<Rightarrow> x)"

text \<open>\<open>_row_data\<close>: the payload without the snapshots of an event.\<close>

definition row_event :: "json \<Rightarrow> json" where
  "row_event event = (case event of JObj kvs \<Rightarrow> JObj (filter (\<lambda>kv. fst kv \<noteq> lit ''snapshots'') kvs) | v \<Rightarrow> v)"

definition row_data :: "run_payload \<Rightarrow> run_payload" where
  "row_data y = y\<lparr>y_event := row_event (y_event y)\<rparr>"

text \<open>
  \<open>enqueue\<close>: the row NetBox core inserts in one transaction with its payload, and the arguments as they
  were completed, which the task carries and the successor of a recurring run is enqueued with.
\<close>

definition call_payload :: "netbox_script \<Rightarrow> 'v enqueue_call \<Rightarrow> run_payload" where
  "call_payload s a = \<lparr>y_revision = (if a_interval a \<noteq> 0 then None else a_revision a),
     y_digest = (if a_interval a \<noteq> 0 then None else a_digest a),
     y_module_path = given (a_module_path a) (s_module_path s), y_class_name = given (a_class_name a) (s_class_name s),
     y_commit = given (a_commit a) (commit_default s), y_event = a_event a\<rparr>"

definition completed_call :: "netbox_script \<Rightarrow> json \<Rightarrow> pystr \<Rightarrow> 'v enqueue_call \<Rightarrow> 'v enqueue_call" where
  "completed_call s timeout policy a =
     (let inherited = (a_interval a \<noteq> 0 \<and> given (a_inherited a) True); y = call_payload s a
      in a\<lparr>a_instance := Some (s_id s), a_job_timeout := Some (given (a_job_timeout a) timeout),
        a_notifications := Some (if inherited then Some policy else given (a_notifications a) (Some policy)),
        a_revision := y_revision y, a_digest := y_digest y, a_module_path := Some (y_module_path y),
        a_class_name := Some (y_class_name y), a_commit := Some (y_commit y)\<rparr>)"

definition call_uploads :: "'v enqueue_call \<Rightarrow> 'v input list" where
  "call_uploads a = map snd (a_data a) @ a_files a"

definition call_row :: "netbox_script \<Rightarrow> 'v enqueue_call \<Rightarrow> job_row" where
  "call_row s a = \<lparr>b_object = s_id s, b_schedule_at = a_schedule_at a, b_interval = a_interval a,
     b_notifications = given (a_notifications a) None, b_timeout = given (a_job_timeout a) JNull,
     b_data = row_data (call_payload s a)\<rparr>"

definition enqueue :: "netbox_core \<Rightarrow> db \<Rightarrow> 'v enqueue_call \<Rightarrow> (job_row \<times> 'v enqueue_call) result" where
  "enqueue N d a =
     (if a_immediate a then Inl ValueError
      else case Option.bind (a_instance a) (script_of d) of
        None \<Rightarrow> Inl (ValidationError [''script''])
      | Some s \<Rightarrow>
          let inherited = (a_interval a \<noteq> 0 \<and> given (a_inherited a) True)
          in rbind (run_settings N (if inherited then None else given (a_notifications a) None) s) (\<lambda>(timeout, policy).
            let b = completed_call s timeout policy a
            in if a_interval a \<noteq> 0 \<and> list_ex is_upload (call_uploads a) then Inl (ValidationError [''recurring_upload''])
               else if TemporaryUpload \<in> set (call_uploads a) then Inl (ValidationError [''temporary_upload''])
               else Inr (call_row s b, b)))"

text \<open>What a successor is enqueued with: NetBox core repeats the task's arguments, the row's notifications and its interval.\<close>

definition successor_call :: "time \<Rightarrow> job_row \<Rightarrow> 'v enqueue_call \<Rightarrow> 'v enqueue_call" where
  "successor_call at row a = a\<lparr>a_schedule_at := Some at, a_interval := b_interval row, a_notifications := Some (b_notifications row)\<rparr>"

text \<open>
  \<open>_run_now\<close>: the row is committed, then \<open>handle\<close> runs the script in this process; it ends the row for
  every Exception, so only what tears the process down can find it still open.
\<close>

datatype core_status = JobPending | JobScheduled | JobRunning | JobCompleted | JobErrored | JobFailedStatus

definition terminal_status :: "core_status \<Rightarrow> bool" where
  "terminal_status s \<longleftrightarrow> s \<in> {JobCompleted, JobErrored, JobFailedStatus}"

definition run_now :: "bool \<Rightarrow> netbox_script \<Rightarrow> pystr \<Rightarrow> run_payload \<Rightarrow> (job_row \<Rightarrow> core_status \<times> raised option) \<Rightarrow>
    (job_row \<times> core_status \<times> raised option) result" where
  "run_now in_transaction s policy y handle =
     (let row = \<lparr>b_object = s_id s, b_schedule_at = None, b_interval = 0, b_notifications = Some policy, b_timeout = JNull,
            b_data = row_data y\<rparr>
      in if in_transaction then Inl RuntimeError
         else case handle row of
             (status, None) \<Rightarrow> Inr (row, status, None)
           | (status, Some x) \<Rightarrow> Inr (row, if terminal_status status then status else JobErrored, Some x))"

text \<open>\<open>enqueue_run\<close>, up to the call that inserts the row.\<close>

datatype 'v launch = Queue "'v enqueue_call" | Now pystr run_payload

record 'v run_request =
  q_data :: "(pystr \<times> 'v input) list"
  q_files :: "'v input list"
  q_commit :: bool
  q_schedule_at :: "time option"
  q_interval :: nat
  q_notifications :: "pystr option"
  q_event :: json
  q_immediate :: bool

definition request_payload :: "netbox_script \<Rightarrow> revision option \<Rightarrow> 'v run_request \<Rightarrow> run_payload" where
  "request_payload s served q = \<lparr>y_revision = map_option r_id served, y_digest = Option.bind served r_digest,
     y_module_path = s_module_path s, y_class_name = s_class_name s, y_commit = q_commit q, y_event = q_event q\<rparr>"

definition request_call :: "netbox_script \<Rightarrow> json \<Rightarrow> pystr \<Rightarrow> run_payload \<Rightarrow> 'v run_request \<Rightarrow> 'v enqueue_call" where
  "request_call s timeout policy y q = \<lparr>a_immediate = False, a_instance = Some (s_id s), a_schedule_at = q_schedule_at q,
     a_interval = q_interval q, a_inherited = Some (q_notifications q = None), a_notifications = Some (Some policy),
     a_job_timeout = (if json_truthy timeout then Some timeout else None), a_revision = y_revision y, a_digest = y_digest y,
     a_module_path = Some (y_module_path y), a_class_name = Some (y_class_name y), a_commit = Some (y_commit y),
     a_event = y_event y, a_data = q_data q, a_files = q_files q\<rparr>"

definition served_revision :: "db \<Rightarrow> script_project \<Rightarrow> revision option result" where
  "served_revision d p = (case p_active_revision p of None \<Rightarrow> Inr None
     | Some k \<Rightarrow> (case revision_of d k of None \<Rightarrow> Inl DoesNotExist | Some r \<Rightarrow> Inr (Some r)))"

definition prepare_run :: "netbox_core \<Rightarrow> 'be deployment \<Rightarrow> db \<Rightarrow> netbox_script \<Rightarrow> 'v run_request \<Rightarrow> launch_failure + 'v launch" where
  "prepare_run N dep d s q =
     (if q_immediate q \<and> (q_schedule_at q \<noteq> None \<or> q_interval q \<noteq> 0) then Inl (Refuses ValueError)
      else case rbind (require_safe_routing dep) (\<lambda>_. case project_of d (s_project s) of None \<Rightarrow> Inl DoesNotExist | Some p \<Rightarrow> Inr p) of
          Inl e \<Rightarrow> Inl (Refuses e)
        | Inr p \<Rightarrow>
            (case run_refusal_reason p s of
               Some reason \<Rightarrow> Inl (NotExecutable reason)
             | None \<Rightarrow>
                 (case rbind (if q_interval q \<noteq> 0 then Inr None else served_revision d p) (\<lambda>served.
                     rbind (run_settings N (q_notifications q) s) (\<lambda>(timeout, policy).
                       let y = request_payload s served q
                       in Inr (if q_immediate q then Now policy y else Queue (request_call s timeout policy y q)))) of
                    Inl e \<Rightarrow> Inl (Refuses e)
                  | Inr l \<Rightarrow> Inr l)))"

datatype 'v launched = Queued job_row "'v enqueue_call" | Ran job_row core_status "raised option"

definition enqueue_run :: "netbox_core \<Rightarrow> 'be deployment \<Rightarrow> db \<Rightarrow> bool \<Rightarrow> (job_row \<Rightarrow> core_status \<times> raised option) \<Rightarrow> netbox_script \<Rightarrow>
    'v run_request \<Rightarrow> launch_failure + 'v launched" where
  "enqueue_run N dep d in_transaction handle s q =
     (case prepare_run N dep d s q of
        Inl f \<Rightarrow> Inl f
      | Inr (Now policy y) \<Rightarrow>
          (case run_now in_transaction s policy y handle of Inl e \<Rightarrow> Inl (Refuses e) | Inr (row, status, x) \<Rightarrow> Inr (Ran row status x))
      | Inr (Queue a) \<Rightarrow> (case enqueue N d a of Inl e \<Rightarrow> Inl (Refuses e) | Inr (row, b) \<Rightarrow> Inr (Queued row b)))"

text \<open>The rows a request leads to: the one it inserts and, for a recurring run, each successor's.\<close>

inductive occurrence :: "netbox_core \<Rightarrow> 'be deployment \<Rightarrow> netbox_script \<Rightarrow> 'v run_request \<Rightarrow> db \<Rightarrow> job_row \<Rightarrow> 'v enqueue_call \<Rightarrow> bool"
  for N dep s q d where
  requested: "enqueue_run N dep d in_transaction handle s q = Inr (Queued row a) \<Longrightarrow> occurrence N dep s q d row a"
| repeated: "occurrence N dep s q d row a \<Longrightarrow> b_interval row \<noteq> 0 \<Longrightarrow> enqueue N d' (successor_call at row a) = Inr (row', a') \<Longrightarrow>
    occurrence N dep s q d row' a'"

section \<open>What a row pins\<close>

lemma enqueue_Inr:
  assumes "enqueue N d a = Inr (row, b)"
  obtains s timeout policy where "Option.bind (a_instance a) (script_of d) = Some s" "b = completed_call s timeout policy a" "row = call_row s b"
    "a_interval a \<noteq> 0 \<longrightarrow> \<not> list_ex is_upload (call_uploads a)" "TemporaryUpload \<notin> set (call_uploads a)"
    "run_settings N (if a_interval a \<noteq> 0 \<and> given (a_inherited a) True then None else given (a_notifications a) None) s = Inr (timeout, policy)"
  using assms by (auto simp: enqueue_def Let_def result_simps split: option.splits if_splits)

lemma call_uploads_completed [simp]: "call_uploads (completed_call s timeout policy a) = call_uploads a"
  by (simp add: call_uploads_def completed_call_def Let_def)

lemma call_uploads_successor [simp]: "call_uploads (successor_call at row a) = call_uploads a"
  by (simp add: call_uploads_def successor_call_def)

lemmas call_simps = completed_call_def call_row_def call_payload_def row_data_def successor_call_def given_def

lemma row_event_hides: "json_field (row_event v) ''snapshots'' = None"
  by (cases v) (auto simp: row_event_def json_field_def map_of_eq_None_iff)

lemma enqueue_run_Queued:
  assumes "enqueue_run N dep d in_transaction handle s q = Inr (Queued row a)"
  obtains p served timeout policy where "project_of d (s_project s) = Some p" "run_refusal_reason p s = None"
    "(if q_interval q \<noteq> 0 then Inr None else served_revision d p) = Inr served"
    "enqueue N d (request_call s timeout policy (request_payload s served q) q) = Inr (row, a)"
  using assms
  by (auto simp: enqueue_run_def prepare_run_def Let_def result_simps split: sum.splits option.splits launch.splits if_splits)

lemma occurrence_one_shot:
  assumes "occurrence N dep s q d row a" "q_interval q = 0"
  shows "\<exists>p r. project_of d (s_project s) = Some p \<and> run_refusal_reason p s = None \<and> p_active_revision p = Some (r_id r) \<and>
    revision_of d (r_id r) = Some r \<and> y_revision (b_data row) = Some (r_id r) \<and> y_digest (b_data row) = r_digest r \<and>
    a_revision a = Some (r_id r) \<and> b_interval row = 0"
  using assms(1)
proof induction
  case (requested in_transaction handle row a)
  obtain p served timeout policy where p: "project_of d (s_project s) = Some p" "run_refusal_reason p s = None"
    "served_revision d p = Inr served" and call: "enqueue N d (request_call s timeout policy (request_payload s served q) q) = Inr (row, a)"
    using enqueue_run_Queued [OF requested] assms(2) by metis
  obtain k where active: "p_active_revision p = Some k" using p(2) by (auto simp: run_refusal_reason_def split: if_splits)
  then obtain r where k: "p_active_revision p = Some k" "revision_of d k = Some r" "served = Some r"
    using p(3) by (cases "revision_of d k") (simp_all add: served_revision_def)
  then have r: "served = Some r" "p_active_revision p = Some (r_id r)" "revision_of d (r_id r) = Some r"
    using revision_of_SomeD [OF k(2)] by simp_all
  obtain s' t2 pol2 where "a = completed_call s' t2 pol2 (request_call s timeout policy (request_payload s served q) q)" "row = call_row s' a"
    by (rule enqueue_Inr [OF call])
  then show ?case using p(1,2) r assms(2) by (auto simp: call_simps Let_def request_call_def request_payload_def)
next
  case (repeated row a d' at row' a')
  then show ?case by auto
qed

lemma occurrence_recurring:
  assumes "occurrence N dep s q d row a" "q_interval q \<noteq> 0"
  shows "y_revision (b_data row) = None \<and> a_revision a = None \<and> b_interval row = q_interval q \<and> a_interval a = q_interval q \<and>
    \<not> list_ex is_upload (call_uploads a) \<and> a_module_path a = Some (s_module_path s) \<and> a_class_name a = Some (s_class_name s) \<and>
    a_inherited a = Some (q_notifications q = None)"
  using assms(1)
proof induction
  case (requested in_transaction handle row a)
  obtain p served timeout policy where call: "enqueue N d (request_call s timeout policy (request_payload s served q) q) = Inr (row, a)"
    using enqueue_run_Queued [OF requested] by metis
  obtain s' t2 pol2 where "a = completed_call s' t2 pol2 (request_call s timeout policy (request_payload s served q) q)" "row = call_row s' a"
    "a_interval (request_call s timeout policy (request_payload s served q) q) \<noteq> 0 \<longrightarrow>
      \<not> list_ex is_upload (call_uploads (request_call s timeout policy (request_payload s served q) q))"
    by (rule enqueue_Inr [OF call]) blast
  moreover from this have "\<not> list_ex is_upload (call_uploads a)" using assms(2) by (simp add: request_call_def)
  ultimately show ?case using assms(2) by (simp add: call_simps Let_def request_call_def request_payload_def)
next
  case (repeated row a d' at row' a')
  obtain s' t2 pol2 where "a' = completed_call s' t2 pol2 (successor_call at row a)" "row' = call_row s' a'"
    by (rule enqueue_Inr [OF repeated(3)])
  moreover from this have "call_uploads a' = call_uploads a" by simp
  ultimately show ?case using repeated.IH assms(2) by (simp add: call_simps Let_def)
qed

lemma occurrence_row:
  assumes "occurrence N dep s q d row a"
  shows "json_field (y_event (b_data row)) ''snapshots'' = None \<and> TemporaryUpload \<notin> set (call_uploads a)"
  using assms
proof cases
  case (requested in_transaction handle)
  obtain p served timeout policy where call: "enqueue N d (request_call s timeout policy (request_payload s served q) q) = Inr (row, a)"
    using enqueue_run_Queued [OF requested] by metis
  show ?thesis by (rule enqueue_Inr [OF call]) (simp add: call_row_def row_data_def row_event_hides)
next
  case (repeated row0 a0 d' at)
  show ?thesis by (rule enqueue_Inr [OF repeated(3)]) (simp add: call_row_def row_data_def row_event_hides)
qed


definition launch_script :: netbox_script where
  "launch_script = Script_Model.example_script 1 (lit ''A'')"

definition launch_db :: db where
  "launch_db = example_running\<lparr>scripts := [launch_script]\<rparr>"

definition launch_request :: "nat \<Rightarrow> nat run_request" where
  "launch_request interval = \<lparr>q_data = [(lit ''n'', Plain 3)], q_files = [], q_commit = True, q_schedule_at = None,
     q_interval = interval, q_notifications = None, q_event = JObj [(lit ''snapshots'', JNull)], q_immediate = False\<rparr>"


end
