(* ===== verification/Ingestion.thy ===== *)
theory Ingestion
  imports Staging
begin

text \<open>
  ingestion.py: what a source supplies on its way to a verdict.  An upload declares its file, merges it
  into the accepted tree and stages the whole; a Data Source is staged from one snapshot of its
  directory; either way the revision that results is queued if it still owes processing.  Also the
  checks of permissions.py on a Script File.
\<close>

section \<open>Definitions\<close>

text \<open>\<open>uploaded_source_path\<close>: every exception of the path policy becomes a ValidationError.\<close>

definition uploaded_source_path :: "python \<Rightarrow> pystr \<Rightarrow> pystr result" where
  "uploaded_source_path E filename =
     (case normalize_source_path E filename of
        Inl _ \<Rightarrow> Inl (ValidationError [''filename''])
      | Inr path \<Rightarrow>
          if \<not> endswith path PY_SUFFIX then Inl (ValidationError [''filename''])
          else rbind (source_path_to_dotted_name E path) (\<lambda>_. Inr path))"

definition declared_file :: "db \<Rightarrow> pk \<Rightarrow> pystr \<Rightarrow> script_file option" where
  "declared_file d project path = List.find (\<lambda>f. f_project f = project \<and> f_source_path f = path) (script_files d)"

definition check_upload_conflicts :: "python \<Rightarrow> script_project \<Rightarrow> pystr \<Rightarrow> bool \<Rightarrow> db \<Rightarrow> unit result" where
  "check_upload_conflicts E p path confirm_replace d =
     (let existing = (case latest_stored_revision d p of None \<Rightarrow> [] | Some r \<Rightarrow> manifest_paths r);
          declared = (declared_file d (p_id p) path \<noteq> None)
      in if \<not> confirm_replace \<and> path \<in> set existing then Inl (ValidationError [''exists''])
         else if \<not> confirm_replace \<and> declared \<and> p_source_type p = UPLOAD then Inl (ValidationError [''unfinished''])
         else if \<not> declared then rbind (clean_script_file E True (new_script_file d (p_id p) path) d) (\<lambda>_. Inr ())
         else Inr ())"

text \<open>
  \<open>validate_script_file_permissions\<close> of permissions.py; \<open>restricted\<close> is the set of rows NetBox lets the
  user perform the action on, None the absent user of a trusted caller.
\<close>

definition validate_script_file_permissions ::
    "(string \<Rightarrow> db \<Rightarrow> pk set) option \<Rightarrow> db \<Rightarrow> pk list \<Rightarrow> pk list \<Rightarrow> unit result" where
  "validate_script_file_permissions user d created changed =
     (let covered = (\<lambda>restricted action keys. \<forall>k \<in> set keys. k \<in> f_id ` set (script_files d) \<and> k \<in> restricted action d)
      in case user of
           None \<Rightarrow> Inr ()
         | Some restricted \<Rightarrow>
             if covered restricted ''add'' created \<and> covered restricted ''change'' changed then Inr () else Inl PermissionsViolation)"

definition declare_script_file ::
    "python \<Rightarrow> (string \<Rightarrow> db \<Rightarrow> pk set) option \<Rightarrow> script_project \<Rightarrow> pystr \<Rightarrow> db \<Rightarrow> (db \<times> pk) result" where
  "declare_script_file E user p path d =
     (case declared_file d (p_id p) path of
        None \<Rightarrow>
          rbind (clean_script_file E True (new_script_file d (p_id p) path) d) (\<lambda>item.
            rbind (save_declaration E True None item d) (\<lambda>d'.
              rbind (validate_script_file_permissions user d' [f_id item] []) (\<lambda>_. Inr (d', f_id item))))
      | Some item \<Rightarrow>
          if f_enabled item then Inr (d, f_id item)
          else rbind (validate_script_file_permissions user d [] [f_id item]) (\<lambda>_.
            rbind (save_declaration E False (Some [''enabled'', ''last_updated'']) (item\<lparr>f_enabled := True\<rparr>) d) (\<lambda>d'.
              rbind (validate_script_file_permissions user d' [] [f_id item]) (\<lambda>_. Inr (d', f_id item)))))"

definition check_upload_preconditions :: "'be deployment \<Rightarrow> string \<Rightarrow> script_project \<Rightarrow> unit result" where
  "check_upload_preconditions dep alias_name p =
     rbind (require_safe_routing dep) (\<lambda>_.
       rbind (require_default_database alias_name) (\<lambda>_.
         if p_source_type p \<noteq> UPLOAD then Inl (ValidationError [''project'']) else Inr ()))"

text \<open>\<open>prepare_upload\<close> is one transaction under the project's write lock.\<close>

definition prepare_upload ::
    "python \<Rightarrow> 'be deployment \<Rightarrow> string \<Rightarrow> (string \<Rightarrow> db \<Rightarrow> pk set) option \<Rightarrow> script_project \<Rightarrow> pystr \<Rightarrow> bool \<Rightarrow> db \<Rightarrow> (db \<times> pystr) result" where
  "prepare_upload E dep alias_name user p filename confirm_replace d =
     rbind (check_upload_preconditions dep alias_name p) (\<lambda>_.
       rbind (uploaded_source_path E filename) (\<lambda>path.
         rbind (check_upload_conflicts E p path confirm_replace d) (\<lambda>_.
           rbind (declare_script_file E user p path d) (\<lambda>(d', _). Inr (d', path)))))"

definition current_source_tree ::
    "python \<Rightarrow> ('b, 'h) service_env \<Rightarrow> script_project \<Rightarrow> ('b world, (pystr \<times> bytes) list) io" where
  "current_source_tree E dep p =
     sbind (select (\<lambda>d. Inr (latest_stored_revision d p))) (\<lambda>stored.
       case stored of
         None \<Rightarrow> ret []
       | Some r \<Rightarrow> sbind (lift (\<lambda>_. get_storage dep)) (\<lambda>be.
           on_store (lift (read_revision_tree E be (p_storage_key p) (r_digest r) (r_manifest r)))))"

text \<open>
  \<open>queue_revision_processing\<close>: the key of the revision a validation Job is queued for.  A revision
  being validated has the start of its claim set.
\<close>

definition enqueue_validation :: "'be deployment \<Rightarrow> string \<Rightarrow> revision \<Rightarrow> pk option result" where
  "enqueue_validation dep alias_name r =
     rbind (require_safe_routing dep) (\<lambda>_. rbind (require_default_database alias_name) (\<lambda>_. Inr (Some (r_id r))))"

definition lease_expired :: "time \<Rightarrow> revision \<Rightarrow> bool" where
  "lease_expired now r = (case r_validation_started r of None \<Rightarrow> False | Some t \<Rightarrow> t + VALIDATION_LEASE_SECONDS < now)"

definition queue_revision_processing :: "'be deployment \<Rightarrow> string \<Rightarrow> time \<Rightarrow> revision \<Rightarrow> db \<Rightarrow> pk option result" where
  "queue_revision_processing dep alias_name now r d =
     (if r_status r = MATERIALIZED then enqueue_validation dep alias_name r
      else if r_status r = VALIDATING \<and> lease_expired now r then enqueue_validation dep alias_name r
      else if r_status r \<in> set ACTIVATABLE_REVISION_STATUSES then
        (case project_of d (r_project r) of
           None \<Rightarrow> Inl DoesNotExist
         | Some p \<Rightarrow> if p_source_activation_pending p \<or> p_activation_policy p = AUTOMATIC_IF_VALID
             then enqueue_validation dep alias_name r else Inr None)
      else Inr None)"

definition queue_processing :: "('b, 'h) service_env \<Rightarrow> string \<Rightarrow> revision \<Rightarrow> ('b world, pk option) io" where
  "queue_processing dep alias_name r = (\<lambda>w. select (queue_revision_processing dep alias_name (w_now w) r) w)"

definition source_items :: "(pystr \<times> bytes) list \<Rightarrow> (pyvalue \<times> pyvalue) list" where
  "source_items files = map (\<lambda>(path, content). (PyStr path, PyBytes content)) files"

definition ingest_upload ::
    "python \<Rightarrow> ('b, 'h) service_env \<Rightarrow> string \<Rightarrow> (string \<Rightarrow> db \<Rightarrow> pk set) option \<Rightarrow> script_project \<Rightarrow> pystr \<Rightarrow> bytes \<Rightarrow>
     bool \<Rightarrow> bool \<Rightarrow> ('b world, revision \<times> bool \<times> pk option) io" where
  "ingest_upload E dep alias_name user p filename content declare_it activate_once =
     sbind (lift (\<lambda>_. rbind (check_upload_preconditions dep alias_name p) (\<lambda>_. uploaded_source_path E filename))) (\<lambda>path.
       sbind (if declare_it then statement (prepare_upload E dep alias_name user p path True) else ret path) (\<lambda>_.
         sbind (current_source_tree E dep p) (\<lambda>files.
           sbind (stage_revision E dep alias_name (p_id p) (source_items (AList.update path content files)) activate_once) (\<lambda>(r, created).
             sbind (queue_processing dep alias_name r) (\<lambda>job. ret (r, created, job))))))"

text \<open>
  \<open>_data_source_tree\<close> over the rows of NetBox core's DataFile; the filter on the path is the query's.
\<close>

fun data_source_tree :: "python \<Rightarrow> pystr \<Rightarrow> (pystr \<times> bytes) list \<Rightarrow> (pystr \<times> bytes) list \<Rightarrow> (pystr \<times> bytes) list result" where
  "data_source_tree E data_path [] tree = Inr tree"
| "data_source_tree E data_path ((path, content) # rows) tree =
     (case data_source_relative_path path data_path of
        None \<Rightarrow> data_source_tree E data_path rows tree
      | Some relative \<Rightarrow>
          (case normalize_source_path E relative of
             Inl (UnsafePath _ code) \<Rightarrow>
               data_source_tree E data_path rows (if code = ''compiled_artifact'' then tree else AList.update relative content tree)
           | Inl e \<Rightarrow> Inl e
           | Inr _ \<Rightarrow> data_source_tree E data_path rows (AList.update relative content tree)))"

definition directory_rows :: "pystr \<Rightarrow> (pystr \<times> bytes) list \<Rightarrow> (pystr \<times> bytes) list" where
  "directory_rows data_path rows = filter (\<lambda>(path, _). startswith path (data_path @ [slash])) rows"

definition project_source_tree :: "python \<Rightarrow> (pk \<Rightarrow> (pystr \<times> bytes) list) \<Rightarrow> script_project \<Rightarrow> (pystr \<times> bytes) list result" where
  "project_source_tree E datafiles p =
     (case p_data_source p of
        None \<Rightarrow> Inl AttributeError
      | Some source \<Rightarrow> data_source_tree E (p_data_path p) (directory_rows (p_data_path p) (datafiles source)) [])"

definition ingest_data_source ::
    "python \<Rightarrow> ('b, 'h) service_env \<Rightarrow> string \<Rightarrow> (db \<Rightarrow> pk \<Rightarrow> (pystr \<times> bytes) list) \<Rightarrow> pk \<Rightarrow> ('b world, revision \<times> bool \<times> pk option) io" where
  "ingest_data_source E dep alias_name datafiles project =
     sbind (lift (\<lambda>_. rbind (require_safe_routing dep) (\<lambda>_. require_default_database alias_name))) (\<lambda>_.
       sbind (select (\<lambda>d. case project_of d project of None \<Rightarrow> Inl DoesNotExist | Some p \<Rightarrow>
           if p_source_type p \<noteq> DATA_SOURCE then Inl (ValidationError [''project'']) else Inr p)) (\<lambda>p.
         sbind (select (\<lambda>d. project_source_tree E (datafiles d) p)) (\<lambda>tree.
           sbind (stage_revision E dep alias_name project (source_items tree) False) (\<lambda>(r, created).
             sbind (queue_processing dep alias_name r) (\<lambda>job. ret (r, created, job))))))"

text \<open>
  \<open>script_file_edit\<close>: what the guard decides before the save, and the projects queued for a refresh
  after it.  \<open>may_change\<close> is whether the user may change the project, None for no user.
\<close>

definition edit_moves :: "db \<Rightarrow> script_file \<Rightarrow> bool" where
  "edit_moves d item = (case file_of d (f_id item) of None \<Rightarrow> False | Some stored \<Rightarrow> f_enabled stored \<noteq> f_enabled item)"

definition script_file_edit ::
    "bool option \<Rightarrow> (string \<Rightarrow> db \<Rightarrow> pk set) option \<Rightarrow> script_file \<Rightarrow> (db \<Rightarrow> db result) \<Rightarrow> pk list \<Rightarrow> db \<Rightarrow> (db \<times> pk list) result" where
  "script_file_edit may_change user item save queued d =
     (let moved = edit_moves d item
      in if moved \<and> may_change = Some False then Inl PermissionsViolation
         else rbind (if moved then validate_script_file_permissions user d [] [f_id item] else Inr ()) (\<lambda>_.
           rbind (save d) (\<lambda>d'.
             Inr (d', if moved \<and> f_project item \<notin> set queued then queued @ [f_project item] else queued))))"

section \<open>Declaring an upload\<close>

lemma declared_file_SomeD:
  "declared_file d project path = Some f \<Longrightarrow> f \<in> set (script_files d) \<and> f_project f = project \<and> f_source_path f = path"
  unfolding declared_file_def by (drule find_SomeD) simp

lemma declare_script_file_Inr:
  assumes "declare_script_file E user p path d = Inr (d', k)" "normalize_source_path E path = Inr path"
  shows "projects d' = projects d \<and> revisions d' = revisions d \<and>
    (\<exists>item \<in> set (project_files (p_id p) d'). f_source_path item = path \<and> f_enabled item)"
proof (cases "declared_file d (p_id p) path")
  case None
  define row where "row = new_script_file d (p_id p) path"
  have path: "f_source_path row = path" by (simp add: row_def new_script_file_def)
  from assms(1) None obtain item where clean: "clean_script_file E True row d = Inr item"
    and save: "save_declaration E True None item d = Inr d'"
    by (auto simp: declare_script_file_def result_simps row_def)
  have item: "item = row" using clean_script_file_InrD [OF clean] assms(2) by (auto simp: path)
  have path': "normalize_source_path E (f_source_path item) = Inr path" using item path assms(2) by simp
  from save_new_declaration [OF save path'] obtain s
    where "d' = d\<lparr>script_files := script_files d @ [s]\<rparr>" "f_project s = f_project item" "f_source_path s = path" "f_enabled s = f_enabled item"
    by blast
  then show ?thesis using item by (simp add: project_files_def row_def new_script_file_def)
next
  case (Some item)
  note item = declared_file_SomeD [OF Some]
  show ?thesis
  proof (cases "f_enabled item")
    case True
    with assms(1) Some item show ?thesis by (auto simp: declare_script_file_def project_files_def)
  next
    case False
    with assms(1) Some have "save_declaration E False (Some [''enabled'', ''last_updated'']) (item\<lparr>f_enabled := True\<rparr>) d = Inr d'"
      by (auto simp: declare_script_file_def result_simps)
    from switch_one [OF this] have d': "d' = d\<lparr>script_files := update_rows (\<lambda>r. f_id r = f_id item) (\<lambda>r. r\<lparr>f_enabled := True\<rparr>) (script_files d)\<rparr>"
      by simp
    have "item\<lparr>f_enabled := True\<rparr> \<in> set (script_files d')" using item by (auto simp: d' update_rows_def intro!: rev_image_eqI [of item])
    then have "item\<lparr>f_enabled := True\<rparr> \<in> set (project_files (p_id p) d')" using item by (simp add: project_files_def)
    then show ?thesis using item by (intro conjI bexI [of _ "item\<lparr>f_enabled := True\<rparr>"]) (simp_all add: d')
  qed
qed

lemma prepare_upload_Inr:
  assumes "prepare_upload E dep alias_name user p path confirm d = Inr (d', path)"
  shows "projects d' = projects d \<and> revisions d' = revisions d \<and>
    (\<exists>item \<in> set (project_files (p_id p) d'). f_source_path item = path \<and> f_enabled item) \<and> p_source_type p = UPLOAD \<and>
    normalize_source_path E path = Inr path"
proof -
  from assms obtain k where up: "check_upload_preconditions dep alias_name p = Inr ()" "uploaded_source_path E path = Inr path"
    and decl: "declare_script_file E user p path d = Inr (d', k)"
    by (auto simp: prepare_upload_def result_simps)
  have norm: "normalize_source_path E path = Inr path" using up(2) by (auto simp: uploaded_source_path_def result_simps split: sum.splits if_splits)
  show ?thesis using declare_script_file_Inr [OF decl norm] up(1) norm by (simp add: check_upload_preconditions_def result_simps split: if_splits)
qed

section \<open>The tree an upload joins\<close>

lemma read_entries_distinct:
  "read_entries E be s pre es tree = Inr tree' \<Longrightarrow> distinct (map fst tree) \<Longrightarrow> distinct (map fst tree')"
  by (induction E be s pre es tree rule: read_entries.induct) (auto simp: result_simps distinct_update)

lemma current_source_tree_Inr:
  assumes "current_source_tree E dep p w = (w', Inr tree)" "w_others w = []"
  shows "w' = w \<and> distinct (map fst tree)"
  using assms
  by (auto simp: current_source_tree_def sbind_Inr select_def ret_def lift_def on_store_def read_revision_tree_def result_simps
      dest: read_entries_distinct split: option.splits prod.splits sum.splits)

lemma freeze_source_items:
  "distinct (map fst (acc @ files)) \<Longrightarrow> freeze_items (source_items files) acc = Inr (acc @ files)"
proof (induction files arbitrary: acc)
  case (Cons f files)
  obtain path c where f: "f = (path, c)" by (cases f)
  have new: "AList.update path c acc = acc @ [(path, c)]" using Cons.prems by (intro update_new) (auto simp: f)
  show ?case using Cons.IH [of "acc @ [(path, c)]"] Cons.prems by (simp add: f new source_items_def)
qed (simp add: source_items_def)

lemma frozen_source_items: "distinct (map fst files) \<Longrightarrow> frozen_source (source_items files) = Inr files"
  using freeze_source_items [of "[]" files] by (simp add: frozen_source_def)

lemma clean_build_accepts:
  assumes "lower_laws E" "build_manifest E files limits = Inr (entries, [])" "f \<in> set files"
  shows "\<exists>e \<in> set entries. accepts E limits f e"
proof -
  obtain es where es: "entries = sort_key e_path es" "list_all2 (accepts E limits) (sort_key fst files) es"
    using build_manifest_clean(1) [OF assms(1,2)] by blast
  have "f \<in> set (sort_key fst files)" using assms(3) by simp
  then obtain i where i: "i < length (sort_key fst files)" "sort_key fst files ! i = f" by (meson in_set_conv_nth)
  then have "accepts E limits f (es ! i)" "i < length es" using list_all2_nthD [OF es(2) i(1)] list_all2_lengthD [OF es(2)] by simp_all
  then show ?thesis using es(1) by auto
qed

section \<open>The tree of a Data Source directory\<close>

definition compiled_artifact :: "python \<Rightarrow> pystr \<Rightarrow> bool" where
  "compiled_artifact E path \<longleftrightarrow> (\<exists>q. normalize_source_path E path = Inl (UnsafePath q ''compiled_artifact''))"

lemma data_source_tree_run:
  assumes "data_source_tree E d rows acc = Inr tree" "distinct (map fst rows)" "\<forall>path \<in> fst ` set rows. \<exists>r. path = d @ slash # r" "d \<noteq> []"
  shows "map_of tree r = (case map_of rows (d @ slash # r) of None \<Rightarrow> map_of acc r
    | Some c \<Rightarrow> if compiled_artifact E r then map_of acc r else Some c)"
  using assms
proof (induction rows arbitrary: acc)
  case (Cons row rows)
  obtain path c where row: "row = (path, c)" by (cases row)
  obtain q where q: "path = d @ slash # q" using Cons.prems(3) row by auto
  have rel: "data_source_relative_path path d = Some q" using relative_path_under [OF Cons.prems(4)] by (simp add: q)
  define acc' where "acc' = (if compiled_artifact E q then acc else AList.update q c acc)"
  have "data_source_tree E d rows acc' = Inr tree"
    using Cons.prems(1) by (auto simp: row rel acc'_def compiled_artifact_def split: sum.splits py_error.splits if_splits)
  from Cons.IH [OF this] Cons.prems(2-4) have ih: "map_of tree r = (case map_of rows (d @ slash # r) of None \<Rightarrow> map_of acc' r
    | Some c \<Rightarrow> if compiled_artifact E r then map_of acc' r else Some c)" by simp
  have "map_of rows path = None" using Cons.prems(2) by (simp add: row map_of_eq_None_iff)
  then show ?case using ih by (cases "q = r") (auto simp: row q acc'_def update_conv' split: option.split)
qed simp

lemma startswith_dir: "startswith path (d @ [slash]) \<longleftrightarrow> (\<exists>r. path = d @ slash # r)"
  by (simp add: startswith_iff)

text \<open>
  C18. The tree staged from a Data Source is exactly the configured directory of the snapshot: a path is
  in it with some content just when the source holds that content under the directory at that path, save
  for compiled artifacts; every other unsafe path is kept, for staging to record.
\<close>

theorem project_source_tree_exact:
  assumes "project_source_tree E datafiles p = Inr tree" "p_data_source p = Some source" "distinct (map fst (datafiles source))"
    and "p_data_path p \<noteq> []"
  shows "map_of tree r = Some c \<longleftrightarrow> (p_data_path p @ slash # r, c) \<in> set (datafiles source) \<and> \<not> compiled_artifact E r"
proof -
  define rows where "rows = directory_rows (p_data_path p) (datafiles source)"
  have run: "data_source_tree E (p_data_path p) rows [] = Inr tree" using assms(1,2) by (simp add: project_source_tree_def rows_def)
  have rows: "distinct (map fst rows)" using assms(3) by (simp add: rows_def directory_rows_def distinct_map_filter)
  have "\<forall>path \<in> fst ` set rows. \<exists>r. path = p_data_path p @ slash # r" by (auto simp: rows_def directory_rows_def startswith_dir)
  from data_source_tree_run [OF run rows this assms(4)]
  have "map_of tree r = Some c \<longleftrightarrow> map_of rows (p_data_path p @ slash # r) = Some c \<and> \<not> compiled_artifact E r"
    by (auto split: option.splits if_splits)
  also have "map_of rows (p_data_path p @ slash # r) = Some c \<longleftrightarrow> (p_data_path p @ slash # r, c) \<in> set rows"
    using rows by simp
  also have "\<dots> \<longleftrightarrow> (p_data_path p @ slash # r, c) \<in> set (datafiles source)"
    by (simp add: rows_def directory_rows_def startswith_dir)
  finally show ?thesis .
qed

theorem project_source_tree_exact_witness:
  "\<exists>tree. project_source_tree ascii_python (\<lambda>_. [(lit ''x/a.py'', [1]), (lit ''x/__pycache__/a.pyc'', [2]), (lit ''xy/b.py'', [3]), (lit ''x/../c'', [4])])
       (example_project 1) = Inr tree \<and> map_of tree (lit ''a.py'') = Some [1] \<and> map_of tree (lit ''__pycache__/a.pyc'') \<noteq> Some [2]"
proof -
  let ?files = "\<lambda>_ :: pk. [(lit ''x/a.py'', [1]), (lit ''x/__pycache__/a.pyc'', [2]), (lit ''xy/b.py'', [3]), (lit ''x/../c'', [4])] :: (pystr \<times> bytes) list"
  have "is_ok (project_source_tree ascii_python ?files (example_project 1))" by code_simp
  then obtain tree where t: "project_source_tree ascii_python ?files (example_project 1) = Inr tree" by (auto simp: is_ok_iff)
  have p: "p_data_source (example_project 1) = Some 1" "p_data_path (example_project 1) \<noteq> []" by (simp_all add: example_project_def lit_def)
  have distinct: "distinct (map fst (?files 1))" by code_simp
  have "compiled_artifact ascii_python (lit ''__pycache__/a.pyc'')"
  proof -
    have "normalize_source_path ascii_python (lit ''__pycache__/a.pyc'') = Inl (UnsafePath (lit ''__pycache__/a.pyc'') ''compiled_artifact'')" by code_simp
    then show ?thesis by (auto simp: compiled_artifact_def)
  qed
  moreover have "\<not> compiled_artifact ascii_python (lit ''a.py'')"
  proof -
    have "is_ok (normalize_source_path ascii_python (lit ''a.py''))" by code_simp
    then show ?thesis by (auto simp: compiled_artifact_def)
  qed
  moreover have "p_data_path (example_project 1) @ slash # lit ''a.py'' = lit ''x/a.py''" by code_simp
  ultimately show ?thesis using project_source_tree_exact [OF t p(1) distinct p(2)] t by (intro exI [of _ tree]) simp
qed

section \<open>An upload, end to end\<close>

lemma prepared_rows:
  assumes "prepare_upload E dep alias_name user p path confirm d = Inr (d1, path)" "pointers_ok d"
  shows "pointers_ok d1" "project_of d1 k = project_of d k"
  using prepare_upload_Inr [OF assms(1)] assms(2) by (simp_all add: pointers_ok_def project_of_def)


definition uploads_project :: script_project where
  "uploads_project = (example_project 1)\<lparr>p_storage_key := lit ''k'', p_source_type := UPLOAD, p_data_source := None, p_data_path := [],
     p_source_revision := None, p_source_activation_pending := False\<rparr>"

definition uploads_world :: "memory world" where
  "uploads_world = \<lparr>w_db = empty_db\<lparr>projects := [uploads_project]\<rparr>, w_store = [], w_others = [], w_now = 9\<rparr>"


end
