(* ===== verification/Dialects.thy ===== *)
theory Dialects
  imports Prelude
begin

text \<open>
  migration/dialects.py: the authoring dialect of stored script source, decided by parsing rather than
  importing.  A syntax tree keeps what the module reads of Python's \<open>ast\<close>; the parser itself is a
  parameter.  The search of a class's bases for an inherited \<open>run\<close> follows names that may form cycles:
  that it ends, and that it finds exactly what the bases leave room for, are theorems.
\<close>

section \<open>Syntax trees\<close>

text \<open>
  The nodes the code distinguishes, each with its children in the order of \<open>iter_child_nodes\<close>; an import
  carries the identity of its node.  The test of a conditional is a name, an attribute, a constant with
  its truth value, or another expression.
\<close>

datatype pynode =
    ClassDef pystr "pynode list" "pynode list" "pynode list" "pynode list"
  | FunctionDef pystr "pynode list"
  | LambdaNode "pynode list"
  | IfNode pynode "pynode list" "pynode list"
  | TryNode "pynode list" "pynode list" "pynode list" "pynode list"
  | ExceptHandler "pynode option" "pynode list"
  | TupleNode "pynode list"
  | ImportNode nat "pystr list"
  | ImportFromNode nat "pystr option" nat "pystr list"
  | NameNode pystr
  | AttributeNode pynode pystr
  | ConstantNode bool
  | OtherNode "pynode list"

fun child_nodes :: "pynode \<Rightarrow> pynode list" where
  "child_nodes (ClassDef name bases keywords body decorators) = bases @ keywords @ body @ decorators"
| "child_nodes (FunctionDef name parts) = parts"
| "child_nodes (LambdaNode parts) = parts"
| "child_nodes (IfNode test body orelse) = test # body @ orelse"
| "child_nodes (TryNode body handlers orelse finalbody) = body @ handlers @ orelse @ finalbody"
| "child_nodes (ExceptHandler kind body) = (case kind of None \<Rightarrow> [] | Some k \<Rightarrow> [k]) @ body"
| "child_nodes (TupleNode elements) = elements"
| "child_nodes (ImportNode i names) = []"
| "child_nodes (ImportFromNode i m level names) = []"
| "child_nodes (NameNode name) = []"
| "child_nodes (AttributeNode node name) = [node]"
| "child_nodes (ConstantNode b) = []"
| "child_nodes (OtherNode parts) = parts"

lemma child_nodes_smaller: "size_list size (child_nodes n) \<le> size n"
  by (cases n) (auto split: option.split)

text \<open>\<open>ast.walk\<close>, a queue.\<close>

function walk_queue :: "pynode list \<Rightarrow> pynode list" where
  "walk_queue [] = []"
| "walk_queue (n # todo) = n # walk_queue (todo @ child_nodes n)"
  by pat_completeness auto
termination
proof (relation "measure (size_list size)")
  show "(todo @ child_nodes n, n # todo) \<in> measure (size_list size)" for n todo
    using child_nodes_smaller [of n] by simp
qed simp

definition ast_walk :: "pynode \<Rightarrow> pynode list" where
  "ast_walk tree = walk_queue [tree]"

section \<open>Definitions\<close>

datatype dialect = NATIVE | LEGACY_IMPORT | REPORT_STYLE | UNPARSABLE

definition REPORT_MODULE :: pystr where "REPORT_MODULE = lit ''extras.reports''"

definition LEGACY_NAMES :: "pystr list" where
  "LEGACY_NAMES = [lit ''extras'', lit ''extras.scripts'', lit ''extras.reports'']"

definition BASES_WITHOUT_RUN :: "pystr list" where
  "BASES_WITHOUT_RUN = [lit ''Report'', lit ''object'']"

definition SCRIPT_BASES :: "pystr list" where
  "SCRIPT_BASES = [lit ''BaseScript'', lit ''Script'']"

definition is_class :: "pynode \<Rightarrow> bool" where
  "is_class n = (case n of ClassDef name bases keywords body decorators \<Rightarrow> True | _ \<Rightarrow> False)"

definition class_nodes :: "pynode \<Rightarrow> pynode list" where
  "class_nodes tree = filter is_class (ast_walk tree)"

fun function_name :: "pynode \<Rightarrow> pystr option" where
  "function_name (FunctionDef name parts) = Some name"
| "function_name n = None"

fun class_name_of :: "pynode \<Rightarrow> pystr" where
  "class_name_of (ClassDef name bases keywords body decorators) = name"
| "class_name_of n = []"

fun method_names :: "pynode \<Rightarrow> pystr list" where
  "method_names (ClassDef name bases keywords body decorators) = List.map_filter function_name body"
| "method_names n = []"

fun bare_name :: "pynode \<Rightarrow> pystr option" where
  "bare_name (NameNode name) = Some name"
| "bare_name (AttributeNode node name) = Some name"
| "bare_name n = None"

fun base_names :: "pynode \<Rightarrow> pystr list" where
  "base_names (ClassDef name bases keywords body decorators) = List.map_filter bare_name bases"
| "base_names n = []"

text \<open>The module's classes by name: methods and bases, the last declaration of a name winning.\<close>

type_synonym class_table = "(pystr \<times> pystr list \<times> pystr list) list"

definition class_table :: "pynode \<Rightarrow> class_table" where
  "class_table tree = map (\<lambda>(name, n). (name, method_names n, base_names n)) (dict_by class_name_of (class_nodes tree))"

definition RUN :: pystr where "RUN = lit ''run''"

text \<open>\<open>_bases_supply_run\<close>: the loop over the bases, and the recursion into a base the module declares.\<close>

function bases_supply_run :: "class_table \<Rightarrow> pystr list \<Rightarrow> pystr list \<Rightarrow> bool" where
  "bases_supply_run classes seen [] = False"
| "bases_supply_run classes seen (name # bases) =
     (if name \<in> set seen then bases_supply_run classes seen bases
      else case map_of classes name of
          Some (methods, inherited) \<Rightarrow>
            if RUN \<in> set methods \<or> bases_supply_run classes (seen @ [name]) inherited then True
            else bases_supply_run classes seen bases
        | None \<Rightarrow> if name \<notin> set BASES_WITHOUT_RUN then True else bases_supply_run classes seen bases)"
  by pat_completeness auto
termination
proof (relation "measures [\<lambda>(classes, seen, bases). card (fst ` set classes - set seen), \<lambda>(classes, seen, bases). length bases]")
  fix classes :: class_table and seen bases name x methods inherited
  assume new: "name \<notin> set seen" "map_of classes name = Some x" "(methods, inherited) = x"
  have "name \<in> fst ` set classes" using map_of_SomeD [OF new(2)] by force
  then have "fst ` set classes - set (seen @ [name]) \<subset> fst ` set classes - set seen" using new(1) by auto
  then have "card (fst ` set classes - set (seen @ [name])) < card (fst ` set classes - set seen)"
    by (intro psubset_card_mono) auto
  then show "((classes, seen @ [name], inherited), classes, seen, name # bases)
      \<in> measures [\<lambda>(classes, seen, bases). card (fst ` set classes - set seen), \<lambda>(classes, seen, bases). length bases]" by simp
qed auto

definition has_report_shape :: "pynode \<Rightarrow> bool" where
  "has_report_shape tree = list_ex (\<lambda>n. RUN \<notin> set (method_names n) \<and>
     list_ex (\<lambda>m. startswith m (lit ''test_'')) (method_names n) \<and>
     \<not> bases_supply_run (class_table tree) [] (base_names n)) (class_nodes tree)"

text \<open>The walk over what a module could evaluate.\<close>

definition is_function :: "pynode \<Rightarrow> bool" where
  "is_function n = (case n of FunctionDef name parts \<Rightarrow> True | LambdaNode parts \<Rightarrow> True | _ \<Rightarrow> False)"

definition TYPE_CHECKING :: pystr where "TYPE_CHECKING = lit ''TYPE_CHECKING''"

definition never_true :: "pynode \<Rightarrow> bool" where
  "never_true test = (case test of NameNode name \<Rightarrow> name = TYPE_CHECKING | AttributeNode node name \<Rightarrow> name = TYPE_CHECKING
     | ConstantNode truth \<Rightarrow> \<not> truth | _ \<Rightarrow> False)"

text \<open>The branch a guard that is never true leaves, and whether a node is a conditional.\<close>

fun selected :: "pynode \<Rightarrow> pynode list option" where
  "selected (IfNode test body orelse) = (if never_true test then Some orelse else None)"
| "selected n = None"

fun is_conditional :: "pynode \<Rightarrow> bool" where
  "is_conditional (IfNode test body orelse) = True"
| "is_conditional n = False"

lemma selected_smaller: "selected n = Some orelse \<Longrightarrow> size_list size orelse \<le> size n"
  by (cases n) (auto split: if_splits)

function reachable_walk :: "bool \<Rightarrow> bool \<Rightarrow> pynode list \<Rightarrow> (pynode \<times> bool) list" where
  "reachable_walk skip_functions conditional [] = []"
| "reachable_walk skip_functions conditional (child # rest) =
     (if skip_functions \<and> is_function child then reachable_walk skip_functions conditional rest
      else (child, conditional) #
        (case selected child of
           Some orelse \<Rightarrow> reachable_walk skip_functions conditional orelse
         | None \<Rightarrow> reachable_walk skip_functions (conditional \<or> is_conditional child) (child_nodes child))
        @ reachable_walk skip_functions conditional rest)"
  by pat_completeness auto
termination
proof (relation "measure (\<lambda>(skip, cond, ns). size_list size ns)")
  fix n rest orelse and skip cond c :: bool
  show "((skip, c, child_nodes n), skip, cond, n # rest) \<in> measure (\<lambda>(skip, cond, ns). size_list size ns)"
    using child_nodes_smaller [of n] by simp
  show "selected n = Some orelse \<Longrightarrow> ((skip, c, orelse), skip, cond, n # rest) \<in> measure (\<lambda>(skip, cond, ns). size_list size ns)"
    using selected_smaller [of n orelse] by simp
qed auto

definition reachable_nodes :: "bool \<Rightarrow> pynode \<Rightarrow> (pynode \<times> bool) list" where
  "reachable_nodes skip_functions tree = reachable_walk skip_functions False (child_nodes tree)"

fun import_names :: "pynode \<Rightarrow> pystr list" where
  "import_names (ImportNode i names) = names"
| "import_names (ImportFromNode i (Some m) 0 names) = (if m \<noteq> [] then m # map (\<lambda>n. m @ dot # n) names else [])"
| "import_names n = []"

definition imported_names :: "pynode \<Rightarrow> pystr list" where
  "imported_names tree = concat (map (\<lambda>(n, c). import_names n) (reachable_nodes False tree))"

definition classify_tree :: "pynode \<Rightarrow> dialect" where
  "classify_tree tree =
     (let imported = imported_names tree
      in if REPORT_MODULE \<in> set imported \<or> has_report_shape tree then REPORT_STYLE
         else if list_ex (\<lambda>n. n \<in> set LEGACY_NAMES) imported then LEGACY_IMPORT
         else NATIVE)"

definition classify :: "(bytes \<Rightarrow> pynode option) \<Rightarrow> bytes \<Rightarrow> dialect" where
  "classify parse source = (case parse source of None \<Rightarrow> UNPARSABLE | Some tree \<Rightarrow> classify_tree tree)"

definition defines_a_script :: "(bytes \<Rightarrow> pynode option) \<Rightarrow> bytes \<Rightarrow> bool" where
  "defines_a_script parse source =
     (case parse source of
        None \<Rightarrow> True
      | Some tree \<Rightarrow> list_ex (\<lambda>n. RUN \<in> set (method_names n) \<or> list_ex (\<lambda>b. b \<in> set SCRIPT_BASES) (base_names n)) (class_nodes tree))"

definition module_publishes :: "(bytes \<Rightarrow> pynode option) \<Rightarrow> bool list \<Rightarrow> bytes \<Rightarrow> bool" where
  "module_publishes parse executable source \<longleftrightarrow> list_ex (\<lambda>b. b) executable \<or> defines_a_script parse source"

section \<open>The search for an inherited method\<close>

text \<open>What the bases leave room for: a chain of declared bases that ends in a \<open>run\<close> method or in an unseen base.\<close>

inductive supplies :: "class_table \<Rightarrow> pystr \<Rightarrow> bool" for classes where
  unseen: "map_of classes name = None \<Longrightarrow> name \<notin> set BASES_WITHOUT_RUN \<Longrightarrow> supplies classes name"
| declared: "map_of classes name = Some (methods, inherited) \<Longrightarrow> RUN \<in> set methods \<Longrightarrow> supplies classes name"
| inherits: "map_of classes name = Some (methods, inherited) \<Longrightarrow> base \<in> set inherited \<Longrightarrow> supplies classes base \<Longrightarrow> supplies classes name"

inductive_cases suppliesE: "supplies classes name"

text \<open>The same through a chain that avoids given names.\<close>

inductive supplies_avoiding :: "class_table \<Rightarrow> pystr set \<Rightarrow> pystr \<Rightarrow> bool" for classes where
  avoid_unseen: "name \<notin> A \<Longrightarrow> map_of classes name = None \<Longrightarrow> name \<notin> set BASES_WITHOUT_RUN \<Longrightarrow> supplies_avoiding classes A name"
| avoid_declared: "name \<notin> A \<Longrightarrow> map_of classes name = Some (methods, inherited) \<Longrightarrow> RUN \<in> set methods \<Longrightarrow> supplies_avoiding classes A name"
| avoid_inherits: "name \<notin> A \<Longrightarrow> map_of classes name = Some (methods, inherited) \<Longrightarrow> base \<in> set inherited \<Longrightarrow>
    supplies_avoiding classes (insert name A) base \<Longrightarrow> supplies_avoiding classes A name"

inductive_cases supplies_avoidingE: "supplies_avoiding classes A name"

lemma avoiding_supplies: "supplies_avoiding classes A name \<Longrightarrow> supplies classes name"
  by (induction rule: supplies_avoiding.induct) (auto intro: supplies.intros)

text \<open>A chain that visits a name twice can be cut, so a chain that avoids a name exists on one side of it.\<close>

lemma avoiding_cut: "supplies_avoiding classes A name \<Longrightarrow> supplies_avoiding classes (insert k A) name \<or> supplies_avoiding classes A k"
proof (induction rule: supplies_avoiding.induct)
  case (avoid_unseen name A)
  then show ?case by (cases "name = k") (auto intro: supplies_avoiding.intros)
next
  case (avoid_declared name A methods inherited)
  then show ?case by (cases "name = k") (auto intro: supplies_avoiding.intros)
next
  case (avoid_inherits name A methods inherited base)
  then have here: "supplies_avoiding classes A name" by (auto intro: supplies_avoiding.intros)
  show ?case
  proof (cases "name = k")
    case True
    then show ?thesis using here by simp
  next
    case False
    from avoid_inherits.IH consider "supplies_avoiding classes (insert k (insert name A)) base" | "supplies_avoiding classes (insert name A) k" by blast
    then show ?thesis
    proof cases
      case 1
      then have "supplies_avoiding classes (insert k A) name"
        by (intro supplies_avoiding.avoid_inherits [OF _ avoid_inherits.hyps(2,3)])
          (use avoid_inherits.hyps(1) False in \<open>simp_all add: insert_commute\<close>)
      then show ?thesis ..
    next
      case 2
      have "supplies_avoiding classes A k" if "supplies_avoiding classes (insert name A) k" for k
        using that
      proof (induction "insert name A" k arbitrary: A rule: supplies_avoiding.induct)
        case (avoid_inherits m methods inherited base)
        show ?case
          by (rule supplies_avoiding.avoid_inherits [OF _ avoid_inherits.hyps(2,3) avoid_inherits.hyps(5)])
            (use avoid_inherits.hyps(1) in \<open>auto simp: insert_commute\<close>)
      qed (auto intro: supplies_avoiding.intros)
      then show ?thesis using 2 by blast
    qed
  qed
qed

lemma supplies_avoiding_none: "supplies classes name \<Longrightarrow> supplies_avoiding classes {} name"
proof (induction rule: supplies.induct)
  case (inherits name methods inherited base)
  from avoiding_cut [OF inherits.IH, of name] show ?case
    by (auto intro: supplies_avoiding.avoid_inherits [OF _ inherits.hyps(1,2)])
qed (auto intro: supplies_avoiding.intros)

lemma bases_supply_run_iff:
  "bases_supply_run classes seen bases \<longleftrightarrow> (\<exists>b \<in> set bases. supplies_avoiding classes (set seen) b)"
proof (induction classes seen bases rule: bases_supply_run.induct)
  case (2 classes seen name bases)
  show ?case
  proof (cases "name \<in> set seen")
    case True
    then show ?thesis using 2 by (auto elim: supplies_avoidingE)
  next
    case False
    show ?thesis
    proof (cases "map_of classes name")
      case None
      have "supplies_avoiding classes (set seen) name \<longleftrightarrow> name \<notin> set BASES_WITHOUT_RUN"
        using False None by (auto elim: supplies_avoidingE intro: supplies_avoiding.avoid_unseen)
      then show ?thesis using 2(2) [OF False None] False None by auto
    next
      case (Some x)
      obtain methods inherited where x: "x = (methods, inherited)" by (cases x)
      have head: "supplies_avoiding classes (set seen) name \<longleftrightarrow> RUN \<in> set methods \<or> (\<exists>b \<in> set inherited. supplies_avoiding classes (insert name (set seen)) b)"
      proof
        assume "supplies_avoiding classes (set seen) name"
        then show "RUN \<in> set methods \<or> (\<exists>b \<in> set inherited. supplies_avoiding classes (insert name (set seen)) b)"
          by (rule supplies_avoidingE) (use Some x in auto)
      qed (use False Some x in \<open>blast intro: supplies_avoiding.avoid_declared supplies_avoiding.avoid_inherits\<close>)
      have rec: "bases_supply_run classes (seen @ [name]) inherited \<longleftrightarrow> (\<exists>b \<in> set inherited. supplies_avoiding classes (insert name (set seen)) b)"
        using 2(3) [OF False Some x [symmetric]] by simp
      show ?thesis using 2(4) [OF False Some x [symmetric]] head rec False Some x by auto
    qed
  qed
qed simp

section \<open>The property of this theory\<close>

text \<open>
  C17. The search of a class's bases returns on every module, base cycles included, and answers whether
  some chain of bases declared in the module leads to a class with a \<open>run\<close> method or to a base the file
  does not declare and that could carry one.
\<close>

theorem bases_supply_run_exact:
  "bases_supply_run classes [] bases \<longleftrightarrow> (\<exists>b \<in> set bases. supplies classes b)"
proof -
  have "supplies_avoiding classes {} b \<longleftrightarrow> supplies classes b" for b
    using avoiding_supplies supplies_avoiding_none by blast
  then show ?thesis using bases_supply_run_iff [of classes "[]" bases] by simp
qed

end
