(* ===== verification/Migration_Plan.thy ===== *)
theory Migration_Plan
  imports Project_Model
begin

text \<open>
  migration/plan.py: which Script Projects a migration of NetBox's built-in Custom Scripts would create,
  and which modules each would hold.  Uploaded modules become projects of their own; synchronized ones
  are grouped by directory, and each directory joins the shallowest one on its source that contains it.
\<close>

section \<open>Definitions\<close>

text \<open>\<open>LegacyScript\<close> and \<open>LegacyModule\<close> of migration/source.py.\<close>

record legacy_script =
  ls_pk :: pk
  ls_name :: pystr
  ls_is_executable :: bool

record legacy_module =
  lm_pk :: pk
  lm_file_path :: pystr
  lm_python_name :: pystr
  lm_data_source_id :: "pk option"
  lm_data_path :: pystr
  lm_scripts :: "legacy_script list"

record proposed_project =
  pp_key :: pystr
  pp_name :: pystr
  pp_source_type :: source_type
  pp_data_source_id :: "pk option"
  pp_data_path :: pystr
  pp_module_pks :: "pk list"

text \<open>The key a module groups on.\<close>

datatype group_identity = Uploaded pk | Synced pk pystr

text \<open>\<open>posixpath.dirname\<close>\<close>

definition dirname :: "pystr \<Rightarrow> pystr" where
  "dirname p =
     (let head = rev (dropWhile (\<lambda>c. c \<noteq> slash) (rev p))
      in if head \<noteq> [] \<and> list_ex (\<lambda>c. c \<noteq> slash) head then rev (dropWhile (\<lambda>c. c = slash) (rev head)) else head)"

definition module_identity :: "legacy_module \<Rightarrow> group_identity" where
  "module_identity m = (case lm_data_source_id m of None \<Rightarrow> Uploaded (lm_pk m) | Some k \<Rightarrow> Synced k (dirname (lm_data_path m)))"

text \<open>A dictionary of lists filled with \<open>setdefault(key, []).append(value)\<close>.\<close>

definition bucket :: "('k \<times> 'v list) list \<Rightarrow> 'k \<Rightarrow> 'v list" where
  "bucket d k = (case map_of d k of None \<Rightarrow> [] | Some vs \<Rightarrow> vs)"

definition put_all :: "'k \<Rightarrow> 'v list \<Rightarrow> ('k \<times> 'v list) list \<Rightarrow> ('k \<times> 'v list) list" where
  "put_all k vs d = AList.update k (bucket d k @ vs) d"

definition buckets :: "legacy_module list \<Rightarrow> (group_identity \<times> legacy_module list) list" where
  "buckets modules = fold (\<lambda>m. put_all (module_identity m) [m]) modules []"

definition depth :: "pystr \<Rightarrow> nat" where
  "depth folder = (if folder \<noteq> [] then length (split_on slash folder) else 0)"

text \<open>The loop of \<open>_container\<close>, with the best folder so far.\<close>

fun container_from :: "pystr \<Rightarrow> pystr list \<Rightarrow> pystr \<Rightarrow> nat \<Rightarrow> pystr" where
  "container_from folder [] best best_depth = best"
| "container_from folder (candidate # rest) best best_depth =
     (if depth candidate < best_depth \<and> data_paths_overlap candidate folder
      then container_from folder rest candidate (depth candidate)
      else container_from folder rest best best_depth)"

definition container :: "pystr \<Rightarrow> pystr list \<Rightarrow> pystr" where
  "container folder folders = container_from folder folders folder (depth folder)"

fun folders_on :: "pk \<Rightarrow> group_identity list \<Rightarrow> pystr list" where
  "folders_on k [] = []"
| "folders_on k (Uploaded _ # rest) = folders_on k rest"
| "folders_on k (Synced j folder # rest) = (if j = k then folder # folders_on k rest else folders_on k rest)"

definition collapsed_identity :: "group_identity list \<Rightarrow> group_identity \<Rightarrow> group_identity" where
  "collapsed_identity ids i = (case i of Uploaded k \<Rightarrow> Uploaded k | Synced k folder \<Rightarrow> Synced k (container folder (folders_on k ids)))"

definition collapse_buckets :: "(group_identity \<times> legacy_module list) list \<Rightarrow> (group_identity \<times> legacy_module list) list" where
  "collapse_buckets bs = fold (\<lambda>(i, members). put_all (collapsed_identity (map fst bs) i) members) bs []"

definition KEY_DIGEST_LENGTH :: nat where "KEY_DIGEST_LENGTH = 8"
definition KEY_STEM_LENGTH :: nat where "KEY_STEM_LENGTH = 100 - KEY_DIGEST_LENGTH - 1"

definition identity_parts :: "group_identity \<Rightarrow> pystr list" where
  "identity_parts i = (case i of Uploaded k \<Rightarrow> [lit ''upload'', dec k] | Synced k folder \<Rightarrow> [lit ''data_source'', dec k, folder])"

text \<open>\<open>slugify\<close> is Django's; a lone surrogate makes the encoding raise.\<close>

definition project_key :: "python \<Rightarrow> (pystr \<Rightarrow> pystr) \<Rightarrow> pystr \<Rightarrow> group_identity \<Rightarrow> pystr result" where
  "project_key E slugify stem i =
     rbind (utf8_encode (join_on 0 (identity_parts i))) (\<lambda>b.
       let slug = take KEY_STEM_LENGTH (slugify (map (\<lambda>c. if c = slash then 45 else c) stem))
       in Inr ((if slug \<noteq> [] then slug else lit ''project'') @ 45 # take KEY_DIGEST_LENGTH (sha256 E b)))"

definition propose :: "python \<Rightarrow> (pystr \<Rightarrow> pystr) \<Rightarrow> group_identity \<Rightarrow> legacy_module list \<Rightarrow> proposed_project result" where
  "propose E slugify i members =
     (let pks = sort (map lm_pk members)
      in case i of
           Uploaded k \<Rightarrow> let name = lm_python_name (hd members)
             in rbind (project_key E slugify name i) (\<lambda>key. Inr \<lparr>pp_key = key, pp_name = name, pp_source_type = UPLOAD,
                  pp_data_source_id = None, pp_data_path = [], pp_module_pks = pks\<rparr>)
         | Synced k folder \<Rightarrow>
             rbind (project_key E slugify (if folder \<noteq> [] then folder else lit ''data-source-root'') i) (\<lambda>key.
               Inr \<lparr>pp_key = key, pp_name = (if folder \<noteq> [] then folder else lit ''the data source root''), pp_source_type = DATA_SOURCE,
                 pp_data_source_id = Some k, pp_data_path = folder, pp_module_pks = pks\<rparr>))"

fun propose_all :: "python \<Rightarrow> (pystr \<Rightarrow> pystr) \<Rightarrow> (group_identity \<times> legacy_module list) list \<Rightarrow> proposed_project list result" where
  "propose_all E slugify [] = Inr []"
| "propose_all E slugify ((i, members) # rest) =
     rbind (propose E slugify i members) (\<lambda>p. rbind (propose_all E slugify rest) (\<lambda>ps. Inr (p # ps)))"

definition group_modules :: "python \<Rightarrow> (pystr \<Rightarrow> pystr) \<Rightarrow> legacy_module list \<Rightarrow> proposed_project list result" where
  "group_modules E slugify modules =
     rbind (propose_all E slugify (collapse_buckets (buckets modules))) (\<lambda>ps. Inr (sort_key pp_key ps))"

section \<open>Containers\<close>

text \<open>One directory contains another, itself included.\<close>

definition contains :: "pystr \<Rightarrow> pystr \<Rightarrow> bool" where
  "contains a b \<longleftrightarrow> (\<exists>rest. dir_segments b = dir_segments a @ rest)"

lemma depth_segments: "depth folder = length (dir_segments folder)"
  by (simp add: depth_def dir_segments_def)

lemma shallower_contains: "depth a < depth b \<Longrightarrow> data_paths_overlap a b \<longleftrightarrow> contains a b"
  unfolding overlap_iff contains_def depth_segments by auto

lemma contains_depth: "contains a b \<Longrightarrow> depth a \<le> depth b"
  by (auto simp: contains_def depth_segments)

lemma contains_refl [simp]: "contains a a" by (simp add: contains_def)

lemma contains_trans: "contains a b \<Longrightarrow> contains b c \<Longrightarrow> contains a c"
  by (auto simp: contains_def)

lemma overlap_contains: "data_paths_overlap a b \<longleftrightarrow> contains a b \<or> contains b a"
  by (simp add: overlap_iff contains_def)

lemma dir_segments_inject: "dir_segments a = dir_segments b \<Longrightarrow> a = b"
  by (metis dir_segments_def join_split split_on_not_Nil)

lemma contains_same_depth: "contains a b \<Longrightarrow> depth a = depth b \<Longrightarrow> a = b"
  by (auto simp: contains_def depth_segments intro: dir_segments_inject)

lemma container_from_props:
  assumes "contains best folder" "best_depth = depth best"
  shows "contains (container_from folder fs best best_depth) folder \<and>
    (container_from folder fs best best_depth = best \<or> container_from folder fs best best_depth \<in> set fs) \<and>
    depth (container_from folder fs best best_depth) \<le> best_depth \<and>
    (\<forall>c \<in> set fs. contains c folder \<longrightarrow> depth (container_from folder fs best best_depth) \<le> depth c)"
  using assms
proof (induction fs arbitrary: best best_depth)
  case (Cons candidate rest)
  have deep: "depth best \<le> depth folder" by (rule contains_depth [OF Cons.prems(1)])
  show ?case
  proof (cases "depth candidate < best_depth \<and> data_paths_overlap candidate folder")
    case True
    then have "contains candidate folder" using shallower_contains [of candidate folder] deep Cons.prems(2) by simp
    from Cons.IH [OF this refl] show ?thesis using True Cons.prems(2) by auto
  next
    case False
    have "depth best \<le> depth candidate" if "contains candidate folder"
      using False that Cons.prems(2) by (auto simp: overlap_contains)
    then show ?thesis using Cons.IH [OF Cons.prems] False Cons.prems(2) by fastforce
  qed
qed simp

lemma container_props:
  "contains (container folder fs) folder" "folder \<in> set fs \<Longrightarrow> container folder fs \<in> set fs"
  "c \<in> set fs \<Longrightarrow> contains c folder \<Longrightarrow> depth (container folder fs) \<le> depth c"
  using container_from_props [of folder folder "depth folder" fs] unfolding container_def by auto

text \<open>Two containers of one set of directories are equal or lie side by side.\<close>

lemma containers_disjoint:
  assumes "a \<in> set fs" "b \<in> set fs" "data_paths_overlap (container a fs) (container b fs)"
  shows "container a fs = container b fs"
proof -
  have least: "container x fs = container y fs" if "contains (container x fs) (container y fs)" "x \<in> set fs" for x y
  proof -
    have "contains (container x fs) y" by (rule contains_trans [OF that(1) container_props(1)])
    then have "depth (container y fs) \<le> depth (container x fs)" using container_props(2,3) that(2) by blast
    then show ?thesis using that(1) contains_depth contains_same_depth by (metis le_antisym)
  qed
  show ?thesis using assms least least [symmetric] unfolding overlap_contains by blast
qed

section \<open>Buckets\<close>

lemma map_of_put_all: "map_of (put_all k vs d) j = (if j = k then Some (bucket d k @ vs) else map_of d j)"
  by (simp add: put_all_def update_conv')

lemma bucket_put_all: "bucket (put_all k vs d) j = (if j = k then bucket d k @ vs else bucket d j)"
  by (simp add: bucket_def map_of_put_all)

lemma keys_put_all: "fst ` set (put_all k vs d) = insert k (fst ` set d)"
  by (simp add: put_all_def dom_update)

lemma distinct_put_all: "distinct (map fst d) \<Longrightarrow> distinct (map fst (put_all k vs d))"
  by (simp add: put_all_def distinct_update)

text \<open>What the buckets hold whose keys satisfy a condition.\<close>

definition held :: "('k \<Rightarrow> bool) \<Rightarrow> ('k \<times> 'v list) list \<Rightarrow> 'v multiset" where
  "held Q d = mset (concat (map snd (filter (\<lambda>b. Q (fst b)) d)))"

lemma held_simps [simp]: "held Q [] = {#}" "held Q ((k, vs) # d) = (if Q k then mset vs else {#}) + held Q d"
  by (simp_all add: held_def)

lemma held_update:
  assumes "distinct (map fst d)"
  shows "held Q (AList.update k (bucket d k @ vs) d) = held Q d + (if Q k then mset vs else {#})"
  using assms
proof (induction d)
  case (Cons b d)
  obtain j ws where b: "b = (j, ws)" by (cases b)
  have "bucket ((j, ws) # d) k = (if k = j then ws else bucket d k)" by (simp add: bucket_def)
  then show ?case using Cons by (auto simp: b)
qed (simp add: bucket_def)

text \<open>A fold of \<open>put_all\<close> files every value under its key, and nothing else.\<close>

lemma fold_put_all:
  assumes "distinct (map fst d)"
  shows "distinct (map fst (fold (\<lambda>x. put_all (key x) (vals x)) xs d))"
    and "fst ` set (fold (\<lambda>x. put_all (key x) (vals x)) xs d) = fst ` set d \<union> key ` set xs"
    and "held Q (fold (\<lambda>x. put_all (key x) (vals x)) xs d) = held Q d + mset (concat (map vals (filter (\<lambda>x. Q (key x)) xs)))"
  using assms
proof (induction xs arbitrary: d)
  case (Cons x xs)
  {
    case 1 then show ?case using Cons.IH(1) [OF distinct_put_all] by simp
  next
    case 2 then show ?case using Cons.IH(2) [OF distinct_put_all] by (simp add: keys_put_all)
  next
    case 3 then show ?case using Cons.IH(3) [OF distinct_put_all] by (simp add: held_update put_all_def)
  }
qed simp_all

lemma held_absent: "k \<notin> fst ` set d \<Longrightarrow> held (\<lambda>j. j = k) d = {#}"
  by (induction d) auto

lemma held_unique: "distinct (map fst d) \<Longrightarrow> (k, vs) \<in> set d \<Longrightarrow> held (\<lambda>j. j = k) d = mset vs"
proof (induction d)
  case (Cons b d)
  obtain j ws where b: "b = (j, ws)" by (cases b)
  have "k \<in> fst ` set d" if "(k, vs) \<in> set d" using that by force
  then show ?case using Cons held_absent [of k d] by (auto simp: b)
qed simp

section \<open>Groups\<close>

lemma buckets_simps:
  "distinct (map fst (buckets ms))" "fst ` set (buckets ms) = module_identity ` set ms"
  "held Q (buckets ms) = filter_mset (\<lambda>m. Q (module_identity m)) (mset ms)"
  using fold_put_all [where d = "[]" and key = module_identity and vals = "\<lambda>m. [m]" and xs = ms] by (simp_all add: buckets_def concat_map_singleton)

lemma collapse_simps:
  "distinct (map fst (collapse_buckets bs))"
  "fst ` set (collapse_buckets bs) = collapsed_identity (map fst bs) ` fst ` set bs"
  "held Q (collapse_buckets bs) = held (\<lambda>k. Q (collapsed_identity (map fst bs) k)) bs"
  using fold_put_all [where d = "[]" and key = "\<lambda>b. collapsed_identity (map fst bs) (fst b)" and vals = snd and xs = bs]
  by (simp_all add: collapse_buckets_def held_def case_prod_beta' image_image)

definition group_of :: "legacy_module list \<Rightarrow> legacy_module \<Rightarrow> group_identity" where
  "group_of ms m = collapsed_identity (map fst (buckets ms)) (module_identity m)"

lemma group_members:
  assumes "(k, members) \<in> set (collapse_buckets (buckets ms))"
  shows "mset members = filter_mset (\<lambda>m. group_of ms m = k) (mset ms)"
  using held_unique [OF collapse_simps(1) assms] by (simp add: collapse_simps buckets_simps group_of_def)

lemma groups_hold: "mset (concat (map snd (collapse_buckets (buckets ms)))) = mset ms"
  using collapse_simps(3) [of "\<lambda>_. True" "buckets ms"] buckets_simps(3) [of "\<lambda>_. True" ms] by (simp add: held_def)

lemma folders_on_set: "folder \<in> set (folders_on k ids) \<longleftrightarrow> Synced k folder \<in> set ids"
  by (induction k ids rule: folders_on.induct) auto

lemma synced_groups_disjoint:
  assumes "Synced k a \<in> fst ` set (collapse_buckets (buckets ms))" "Synced k b \<in> fst ` set (collapse_buckets (buckets ms))"
    "data_paths_overlap a b"
  shows "a = b"
proof -
  have "\<exists>x \<in> set (folders_on k (map fst (buckets ms))). c = container x (folders_on k (map fst (buckets ms)))"
    if "Synced k c \<in> fst ` set (collapse_buckets (buckets ms))" for c
  proof -
    obtain i where "i \<in> fst ` set (buckets ms)" "Synced k c = collapsed_identity (map fst (buckets ms)) i"
      using \<open>Synced k c \<in> _\<close> unfolding collapse_simps by blast
    then show ?thesis by (cases i) (force simp: collapsed_identity_def folders_on_set)+
  qed
  then show ?thesis using assms containers_disjoint by metis
qed

text \<open>A module lies below the directory it groups on.\<close>

lemma dirname_segments:
  assumes full: "[] \<notin> set (split_on slash p)"
  obtains r where "split_on slash p = dir_segments (dirname p) @ [r]"
proof (cases "slash \<in> set p")
  case True
  then obtain d r where p: "p = d @ slash # r" "slash \<notin> set r" by (meson split_list_last)
  have segments: "split_on slash p = split_on slash d @ [r]" by (simp add: p split_on_append split_on_no_sep)
  have "d \<noteq> []" using full segments by auto
  moreover have "last d \<noteq> slash"
  proof
    assume "last d = slash"
    then obtain e where "d = e @ slash # []" by (metis \<open>d \<noteq> []\<close> append_butlast_last_id)
    then have "[] \<in> set (split_on slash d)" by (simp only: split_on_append) simp
    then show False using full segments by simp
  qed
  moreover obtain e c where "d = e @ [c]" using \<open>d \<noteq> []\<close> by (metis append_butlast_last_id)
  moreover have "dropWhile (\<lambda>c. c \<noteq> slash) (rev r @ slash # xs) = slash # xs" for xs
    using p(2) by (subst dropWhile_append2) auto
  ultimately have "dirname p = d" by (simp add: dirname_def p(1) Let_def)
  then show ?thesis using that segments \<open>d \<noteq> []\<close> by (simp add: dir_segments_def)
next
  case False
  then have "dropWhile (\<lambda>c. c \<noteq> slash) (rev p) = []" by (auto simp: dropWhile_eq_Nil_conv)
  then have "dirname p = []" by (simp add: dirname_def)
  then show ?thesis using that False by (simp add: dir_segments_def split_on_no_sep)
qed

lemma group_below:
  assumes "[] \<notin> set (split_on slash (lm_data_path m))" "lm_data_source_id m = Some k" "m \<in> set ms"
  obtains folder rel where "group_of ms m = Synced k folder" "data_source_relative_path (lm_data_path m) folder = Some rel"
proof -
  obtain r where r: "split_on slash (lm_data_path m) = dir_segments (dirname (lm_data_path m)) @ [r]"
    by (rule dirname_segments [OF assms(1)])
  let ?f = "container (dirname (lm_data_path m)) (folders_on k (map fst (buckets ms)))"
  have "contains ?f (dirname (lm_data_path m))" by (rule container_props)
  then obtain rest where "split_on slash (lm_data_path m) = dir_segments ?f @ rest @ [r]" using r by (auto simp: contains_def)
  then have "data_source_relative_path (lm_data_path m) ?f = Some (join_on slash (rest @ [r]))"
    unfolding relative_path_Some_iff by blast
  moreover have "group_of ms m = Synced k ?f" by (simp add: group_of_def collapsed_identity_def module_identity_def assms(2))
  ultimately show ?thesis using that by blast
qed

section \<open>Proposals\<close>

lemma propose_Inr:
  assumes "propose E slugify i members = Inr p"
  shows "pp_module_pks p = sort (map lm_pk members)"
    and "pp_data_source_id p = (case i of Uploaded k \<Rightarrow> None | Synced k folder \<Rightarrow> Some k)"
    and "pp_data_path p = (case i of Uploaded k \<Rightarrow> [] | Synced k folder \<Rightarrow> folder)"
    and "pp_source_type p = (case i of Uploaded k \<Rightarrow> UPLOAD | Synced k folder \<Rightarrow> DATA_SOURCE)"
  using assms by (auto simp: propose_def Let_def result_simps split: group_identity.splits)

lemma propose_all_Inr:
  "propose_all E slugify bs = Inr ps \<Longrightarrow> list_all2 (\<lambda>b p. propose E slugify (fst b) (snd b) = Inr p) bs ps"
  by (induction E slugify bs arbitrary: ps rule: propose_all.induct) (auto simp: result_simps)

lemma group_modules_Inr:
  assumes "group_modules E slugify ms = Inr ps"
  obtains qs where "ps = sort_key pp_key qs"
    "list_all2 (\<lambda>b p. propose E slugify (fst b) (snd b) = Inr p) (collapse_buckets (buckets ms)) qs"
  using assms that by (auto simp: group_modules_def result_simps dest: propose_all_Inr)

lemma group_modules_proposal:
  assumes "group_modules E slugify ms = Inr ps" "p \<in> set ps"
  obtains i members where "(i, members) \<in> set (collapse_buckets (buckets ms))" "propose E slugify i members = Inr p"
proof -
  obtain qs where ps: "ps = sort_key pp_key qs"
    and all: "list_all2 (\<lambda>b p. propose E slugify (fst b) (snd b) = Inr p) (collapse_buckets (buckets ms)) qs"
    by (rule group_modules_Inr [OF assms(1)])
  have "p \<in> set qs" using assms(2) by (simp add: ps)
  then obtain n where n: "n < length qs" "qs ! n = p" by (auto simp: in_set_conv_nth)
  have "collapse_buckets (buckets ms) ! n \<in> set (collapse_buckets (buckets ms))"
    using n list_all2_lengthD [OF all] by simp
  moreover have "propose E slugify (fst (collapse_buckets (buckets ms) ! n)) (snd (collapse_buckets (buckets ms) ! n)) = Inr p"
    using list_all2_nthD2 [OF all n(1)] n(2) by simp
  ultimately show ?thesis using that by (metis prod.collapse)
qed

lemma group_modules_pks:
  assumes "group_modules E slugify ms = Inr ps"
  shows "mset (concat (map pp_module_pks ps)) = mset (map lm_pk ms)"
proof -
  obtain qs where ps: "ps = sort_key pp_key qs"
    and all: "list_all2 (\<lambda>b p. propose E slugify (fst b) (snd b) = Inr p) (collapse_buckets (buckets ms)) qs"
    by (rule group_modules_Inr [OF assms])
  have flat: "mset (concat (map f xs)) = (\<Sum>x \<in># mset xs. mset (f x))" for f :: "proposed_project \<Rightarrow> pk list" and xs
    by (induction xs) simp_all
  have "mset (concat (map pp_module_pks qs)) = mset (map lm_pk (concat (map snd (collapse_buckets (buckets ms)))))"
    using all by (induction rule: list_all2_induct) (simp_all add: propose_Inr)
  then show ?thesis using groups_hold [of ms] by (simp add: ps flat)
qed

lemma proposed_member:
  assumes "propose E slugify i members = Inr p" "(i, members) \<in> set (collapse_buckets (buckets ms))"
    and "distinct (map lm_pk ms)" "m \<in> set ms" "lm_pk m \<in> set (pp_module_pks p)"
  shows "group_of ms m = i"
proof -
  have members: "set members = {m \<in> set ms. group_of ms m = i}"
    using group_members [OF assms(2)] by (metis set_mset_filter set_mset_mset)
  obtain n where "n \<in> set members" "lm_pk n = lm_pk m" using assms(5) by (auto simp: propose_Inr [OF assms(1)])
  then show ?thesis using assms(3,4) members by (auto simp: distinct_map dest: inj_onD)
qed

text \<open>
  C16. A migration proposes a Project for every built-in module exactly once; two proposals on one Data
  Source never hold one another's directory, as the model of a Project demands; and every module lies
  below the directory of the proposal that holds it, on that proposal's source.
\<close>

theorem migration_groups_partition:
  assumes "group_modules E slugify ms = Inr ps" "distinct (map lm_pk ms)"
    and "\<forall>m \<in> set ms. lm_data_source_id m \<noteq> None \<longrightarrow> [] \<notin> set (split_on slash (lm_data_path m))"
  shows "mset (concat (map pp_module_pks ps)) = mset (map lm_pk ms) \<and> sorted (map pp_key ps) \<and>
    (\<forall>p \<in> set ps. \<forall>q \<in> set ps. pp_data_source_id p \<noteq> None \<and> pp_data_source_id p = pp_data_source_id q \<and>
       data_paths_overlap (pp_data_path p) (pp_data_path q) \<longrightarrow> p = q) \<and>
    (\<forall>p \<in> set ps. \<forall>m \<in> set ms. lm_pk m \<in> set (pp_module_pks p) \<longrightarrow> pp_data_source_id p = lm_data_source_id m \<and>
       (lm_data_source_id m \<noteq> None \<longrightarrow> data_source_relative_path (lm_data_path m) (pp_data_path p) \<noteq> None))"
proof (intro conjI ballI impI)
  show "mset (concat (map pp_module_pks ps)) = mset (map lm_pk ms)" by (rule group_modules_pks [OF assms(1)])
  obtain qs where "ps = sort_key pp_key qs" by (rule group_modules_Inr [OF assms(1)])
  then show "sorted (map pp_key ps)" by simp
next
  fix p q assume pq: "p \<in> set ps" "q \<in> set ps" and same: "pp_data_source_id p \<noteq> None \<and> pp_data_source_id p = pp_data_source_id q \<and>
    data_paths_overlap (pp_data_path p) (pp_data_path q)"
  obtain i members where p: "(i, members) \<in> set (collapse_buckets (buckets ms))" "propose E slugify i members = Inr p"
    by (rule group_modules_proposal [OF assms(1) pq(1)])
  obtain j others where q: "(j, others) \<in> set (collapse_buckets (buckets ms))" "propose E slugify j others = Inr q"
    by (rule group_modules_proposal [OF assms(1) pq(2)])
  obtain k a b where ids: "i = Synced k a" "j = Synced k b" "data_paths_overlap a b"
    using same by (auto simp: propose_Inr [OF p(2)] propose_Inr [OF q(2)] split: group_identity.splits)
  have "a = b" using synced_groups_disjoint [of k a ms b] ids p(1) q(1) by force
  then have "members = others" using p(1) q(1) ids collapse_simps(1) by (metis eq_key_imp_eq_value)
  then show "p = q" using p(2) q(2) ids \<open>a = b\<close> by simp
next
  fix p m assume pm: "p \<in> set ps" "m \<in> set ms" "lm_pk m \<in> set (pp_module_pks p)"
  obtain i members where p: "(i, members) \<in> set (collapse_buckets (buckets ms))" "propose E slugify i members = Inr p"
    by (rule group_modules_proposal [OF assms(1) pm(1)])
  have i: "group_of ms m = i" by (rule proposed_member [OF p(2,1) assms(2) pm(2,3)])
  show "pp_data_source_id p = lm_data_source_id m"
    using i by (auto simp: propose_Inr [OF p(2)] group_of_def collapsed_identity_def module_identity_def split: option.splits)
  assume "lm_data_source_id m \<noteq> None"
  then obtain k where k: "lm_data_source_id m = Some k" by blast
  have "[] \<notin> set (split_on slash (lm_data_path m))" using assms(3) pm(2) k by simp
  from this k pm(2) obtain folder rel where "group_of ms m = Synced k folder" "data_source_relative_path (lm_data_path m) folder = Some rel"
    by (rule group_below)
  then show "data_source_relative_path (lm_data_path m) (pp_data_path p) \<noteq> None" using i by (simp add: propose_Inr(3) [OF p(2)])
qed

definition example_module :: "pk \<Rightarrow> pk option \<Rightarrow> string \<Rightarrow> legacy_module" where
  "example_module k source path = \<lparr>lm_pk = k, lm_file_path = lit path, lm_python_name = lit ''m'', lm_data_source_id = source,
     lm_data_path = (if source = None then [] else lit path), lm_scripts = []\<rparr>"

theorem migration_groups_partition_witness:
  "\<exists>ps. group_modules ascii_python (\<lambda>s. s) [example_module 1 (Some 3) ''a/b/y.py'', example_module 2 (Some 3) ''a/x.py'', example_module 4 None ''u.py''] = Inr ps \<and>
     mset (concat (map pp_module_pks ps)) = {#1, 2, 4#} \<and> sorted (map pp_key ps)"
proof -
  let ?ms = "[example_module 1 (Some 3) ''a/b/y.py'', example_module 2 (Some 3) ''a/x.py'', example_module 4 None ''u.py'']"
  have "is_ok (group_modules ascii_python (\<lambda>s. s) ?ms)" by code_simp
  then obtain ps where run: "group_modules ascii_python (\<lambda>s. s) ?ms = Inr ps" by (auto simp: is_ok_iff)
  have d: "distinct (map lm_pk ?ms)" by (simp add: example_module_def)
  have "[] \<notin> set (split_on slash (lm_data_path (example_module 1 (Some 3) ''a/b/y.py'')))"
    "[] \<notin> set (split_on slash (lm_data_path (example_module 2 (Some 3) ''a/x.py'')))" by code_simp+
  then have "\<forall>m \<in> set ?ms. lm_data_source_id m \<noteq> None \<longrightarrow> [] \<notin> set (split_on slash (lm_data_path m))"
    by (simp add: example_module_def [of 4])
  from migration_groups_partition [OF run d this] show ?thesis using run by (simp add: example_module_def)
qed

end
