(* ===== verification/Migration_Run.thy ===== *)
theory Migration_Run
  imports Manifest Records Transitions
begin

text \<open>
  models/migration.py and the passes that move a migration along: staging, the cutover, the activation of
  what was staged, the reference passes and the cleanup.  A pass holds the installation's migration lock
  and works on a freshly read row, so its effect on the row is the sequence of versions it commits; an
  interruption leaves any version of that sequence behind.
\<close>

section \<open>The run\<close>

datatype migration_state = LEGACY_STATE | STAGING_STATE | CUTOVER_STATE | MIGRATED_STATE

definition state_rank :: "migration_state \<Rightarrow> nat" where
  "state_rank s = (case s of LEGACY_STATE \<Rightarrow> 0 | STAGING_STATE \<Rightarrow> 1 | CUTOVER_STATE \<Rightarrow> 2 | MIGRATED_STATE \<Rightarrow> 3)"

text \<open>The order a run moves through.\<close>

instantiation migration_state :: linorder
begin

definition less_eq_migration_state :: "migration_state \<Rightarrow> migration_state \<Rightarrow> bool" where
  "less_eq_migration_state a b \<longleftrightarrow> state_rank a \<le> state_rank b"

definition less_migration_state :: "migration_state \<Rightarrow> migration_state \<Rightarrow> bool" where
  "less_migration_state a b \<longleftrightarrow> state_rank a < state_rank b"

instance
  by standard (auto simp: less_eq_migration_state_def less_migration_state_def state_rank_def split: migration_state.splits)

end

lemmas state_order = less_eq_migration_state_def less_migration_state_def

definition STATE_ORDER :: "migration_state list" where
  "STATE_ORDER = [LEGACY_STATE, STAGING_STATE, CUTOVER_STATE, MIGRATED_STATE]"

record migration_run =
  g_id :: pk
  g_created :: time
  g_state :: migration_state
  g_cutover_started :: "time option"
  g_completed :: "time option"
  g_journal :: "(pystr \<times> json) list"
  g_warnings :: "pystr list"

definition is_closed :: "migration_run \<Rightarrow> bool" where
  "is_closed r \<longleftrightarrow> g_state r = MIGRATED_STATE"

fun newest_run :: "migration_run list \<Rightarrow> migration_run option" where
  "newest_run [] = None"
| "newest_run (r # rs) = (case newest_run rs of None \<Rightarrow> Some r | Some m \<Rightarrow> if g_created r < g_created m then Some m else Some r)"

definition current_run :: "migration_run list \<Rightarrow> migration_run option" where
  "current_run runs = newest_run (filter (\<lambda>r. \<not> is_closed r) runs)"

definition clean_run :: "migration_run list \<Rightarrow> migration_run \<Rightarrow> unit result" where
  "clean_run runs self = (if is_closed self then Inr ()
     else if list_ex (\<lambda>r. g_id r \<noteq> g_id self \<and> \<not> is_closed r) runs then Inl (ValidationError [''open_run'']) else Inr ())"

definition new_run :: "migration_run list \<Rightarrow> time \<Rightarrow> migration_run" where
  "new_run runs now = \<lparr>g_id = fresh (map g_id runs), g_created = now, g_state = LEGACY_STATE, g_cutover_started = None,
     g_completed = None, g_journal = [], g_warnings = []\<rparr>"

definition start_run :: "time \<Rightarrow> migration_run list \<Rightarrow> (migration_run list \<times> migration_run) result" where
  "start_run now runs = rbind (clean_run runs (new_run runs now)) (\<lambda>_. Inr (runs @ [new_run runs now], new_run runs now))"

fun next_state :: "migration_state list \<Rightarrow> migration_state \<Rightarrow> migration_state option" where
  "next_state (a # b # rest) s = (if s = a then Some b else next_state (b # rest) s)"
| "next_state _ s = None"

definition advance :: "migration_state \<Rightarrow> time \<Rightarrow> migration_run \<Rightarrow> migration_run result" where
  "advance state now r =
     (if next_state STATE_ORDER (g_state r) \<noteq> Some state then Inl (ValidationError [''state''])
      else Inr (r\<lparr>g_state := state,
        g_cutover_started := (if state = CUTOVER_STATE then Some now else g_cutover_started r),
        g_completed := (if state = MIGRATED_STATE then Some now else g_completed r)\<rparr>))"

text \<open>\<open>{**stored, **entries}\<close> and \<open>stored.get(name, {})\<close>.\<close>

definition merged :: "(pystr \<times> json) list \<Rightarrow> (pystr \<times> json) list \<Rightarrow> (pystr \<times> json) list" where
  "merged stored entries = fold (\<lambda>(k, v). AList.update k v) entries stored"

definition mapping_at :: "string \<Rightarrow> (pystr \<times> json) list \<Rightarrow> (pystr \<times> json) list" where
  "mapping_at name journal = (case map_of journal (lit name) of Some (JObj kvs) \<Rightarrow> kvs | _ \<Rightarrow> [])"

definition record_journal :: "(pystr \<times> json) list \<Rightarrow> migration_run \<Rightarrow> migration_run" where
  "record_journal entries r = r\<lparr>g_journal := merged (g_journal r) entries\<rparr>"

definition record_mapping :: "string \<Rightarrow> (pystr \<times> json) list \<Rightarrow> migration_run \<Rightarrow> migration_run" where
  "record_mapping name entries r = record_journal [(lit name, JObj (merged (mapping_at name (g_journal r)) entries))] r"

text \<open>\<open>stamp\<close> is the text of the moment.\<close>

definition record_step :: "string \<Rightarrow> pystr \<Rightarrow> (pystr \<times> json) list \<Rightarrow> migration_run \<Rightarrow> migration_run" where
  "record_step name stamp detail r = record_journal [(lit ''steps'', JObj (AList.update (lit name)
     (JObj (merged [(lit ''completed'', JStr stamp)] detail)) (mapping_at ''steps'' (g_journal r))))] r"

definition record_warnings :: "pystr list \<Rightarrow> migration_run \<Rightarrow> migration_run" where
  "record_warnings ws r = r\<lparr>g_warnings := fold (\<lambda>m seen. if m \<in> set seen then seen else seen @ [m]) (g_warnings r @ ws) (g_warnings r)\<rparr>"

definition step_done :: "string \<Rightarrow> migration_run \<Rightarrow> bool" where
  "step_done name r \<longleftrightarrow> lit name \<in> fst ` set (mapping_at ''steps'' (g_journal r))"

definition recorded_counts :: "string \<Rightarrow> migration_run \<Rightarrow> json" where
  "recorded_counts name r = (case map_of (mapping_at ''steps'' (g_journal r)) (lit name) of
     Some detail \<Rightarrow> (case json_field detail ''counts'' of Some v \<Rightarrow> v | None \<Rightarrow> JObj []) | None \<Rightarrow> JObj [])"

section \<open>Passes\<close>

text \<open>What a pass commits, version by version, and how it ends: refused with a reason, or a value.\<close>

type_synonym 'a pass = "migration_run \<Rightarrow> migration_run list \<times> (string + 'a)"

definition commit :: "(migration_run \<Rightarrow> migration_run) \<Rightarrow> unit pass" where
  "commit f r = ([f r], Inr ())"

definition refuse :: "string \<Rightarrow> 'a pass" where
  "refuse reason r = ([], Inl reason)"

definition give :: "'a \<Rightarrow> 'a pass" where
  "give x r = ([], Inr x)"

definition pbind :: "'a pass \<Rightarrow> ('a \<Rightarrow> migration_run \<Rightarrow> migration_run list \<times> (string + 'b)) \<Rightarrow> 'b pass" where
  "pbind m f r =
     (case m r of
        (versions, Inl reason) \<Rightarrow> (versions, Inl reason)
      | (versions, Inr x) \<Rightarrow> (case f x (last (r # versions)) of (later, y) \<Rightarrow> (versions @ later, y)))"

text \<open>A pass that looks at the row first.\<close>

definition on_run :: "(migration_run \<Rightarrow> 'a pass) \<Rightarrow> 'a pass" where
  "on_run f r = f r r"

fun commit_all :: "(migration_run \<Rightarrow> migration_run) list \<Rightarrow> unit pass" where
  "commit_all [] = give ()"
| "commit_all (f # fs) = pbind (commit f) (\<lambda>_. commit_all fs)"

definition complete_step :: "string \<Rightarrow> pystr \<Rightarrow> json \<Rightarrow> pystr list \<Rightarrow> unit pass" where
  "complete_step name stamp counts ws = commit_all [record_warnings ws, record_step name stamp [(lit ''counts'', counts)]]"

definition in_journal :: "string \<Rightarrow> migration_run \<Rightarrow> bool" where
  "in_journal name r \<longleftrightarrow> lit name \<in> fst ` set (g_journal r)"

text \<open>
  What the cutover reads of the installation: the built-in runs at work and their journal entries, the
  workers, whether a Project could serve nothing, what it captures, what the closures record on the way,
  and whether a built-in run is left unfinished.
\<close>

record cutover_reads =
  cr_running :: "pk list"
  cr_running_noted :: "json option"
  cr_workers :: "pystr list"
  cr_accept_workers :: bool
  cr_unservable :: bool
  cr_permissions :: json
  cr_event_rules :: json
  cr_mapping :: json
  cr_schedules :: json
  cr_capture_warnings :: "pystr list"
  cr_cancellations :: "json list"
  cr_close_warnings :: "pystr list"
  cr_auto_sync :: json
  cr_counts :: json
  cr_unfinished_warnings :: "pystr list option"
  cr_now :: time
  cr_stamp :: pystr

definition missing_entries :: "(string \<times> json) list \<Rightarrow> migration_run \<Rightarrow> (pystr \<times> json) list" where
  "missing_entries entries r = map (\<lambda>(name, v). (lit name, v)) (filter (\<lambda>(name, v). \<not> in_journal name r) entries)"

definition capture :: "cutover_reads \<Rightarrow> unit pass" where
  "capture I = pbind
     (commit (\<lambda>r. record_journal (missing_entries [(''permissions'', cr_permissions I), (''event_rules'', cr_event_rules I),
         (''mapping'', cr_mapping I)] r @ [(lit ''schedules'', cr_schedules I)]) r))
     (\<lambda>_. commit (record_warnings (cr_capture_warnings I)))"

definition close_builtin :: "cutover_reads \<Rightarrow> unit pass" where
  "close_builtin I = commit_all
     (map (\<lambda>v. record_journal [(lit ''schedules'', v)]) (cr_cancellations I) @
      [record_warnings (cr_close_warnings I), \<lambda>r. record_journal (missing_entries [(''auto_sync'', cr_auto_sync I)] r) r])"

definition advanced :: "migration_state \<Rightarrow> time \<Rightarrow> unit pass" where
  "advanced state now r = (case advance state now r of Inl _ \<Rightarrow> ([], Inl ''state'') | Inr r' \<Rightarrow> ([r'], Inr ()))"

definition enter_cutover :: "cutover_reads \<Rightarrow> json pass" where
  "enter_cutover I = on_run (\<lambda>r.
     if g_state r \<notin> {STAGING_STATE, CUTOVER_STATE} then refuse ''state''
     else if step_done ''cutover'' r then give (recorded_counts ''cutover'' r)
     else if cr_running I \<noteq> [] then
       pbind (commit_all (case cr_running_noted I of None \<Rightarrow> [] | Some v \<Rightarrow> [record_journal [(lit ''schedules'', v)]])) (\<lambda>_. refuse ''running'')
     else if length (cr_workers I) > 1 \<and> \<not> cr_accept_workers I then refuse ''workers''
     else if \<not> in_journal ''mapping'' r \<and> cr_unservable I then refuse ''unservable''
     else pbind (commit_all (if length (cr_workers I) > 1
                             then [record_journal [(lit ''concurrent_workers_accepted'', JList (map JStr (cr_workers I)))]] else [])) (\<lambda>_.
       pbind (capture I) (\<lambda>_.
         pbind (on_run (\<lambda>r. if g_state r = STAGING_STATE then advanced CUTOVER_STATE (cr_now I) else give ())) (\<lambda>_.
           pbind (close_builtin I) (\<lambda>_.
             case cr_unfinished_warnings I of
               Some ws \<Rightarrow> pbind (commit (record_warnings ws)) (\<lambda>_. give (cr_counts I))
             | None \<Rightarrow> pbind (complete_step ''cutover'' (cr_stamp I) (cr_counts I) []) (\<lambda>_. give (cr_counts I)))))))"

text \<open>\<open>require_staged\<close>, \<open>_require_activated\<close> and \<open>_require_serving\<close>.\<close>

definition require_staged :: "unit pass" where
  "require_staged = on_run (\<lambda>r. if \<not> step_done ''cutover'' r then refuse ''not_entered''
     else if \<not> in_journal ''mapping'' r then refuse ''no_map'' else give ())"

definition require_activated :: "unit pass" where
  "require_activated = pbind require_staged (\<lambda>_. on_run (\<lambda>r. if step_done ''activate'' r then give () else refuse ''not_activated''))"

definition require_serving :: "bool \<Rightarrow> unit pass" where
  "require_serving serving = pbind require_activated (\<lambda>_. if serving then give () else refuse ''not_serving'')"

definition activate_staged :: "pystr \<Rightarrow> json \<Rightarrow> unit pass" where
  "activate_staged stamp outcomes = pbind require_staged (\<lambda>_. commit (record_step ''activate'' stamp [(lit ''projects'', outcomes)]))"

text \<open>
  The four passes of migration/references.py share their frame: the map they keep as they go, and the
  step they record unless work is outstanding.  The permission pass needs no serving Project and always
  records its step.
\<close>

datatype reference_pass = EventRules | Permissions | JobHistory | Schedules

fun reference_step :: "reference_pass \<Rightarrow> string" where
  "reference_step EventRules = ''repoint_event_rules''"
| "reference_step Permissions = ''repoint_permissions''"
| "reference_step JobHistory = ''repoint_job_history''"
| "reference_step Schedules = ''recreate_schedules''"

fun reference_map :: "reference_pass \<Rightarrow> string option" where
  "reference_map Permissions = Some ''split_permissions''"
| "reference_map Schedules = Some ''recreated_schedules''"
| "reference_map _ = None"

record reference_reads =
  rr_serving :: bool
  rr_recorded :: "(pystr \<times> json) list"
  rr_outstanding :: bool
  rr_counts :: json
  rr_warnings :: "pystr list"
  rr_stamp :: pystr

definition reference_pass_run :: "reference_pass \<Rightarrow> reference_reads \<Rightarrow> json pass" where
  "reference_pass_run kind I =
     pbind (if kind = Permissions then require_activated else require_serving (rr_serving I)) (\<lambda>_. on_run (\<lambda>r.
       if step_done (reference_step kind) r then give (recorded_counts (reference_step kind) r)
       else pbind (commit_all (case reference_map kind of None \<Rightarrow> []
               | Some name \<Rightarrow> map (\<lambda>e. record_mapping name [e]) (rr_recorded I))) (\<lambda>_.
         if kind \<noteq> Permissions \<and> rr_outstanding I then pbind (commit (record_warnings (rr_warnings I))) (\<lambda>_. give (rr_counts I))
         else pbind (complete_step (reference_step kind) (rr_stamp I) (rr_counts I) (rr_warnings I)) (\<lambda>_. give (rr_counts I)))))"

definition ready :: "migration_run \<Rightarrow> bool" where
  "ready r \<longleftrightarrow> (\<forall>kind \<in> {EventRules, Permissions, JobHistory, Schedules}. step_done (reference_step kind) r)"

text \<open>\<open>retire_legacy\<close>: the closing transaction commits the state and the step together.\<close>

definition retire_legacy :: "bool \<Rightarrow> json \<Rightarrow> pystr list \<Rightarrow> time \<Rightarrow> pystr \<Rightarrow> json pass" where
  "retire_legacy left_over counts ws now stamp = on_run (\<lambda>r.
     if step_done ''cleanup'' r then give (recorded_counts ''cleanup'' r)
     else pbind require_staged (\<lambda>_. on_run (\<lambda>r. if \<not> ready r then refuse ''references''
       else if left_over then pbind (commit (record_warnings ws)) (\<lambda>_. give counts)
       else (\<lambda>r. case advance MIGRATED_STATE now r of
          Inl _ \<Rightarrow> ([], Inl ''state'')
        | Inr r' \<Rightarrow> ([record_step ''cleanup'' stamp [(lit ''counts'', counts)] (record_warnings ws r')], Inr counts)))))"

text \<open>The migration's part of \<open>MigrationStagingJob.run\<close>: what it makes of the open run before it stages.\<close>

definition enter_staging :: "bool \<Rightarrow> time \<Rightarrow> unit pass" where
  "enter_staging blocked now = on_run (\<lambda>r.
     if g_state r \<notin> {LEGACY_STATE, STAGING_STATE} then refuse ''state''
     else if in_journal ''mapping'' r then refuse ''captured''
     else if blocked then refuse ''blocking''
     else if g_state r = LEGACY_STATE then advanced STAGING_STATE now else give ())"

section \<open>The table\<close>

text \<open>A pass on the open run, interrupted after any of its commits or not at all.\<close>

inductive migration_moves :: "migration_run list \<Rightarrow> migration_run list \<Rightarrow> bool" where
  starts: "current_run runs = None \<Longrightarrow> start_run now runs = Inr (runs', r) \<Longrightarrow> migration_moves runs runs'"
| stages: "current_run runs = Some r \<Longrightarrow> r' \<in> set (fst (enter_staging blocked now r)) \<Longrightarrow> migration_moves runs (update_rows (\<lambda>x. g_id x = g_id r) (\<lambda>_. r') runs)"
| cuts_over: "current_run runs = Some r \<Longrightarrow> r' \<in> set (fst (enter_cutover I r)) \<Longrightarrow> migration_moves runs (update_rows (\<lambda>x. g_id x = g_id r) (\<lambda>_. r') runs)"
| activates: "current_run runs = Some r \<Longrightarrow> r' \<in> set (fst (activate_staged stamp outcomes r)) \<Longrightarrow> migration_moves runs (update_rows (\<lambda>x. g_id x = g_id r) (\<lambda>_. r') runs)"
| repoints: "current_run runs = Some r \<Longrightarrow> r' \<in> set (fst (reference_pass_run kind J r)) \<Longrightarrow> migration_moves runs (update_rows (\<lambda>x. g_id x = g_id r) (\<lambda>_. r') runs)"
| retires: "current_run runs = Some r \<Longrightarrow> r' \<in> set (fst (retire_legacy left_over counts ws now stamp r)) \<Longrightarrow> migration_moves runs (update_rows (\<lambda>x. g_id x = g_id r) (\<lambda>_. r') runs)"

text \<open>The tables a migration leads to, over any number of passes and interruptions.\<close>

abbreviation migration_reached :: "migration_run list \<Rightarrow> bool" where
  "migration_reached \<equiv> reachable (\<lambda>runs. runs = []) migration_moves"

section \<open>What the records change\<close>

lemma lit_eq [simp]: "lit a = lit b \<longleftrightarrow> a = b"
  using inj_lit by blast

lemma map_of_merged: "map_of (merged stored entries) k = (case map_of (rev entries) k of None \<Rightarrow> map_of stored k | Some v \<Rightarrow> Some v)"
  unfolding merged_def
proof (induction entries arbitrary: stored)
  case (Cons e entries)
  obtain j v where e: "e = (j, v)" by (cases e)
  show ?case using Cons.IH [of "AList.update j v stored"] by (simp add: e map_add_def update_conv' split: option.split)
qed simp

lemma keys_merged: "fst ` set (merged stored entries) = fst ` set stored \<union> fst ` set entries"
  unfolding merged_def
proof (induction entries arbitrary: stored)
  case (Cons e entries)
  obtain k v where e: "e = (k, v)" by (cases e)
  show ?case using Cons.IH [of "AList.update k v stored"] by (simp add: e dom_update)
qed simp

lemma journal_after_record [simp]: "in_journal name (record_journal entries r) \<longleftrightarrow> in_journal name r \<or> lit name \<in> fst ` set entries"
  by (simp add: in_journal_def record_journal_def keys_merged)

lemma journal_value: "map_of (g_journal (record_journal entries r)) k =
    (case map_of (rev entries) k of None \<Rightarrow> map_of (g_journal r) k | Some v \<Rightarrow> Some v)"
  by (simp add: record_journal_def map_of_merged)

lemma mapping_at_same: "map_of j (lit name) = map_of j' (lit name) \<Longrightarrow> mapping_at name j = mapping_at name j'"
  by (simp add: mapping_at_def)

lemma steps_after_record [simp]:
  "lit ''steps'' \<notin> fst ` set entries \<Longrightarrow> step_done name (record_journal entries r) = step_done name r"
  unfolding step_done_def
  by (subst mapping_at_same [where j' = "g_journal r"]) (simp_all add: journal_value map_of_eq_None_iff split: option.split, metis map_of_SomeD set_rev fst_conv imageI)

lemma steps_after_step [simp]: "step_done name (record_step m stamp detail r) \<longleftrightarrow> name = m \<or> step_done name r"
  by (simp add: step_done_def record_step_def mapping_at_def [of _ "g_journal (record_journal _ _)"] journal_value dom_update)

lemma journal_after_step [simp]: "in_journal name (record_step m stamp detail r) \<longleftrightarrow> in_journal name r \<or> name = ''steps''"
  by (simp add: record_step_def)

lemma after_mapping [simp]:
  "in_journal name (record_mapping m entries r) \<longleftrightarrow> in_journal name r \<or> name = m"
  "m \<noteq> ''steps'' \<Longrightarrow> step_done name (record_mapping m entries r) = step_done name r"
  by (simp_all add: record_mapping_def)

lemma record_fields [simp]:
  "g_id (record_journal entries r) = g_id r" "g_state (record_journal entries r) = g_state r"
  "g_cutover_started (record_journal entries r) = g_cutover_started r" "g_completed (record_journal entries r) = g_completed r"
  "g_warnings (record_journal entries r) = g_warnings r"
  "g_id (record_step m stamp detail r) = g_id r" "g_state (record_step m stamp detail r) = g_state r"
  "g_cutover_started (record_step m stamp detail r) = g_cutover_started r" "g_completed (record_step m stamp detail r) = g_completed r"
  "g_warnings (record_step m stamp detail r) = g_warnings r"
  "g_id (record_mapping m entries r) = g_id r" "g_state (record_mapping m entries r) = g_state r"
  "g_cutover_started (record_mapping m entries r) = g_cutover_started r" "g_completed (record_mapping m entries r) = g_completed r"
  "g_warnings (record_mapping m entries r) = g_warnings r"
  "g_id (record_warnings ws r) = g_id r" "g_state (record_warnings ws r) = g_state r"
  "g_cutover_started (record_warnings ws r) = g_cutover_started r" "g_completed (record_warnings ws r) = g_completed r"
  "g_journal (record_warnings ws r) = g_journal r" "step_done name (record_warnings ws r) = step_done name r"
  "in_journal name (record_warnings ws r) = in_journal name r"
  by (simp_all add: record_journal_def record_step_def record_mapping_def record_warnings_def step_done_def in_journal_def)

lemma warnings_kept: "set (g_warnings r) \<subseteq> set (g_warnings (record_warnings ws r))"
proof -
  have "set seen \<subseteq> set (fold (\<lambda>m seen. if m \<in> set seen then seen else seen @ [m]) xs seen)" for xs and seen :: "pystr list"
    by (induction xs arbitrary: seen) (fastforce split: if_splits)+
  then show ?thesis by (simp add: record_warnings_def del: fold_append)
qed

section \<open>The invariant and the progress of a run\<close>

text \<open>The references captured once, before anything is closed.\<close>

definition CAPTURED :: "string set" where
  "CAPTURED = {''permissions'', ''event_rules'', ''mapping''}"

definition run_ok :: "migration_run \<Rightarrow> bool" where
  "run_ok r \<longleftrightarrow> (step_done ''cleanup'' r \<longleftrightarrow> g_state r = MIGRATED_STATE) \<and>
     (step_done ''cutover'' r \<longrightarrow> CUTOVER_STATE \<le> g_state r) \<and>
     (CUTOVER_STATE \<le> g_state r \<longrightarrow> g_cutover_started r \<noteq> None \<and> (\<forall>name \<in> insert ''schedules'' CAPTURED. in_journal name r)) \<and>
     (step_done ''activate'' r \<longrightarrow> step_done ''cutover'' r) \<and>
     (\<forall>kind. step_done (reference_step kind) r \<longrightarrow> step_done ''activate'' r) \<and>
     (g_state r = MIGRATED_STATE \<longrightarrow> ready r \<and> g_completed r \<noteq> None)"

definition progress :: "migration_run \<Rightarrow> migration_run \<Rightarrow> bool" where
  "progress r r' \<longleftrightarrow> g_id r' = g_id r \<and> g_state r \<le> g_state r' \<and>
     (\<forall>name \<in> insert ''auto_sync'' CAPTURED. in_journal name r \<longrightarrow> map_of (g_journal r') (lit name) = map_of (g_journal r) (lit name)) \<and>
     (\<forall>name. in_journal name r \<longrightarrow> in_journal name r') \<and> (\<forall>name. step_done name r \<longrightarrow> step_done name r') \<and>
     set (g_warnings r) \<subseteq> set (g_warnings r')"

lemma progress_refl [simp]: "progress r r" by (simp add: progress_def)

lemma progress_trans: "progress r s \<Longrightarrow> progress s t \<Longrightarrow> progress r t"
  by (fastforce simp: progress_def)

section \<open>Rules for passes\<close>

text \<open>From a row that satisfies P, every version committed is sound and no step back, and a value ends in Q.\<close>

definition sound_pass :: "(migration_run \<Rightarrow> bool) \<Rightarrow> 'a pass \<Rightarrow> ('a \<Rightarrow> migration_run \<Rightarrow> bool) \<Rightarrow> bool" where
  "sound_pass P m Q \<longleftrightarrow> (\<forall>r. run_ok r \<longrightarrow> P r \<longrightarrow> (\<forall>r' \<in> set (fst (m r)). run_ok r' \<and> progress r r') \<and>
     (\<forall>x. snd (m r) = Inr x \<longrightarrow> Q x (last (r # fst (m r)))))"

lemma sound_give [intro]: "(\<And>r. P r \<Longrightarrow> Q x r) \<Longrightarrow> sound_pass P (give x) Q"
  by (simp add: sound_pass_def give_def)

lemma sound_refuse [simp, intro]: "sound_pass P (refuse reason) Q"
  by (simp add: sound_pass_def refuse_def)

lemma sound_commit: "(\<And>r. run_ok r \<Longrightarrow> P r \<Longrightarrow> run_ok (f r) \<and> progress r (f r) \<and> Q () (f r)) \<Longrightarrow> sound_pass P (commit f) Q"
  by (simp add: sound_pass_def commit_def)

lemma sound_on_run: "(\<And>r0. sound_pass (\<lambda>r. P r \<and> r = r0) (f r0) Q) \<Longrightarrow> sound_pass P (on_run f) Q"
  by (simp add: sound_pass_def on_run_def)

lemma sound_pre: "sound_pass P' m Q \<Longrightarrow> (\<And>r. P r \<Longrightarrow> P' r) \<Longrightarrow> sound_pass P m Q"
  by (simp add: sound_pass_def)

lemma sound_bind:
  assumes "sound_pass P m Q" "\<And>x. sound_pass (Q x) (f x) R"
  shows "sound_pass P (pbind m f) R"
  unfolding sound_pass_def
proof (intro allI impI)
  fix r assume r: "run_ok r" "P r"
  obtain versions out where m: "m r = (versions, out)" by (cases "m r")
  have first: "\<forall>r' \<in> set versions. run_ok r' \<and> progress r r'" using assms(1) r m by (auto simp: sound_pass_def)
  define s where "s = last (r # versions)"
  have s: "run_ok s" "progress r s" using first r by (auto simp: s_def)
  show "(\<forall>r' \<in> set (fst (pbind m f r)). run_ok r' \<and> progress r r') \<and> (\<forall>x. snd (pbind m f r) = Inr x \<longrightarrow> R x (last (r # fst (pbind m f r))))"
  proof (cases out)
    case (Inl reason)
    then show ?thesis using first by (simp add: pbind_def m)
  next
    case (Inr x)
    have Q: "Q x s" using assms(1) r m Inr by (auto simp: sound_pass_def s_def)
    obtain later y where f: "f x s = (later, y)" by (cases "f x s")
    have rest: "\<forall>r' \<in> set later. run_ok r' \<and> progress s r'" "\<forall>z. y = Inr z \<longrightarrow> R z (last (s # later))"
      using assms(2) [of x] s(1) Q f by (auto simp: sound_pass_def)
    have "last (r # versions @ later) = last (s # later)" by (simp add: s_def last_append)
    moreover have "pbind m f r = (versions @ later, y)" by (simp add: pbind_def m Inr f [unfolded s_def] del: last.simps)
    moreover have "\<forall>r' \<in> set later. progress r r'" using rest(1) progress_trans [OF s(2)] by blast
    ultimately show ?thesis using first rest by auto
  qed
qed

lemma sound_commit_all:
  "(\<And>f r. f \<in> set fs \<Longrightarrow> run_ok r \<Longrightarrow> P r \<Longrightarrow> run_ok (f r) \<and> progress r (f r) \<and> P (f r)) \<Longrightarrow> sound_pass P (commit_all fs) (\<lambda>_. P)"
proof (induction fs)
  case (Cons f fs)
  have "sound_pass P (commit f) (\<lambda>_. P)" by (rule sound_commit) (use Cons.prems in simp)
  moreover have "sound_pass P (commit_all fs) (\<lambda>_. P)" by (rule Cons.IH) (use Cons.prems in simp)
  ultimately show ?case by (auto intro: sound_bind)
qed (auto intro: sound_give)

section \<open>Every pass is sound\<close>

text \<open>Recording entries that are new to the journal, or that are not captured once.\<close>

lemma sound_record_journal:
  assumes "run_ok r" "\<forall>(k, v) \<in> set entries. \<forall>name \<in> insert ''auto_sync'' CAPTURED. k = lit name \<longrightarrow> \<not> in_journal name r"
    and "lit ''steps'' \<notin> fst ` set entries"
  shows "run_ok (record_journal entries r) \<and> progress r (record_journal entries r)"
proof -
  have "map_of (rev entries) (lit name) = None" if "name \<in> insert ''auto_sync'' CAPTURED" "in_journal name r" for name
    using assms(2) that by (auto simp: map_of_eq_None_iff)
  then have "progress r (record_journal entries r)"
    using assms(3) by (auto simp: progress_def journal_value split: option.split)
  moreover have "run_ok (record_journal entries r)" using assms(1,3) by (simp add: run_ok_def ready_def)
  ultimately show ?thesis by simp
qed

lemma sound_record_warnings: "run_ok r \<Longrightarrow> run_ok (record_warnings ws r) \<and> progress r (record_warnings ws r)"
  using warnings_kept [of r ws] by (auto simp: run_ok_def ready_def progress_def)

lemma progress_step: "progress r (record_step name stamp detail r)"
proof -
  have "map_of (g_journal (record_step name stamp detail r)) k = map_of (g_journal r) k" if "k \<noteq> lit ''steps''" for k
    using that by (simp add: record_step_def journal_value)
  then show ?thesis by (auto simp: progress_def CAPTURED_def)
qed

lemma steps_not_captured [simp]: "''steps'' \<notin> CAPTURED" "''steps'' \<noteq> ''schedules''" "''schedules'' \<notin> CAPTURED"
  by (simp_all add: CAPTURED_def)

lemma advance_Inr:
  "advance state now r = Inr r' \<longleftrightarrow> next_state STATE_ORDER (g_state r) = Some state \<and>
     r' = r\<lparr>g_state := state, g_cutover_started := (if state = CUTOVER_STATE then Some now else g_cutover_started r),
       g_completed := (if state = MIGRATED_STATE then Some now else g_completed r)\<rparr>"
  by (auto simp: advance_def)

lemma state_fields [simp]:
  "in_journal name (r\<lparr>g_state := s\<rparr>) = in_journal name r" "step_done name (r\<lparr>g_state := s\<rparr>) = step_done name r"
  "in_journal name (r\<lparr>g_cutover_started := t\<rparr>) = in_journal name r" "step_done name (r\<lparr>g_cutover_started := t\<rparr>) = step_done name r"
  "in_journal name (r\<lparr>g_completed := t\<rparr>) = in_journal name r" "step_done name (r\<lparr>g_completed := t\<rparr>) = step_done name r"
  by (simp_all add: in_journal_def step_done_def)

lemma reference_steps [simp]:
  "reference_step kind \<noteq> ''cutover''" "reference_step kind \<noteq> ''cleanup''" "reference_step kind \<noteq> ''activate''"
  "''cutover'' \<noteq> reference_step kind" "''cleanup'' \<noteq> reference_step kind" "''activate'' \<noteq> reference_step kind"
  by (cases kind, simp_all)+

lemma sound_advanced:
  "(\<And>r r'. run_ok r \<Longrightarrow> P r \<Longrightarrow> advance state now r = Inr r' \<Longrightarrow> run_ok r' \<and> progress r r' \<and> Q () r') \<Longrightarrow> sound_pass P (advanced state now) Q"
  by (auto simp: sound_pass_def advanced_def split: sum.splits)

lemma sound_enter_staging: "sound_pass (\<lambda>r. True) (enter_staging blocked now) (\<lambda>_ _. True)"
proof -
  have "sound_pass (\<lambda>r. g_state r = LEGACY_STATE \<and> \<not> in_journal ''mapping'' r) (advanced STAGING_STATE now) (\<lambda>_ _. True)"
  proof (rule sound_advanced)
    fix r r' assume r: "run_ok r" "g_state r = LEGACY_STATE \<and> \<not> in_journal ''mapping'' r" "advance STAGING_STATE now r = Inr r'"
    then have r': "r' = r\<lparr>g_state := STAGING_STATE, g_cutover_started := g_cutover_started r, g_completed := g_completed r\<rparr>"
      by (simp add: advance_Inr)
    have "progress r r'" using r(2) by (simp add: r' progress_def state_order state_rank_def)
    moreover have "run_ok r'" using r(1,2) by (auto simp: r' run_ok_def state_order state_rank_def)
    ultimately show "run_ok r' \<and> progress r r' \<and> True" by simp
  qed
  then have advances: "sound_pass (\<lambda>r. r = r0) (advanced STAGING_STATE now) (\<lambda>_ _. True)"
    if "g_state r0 = LEGACY_STATE" "\<not> in_journal ''mapping'' r0" for r0
    by (rule sound_pre) (use that in simp)
  show ?thesis unfolding enter_staging_def
    by (rule sound_on_run) (simp add: advances sound_give)
qed

lemma sound_require_staged:
  "sound_pass P require_staged (\<lambda>_ r. P r \<and> step_done ''cutover'' r \<and> in_journal ''mapping'' r)"
  by (simp add: sound_pass_def require_staged_def on_run_def refuse_def give_def)

lemma sound_require_activated: "sound_pass P require_activated (\<lambda>_ r. P r \<and> step_done ''activate'' r)"
  by (simp add: sound_pass_def require_activated_def require_staged_def pbind_def on_run_def refuse_def give_def)

lemma sound_require_serving: "sound_pass P (require_serving serving) (\<lambda>_ r. P r \<and> step_done ''activate'' r)"
  by (simp add: sound_pass_def require_serving_def require_activated_def require_staged_def pbind_def on_run_def refuse_def give_def)

lemma sound_activate: "sound_pass (\<lambda>r. True) (activate_staged stamp outcomes) (\<lambda>_ _. True)"
  unfolding activate_staged_def
proof (rule sound_bind [OF sound_require_staged], rule sound_commit)
  fix r assume "run_ok r" and "True \<and> step_done ''cutover'' r \<and> in_journal ''mapping'' r"
  then show "run_ok (record_step ''activate'' stamp [(lit ''projects'', outcomes)] r) \<and>
      progress r (record_step ''activate'' stamp [(lit ''projects'', outcomes)] r) \<and> True"
    using progress_step [of r] by (auto simp: run_ok_def ready_def)
qed

lemma sound_complete_step:
  assumes "\<And>r. run_ok r \<Longrightarrow> P r \<Longrightarrow> run_ok (record_step name stamp [(lit ''counts'', counts)] r)"
    and "\<And>r. P r \<Longrightarrow> P (record_warnings ws r)"
  shows "sound_pass P (complete_step name stamp counts ws) (\<lambda>_ _. True)"
proof -
  have "sound_pass P (commit (record_warnings ws)) (\<lambda>_. P)" by (rule sound_commit) (use sound_record_warnings assms(2) in blast)
  moreover have "sound_pass P (commit (record_step name stamp [(lit ''counts'', counts)])) (\<lambda>_ _. True)"
    by (rule sound_commit) (use progress_step assms(1) in blast)
  ultimately show ?thesis unfolding complete_step_def commit_all.simps by (auto intro!: sound_bind sound_give)
qed

lemma sound_reference_pass: "sound_pass (\<lambda>r. True) (reference_pass_run kind I) (\<lambda>_ _. True)"
  unfolding reference_pass_run_def
proof (rule sound_bind)
  show "sound_pass (\<lambda>r. True) (if kind = Permissions then require_activated else require_serving (rr_serving I))
      (\<lambda>_. step_done ''activate'')"
    using sound_require_activated [of "\<lambda>r. True"] sound_require_serving [of "\<lambda>r. True"] by simp
  let ?P = "step_done ''activate''"
  have mappings: "sound_pass ?P (commit_all (case reference_map kind of None \<Rightarrow> []
      | Some name \<Rightarrow> map (\<lambda>e. record_mapping name [e]) (rr_recorded I))) (\<lambda>_. ?P)"
  proof (rule sound_commit_all)
    fix f r assume f: "f \<in> set (case reference_map kind of None \<Rightarrow> [] | Some name \<Rightarrow> map (\<lambda>e. record_mapping name [e]) (rr_recorded I))"
      and r: "run_ok r" "?P r"
    obtain name e where fe: "f = record_mapping name [e]" "name \<in> {''split_permissions'', ''recreated_schedules''}"
      using f by (cases kind) auto
    then show "run_ok (f r) \<and> progress r (f r) \<and> ?P (f r)"
      using sound_record_journal [OF r(1), of "[(lit name, JObj (merged (mapping_at name (g_journal r)) [e]))]"] r(2)
      by (auto simp: record_mapping_def CAPTURED_def)
  qed
  fix x
  have ends: "sound_pass ?P (complete_step (reference_step kind) (rr_stamp I) (rr_counts I) (rr_warnings I)) (\<lambda>_ _. True)"
    by (rule sound_complete_step) (auto simp: run_ok_def ready_def)
  show "sound_pass ?P (on_run (\<lambda>r. if step_done (reference_step kind) r then give (recorded_counts (reference_step kind) r)
       else pbind (commit_all (case reference_map kind of None \<Rightarrow> [] | Some name \<Rightarrow> map (\<lambda>e. record_mapping name [e]) (rr_recorded I))) (\<lambda>_.
         if kind \<noteq> Permissions \<and> rr_outstanding I then pbind (commit (record_warnings (rr_warnings I))) (\<lambda>_. give (rr_counts I))
         else pbind (complete_step (reference_step kind) (rr_stamp I) (rr_counts I) (rr_warnings I)) (\<lambda>_. give (rr_counts I))))) (\<lambda>_ _. True)"
  proof (rule sound_on_run, rule sound_pre [where P' = ?P])
    fix r0
    have warned: "sound_pass ?P (commit (record_warnings (rr_warnings I))) (\<lambda>_ _. True)" by (rule sound_commit) (use sound_record_warnings in blast)
    have tail: "sound_pass ?P (if kind \<noteq> Permissions \<and> rr_outstanding I then pbind (commit (record_warnings (rr_warnings I))) (\<lambda>_. give (rr_counts I))
        else pbind (complete_step (reference_step kind) (rr_stamp I) (rr_counts I) (rr_warnings I)) (\<lambda>_. give (rr_counts I))) (\<lambda>_ _. True)"
      by (simp add: sound_bind [OF warned] sound_bind [OF ends] sound_give)
    show "sound_pass ?P (if step_done (reference_step kind) r0 then give (recorded_counts (reference_step kind) r0)
       else pbind (commit_all (case reference_map kind of None \<Rightarrow> [] | Some name \<Rightarrow> map (\<lambda>e. record_mapping name [e]) (rr_recorded I))) (\<lambda>_.
         if kind \<noteq> Permissions \<and> rr_outstanding I then pbind (commit (record_warnings (rr_warnings I))) (\<lambda>_. give (rr_counts I))
         else pbind (complete_step (reference_step kind) (rr_stamp I) (rr_counts I) (rr_warnings I)) (\<lambda>_. give (rr_counts I)))) (\<lambda>_ _. True)"
      using sound_bind [OF mappings tail] by (simp add: sound_give)
  qed simp
qed

lemma sound_retire: "sound_pass (\<lambda>r. True) (retire_legacy left_over counts ws now stamp) (\<lambda>_ _. True)"
  unfolding retire_legacy_def
proof (rule sound_on_run, rule sound_pre [where P' = "\<lambda>r. True"])
  fix r0
  let ?last = "\<lambda>r. case advance MIGRATED_STATE now r of Inl _ \<Rightarrow> ([], Inl ''state'')
    | Inr r' \<Rightarrow> ([record_step ''cleanup'' stamp [(lit ''counts'', counts)] (record_warnings ws r')], Inr counts)"
  let ?P = "\<lambda>r. True \<and> step_done ''cutover'' r \<and> in_journal ''mapping'' r"
  have last: "sound_pass (\<lambda>r. ?P r \<and> r = r1) (if \<not> ready r1 then refuse ''references'' else if left_over then pbind (commit (record_warnings ws)) (\<lambda>_. give counts) else ?last) (\<lambda>_ _. True)" for r1
  proof -
    have warned: "sound_pass (\<lambda>r. ?P r \<and> r = r1) (commit (record_warnings ws)) (\<lambda>_ _. True)" by (rule sound_commit) (use sound_record_warnings in blast)
    have closing: "run_ok v \<and> progress r v" if "run_ok r" "?P r" "ready r" "advance MIGRATED_STATE now r = Inr r'"
      "v = record_step ''cleanup'' stamp [(lit ''counts'', counts)] (record_warnings ws r')" for r r' v
    proof -
      have r': "r' = r\<lparr>g_state := MIGRATED_STATE, g_cutover_started := g_cutover_started r, g_completed := Some now\<rparr>" "g_state r = CUTOVER_STATE"
        using that(4) by (cases "g_state r"; simp add: advance_Inr STATE_ORDER_def)+
      have "progress r r'" using r'(2) by (simp add: r'(1) progress_def state_order state_rank_def)
      moreover have "progress r' (record_warnings ws r')" using warnings_kept [of r' ws] by (simp add: progress_def)
      moreover have "progress (record_warnings ws r') v" by (simp add: that(5) progress_step)
      ultimately have "progress r v" using progress_trans by blast
      moreover have "run_ok v" using that(1,2,3) r'(2) by (simp add: that(5) r'(1) run_ok_def ready_def state_order state_rank_def)
      ultimately show ?thesis by simp
    qed
    have "sound_pass (\<lambda>r. ?P r \<and> r = r1) ?last (\<lambda>_ _. True)" if "ready r1"
      using closing that by (auto simp: sound_pass_def split: sum.splits)
    moreover have "sound_pass (\<lambda>r. ?P r \<and> r = r1) (pbind (commit (record_warnings ws)) (\<lambda>_. give counts)) (\<lambda>_ _. True)"
      by (rule sound_bind [OF warned]) (simp add: sound_give)
    ultimately show ?thesis by simp
  qed
  show "sound_pass (\<lambda>r. True) (if step_done ''cleanup'' r0 then give (recorded_counts ''cleanup'' r0)
     else pbind require_staged (\<lambda>_. on_run (\<lambda>r. if \<not> ready r then refuse ''references''
       else if left_over then pbind (commit (record_warnings ws)) (\<lambda>_. give counts) else ?last))) (\<lambda>_ _. True)"
    using sound_bind [OF sound_require_staged [of "\<lambda>r. True"] sound_on_run [OF last]] by (simp add: sound_give)
qed simp

section \<open>The cutover\<close>

abbreviation not_migrated :: "migration_run \<Rightarrow> bool" where
  "not_migrated r \<equiv> g_state r \<in> {STAGING_STATE, CUTOVER_STATE}"

definition captured_all :: "migration_run \<Rightarrow> bool" where
  "captured_all r \<longleftrightarrow> not_migrated r \<and> (\<forall>name \<in> insert ''schedules'' CAPTURED. in_journal name r)"

lemma missing_not_captured:
  "\<forall>(k, v) \<in> set (missing_entries entries r). \<forall>name. k = lit name \<longrightarrow> \<not> in_journal name r"
  by (auto simp: missing_entries_def)

lemma sound_schedules: "sound_pass P (commit (record_journal [(lit ''schedules'', v)])) (\<lambda>_ r. \<exists>r0. P r0 \<and> r = record_journal [(lit ''schedules'', v)] r0)"
  by (rule sound_commit) (use sound_record_journal [where entries = "[(lit ''schedules'', v)]"] in \<open>auto simp: CAPTURED_def\<close>)

lemma sound_capture: "sound_pass not_migrated (capture I) (\<lambda>_. captured_all)"
  unfolding capture_def
proof (rule sound_bind)
  show "sound_pass not_migrated (commit (\<lambda>r. record_journal (missing_entries [(''permissions'', cr_permissions I), (''event_rules'', cr_event_rules I),
      (''mapping'', cr_mapping I)] r @ [(lit ''schedules'', cr_schedules I)]) r)) (\<lambda>_. captured_all)"
  proof (rule sound_commit)
    fix r assume r: "run_ok r" "not_migrated r"
    let ?e = "missing_entries [(''permissions'', cr_permissions I), (''event_rules'', cr_event_rules I), (''mapping'', cr_mapping I)] r @ [(lit ''schedules'', cr_schedules I)]"
    have "\<forall>(k, v) \<in> set ?e. \<forall>name \<in> insert ''auto_sync'' CAPTURED. k = lit name \<longrightarrow> \<not> in_journal name r"
      using missing_not_captured [of _ r] by (fastforce simp: CAPTURED_def)
    moreover have "lit ''steps'' \<notin> fst ` set ?e" by (auto simp: missing_entries_def)
    ultimately have "run_ok (record_journal ?e r) \<and> progress r (record_journal ?e r)" by (rule sound_record_journal [OF r(1)])
    moreover have "captured_all (record_journal ?e r)" using r(2) by (auto simp: captured_all_def CAPTURED_def missing_entries_def)
    ultimately show "run_ok (record_journal ?e r) \<and> progress r (record_journal ?e r) \<and> captured_all (record_journal ?e r)" by simp
  qed
  show "sound_pass captured_all (commit (record_warnings (cr_capture_warnings I))) (\<lambda>_. captured_all)"
    by (rule sound_commit) (use sound_record_warnings in \<open>simp add: captured_all_def\<close>)
qed

abbreviation crossed :: "migration_run \<Rightarrow> bool" where
  "crossed r \<equiv> g_state r = CUTOVER_STATE"

lemma sound_cross:
  "sound_pass captured_all (on_run (\<lambda>r. if g_state r = STAGING_STATE then advanced CUTOVER_STATE now else give ())) (\<lambda>_. crossed)"
proof (rule sound_on_run)
  fix r0
  have "sound_pass (\<lambda>r. captured_all r \<and> g_state r = STAGING_STATE) (advanced CUTOVER_STATE now) (\<lambda>_. crossed)"
  proof (rule sound_advanced)
    fix r r' assume r: "run_ok r" "captured_all r \<and> g_state r = STAGING_STATE" "advance CUTOVER_STATE now r = Inr r'"
    then have r': "r' = r\<lparr>g_state := CUTOVER_STATE, g_cutover_started := Some now, g_completed := g_completed r\<rparr>"
      by (simp add: advance_Inr)
    have "progress r r'" using r(2) by (simp add: r' progress_def state_order state_rank_def)
    moreover have "run_ok r'" using r(1,2) by (auto simp: r' run_ok_def state_order state_rank_def captured_all_def)
    ultimately show "run_ok r' \<and> progress r r' \<and> crossed r'" by (simp add: r')
  qed
  then have "sound_pass (\<lambda>r. captured_all r \<and> r = r0) (advanced CUTOVER_STATE now) (\<lambda>_. crossed)" if "g_state r0 = STAGING_STATE"
    by (rule sound_pre) (use that in simp)
  moreover have "sound_pass (\<lambda>r. captured_all r \<and> r = r0) (give ()) (\<lambda>_. crossed)" if "g_state r0 \<noteq> STAGING_STATE"
    by (rule sound_give) (use that in \<open>auto simp: captured_all_def\<close>)
  ultimately show "sound_pass (\<lambda>r. captured_all r \<and> r = r0) (if g_state r0 = STAGING_STATE then advanced CUTOVER_STATE now else give ()) (\<lambda>_. crossed)"
    by simp
qed

lemma sound_close: "sound_pass crossed (close_builtin I) (\<lambda>_. crossed)"
  unfolding close_builtin_def
proof (rule sound_commit_all)
  fix f r assume f: "f \<in> set (map (\<lambda>v. record_journal [(lit ''schedules'', v)]) (cr_cancellations I) @
      [record_warnings (cr_close_warnings I), \<lambda>r. record_journal (missing_entries [(''auto_sync'', cr_auto_sync I)] r) r])"
    and r: "run_ok r" "crossed r"
  then consider v where "f = record_journal [(lit ''schedules'', v)]" | "f = record_warnings (cr_close_warnings I)"
    | "f = (\<lambda>r. record_journal (missing_entries [(''auto_sync'', cr_auto_sync I)] r) r)" by auto
  then show "run_ok (f r) \<and> progress r (f r) \<and> crossed (f r)"
  proof cases
    case 1
    then show ?thesis using sound_record_journal [OF r(1), of "[(lit ''schedules'', v)]"] r(2) by (auto simp: CAPTURED_def)
  next
    case 2
    then show ?thesis using sound_record_warnings [OF r(1)] r(2) by simp
  next
    case 3
    have "lit ''steps'' \<notin> fst ` set (missing_entries [(''auto_sync'', cr_auto_sync I)] r)" by (auto simp: missing_entries_def)
    moreover have "\<forall>(k, v) \<in> set (missing_entries [(''auto_sync'', cr_auto_sync I)] r). \<forall>name \<in> insert ''auto_sync'' CAPTURED.
        k = lit name \<longrightarrow> \<not> in_journal name r" using missing_not_captured by fastforce
    ultimately show ?thesis using 3 sound_record_journal [OF r(1)] r(2) by simp
  qed
qed

lemma sound_enter_cutover: "sound_pass (\<lambda>r. True) (enter_cutover I) (\<lambda>_ _. True)"
  unfolding enter_cutover_def
proof (rule sound_on_run)
  fix r0
  let ?notes = "case cr_running_noted I of None \<Rightarrow> [] | Some v \<Rightarrow> [record_journal [(lit ''schedules'', v)]]"
  let ?accepted = "if length (cr_workers I) > 1 then [record_journal [(lit ''concurrent_workers_accepted'', JList (map JStr (cr_workers I)))]] else []"
  have noted: "sound_pass not_migrated (commit_all ?notes) (\<lambda>_. not_migrated)"
    by (rule sound_commit_all) (use sound_record_journal in \<open>auto simp: CAPTURED_def split: option.splits\<close>)
  have accepted: "sound_pass not_migrated (commit_all ?accepted) (\<lambda>_. not_migrated)"
    by (rule sound_commit_all) (use sound_record_journal in \<open>auto simp: CAPTURED_def split: if_splits\<close>)
  have finish: "sound_pass crossed (case cr_unfinished_warnings I of
      Some ws \<Rightarrow> pbind (commit (record_warnings ws)) (\<lambda>_. give (cr_counts I))
    | None \<Rightarrow> pbind (complete_step ''cutover'' (cr_stamp I) (cr_counts I) []) (\<lambda>_. give (cr_counts I))) (\<lambda>_ _. True)"
  proof (cases "cr_unfinished_warnings I")
    case None
    have "sound_pass crossed (complete_step ''cutover'' (cr_stamp I) (cr_counts I) []) (\<lambda>_ _. True)"
      by (rule sound_complete_step) (simp_all add: run_ok_def ready_def state_order state_rank_def)
    then show ?thesis using None by (simp add: sound_bind sound_give)
  next
    case (Some ws)
    have "sound_pass crossed (commit (record_warnings ws)) (\<lambda>_ _. True)" by (rule sound_commit) (use sound_record_warnings in blast)
    then show ?thesis using Some by (simp add: sound_bind sound_give)
  qed
  note body = sound_bind [OF accepted sound_bind [OF sound_capture sound_bind [OF sound_cross sound_bind [OF sound_close finish]]]]
  have refused: "sound_pass not_migrated (pbind (commit_all ?notes) (\<lambda>_. refuse ''running'')) (\<lambda>_ _. True)"
    by (rule sound_bind [OF noted]) simp
  have bodies: "sound_pass (\<lambda>r. True \<and> r = r0) m (\<lambda>_ _. True)" if "sound_pass not_migrated m (\<lambda>_ _. True)" "not_migrated r0" for m :: "json pass"
    by (rule sound_pre [OF that(1)]) (use that(2) in simp)
  show "sound_pass (\<lambda>r. True \<and> r = r0) (if g_state r0 \<notin> {STAGING_STATE, CUTOVER_STATE} then refuse ''state''
     else if step_done ''cutover'' r0 then give (recorded_counts ''cutover'' r0)
     else if cr_running I \<noteq> [] then pbind (commit_all ?notes) (\<lambda>_. refuse ''running'')
     else if length (cr_workers I) > 1 \<and> \<not> cr_accept_workers I then refuse ''workers''
     else if \<not> in_journal ''mapping'' r0 \<and> cr_unservable I then refuse ''unservable''
     else pbind (commit_all ?accepted) (\<lambda>_. pbind (capture I) (\<lambda>_.
         pbind (on_run (\<lambda>r. if g_state r = STAGING_STATE then advanced CUTOVER_STATE (cr_now I) else give ())) (\<lambda>_.
           pbind (close_builtin I) (\<lambda>_. case cr_unfinished_warnings I of
               Some ws \<Rightarrow> pbind (commit (record_warnings ws)) (\<lambda>_. give (cr_counts I))
             | None \<Rightarrow> pbind (complete_step ''cutover'' (cr_stamp I) (cr_counts I) []) (\<lambda>_. give (cr_counts I))))))) (\<lambda>_ _. True)"
    using bodies [OF body] bodies [OF refused] by (auto intro: sound_give)
qed

section \<open>The table of runs\<close>

definition runs_ok :: "migration_run list \<Rightarrow> bool" where
  "runs_ok runs \<longleftrightarrow> distinct (map g_id runs) \<and> (\<forall>r \<in> set runs. run_ok r) \<and>
     (\<forall>r \<in> set runs. \<forall>q \<in> set runs. \<not> is_closed r \<and> \<not> is_closed q \<longrightarrow> r = q)"

lemma newest_run_in: "newest_run rs = Some r \<Longrightarrow> r \<in> set rs"
  by (induction rs) (auto split: option.splits if_splits)

lemma newest_run_None: "newest_run rs = None \<Longrightarrow> rs = []"
  by (cases rs) (simp_all split: option.splits if_splits)

lemma current_run_SomeD: "current_run runs = Some r \<Longrightarrow> r \<in> set runs \<and> \<not> is_closed r"
  unfolding current_run_def by (drule newest_run_in) simp

lemma current_run_NoneD: "current_run runs = None \<Longrightarrow> r \<in> set runs \<Longrightarrow> is_closed r"
  unfolding current_run_def by (drule newest_run_None) (simp add: filter_empty_conv)

definition with_run :: "migration_run list \<Rightarrow> migration_run \<Rightarrow> migration_run \<Rightarrow> migration_run list" where
  "with_run runs r r' = update_rows (\<lambda>x. g_id x = g_id r) (\<lambda>_. r') runs"

lemma with_run_keeps:
  assumes "runs_ok runs" "current_run runs = Some r" "run_ok r'" "progress r r'"
  shows "runs_ok (with_run runs r r')" "\<forall>q \<in> set runs. \<exists>q' \<in> set (with_run runs r r'). g_id q' = g_id q \<and> progress q q'"
proof -
  have r: "r \<in> set runs" "\<not> is_closed r" using current_run_SomeD [OF assms(2)] by simp_all
  have id: "g_id r' = g_id r" using assms(4) by (simp add: progress_def)
  have ids: "map g_id (with_run runs r r') = map g_id runs" by (simp add: with_run_def update_rows_def id)
  have same: "q = r" if "q \<in> set runs" "g_id q = g_id r" for q
    using that r(1) assms(1) by (auto simp: runs_ok_def distinct_map dest: inj_onD)
  have other: "is_closed q" if "q \<in> set runs" "g_id q \<noteq> g_id r" for q using that r assms(1) by (auto simp: runs_ok_def)
  have members: "q \<in> set (with_run runs r r') \<longleftrightarrow> q = r' \<or> q \<in> set runs \<and> g_id q \<noteq> g_id r" for q
    using r(1) by (auto simp: with_run_def update_rows_def)
  show "runs_ok (with_run runs r r')"
    using assms(1,3) other by (auto simp: runs_ok_def ids members)
  show "\<forall>q \<in> set runs. \<exists>q' \<in> set (with_run runs r r'). g_id q' = g_id q \<and> progress q q'"
  proof
    fix q assume q: "q \<in> set runs"
    show "\<exists>q' \<in> set (with_run runs r r'). g_id q' = g_id q \<and> progress q q'"
    proof (cases "g_id q = g_id r")
      case True
      then have "q = r" using same q by simp
      then show ?thesis using members id assms(4) by blast
    next
      case False
      then show ?thesis using members q by (intro bexI [of _ q]) simp_all
    qed
  qed
qed

lemma start_run_keeps:
  assumes "runs_ok runs" "current_run runs = None" "start_run now runs = Inr (runs', r)"
  shows "runs_ok runs' \<and> set runs \<subseteq> set runs'"
proof -
  have runs': "runs' = runs @ [new_run runs now]" using assms(3) by (auto simp: start_run_def result_simps)
  have "run_ok (new_run runs now)"
    by (simp add: new_run_def run_ok_def step_done_def mapping_at_def state_order state_rank_def ready_def)
  moreover have "g_id (new_run runs now) \<notin> g_id ` set runs"
    using fresh_notin [of "map g_id runs"] by (simp add: new_run_def)
  ultimately show ?thesis using assms(1) current_run_NoneD [OF assms(2)] by (auto simp: runs_ok_def runs')
qed

lemma sound_versions:
  "sound_pass (\<lambda>r. True) m Q \<Longrightarrow> run_ok r \<Longrightarrow> r' \<in> set (fst (m r)) \<Longrightarrow> run_ok r' \<and> progress r r'"
  by (simp add: sound_pass_def)

lemma migration_moves_keeps:
  assumes "migration_moves runs runs'" "runs_ok runs"
  shows "runs_ok runs' \<and> (\<forall>q \<in> set runs. \<exists>q' \<in> set runs'. g_id q' = g_id q \<and> progress q q')"
proof -
  have pass: "runs_ok (with_run runs r r') \<and> (\<forall>q \<in> set runs. \<exists>q' \<in> set (with_run runs r r'). g_id q' = g_id q \<and> progress q q')"
    if "current_run runs = Some r" "sound_pass (\<lambda>r. True) m Q" "r' \<in> set (fst (m r))" for m :: "'x pass" and Q r r'
  proof -
    have "run_ok r" using current_run_SomeD [OF that(1)] assms(2) by (simp add: runs_ok_def)
    then show ?thesis using sound_versions [OF that(2) _ that(3)] with_run_keeps [OF assms(2) that(1)] by blast
  qed
  show ?thesis using assms(1)
  proof cases
    case (starts now r)
    then show ?thesis using start_run_keeps [OF assms(2)] progress_refl by blast
  next
    case (stages r r' blocked now)
    then show ?thesis using pass [OF _ sound_enter_staging] by (simp add: with_run_def)
  next
    case (cuts_over r r' I)
    then show ?thesis using pass [OF _ sound_enter_cutover] by (simp add: with_run_def)
  next
    case (activates r r' stamp outcomes)
    then show ?thesis using pass [OF _ sound_activate] by (simp add: with_run_def)
  next
    case (repoints r r' kind J)
    then show ?thesis using pass [OF _ sound_reference_pass] by (simp add: with_run_def)
  next
    case (retires r r' left_over counts ws now stamp)
    then show ?thesis using pass [OF _ sound_retire] by (simp add: with_run_def)
  qed
qed

interpretation migration: invariant "\<lambda>runs. runs = []" migration_moves runs_ok
  by unfold_locales (auto simp: runs_ok_def dest: migration_moves_keeps)


definition example_cutover :: cutover_reads where
  "example_cutover = \<lparr>cr_running = [], cr_running_noted = None, cr_workers = [], cr_accept_workers = False, cr_unservable = False,
     cr_permissions = JList [], cr_event_rules = JList [], cr_mapping = JObj [], cr_schedules = JList [], cr_capture_warnings = [],
     cr_cancellations = [], cr_close_warnings = [], cr_auto_sync = JList [], cr_counts = JObj [], cr_unfinished_warnings = None,
     cr_now = 8, cr_stamp = []\<rparr>"


end
