(* ===== verification/Cutover.thy ===== *)
theory Cutover
  imports Launch Transitions
begin

text \<open>
  The schedules a migration moves: migration/cutover.py captures every waiting run of the built-in Custom
  Scripts and cancels it, migration/references.py recreates the cancelled ones against the plugin.  Every
  statement of a pass is a step, so workers may take runs in between, rows may be deleted, and a pass may
  be interrupted anywhere and entered again.
\<close>

section \<open>Definitions\<close>

text \<open>The Jobs of the built-in feature, as far as the passes read them; only a worker sets started.\<close>

record core_job =
  cj_status :: core_status
  cj_started :: bool

definition cancellable_statuses :: "core_status list" where
  "cancellable_statuses = [JobPending, JobScheduled]"

datatype cancellation = Cancelling | Cancelled | Executed | Running | Vanished

record schedule =
  z_job :: pk
  z_cancellation :: "cancellation option"

text \<open>What \<open>_cancel_schedules\<close> decides from one read of an entry's Job.\<close>

datatype decision = Leave | Settle cancellation | SettleDurably cancellation | Cancel

definition look_at :: "cancellation option \<Rightarrow> core_job option \<Rightarrow> decision" where
  "look_at c job =
     (if c = Some Cancelled then Leave
      else case job of
          None \<Rightarrow> Settle (if c = Some Executed \<or> c = Some Running then Executed else Vanished)
        | Some j \<Rightarrow>
            if c = Some Cancelling \<and> cj_status j \<notin> set cancellable_statuses
            then SettleDurably (if cj_started j then Executed else Cancelled)
            else if cj_status j \<in> set cancellable_statuses then Cancel
            else Settle (if cj_status j = JobRunning then Running else Executed))"

text \<open>\<open>_fail_closed\<close>: the conditional update, and whether it changed the row.\<close>

definition fail_closed :: "core_job option \<Rightarrow> core_job option" where
  "fail_closed job = (case job of None \<Rightarrow> None | Some j \<Rightarrow>
     if cj_status j \<in> set cancellable_statuses \<and> \<not> cj_started j then Some (j\<lparr>cj_status := JobFailedStatus\<rparr>) else None)"

definition after_refusal :: "core_job option \<Rightarrow> cancellation" where
  "after_refusal job = (case job of None \<Rightarrow> Vanished | Some j \<Rightarrow> if cj_status j = JobRunning then Running else Executed)"

definition annotate :: "nat \<Rightarrow> cancellation \<Rightarrow> schedule list \<Rightarrow> schedule list" where
  "annotate i c entries = entries[i := (entries ! i)\<lparr>z_cancellation := Some c\<rparr>]"

text \<open>
  The check of \<open>recreate_schedules\<close> that concerns the old run.  Its other refusals (no Script, no owner,
  a time that has passed, input that is not valid) skip the entry.
\<close>

definition replayable :: "schedule \<Rightarrow> core_job option \<Rightarrow> bool" where
  "replayable e job \<longleftrightarrow> z_cancellation e \<noteq> Some Executed \<and> z_cancellation e \<noteq> Some Running \<and>
     (z_cancellation e = Some Cancelled \<longrightarrow> (case job of None \<Rightarrow> True | Some j \<Rightarrow> cj_status j = JobFailedStatus \<and> \<not> cj_started j))"

text \<open>
  The durable state: the Job rows, what the journal of the run holds, and whether the cutover step is
  recorded.  The last three fields are not stored: every key ever given to a Job, the Jobs a worker has
  started, and those of them whose row was deleted.
\<close>

record cutover_site =
  x_jobs :: "pk \<Rightarrow> core_job option"
  x_schedules :: "schedule list"
  x_recreated :: "(pk \<times> pk) list"
  x_closed :: bool
  x_used :: "pk set"
  x_ran :: "pk set"
  x_lost :: "pk set"

text \<open>Where a pass stands, with the entries as its instance of the run holds them.\<close>

datatype phase =
    Idle
  | Refusing "pk set"
  | Capturing "pk list"
  | Looking "schedule list" nat
  | Recording "schedule list" nat
  | Marking "schedule list" nat
  | Failing "schedule list" nat
  | Refreshing "schedule list" nat
  | Deciding
  | Completing
  | Replaying nat
  | Recreating nat

definition unfinished_jobs :: "cutover_site \<Rightarrow> bool" where
  "unfinished_jobs s \<longleftrightarrow> (\<exists>k j. x_jobs s k = Some j \<and> cj_status j \<in> set (JobRunning # cancellable_statuses))"

definition looked :: "schedule list \<Rightarrow> nat \<Rightarrow> decision \<Rightarrow> phase" where
  "looked mem i decision = (case decision of
       Leave \<Rightarrow> Looking mem (Suc i)
     | Settle c \<Rightarrow> Looking (annotate i c mem) (Suc i)
     | SettleDurably c \<Rightarrow> Recording (annotate i c mem) (Suc i)
     | Cancel \<Rightarrow> Marking (annotate i Cancelling mem) i)"

definition note_running :: "pk set \<Rightarrow> schedule list \<Rightarrow> schedule list" where
  "note_running ks = map (\<lambda>e. if z_job e \<in> ks then e\<lparr>z_cancellation := Some Running\<rparr> else e)"

text \<open>The rest of the installation: a worker starts only a row that waits, and a key is never used twice.\<close>

inductive environment :: "cutover_site \<Rightarrow> cutover_site \<Rightarrow> bool" where
  starts: "x_jobs s k = Some j \<Longrightarrow> cj_status j \<in> set cancellable_statuses \<Longrightarrow> \<not> cj_started j \<Longrightarrow>
    environment s (s\<lparr>x_jobs := (x_jobs s)(k \<mapsto> \<lparr>cj_status = JobRunning, cj_started = True\<rparr>), x_ran := insert k (x_ran s)\<rparr>)"
| finishes: "x_jobs s k = Some j \<Longrightarrow> cj_status j = JobRunning \<Longrightarrow> terminal_status status \<Longrightarrow>
    environment s (s\<lparr>x_jobs := (x_jobs s)(k \<mapsto> j\<lparr>cj_status := status\<rparr>)\<rparr>)"
| deleted: "x_jobs s k = Some j \<Longrightarrow>
    environment s (s\<lparr>x_jobs := (x_jobs s)(k := None), x_lost := (if cj_started j then insert k (x_lost s) else x_lost s)\<rparr>)"
| submitted: "k \<notin> x_used s \<Longrightarrow> status \<in> set cancellable_statuses \<Longrightarrow>
    environment s (s\<lparr>x_jobs := (x_jobs s)(k \<mapsto> \<lparr>cj_status = status, cj_started = False\<rparr>), x_used := insert k (x_used s)\<rparr>)"

inductive cutover_step :: "cutover_site \<times> phase \<Rightarrow> cutover_site \<times> phase \<Rightarrow> bool" where
  elsewhere: "environment s s' \<Longrightarrow> cutover_step (s, ph) (s', ph)"
| interrupted: "cutover_step (s, ph) (s, Idle)"
| sees_running: "\<not> x_closed s \<Longrightarrow> ks = {k. \<exists>j. x_jobs s k = Some j \<and> cj_status j = JobRunning} \<Longrightarrow> ks \<noteq> {} \<Longrightarrow>
    cutover_step (s, Idle) (s, Refusing ks)"
| refuses: "cutover_step (s, Refusing ks) (s\<lparr>x_schedules := note_running ks (x_schedules s)\<rparr>, Idle)"
| reads_waiting: "\<not> x_closed s \<Longrightarrow> distinct ks \<Longrightarrow> set ks \<inter> z_job ` set (x_schedules s) = {} \<Longrightarrow>
    \<forall>k \<in> set ks. \<exists>j. x_jobs s k = Some j \<and> cj_status j \<in> set cancellable_statuses \<Longrightarrow> cutover_step (s, Idle) (s, Capturing ks)"
| captures: "entries = x_schedules s @ map (\<lambda>k. \<lparr>z_job = k, z_cancellation = None\<rparr>) ks \<Longrightarrow>
    cutover_step (s, Capturing ks) (s\<lparr>x_schedules := entries\<rparr>, Looking entries 0)"
| looks: "i < length mem \<Longrightarrow> cutover_step (s, Looking mem i) (s, looked mem i (look_at (z_cancellation (mem ! i)) (x_jobs s (z_job (mem ! i)))))"
| records: "cutover_step (s, Recording mem i) (s\<lparr>x_schedules := mem\<rparr>, Looking mem i)"
| marks: "cutover_step (s, Marking mem i) (s\<lparr>x_schedules := mem\<rparr>, Failing mem i)"
| cancels: "fail_closed (x_jobs s (z_job (mem ! i))) = Some j \<Longrightarrow>
    cutover_step (s, Failing mem i) (s\<lparr>x_jobs := (x_jobs s)(z_job (mem ! i) \<mapsto> j)\<rparr>, Recording (annotate i Cancelled mem) (Suc i))"
| loses: "fail_closed (x_jobs s (z_job (mem ! i))) = None \<Longrightarrow> cutover_step (s, Failing mem i) (s, Refreshing mem i)"
| refreshes: "cutover_step (s, Refreshing mem i) (s, Looking (annotate i (after_refusal (x_jobs s (z_job (mem ! i)))) mem) (Suc i))"
| closes: "i = length mem \<Longrightarrow> cutover_step (s, Looking mem i) (s\<lparr>x_schedules := mem\<rparr>, Deciding)"
| decides: "cutover_step (s, Deciding) (s, if unfinished_jobs s then Idle else Completing)"
| completes: "cutover_step (s, Completing) (s\<lparr>x_closed := True\<rparr>, Idle)"
| replays: "x_closed s \<Longrightarrow> cutover_step (s, Idle) (s, Replaying 0)"
| skips: "i < length (x_schedules s) \<Longrightarrow> cutover_step (s, Replaying i) (s, Replaying (Suc i))"
| checks: "i < length (x_schedules s) \<Longrightarrow> z_job (x_schedules s ! i) \<notin> fst ` set (x_recreated s) \<Longrightarrow>
    replayable (x_schedules s ! i) (x_jobs s (z_job (x_schedules s ! i))) \<Longrightarrow> cutover_step (s, Replaying i) (s, Recreating i)"
| recreates: "k \<notin> x_used s \<Longrightarrow>
    cutover_step (s, Recreating i) (s\<lparr>x_recreated := x_recreated s @ [(z_job (x_schedules s ! i), k)], x_used := insert k (x_used s)\<rparr>, Replaying (Suc i))"
| ends: "i = length (x_schedules s) \<Longrightarrow> cutover_step (s, Replaying i) (s, Idle)"

text \<open>Where a migration starts: nothing captured, and the workers of the moment at work.\<close>

definition before_cutover :: "cutover_site \<Rightarrow> bool" where
  "before_cutover s \<longleftrightarrow> x_schedules s = [] \<and> x_recreated s = [] \<and> \<not> x_closed s \<and> x_lost s = {} \<and> x_ran s \<subseteq> x_used s \<and>
     (\<forall>k \<in> x_ran s. x_jobs s k \<noteq> None) \<and>
     (\<forall>k j. x_jobs s k = Some j \<longrightarrow> k \<in> x_used s \<and> (k \<in> x_ran s \<longleftrightarrow> cj_started j) \<and>
        (cj_started j \<longrightarrow> cj_status j \<notin> set cancellable_statuses))"

abbreviation reached :: "cutover_site \<times> phase \<Rightarrow> bool" where
  "reached \<equiv> reachable (\<lambda>c. before_cutover (fst c) \<and> snd c = Idle) cutover_step"

section \<open>What holds of the rows and of the entries\<close>

definition rows_ok :: "cutover_site \<Rightarrow> bool" where
  "rows_ok s \<longleftrightarrow> x_ran s \<subseteq> x_used s \<and> (\<forall>k \<in> x_ran s. x_jobs s k = None \<longrightarrow> k \<in> x_lost s) \<and>
     (\<forall>k j. x_jobs s k = Some j \<longrightarrow> k \<in> x_used s \<and> (k \<in> x_ran s \<longleftrightarrow> cj_started j) \<and>
        (cj_started j \<longrightarrow> cj_status j \<notin> set cancellable_statuses))"

text \<open>What an entry says of its Job: a cancelled one has not run and never will, a vanished one has no row.\<close>

definition entry_ok :: "cutover_site \<Rightarrow> schedule \<Rightarrow> bool" where
  "entry_ok s e \<longleftrightarrow> z_job e \<in> x_used s \<and>
     (z_cancellation e = Some Cancelled \<longrightarrow> z_job e \<notin> x_ran s \<and>
        (\<forall>j. x_jobs s (z_job e) = Some j \<longrightarrow> cj_status j \<notin> set cancellable_statuses)) \<and>
     (z_cancellation e = Some Vanished \<longrightarrow> x_jobs s (z_job e) = None)"

lemma environment_rows: "environment s s' \<Longrightarrow> rows_ok s \<Longrightarrow> rows_ok s'"
  by (induction rule: environment.induct)
    (auto simp: rows_ok_def cancellable_statuses_def terminal_status_def split: if_splits)

lemma environment_entry: "environment s s' \<Longrightarrow> rows_ok s \<Longrightarrow> entry_ok s e \<Longrightarrow> entry_ok s' e"
  by (induction rule: environment.induct)
    (auto simp: rows_ok_def entry_ok_def cancellable_statuses_def terminal_status_def split: if_splits)

lemma environment_same:
  "environment s s' \<Longrightarrow> x_schedules s' = x_schedules s \<and> x_recreated s' = x_recreated s \<and> x_closed s' = x_closed s \<and>
    x_used s \<subseteq> x_used s'"
  by (induction rule: environment.induct) auto

lemma entry_ok_cong:
  "x_jobs s' = x_jobs s \<Longrightarrow> x_used s \<subseteq> x_used s' \<Longrightarrow> x_ran s' = x_ran s \<Longrightarrow> entry_ok s e \<Longrightarrow> entry_ok s' e"
  by (auto simp: entry_ok_def)

lemma fail_closed_Some:
  "fail_closed job = Some j' \<longleftrightarrow> (\<exists>j. job = Some j \<and> cj_status j \<in> set cancellable_statuses \<and> \<not> cj_started j \<and> j' = j\<lparr>cj_status := JobFailedStatus\<rparr>)"
  by (auto simp: fail_closed_def split: option.splits)

lemma fail_closed_keeps:
  assumes "fail_closed (x_jobs s k) = Some j" "rows_ok s"
  shows "rows_ok (s\<lparr>x_jobs := (x_jobs s)(k \<mapsto> j)\<rparr>)" "entry_ok s e \<Longrightarrow> entry_ok (s\<lparr>x_jobs := (x_jobs s)(k \<mapsto> j)\<rparr>) e"
  using assms by (auto simp: fail_closed_Some rows_ok_def entry_ok_def cancellable_statuses_def)

section \<open>The invariant of a pass\<close>

definition resolved :: "schedule \<Rightarrow> bool" where
  "resolved e \<longleftrightarrow> z_cancellation e \<in> Some ` {Cancelled, Executed, Running, Vanished}"

definition gone :: "schedule \<Rightarrow> bool" where
  "gone e \<longleftrightarrow> z_cancellation e \<in> Some ` {Cancelled, Vanished}"

definition journal_ok :: "cutover_site \<Rightarrow> bool" where
  "journal_ok s \<longleftrightarrow> distinct (map z_job (x_schedules s)) \<and> (\<forall>e \<in> set (x_schedules s). entry_ok s e) \<and>
     (x_closed s \<longrightarrow> (\<forall>e \<in> set (x_schedules s). resolved e)) \<and> distinct (map fst (x_recreated s)) \<and>
     (x_recreated s \<noteq> [] \<longrightarrow> x_closed s) \<and> fst ` set (x_recreated s) \<subseteq> z_job ` {e \<in> set (x_schedules s). gone e}"

definition memory_ok :: "cutover_site \<Rightarrow> schedule list \<Rightarrow> nat \<Rightarrow> bool" where
  "memory_ok s mem i \<longleftrightarrow> \<not> x_closed s \<and> map z_job mem = map z_job (x_schedules s) \<and> (\<forall>e \<in> set mem. entry_ok s e) \<and>
     (\<forall>n < i. resolved (mem ! n)) \<and> i \<le> length mem"

fun phase_ok :: "cutover_site \<Rightarrow> phase \<Rightarrow> bool" where
  "phase_ok s Idle = True"
| "phase_ok s (Refusing ks) = (\<not> x_closed s)"
| "phase_ok s (Capturing ks) = (\<not> x_closed s \<and> distinct ks \<and> set ks \<inter> z_job ` set (x_schedules s) = {} \<and> set ks \<subseteq> x_used s)"
| "phase_ok s (Looking mem i) = memory_ok s mem i"
| "phase_ok s (Recording mem i) = memory_ok s mem i"
| "phase_ok s (Marking mem i) = (memory_ok s mem i \<and> i < length mem)"
| "phase_ok s (Failing mem i) = (memory_ok s mem i \<and> i < length mem)"
| "phase_ok s (Refreshing mem i) = (memory_ok s mem i \<and> i < length mem)"
| "phase_ok s Deciding = (\<not> x_closed s \<and> (\<forall>e \<in> set (x_schedules s). resolved e))"
| "phase_ok s Completing = (\<not> x_closed s \<and> (\<forall>e \<in> set (x_schedules s). resolved e))"
| "phase_ok s (Replaying i) = x_closed s"
| "phase_ok s (Recreating i) = (x_closed s \<and> i < length (x_schedules s) \<and> gone (x_schedules s ! i) \<and>
     z_job (x_schedules s ! i) \<notin> fst ` set (x_recreated s))"

definition cutover_ok :: "cutover_site \<times> phase \<Rightarrow> bool" where
  "cutover_ok c \<longleftrightarrow> rows_ok (fst c) \<and> journal_ok (fst c) \<and> phase_ok (fst c) (snd c)"

lemma memory_annotate:
  assumes "memory_ok s mem i" "i < length mem" "entry_ok s ((mem ! i)\<lparr>z_cancellation := Some c\<rparr>)"
  shows "memory_ok s (annotate i c mem) i" "c \<noteq> Cancelling \<Longrightarrow> memory_ok s (annotate i c mem) (Suc i)"
proof -
  have keys: "map z_job (annotate i c mem) = map z_job mem"
    using assms(2) by (simp add: annotate_def map_update list_update_same_conv)
  have "set (annotate i c mem) \<subseteq> insert ((mem ! i)\<lparr>z_cancellation := Some c\<rparr>) (set mem)"
    unfolding annotate_def by (rule set_update_subset_insert)
  then have entries: "\<forall>e \<in> set (annotate i c mem). entry_ok s e" using assms(1,3) by (auto simp: memory_ok_def)
  have nth: "annotate i c mem ! n = (if n = i then (mem ! i)\<lparr>z_cancellation := Some c\<rparr> else mem ! n)" for n
    using assms(2) by (simp add: annotate_def nth_list_update)
  have len: "length (annotate i c mem) = length mem" by (simp add: annotate_def)
  show "memory_ok s (annotate i c mem) i"
    using assms(1) keys entries by (simp add: memory_ok_def nth len)
  assume "c \<noteq> Cancelling"
  then have "resolved ((mem ! i)\<lparr>z_cancellation := Some c\<rparr>)" by (cases c) (simp_all add: resolved_def)
  then show "memory_ok s (annotate i c mem) (Suc i)"
    using assms(1,2) keys entries by (simp add: memory_ok_def nth len less_Suc_eq)
qed

lemma journal_written:
  assumes "journal_ok s" "memory_ok s mem i"
  shows "journal_ok (s\<lparr>x_schedules := mem\<rparr>)" "memory_ok (s\<lparr>x_schedules := mem\<rparr>) mem i" "rows_ok s \<Longrightarrow> rows_ok (s\<lparr>x_schedules := mem\<rparr>)"
  using assms by (auto simp: journal_ok_def memory_ok_def rows_ok_def entry_ok_def)

lemma entry_settled:
  assumes "rows_ok s" "entry_ok s e" "look_at (z_cancellation e) (x_jobs s (z_job e)) \<in> {Settle c, SettleDurably c}"
  shows "entry_ok s (e\<lparr>z_cancellation := Some c\<rparr>)" "c \<noteq> Cancelling"
  using assms by (auto simp: look_at_def rows_ok_def entry_ok_def split: option.splits if_splits)

lemma looked_ok:
  assumes "rows_ok s" "memory_ok s mem i" "i < length mem"
  shows "phase_ok s (looked mem i (look_at (z_cancellation (mem ! i)) (x_jobs s (z_job (mem ! i)))))"
proof (cases "look_at (z_cancellation (mem ! i)) (x_jobs s (z_job (mem ! i)))")
  case Leave
  then have "resolved (mem ! i)" by (auto simp: look_at_def resolved_def split: option.splits if_splits)
  then show ?thesis using assms(2,3) Leave by (simp add: looked_def memory_ok_def less_Suc_eq)
next
  case (Settle c)
  have "entry_ok s (mem ! i)" using assms(2,3) by (simp add: memory_ok_def)
  note new = entry_settled [OF assms(1) this, of c]
  show ?thesis using memory_annotate(2) [OF assms(2,3)] new Settle by (simp add: looked_def)
next
  case (SettleDurably c)
  have "entry_ok s (mem ! i)" using assms(2,3) by (simp add: memory_ok_def)
  note new = entry_settled [OF assms(1) this, of c]
  show ?thesis using memory_annotate(2) [OF assms(2,3)] new SettleDurably by (simp add: looked_def)
next
  case Cancel
  have "entry_ok s ((mem ! i)\<lparr>z_cancellation := Some Cancelling\<rparr>)" using assms(2,3) by (simp add: memory_ok_def entry_ok_def)
  from memory_annotate(1) [OF assms(2,3) this] show ?thesis using assms(3) Cancel by (simp add: looked_def annotate_def)
qed

lemma environment_ok:
  assumes "environment s s'" "cutover_ok (s, ph)"
  shows "cutover_ok (s', ph)"
proof -
  note same = environment_same [OF assms(1)]
  have rows: "rows_ok s" and journal: "journal_ok s" and phase: "phase_ok s ph" using assms(2) by (simp_all add: cutover_ok_def)
  have entry: "entry_ok s' e" if "entry_ok s e" for e by (rule environment_entry [OF assms(1) rows that])
  have memory: "memory_ok s' mem i" if "memory_ok s mem i" for mem i using that same entry by (simp add: memory_ok_def)
  have "phase_ok s' ph" using phase memory same by (cases ph) auto
  moreover have "journal_ok s'" using journal same entry by (simp add: journal_ok_def)
  ultimately show ?thesis using environment_rows [OF assms(1) rows] by (simp add: cutover_ok_def)
qed

lemma note_running_ok:
  assumes "journal_ok s" "\<not> x_closed s"
  shows "journal_ok (s\<lparr>x_schedules := note_running ks (x_schedules s)\<rparr>)"
proof -
  have "map z_job (note_running ks es) = map z_job es" for es by (induction es) (simp_all add: note_running_def)
  moreover have "x_recreated s = []" using assms by (auto simp: journal_ok_def)
  moreover have "\<forall>e \<in> set (note_running ks (x_schedules s)). entry_ok s e"
    using assms(1) by (auto simp: journal_ok_def note_running_def entry_ok_def)
  ultimately show ?thesis using assms by (simp add: journal_ok_def entry_ok_def)
qed

lemma captured_ok:
  assumes "rows_ok s" "journal_ok s" "phase_ok s (Capturing ks)"
    "entries = x_schedules s @ map (\<lambda>k. \<lparr>z_job = k, z_cancellation = None\<rparr>) ks"
  shows "journal_ok (s\<lparr>x_schedules := entries\<rparr>)" "memory_ok (s\<lparr>x_schedules := entries\<rparr>) entries 0"
proof -
  have "x_recreated s = []" using assms by (auto simp: journal_ok_def)
  moreover have "\<forall>e \<in> set entries. entry_ok s e" using assms by (auto simp: journal_ok_def entry_ok_def)
  moreover have "distinct (map z_job entries)" using assms by (auto simp: journal_ok_def comp_def)
  ultimately show "journal_ok (s\<lparr>x_schedules := entries\<rparr>)" "memory_ok (s\<lparr>x_schedules := entries\<rparr>) entries 0"
    using assms(3) by (simp_all add: journal_ok_def memory_ok_def entry_ok_def)
qed

lemma step_ok: "cutover_step c c' \<Longrightarrow> cutover_ok c \<Longrightarrow> cutover_ok c'"
proof (induction rule: cutover_step.induct)
  case (elsewhere s s' ph)
  then show ?case using environment_ok by blast
next
  case (refuses s ks)
  then show ?case using note_running_ok [of s ks] by (simp add: cutover_ok_def rows_ok_def)
next
  case (reads_waiting s ks)
  then show ?case by (auto simp: cutover_ok_def rows_ok_def)
next
  case (captures entries s ks)
  then show ?case using captured_ok [of s ks entries] by (simp add: cutover_ok_def rows_ok_def)
next
  case (looks i mem s)
  then show ?case using looked_ok by (simp add: cutover_ok_def)
next
  case (records s mem i)
  then show ?case using journal_written [of s mem i] by (simp add: cutover_ok_def)
next
  case (marks s mem i)
  then show ?case using journal_written [of s mem i] by (simp add: cutover_ok_def)
next
  case (cancels s mem i j)
  let ?s = "s\<lparr>x_jobs := (x_jobs s)(z_job (mem ! i) \<mapsto> j)\<rparr>"
  have ok: "rows_ok s" "journal_ok s" "memory_ok s mem i" "i < length mem" using cancels.prems by (simp_all add: cutover_ok_def)
  note keeps = fail_closed_keeps [OF cancels.hyps ok(1)]
  have journal: "journal_ok ?s" using ok(2) keeps(2) by (simp add: journal_ok_def)
  have memory: "memory_ok ?s mem i" using ok(3) keeps(2) by (simp add: memory_ok_def)
  have "entry_ok ?s ((mem ! i)\<lparr>z_cancellation := Some Cancelled\<rparr>)"
    using cancels.hyps ok(1) by (auto simp: entry_ok_def fail_closed_Some rows_ok_def cancellable_statuses_def)
  from memory_annotate(2) [OF memory ok(4) this] show ?case using keeps(1) journal by (simp add: cutover_ok_def)
next
  case (refreshes s mem i)
  have ok: "rows_ok s" "journal_ok s" "memory_ok s mem i" "i < length mem" using refreshes by (simp_all add: cutover_ok_def)
  have "entry_ok s (mem ! i)" using ok by (simp add: memory_ok_def)
  then have "entry_ok s ((mem ! i)\<lparr>z_cancellation := Some (after_refusal (x_jobs s (z_job (mem ! i))))\<rparr>)"
    by (auto simp: entry_ok_def after_refusal_def split: option.splits)
  from memory_annotate(2) [OF ok(3,4) this] show ?case using ok by (auto simp: cutover_ok_def after_refusal_def split: option.splits)
next
  case (closes i mem s)
  then have "\<forall>e \<in> set mem. resolved e" by (auto simp: cutover_ok_def memory_ok_def in_set_conv_nth)
  then show ?case using closes journal_written [of s mem i] by (simp add: cutover_ok_def memory_ok_def)
next
  case (completes s)
  then show ?case by (simp add: cutover_ok_def rows_ok_def journal_ok_def entry_ok_def)
next
  case (checks i s)
  then have "resolved (x_schedules s ! i)" by (simp add: cutover_ok_def journal_ok_def)
  then have "gone (x_schedules s ! i)" using checks by (auto simp: resolved_def gone_def replayable_def)
  then show ?case using checks by (simp add: cutover_ok_def)
next
  case (recreates k s i)
  then show ?case by (auto simp: cutover_ok_def rows_ok_def journal_ok_def entry_ok_def)
qed (simp_all add: cutover_ok_def memory_ok_def)

interpretation cutover: invariant "\<lambda>c. before_cutover (fst c) \<and> snd c = Idle" cutover_step cutover_ok
proof unfold_locales
  show "cutover_ok c" if "before_cutover (fst c) \<and> snd c = Idle" for c
    using that by (cases c) (auto simp: before_cutover_def cutover_ok_def rows_ok_def journal_ok_def)
qed (rule step_ok)


text \<open>Sites with one run, the Job 4: its row, its entry, and what the journal and the workers did with it.\<close>

definition one_run :: "core_job option \<Rightarrow> cancellation option \<Rightarrow> (pk \<times> pk) list \<Rightarrow> bool \<Rightarrow> bool \<Rightarrow> bool \<Rightarrow> cutover_site" where
  "one_run job c recreated closed taken cleared = \<lparr>x_jobs = (\<lambda>k. if k = 4 then job else None), x_schedules = [\<lparr>z_job = 4, z_cancellation = c\<rparr>],
     x_recreated = recreated, x_closed = closed, x_used = insert 4 (snd ` set recreated), x_ran = (if taken then {4} else {}),
     x_lost = (if cleared then {4} else {})\<rparr>"

definition waiting_job :: core_job where "waiting_job = \<lparr>cj_status = JobPending, cj_started = False\<rparr>"
definition started_job :: core_job where "started_job = \<lparr>cj_status = JobRunning, cj_started = True\<rparr>"
definition failed_job :: core_job where "failed_job = \<lparr>cj_status = JobFailedStatus, cj_started = False\<rparr>"

abbreviation noted :: "cancellation option \<Rightarrow> schedule list" where
  "noted c \<equiv> [\<lparr>z_job = 4, z_cancellation = c\<rparr>]"

lemmas one_run_simps = one_run_def waiting_job_def started_job_def failed_job_def cancellable_statuses_def annotate_def looked_def look_at_def

lemma one_run_captured: "reached (one_run (Some waiting_job) None [] False False False, Looking (noted None) 0)"
proof -
  let ?s = "(one_run (Some waiting_job) None [] False False False)\<lparr>x_schedules := []\<rparr>"
  have "reached (?s, Idle)" by (rule reachable.start) (simp add: before_cutover_def one_run_simps)
  moreover have "cutover_step (?s, Idle) (?s, Capturing [4])" by (rule reads_waiting) (simp_all add: one_run_simps)
  moreover have "cutover_step (?s, Capturing [4]) (one_run (Some waiting_job) None [] False False False, Looking (noted None) 0)"
    using captures [of "noted None" ?s "[4]"] by (simp add: one_run_simps)
  ultimately show ?thesis by (meson reachable.further)
qed

lemma one_run_failing: "reached (one_run (Some waiting_job) (Some Cancelling) [] False False False, Failing (noted (Some Cancelling)) 0)"
proof -
  have "cutover_step (one_run (Some waiting_job) None [] False False False, Looking (noted None) 0)
      (one_run (Some waiting_job) None [] False False False, Marking (noted (Some Cancelling)) 0)"
    using looks [of 0 "noted None" "one_run (Some waiting_job) None [] False False False"] by (simp add: one_run_simps)
  moreover have "cutover_step (one_run (Some waiting_job) None [] False False False, Marking (noted (Some Cancelling)) 0)
      (one_run (Some waiting_job) (Some Cancelling) [] False False False, Failing (noted (Some Cancelling)) 0)"
    using marks [of "one_run (Some waiting_job) None [] False False False" "noted (Some Cancelling)" 0] by (simp add: one_run_simps)
  ultimately show ?thesis using one_run_captured by (meson reachable.further)
qed

text \<open>From the end of the loop to the recreated run, where nothing waits or runs.\<close>

lemma one_run_recreated:
  assumes "reached (one_run job c0 [] False taken cleared, Looking (noted (Some c)) 1)" "job \<in> {None, Some failed_job}" "c \<in> {Cancelled, Vanished}"
  shows "reached (one_run job (Some c) [(4, 5)] True taken cleared, Replaying 1)"
proof -
  have "cutover_step (one_run job c0 [] False taken cleared, Looking (noted (Some c)) 1) (one_run job (Some c) [] False taken cleared, Deciding)"
    using closes [of 1 "noted (Some c)" "one_run job c0 [] False taken cleared"] by (simp add: one_run_simps)
  moreover have "cutover_step (one_run job (Some c) [] False taken cleared, Deciding) (one_run job (Some c) [] False taken cleared, Completing)"
    using decides [of "one_run job (Some c) [] False taken cleared"] assms(2) by (auto simp: one_run_simps unfinished_jobs_def split: if_splits)
  moreover have "cutover_step (one_run job (Some c) [] False taken cleared, Completing) (one_run job (Some c) [] True taken cleared, Idle)"
    using completes [of "one_run job (Some c) [] False taken cleared"] by (simp add: one_run_simps)
  moreover have "cutover_step (one_run job (Some c) [] True taken cleared, Idle) (one_run job (Some c) [] True taken cleared, Replaying 0)"
    by (rule replays) (simp add: one_run_simps)
  moreover have "cutover_step (one_run job (Some c) [] True taken cleared, Replaying 0) (one_run job (Some c) [] True taken cleared, Recreating 0)"
    by (rule checks) (use assms(2,3) in \<open>auto simp: one_run_simps replayable_def\<close>)
  moreover have "cutover_step (one_run job (Some c) [] True taken cleared, Recreating 0) (one_run job (Some c) [(4, 5)] True taken cleared, Replaying 1)"
    using recreates [of 5 "one_run job (Some c) [] True taken cleared" 0] by (simp add: one_run_simps insert_commute)
  ultimately show ?thesis using assms(1) by (meson reachable.further)
qed



end
