(* ===== verification/Spec2Isabelle.thy ===== *)
theory Spec2Isabelle
  imports Paths Source_Names Canonical_Json Manifest Records Script_Files Script_Model Project_Model Store Settings
    Service Introspection Promotion Activation Staging Cleanup
    Loader Sanitizer Validation File_System Cache_Root Cache Cache_Tree Cache_Invariants Cache_Safety Transitions
    Verdicts Lifecycle Retention Resolution Execution Runs Launch Ingestion
    Dialects Migration_Plan Migration_Run Cutover
begin

text \<open>
  NetBox Scripts, a NetBox plugin that stores projects of Python source as immutable, content-addressed
  revisions, decides by importing them which Script classes they publish, and runs those classes as
  background Jobs.  The code is below src/netbox_scripts; file names in this development are relative to
  that directory.

  THE PROGRAM.  A Script Project (models/projects.py) has a source, uploaded or a directory of a Data
  Source, and declarations of which of its files are Script Files (models/scripts.py).  Ingestion
  (ingestion.py) collects a source tree; staging (storage/service.py over storage/paths.py,
  storage/manifest.py, storage/script_files.py and storage/store.py) turns it into a revision: a manifest
  of canonical paths with sizes and digests, a frozen snapshot of the declarations, and the files
  themselves in a storage backend.  Validation (validation.py) claims the revision as a lease,
  materializes it (runtime/cache.py), imports every Script File in a private module namespace
  (runtime/loader.py, runtime/naming.py), collects the classes published (runtime/discovery.py,
  runtime/introspection.py) and commits a verdict.  Promotion (storage/service.py) makes a valid revision
  the one its project serves, and activation (activation.py) derives the rows of the published Scripts
  in the same transaction.  A run (jobs.py) is pinned to a revision, resolved back to its class
  (runtime/resolution.py) and executed in transactions (execution.py, branching.py).  Deleting revisions
  records cleanup Jobs that reclaim content no revision refers to (signals.py, jobs.py).  A migration
  (migration/, models/migration.py) moves NetBox's built-in Custom Scripts over once.

  THE THEORIES.
    Prelude: text as code points, dictionaries, the exceptions, the result type and shared list lemmas.
    Transitions: reachable states of a step relation and the locale of their invariants.
    Paths, Source_Names: storage/paths.py, utils.py, validators.py.
    Canonical_Json, Manifest, Script_Files: JSON down to its canonical bytes, storage/manifest.py,
      storage/script_files.py.  The locale content_address states when a digest addresses a value; it is
      interpreted for manifests and for declaration snapshots.
    Records, Script_Model, Project_Model: choices.py, constants.py and the two model modules: one record
      per model, the database as tables of rows with their constraints, and every save and clean.
    Store, Settings: storage/store.py; storage/config.py and the guards of branching.py.
    Service, Promotion, Staging: the operations of storage/service.py; then what promotion and staging
      guarantee.
    Ingestion: ingestion.py with the check of permissions.py.
    Introspection: runtime/naming.py, runtime/discovery.py, runtime/introspection.py.
    Activation: activation.py.
    Loader, Sanitizer, Validation, Verdicts: runtime/loader.py and validation.py; then what validation
      guarantees.
    File_System, Cache_Root, Cache, Cache_Tree, Cache_Invariants, Cache_Safety: a local file system with
      links, modes and refusals of its kernel, runtime/cache.py on it, and what a materialized directory
      is worth.  The locale disk_invariant states what an invariant owes to the single changes of system
      calls; it is interpreted for the shape of the file system and for the confinement of the cache.
    Lifecycle: the committed transactions of all of these as one state machine on the database.
    Cleanup, Retention: signals.py and the storage Jobs of jobs.py; the interplay of staging, deletion
      and cleanup as a state machine.
    Resolution, Execution, Runs, Launch: runtime/resolution.py, execution.py, and NetBoxScriptJob of
      jobs.py from the request to the run.
    Dialects, Migration_Plan, Migration_Run, Cutover: migration/dialects.py; the grouping of
      migration/plan.py; models/migration.py with the passes that advance a run; and the schedules that
      migration/cutover.py cancels and migration/references.py recreates.

  HOW THE CODE IS MODELLED.  A Python str is a list of code points, a dict an association list in
  insertion order, an int an unbounded integer, a raise the left value of the result type, and a model
  row a record.  What Python supplies and the code relies on (Unicode normalization, case mapping,
  SHA-256, UUIDs, identifiers) is the parameter record python, with laws such as nfc_laws, lower_laws and
  sha_laws where a theorem needs them; each is met by ascii_python.  The storage backend is a record
  of operations on an opaque state with the hypothesis lawful for one that keeps what it is given, met by
  a backend in memory.  NetBox's own services, project code, request processors, database routing, the
  outcome of a commit, the text parser and slugify are parameters likewise.

  Operations that hold no lock over the rows they read are modelled statement by statement: before each,
  the transactions other sessions committed in the meantime are applied (the list w_others of the world),
  and the theorems hold for every such list unless they say that nobody interferes.  The cache allows
  other processes to act on the disk before a directory is created or a name changed, its kernel may
  refuse any call, and a copy that fails may leave any part of its content.  In Retention a staging that
  holds the project lock is a state of its own, so that deletions and cleanup Jobs run between its
  statements.  Deleting rows is no step of Lifecycle: the pointers a deletion clears are in Records, and
  Retention has it.  A migration pass holds the installation's migration lock, so Migration_Run takes a
  pass as the list of versions of the row it commits, and an interruption as a prefix of that list;
  Cutover, where workers do not take that lock, has one step per statement, and assumes of NetBox that a
  worker starts only a Job that waits and that a key is never given twice.

  TERMINATION AND BOUNDS.  The walk of the cache root is a partial_function, because a file system can
  hold cycles of links; that it returns follows from the code's own bound of 40 followed links.
  Other loops are total functions with measures: the retries of a materialization and of the staging
  window count down, streams of bytes shrink, the walk of a syntax tree is measured by the tree, and the
  search of base classes by the classes not yet looked at.  No fuel is used.

  THE PROPERTIES are numbered C1 to C40 in the texts before them.  They show the path policy safe and
  manifests and snapshots trustworthy across storage; the store verified; staging, validation,
  promotion and activation correct on every branch and under interference, and their invariant for all
  reachable databases; content retained; the cache private, confined and exact; modules unloaded, texts
  sanitized and runs committed or reverted as a whole; uploads and Data Sources staged whole; and the
  migration moving forward only, with no run both executed and recreated.

  NOT MODELLED.  Views, forms, tables, filters, the REST and GraphQL interfaces, navigation, search and
  event rules, which present or register what the services do; the base classes, form fields and loggers
  for script authors, which build on Django forms; the legacy import tier, which hooks Python's importer;
  project locks, whose exclusion is what the interference assumes; the management command; generated
  schema migrations.  Message texts are parameters and log lines are left out, save the log of a run.  Of
  the migration the reports, the verification and the rewriting of NetBox's own rows are left out; of
  jobs.py the Jobs that only report what a modelled operation did.
\<close>

end
